(* ===== verification/Ddns_Prelude.thy ===== *)
theory Ddns_Prelude
  imports Main "HOL-Library.Word" "HOL-Library.Char_ord" "HOL-Library.List_Lexorder" "HOL-Library.Multiset"
begin

text \<open>
  Shared vocabulary of the development: bytes and byte slices, the conversions between Go's
  \<open>string\<close> and \<open>[]byte\<close>, big-endian integers (\<open>encoding/binary\<close>, \<open>math/big\<close>), error results
  as sums, and the generic list lemmas that several components use.

  A Go string is a sequence of bytes; it is modelled by the HOL type \<open>string\<close>, whose characters
  are 8-bit. A \<open>[]byte\<close> is a list of 8-bit words. A call that returns \<open>(T, error)\<close> is modelled
  by a value of \<open>'e + T\<close>: \<open>Inl e\<close> is the error return, \<open>Inr x\<close> the result with a nil error.
\<close>

named_theorems go_simps \<open>rewrite rules that evaluate or normalise the Go library functions\<close>
named_theorems wire_simps \<open>lengths and prefixes of the binary encodings\<close>

type_synonym byte = "8 word"
type_synonym bytes = "8 word list"
type_synonym address = "8 word list"
type_synonym hash32 = "8 word list"

section \<open>Results\<close>

text \<open>Sequencing of error returns: \<open>x, err := f(); if err != nil { return err }; ...\<close>.\<close>

definition rbind :: "'e + 'a \<Rightarrow> ('a \<Rightarrow> 'e + 'b) \<Rightarrow> 'e + 'b" where
  "rbind r f = (case r of Inl e \<Rightarrow> Inl e | Inr x \<Rightarrow> f x)"

lemma rbind_simps [simp]: "rbind (Inl e) f = Inl e" "rbind (Inr x) f = f x"
  by (simp_all add: rbind_def)

lemma rbind_eq_Inr: "rbind r f = Inr y \<longleftrightarrow> (\<exists>x. r = Inr x \<and> f x = Inr y)"
  by (cases r) simp_all

lemma rbind_eq_Inl: "rbind r f = Inl e \<longleftrightarrow> r = Inl e \<or> (\<exists>x. r = Inr x \<and> f x = Inl e)"
  by (cases r) simp_all

lemma rbind_split:
  "P (rbind r f) \<longleftrightarrow> (\<forall>e. r = Inl e \<longrightarrow> P (Inl e)) \<and> (\<forall>x. r = Inr x \<longrightarrow> P (f x))"
  by (cases r) simp_all

definition isOk :: "'e + 'a \<Rightarrow> bool" where
  "isOk r = (case r of Inl _ \<Rightarrow> False | Inr _ \<Rightarrow> True)"

lemma isOk_simps [simp]: "isOk (Inl e) = False" "isOk (Inr x) = True"
  by (simp_all add: isOk_def)

lemma isOk_iff: "isOk r \<longleftrightarrow> (\<exists>x. r = Inr x)"
  by (cases r) simp_all

section \<open>Strings and byte slices\<close>

definition byte_of_char :: "char \<Rightarrow> byte" where
  "byte_of_char c = word_of_nat (of_char c)"

definition char_of_byte :: "byte \<Rightarrow> char" where
  "char_of_byte b = char_of (unat b)"

definition str_bytes :: "string \<Rightarrow> bytes" where
  "str_bytes s = map byte_of_char s"

definition bytes_str :: "bytes \<Rightarrow> string" where
  "bytes_str b = map char_of_byte b"

lemma unat_less_pow: "unat (w :: 'a::len word) < 2 ^ LENGTH('a)"
  by (rule unsigned_less)

lemma byte_unat_less: "unat (b :: byte) < 256"
  using unat_less_pow [of b] by simp

lemma char_of_byte_of_char [simp]: "char_of_byte (byte_of_char c) = c"
  by (simp add: char_of_byte_def byte_of_char_def unat_of_nat)

lemma byte_of_char_of_byte [simp]: "byte_of_char (char_of_byte b) = b"
  by (simp add: char_of_byte_def byte_of_char_def byte_unat_less)

lemma byte_of_char_inject [simp]: "byte_of_char c = byte_of_char d \<longleftrightarrow> c = d"
  by (metis char_of_byte_of_char)

lemma bytes_str_str_bytes [simp]: "bytes_str (str_bytes s) = s"
  by (simp add: bytes_str_def str_bytes_def map_idI)

lemma str_bytes_bytes_str [simp]: "str_bytes (bytes_str b) = b"
  by (simp add: bytes_str_def str_bytes_def map_idI)

lemma str_bytes_inject [simp]: "str_bytes s = str_bytes t \<longleftrightarrow> s = t"
  by (metis bytes_str_str_bytes)

lemma length_str_bytes [simp]: "length (str_bytes s) = length s"
  by (simp add: str_bytes_def)

lemma length_bytes_str [simp]: "length (bytes_str b) = length b"
  by (simp add: bytes_str_def)

lemma str_bytes_append [simp]: "str_bytes (s @ t) = str_bytes s @ str_bytes t"
  by (simp add: str_bytes_def)

lemma str_bytes_Nil [simp]: "str_bytes [] = []"
  by (simp add: str_bytes_def)

lemma bytes_str_Nil [simp]: "bytes_str [] = []"
  by (simp add: bytes_str_def)

section \<open>Big-endian integers\<close>

text \<open>\<open>be_bytes n x\<close> is the low \<open>n\<close> bytes of \<open>x\<close>, most significant first;
  \<open>be_nat\<close> is the value of a big-endian byte slice (\<open>binary.BigEndian\<close>, \<open>big.Int.SetBytes\<close>).\<close>

fun be_bytes :: "nat \<Rightarrow> nat \<Rightarrow> bytes" where
  "be_bytes 0 x = []"
| "be_bytes (Suc n) x = be_bytes n (x div 256) @ [word_of_nat (x mod 256)]"

definition be_nat :: "bytes \<Rightarrow> nat" where
  "be_nat bs = foldl (\<lambda>a b. a * 256 + unat b) 0 bs"

definition PutUint16 :: "16 word \<Rightarrow> bytes" where
  "PutUint16 w = be_bytes 2 (unat w)"

definition PutUint32 :: "32 word \<Rightarrow> bytes" where
  "PutUint32 w = be_bytes 4 (unat w)"

definition PutUint64 :: "64 word \<Rightarrow> bytes" where
  "PutUint64 w = be_bytes 8 (unat w)"

definition Uint16 :: "bytes \<Rightarrow> 16 word" where
  "Uint16 b = word_of_nat (be_nat (take 2 b))"

lemma length_be_bytes [simp, wire_simps]: "length (be_bytes n x) = n"
  by (induction n arbitrary: x) simp_all

lemma be_nat_Nil [simp]: "be_nat [] = 0"
  by (simp add: be_nat_def)

lemma be_nat_snoc [simp]: "be_nat (bs @ [b]) = be_nat bs * 256 + unat b"
  by (simp add: be_nat_def)

lemma be_nat_be_bytes: "be_nat (be_bytes n x) = x mod 256 ^ n"
proof (induction n arbitrary: x)
  case 0
  show ?case by simp
next
  case (Suc n)
  have "unat (word_of_nat (x mod 256) :: byte) = x mod 256"
    by (simp add: unat_of_nat)
  moreover have "x mod (256 * 256 ^ n) = 256 * (x div 256 mod 256 ^ n) + x mod 256"
    by (rule mod_mult2_eq)
  ultimately show ?case by (simp add: Suc mult.commute)
qed

lemma shift_add_less: "(a::nat) < c \<Longrightarrow> u < m \<Longrightarrow> a * m + u < c * m"
  by (metis add_less_cancel_left less_le_trans mult_Suc add.commute Suc_leI mult_le_mono1)

lemma be_nat_less: "be_nat bs < 256 ^ length bs"
proof (induction bs rule: rev_induct)
  case Nil
  show ?case by simp
next
  case (snoc b bs)
  from snoc byte_unat_less [of b] have "be_nat bs * 256 + unat b < 256 ^ length bs * 256"
    by (rule shift_add_less)
  then show ?case by (simp add: mult.commute)
qed

lemma be_bytes_be_nat: "be_bytes (length bs) (be_nat bs) = bs"
proof (induction bs rule: rev_induct)
  case Nil
  show ?case by simp
next
  case (snoc b bs)
  have "unat b < 256" by (rule byte_unat_less)
  then have "(be_nat bs * 256 + unat b) div 256 = be_nat bs"
    and "(be_nat bs * 256 + unat b) mod 256 = unat b" by simp_all
  with snoc show ?case by simp
qed

lemma be_nat_inject:
  assumes "length xs = length ys" and "be_nat xs = be_nat ys"
  shows "xs = ys"
proof -
  have "xs = be_bytes (length xs) (be_nat xs)" by (simp only: be_bytes_be_nat)
  also have "\<dots> = be_bytes (length ys) (be_nat ys)" by (simp only: assms)
  also have "\<dots> = ys" by (rule be_bytes_be_nat)
  finally show ?thesis .
qed

lemma be_bytes_inject:
  assumes "be_bytes n x = be_bytes n y" and "x < 256 ^ n" and "y < 256 ^ n"
  shows "x = y"
proof -
  have "x mod 256 ^ n = y mod 256 ^ n"
    using arg_cong [OF assms(1), of be_nat] by (simp only: be_nat_be_bytes)
  with assms(2,3) show ?thesis by (simp only: mod_less)
qed

lemma length_PutUint [simp, wire_simps]:
  "length (PutUint16 a) = 2" "length (PutUint32 b) = 4" "length (PutUint64 c) = 8"
  by (simp_all add: PutUint16_def PutUint32_def PutUint64_def)

lemma PutUint16_inject [simp]: "PutUint16 a = PutUint16 b \<longleftrightarrow> a = b"
  using be_bytes_inject [of 2 "unat a" "unat b"] unat_less_pow [of a] unat_less_pow [of b]
  by (auto simp: PutUint16_def word_unat_eq_iff)

lemma PutUint32_inject [simp]: "PutUint32 a = PutUint32 b \<longleftrightarrow> a = b"
  using be_bytes_inject [of 4 "unat a" "unat b"] unat_less_pow [of a] unat_less_pow [of b]
  by (auto simp: PutUint32_def word_unat_eq_iff)

lemma PutUint64_inject [simp]: "PutUint64 a = PutUint64 b \<longleftrightarrow> a = b"
  using be_bytes_inject [of 8 "unat a" "unat b"] unat_less_pow [of a] unat_less_pow [of b]
  by (auto simp: PutUint64_def word_unat_eq_iff)

lemma Uint16_PutUint16 [simp]: "Uint16 (PutUint16 w @ rest) = w"
  using unat_less_pow [of w] be_nat_be_bytes [of 2 "unat w"]
  by (simp add: Uint16_def PutUint16_def)

text \<open>\<open>big.Int.Bytes\<close>: the minimal big-endian representation (empty for zero).\<close>

fun big_Bytes :: "nat \<Rightarrow> bytes" where
  "big_Bytes x = (if x = 0 then [] else big_Bytes (x div 256) @ [word_of_nat (x mod 256)])"

declare big_Bytes.simps [simp del]

lemma be_nat_big_Bytes [simp]: "be_nat (big_Bytes x) = x"
proof (induction x rule: big_Bytes.induct)
  case (1 x)
  have "unat (word_of_nat (x mod 256) :: byte) = x mod 256" by (simp add: unat_of_nat)
  with 1 show ?case by (subst big_Bytes.simps) (simp add: div_mult_mod_eq)
qed

lemma length_big_Bytes_le: "x < 256 ^ n \<Longrightarrow> length (big_Bytes x) \<le> n"
proof (induction n arbitrary: x)
  case 0
  then show ?case by (simp add: big_Bytes.simps)
next
  case (Suc n)
  then have "x div 256 < 256 ^ n" by (simp add: less_mult_imp_div_less mult.commute)
  then have "length (big_Bytes (x div 256)) \<le> n" by (rule Suc.IH)
  then show ?case by (subst big_Bytes.simps) simp
qed

section \<open>Lists\<close>

lemma append_eq_same_length:
  "length xs = length xs' \<Longrightarrow> xs @ ys = xs' @ ys' \<longleftrightarrow> xs = xs' \<and> ys = ys'"
  by (rule append_eq_append_conv) simp

lemma map_of_append_new: "map_of (xs @ [(k, v)]) x = (if map_of xs x = None \<and> x = k then Some v else map_of xs x)"
  by (induction xs) auto

lemma restrict_map_cong:
  "(\<And>k. k \<in> dom m \<Longrightarrow> k \<in> A \<longleftrightarrow> k \<in> B) \<Longrightarrow> m |` A = m |` B"
  by (rule ext) (metis domIff restrict_map_def)

lemma restrict_map_id: "dom m \<subseteq> A \<Longrightarrow> m |` A = m"
  by (rule ext) (metis domIff restrict_map_def subsetD)

lemma map_of_eq_None_fst: "map_of xs k = None \<longleftrightarrow> k \<notin> fst ` set xs"
  by (rule map_of_eq_None_iff)

lemma None_eq_map_of: "None = map_of xs k \<longleftrightarrow> k \<notin> fst ` set xs"
  by (metis map_of_eq_None_iff)

lemma sort_key_unique:
  assumes "mset xs = mset ys" and "distinct (map f xs)"
  shows "sort_key f xs = sort_key f ys"
  using assms by (intro sort_key_inj_key_eq) (auto simp: distinct_map dest: mset_eq_setD)

end
