(* ===== verification/Go_Strings.thy ===== *)
theory Go_Strings
  imports Ddns_Prelude
begin

text \<open>
  The parts of Go's standard library that the sources use on strings: UTF-8 decoding and encoding
  (\<open>unicode/utf8\<close>), \<open>strings.TrimSpace\<close>, \<open>ToLower\<close>, \<open>ToUpper\<close>, \<open>Split\<close>, \<open>Cut\<close>, \<open>Join\<close>, \<open>HasPrefix\<close>,
  \<open>TrimPrefix\<close>, \<open>strconv.Atoi\<close> and \<open>Itoa\<close>, and \<open>encoding/hex\<close>.

  The Unicode case tables for code points from 128 on are data of the Go distribution; they are
  the parameter \<open>unicode\<close> of \<open>ToLower\<close> and \<open>ToUpper\<close>, about which nothing is assumed.
\<close>

record unicode =
  uni_lower :: "nat \<Rightarrow> nat"
  uni_upper :: "nat \<Rightarrow> nat"

section \<open>Definitions\<close>

subsection \<open>Character classes\<close>

definition in_range :: "char \<Rightarrow> char \<Rightarrow> char \<Rightarrow> bool" where
  "in_range lo hi c = ((of_char lo :: nat) \<le> of_char c \<and> (of_char c :: nat) \<le> of_char hi)"

definition is_lower :: "char \<Rightarrow> bool" where "is_lower c = in_range CHR ''a'' CHR ''z'' c"
definition is_upper :: "char \<Rightarrow> bool" where "is_upper c = in_range CHR ''A'' CHR ''Z'' c"
definition is_digit :: "char \<Rightarrow> bool" where "is_digit c = in_range CHR ''0'' CHR ''9'' c"

definition is_ascii :: "char \<Rightarrow> bool" where
  "is_ascii c = ((of_char c :: nat) < 128)"

subsection \<open>UTF-8\<close>

text \<open>\<open>utf8.DecodeRune\<close>: the first code point and its width; an invalid or truncated sequence
  yields the replacement character with width 1.\<close>

definition rune_error :: nat where "rune_error = 65533"

definition utf8_cont :: "nat \<Rightarrow> bool" where
  "utf8_cont b = (128 \<le> b \<and> b \<le> 191)"

definition decode_rune :: "nat \<Rightarrow> nat list \<Rightarrow> nat \<times> nat" where
  "decode_rune b0 r =
     (if b0 < 128 then (b0, 1)
      else if 194 \<le> b0 \<and> b0 \<le> 223 then
        (case r of b1 # _ \<Rightarrow>
           if utf8_cont b1 then ((b0 - 192) * 64 + (b1 - 128), 2) else (rune_error, 1)
         | _ \<Rightarrow> (rune_error, 1))
      else if 224 \<le> b0 \<and> b0 \<le> 239 then
        (case r of b1 # b2 # _ \<Rightarrow>
           if (if b0 = 224 then 160 else 128) \<le> b1 \<and> b1 \<le> (if b0 = 237 then 159 else 191) \<and> utf8_cont b2
           then ((b0 - 224) * 4096 + (b1 - 128) * 64 + (b2 - 128), 3) else (rune_error, 1)
         | _ \<Rightarrow> (rune_error, 1))
      else if 240 \<le> b0 \<and> b0 \<le> 244 then
        (case r of b1 # b2 # b3 # _ \<Rightarrow>
           if (if b0 = 240 then 144 else 128) \<le> b1 \<and> b1 \<le> (if b0 = 244 then 143 else 191)
              \<and> utf8_cont b2 \<and> utf8_cont b3
           then ((b0 - 240) * 262144 + (b1 - 128) * 4096 + (b2 - 128) * 64 + (b3 - 128), 4)
           else (rune_error, 1)
         | _ \<Rightarrow> (rune_error, 1))
      else (rune_error, 1))"

fun utf8_runes :: "nat list \<Rightarrow> nat list" where
  "utf8_runes [] = []"
| "utf8_runes (b # r) = fst (decode_rune b r) # utf8_runes (drop (snd (decode_rune b r) - 1) r)"

text \<open>\<open>utf8.AppendRune\<close>: surrogates and values beyond U+10FFFF are written as U+FFFD.\<close>

definition encode_rune :: "nat \<Rightarrow> string" where
  "encode_rune r0 =
     (let r = (if (55296 \<le> r0 \<and> r0 \<le> 57343) \<or> 1114111 < r0 then rune_error else r0) in
      map char_of
       (if r < 128 then [r]
        else if r < 2048 then [192 + r div 64, 128 + r mod 64]
        else if r < 65536 then [224 + r div 4096, 128 + r div 64 mod 64, 128 + r mod 64]
        else [240 + r div 262144, 128 + r div 4096 mod 64, 128 + r div 64 mod 64, 128 + r mod 64]))"

definition runes :: "string \<Rightarrow> nat list" where
  "runes s = utf8_runes (map of_char s)"

subsection \<open>Package strings\<close>

definition lower_rune :: "unicode \<Rightarrow> nat \<Rightarrow> nat" where
  "lower_rune U r = (if r < 128 then (if 65 \<le> r \<and> r \<le> 90 then r + 32 else r) else uni_lower U r)"

definition upper_rune :: "unicode \<Rightarrow> nat \<Rightarrow> nat" where
  "upper_rune U r = (if r < 128 then (if 97 \<le> r \<and> r \<le> 122 then r - 32 else r) else uni_upper U r)"

definition ToLower :: "unicode \<Rightarrow> string \<Rightarrow> string" where
  "ToLower U s = concat (map (\<lambda>r. encode_rune (lower_rune U r)) (runes s))"

definition ToUpper :: "unicode \<Rightarrow> string \<Rightarrow> string" where
  "ToUpper U s = concat (map (\<lambda>r. encode_rune (upper_rune U r)) (runes s))"

text \<open>The encodings of the code points with the White_Space property, which
  \<open>strings.TrimSpace\<close> removes from both ends.\<close>

definition space_encs :: "string list" where
  "space_encs = map (map char_of)
     ([[9], [10], [11], [12], [13], [32], [194, 133], [194, 160], [225, 154, 128]]
      @ map (\<lambda>i. [226, 128, i]) [128, 129, 130, 131, 132, 133, 134, 135, 136, 137, 138, 168, 169, 175 :: nat]
      @ [[226, 129, 159], [227, 128, 128]])"

fun is_prefix :: "'a list \<Rightarrow> 'a list \<Rightarrow> bool" where
  "is_prefix [] ys = True"
| "is_prefix (x # xs) [] = False"
| "is_prefix (x # xs) (y # ys) = (x = y \<and> is_prefix xs ys)"

text \<open>Removing the listed non-empty patterns from the front, as often as one matches.\<close>

function strip_front :: "'a list list \<Rightarrow> 'a list \<Rightarrow> 'a list" where
  "strip_front ps s =
     (case find (\<lambda>p. p \<noteq> [] \<and> is_prefix p s) ps of
        None \<Rightarrow> s
      | Some p \<Rightarrow> if s = [] then s else strip_front ps (drop (length p) s))"
  by pat_completeness auto
termination
  by (relation "measure (\<lambda>(ps, s). length s)") (auto simp: find_Some_iff)

definition TrimSpace :: "string \<Rightarrow> string" where
  "TrimSpace s =
     (let l = strip_front space_encs s in rev (strip_front (map rev space_encs) (rev l)))"

fun split_on :: "char \<Rightarrow> string \<Rightarrow> string list" where
  "split_on c [] = [[]]"
| "split_on c (x # xs) =
     (if x = c then [] # split_on c xs
      else (case split_on c xs of [] \<Rightarrow> [[x]] | p # ps \<Rightarrow> (x # p) # ps))"

fun cut_at :: "char \<Rightarrow> string \<Rightarrow> (string \<times> string) option" where
  "cut_at c [] = None"
| "cut_at c (x # xs) =
     (if x = c then Some ([], xs)
      else (case cut_at c xs of None \<Rightarrow> None | Some (a, b) \<Rightarrow> Some (x # a, b)))"

fun join_with :: "char \<Rightarrow> string list \<Rightarrow> string" where
  "join_with c [] = []"
| "join_with c [p] = p"
| "join_with c (p # q # ps) = p @ c # join_with c (q # ps)"

definition HasPrefix :: "string \<Rightarrow> string \<Rightarrow> bool" where
  "HasPrefix s p = is_prefix p s"

definition TrimPrefix :: "string \<Rightarrow> string \<Rightarrow> string" where
  "TrimPrefix s p = (if is_prefix p s then drop (length p) s else s)"

fun contains_sub :: "string \<Rightarrow> string \<Rightarrow> bool" where
  "contains_sub [] p = (p = [])"
| "contains_sub (c # s) p = (is_prefix p (c # s) \<or> contains_sub s p)"

subsection \<open>Package strconv\<close>

definition digit_val :: "char \<Rightarrow> nat" where "digit_val c = of_char c - 48"
definition digit_char :: "nat \<Rightarrow> char" where "digit_char d = char_of (48 + d)"

definition dec_val :: "string \<Rightarrow> nat" where
  "dec_val s = foldl (\<lambda>a c. a * 10 + digit_val c) 0 s"

fun nat_dec :: "nat \<Rightarrow> string" where
  "nat_dec n = (if n < 10 then [digit_char n] else nat_dec (n div 10) @ [digit_char (n mod 10)])"

definition Itoa :: "int \<Rightarrow> string" where
  "Itoa i = (if i < 0 then CHR ''-'' # nat_dec (nat (- i)) else nat_dec (nat i))"

text \<open>\<open>strconv.Atoi\<close> on a 64-bit platform: an optional sign, at least one decimal digit, and a
  value that fits a signed 64-bit integer.\<close>

definition Atoi :: "string \<Rightarrow> int option" where
  "Atoi s =
     (let neg = (s \<noteq> [] \<and> hd s = CHR ''-'');
          ds = (if s \<noteq> [] \<and> (hd s = CHR ''-'' \<or> hd s = CHR ''+'') then tl s else s)
      in if ds = [] \<or> \<not> list_all is_digit ds then None
         else if neg then (if dec_val ds \<le> 2 ^ 63 then Some (- int (dec_val ds)) else None)
         else (if dec_val ds < 2 ^ 63 then Some (int (dec_val ds)) else None))"

subsection \<open>Package encoding/hex\<close>

definition hex_digit :: "nat \<Rightarrow> char" where
  "hex_digit d = (if d < 10 then char_of (48 + d) else char_of (87 + d))"

definition hex_value :: "char \<Rightarrow> nat option" where
  "hex_value c =
     (let n = of_char c in
      if 48 \<le> n \<and> n \<le> 57 then Some (n - 48)
      else if 97 \<le> n \<and> n \<le> 102 then Some (n - 87)
      else if 65 \<le> n \<and> n \<le> 70 then Some (n - 55) else None)"

fun hex_encode :: "bytes \<Rightarrow> string" where
  "hex_encode [] = []"
| "hex_encode (b # bs) = hex_digit (unat b div 16) # hex_digit (unat b mod 16) # hex_encode bs"

fun hex_decode :: "string \<Rightarrow> bytes option" where
  "hex_decode [] = Some []"
| "hex_decode [c] = None"
| "hex_decode (c # d # s) =
     (case (hex_value c, hex_value d, hex_decode s) of
        (Some x, Some y, Some bs) \<Rightarrow> Some (word_of_nat (x * 16 + y) # bs)
      | _ \<Rightarrow> None)"

subsection \<open>Package path/filepath\<close>

text \<open>\<open>Clean\<close> and \<open>Dir\<close> on a Unix path: empty and \<open>.\<close> elements are dropped, \<open>..\<close> removes the element before
  it (at the root it is dropped).\<close>

definition clean_step :: "bool \<Rightarrow> string \<Rightarrow> string list \<Rightarrow> string list" where
  "clean_step rooted e out =
     (if e = [] \<or> e = ''.'' then out
      else if e = ''..'' then
        (case out of
           p # ps \<Rightarrow> if p \<noteq> ''..'' then ps else e # out
         | [] \<Rightarrow> if rooted then [] else [e])
      else e # out)"

definition path_Clean :: "string \<Rightarrow> string" where
  "path_Clean p =
     (let rooted = HasPrefix p ''/'';
          out = join_with (CHR ''/'') (rev (fold (clean_step rooted) (split_on (CHR ''/'') p) []));
          res = (if rooted then ''/'' @ out else out)
      in if res = [] then ''.'' else res)"

definition path_Dir :: "string \<Rightarrow> string" where
  "path_Dir p = path_Clean (rev (dropWhile (\<lambda>c. c \<noteq> CHR ''/'') (rev p)))"

definition path_Join :: "string list \<Rightarrow> string" where
  "path_Join es =
     (case dropWhile (\<lambda>e. e = []) es of [] \<Rightarrow> [] | es' \<Rightarrow> path_Clean (join_with (CHR ''/'') es'))"

section \<open>Facts\<close>

declare nat_dec.simps [simp del]
declare strip_front.simps [simp del]


subsection \<open>Case mapping of ASCII text\<close>

lemma is_ascii_of_char [simp]: "is_ascii c \<Longrightarrow> (of_char c :: nat) < 128"
  by (simp add: is_ascii_def)

lemma decode_rune_ascii [simp]: "b < 128 \<Longrightarrow> decode_rune b r = (b, 1)"
  by (simp add: decode_rune_def)

lemma runes_ascii: "list_all is_ascii s \<Longrightarrow> runes s = map of_char s"
  unfolding runes_def by (induction s) simp_all

lemma encode_rune_ascii [simp]: "r < 128 \<Longrightarrow> encode_rune r = [char_of r]"
  by (simp add: encode_rune_def Let_def)

lemma concat_encode_ascii:
  assumes "list_all is_ascii s" and "\<And>c. c \<in> set s \<Longrightarrow> f (of_char c) = of_char c"
  shows "concat (map (\<lambda>r. encode_rune (f r)) (map of_char s)) = s"
  using assms by (induction s) simp_all

lemma ToLower_id [go_simps]:
  assumes "list_all (\<lambda>c. is_ascii c \<and> \<not> is_upper c) s"
  shows "ToLower U s = s"
proof -
  have "list_all is_ascii s" using assms by (simp add: list_all_iff)
  moreover have "lower_rune U (of_char c) = of_char c" if "c \<in> set s" for c
    using assms that by (auto simp: lower_rune_def list_all_iff is_upper_def in_range_def)
  ultimately show ?thesis
    by (simp add: ToLower_def runes_ascii concat_encode_ascii del: map_map)
qed

lemma ToUpper_id [go_simps]:
  assumes "list_all (\<lambda>c. is_ascii c \<and> \<not> is_lower c) s"
  shows "ToUpper U s = s"
proof -
  have "list_all is_ascii s" using assms by (simp add: list_all_iff)
  moreover have "upper_rune U (of_char c) = of_char c" if "c \<in> set s" for c
    using assms that by (auto simp: upper_rune_def list_all_iff is_lower_def in_range_def)
  ultimately show ?thesis
    by (simp add: ToUpper_def runes_ascii concat_encode_ascii del: map_map)
qed

subsection \<open>Trimming\<close>

lemma is_prefix_append [simp]: "is_prefix p (p @ s)"
  by (induction p) simp_all

lemma is_prefix_iff: "is_prefix p s \<longleftrightarrow> (\<exists>t. s = p @ t)"
  by (induction p s rule: is_prefix.induct) auto

lemma is_prefix_drop: "is_prefix p s \<Longrightarrow> p @ drop (length p) s = s"
  by (auto simp: is_prefix_iff)

lemma strip_front_None:
  "find (\<lambda>p. p \<noteq> [] \<and> is_prefix p s) ps = None \<Longrightarrow> strip_front ps s = s"
  by (simp add: strip_front.simps [of ps s])

lemma strip_front_Some:
  "find (\<lambda>p. p \<noteq> [] \<and> is_prefix p s) ps = Some q \<Longrightarrow> s \<noteq> [] \<Longrightarrow>
   strip_front ps s = strip_front ps (drop (length q) s)"
  by (simp add: strip_front.simps [of ps s])

lemma rev_eq_append: "rev l = v @ w \<Longrightarrow> l = rev w @ rev v"
  by (metis rev_append rev_rev_ident)

lemma strip_front_fix:
  assumes "\<And>p. p \<in> set ps \<Longrightarrow> p \<noteq> [] \<Longrightarrow> \<not> is_prefix p s"
  shows "strip_front ps s = s"
proof -
  have "find (\<lambda>p. p \<noteq> [] \<and> is_prefix p s) ps = None"
    using assms by (auto simp: find_None_iff)
  then show ?thesis by (rule strip_front_None)
qed

lemma strip_front_no_match:
  "p \<in> set ps \<Longrightarrow> p \<noteq> [] \<Longrightarrow> \<not> is_prefix p (strip_front ps s)"
proof (induction ps s rule: strip_front.induct)
  case (1 ps s)
  show ?case
  proof (cases "find (\<lambda>p. p \<noteq> [] \<and> is_prefix p s) ps")
    case None
    then have "\<not> is_prefix p s" using "1.prems" by (auto simp: find_None_iff)
    with None show ?thesis by (simp only: strip_front_None) simp
  next
    case (Some q)
    then have "s \<noteq> []" by (auto simp: find_Some_iff is_prefix_iff)
    with 1 Some show ?thesis by (simp add: strip_front_Some)
  qed
qed

lemma strip_front_suffix:
  "\<exists>u. s = u @ strip_front ps s \<and> set u \<subseteq> \<Union> (set ` set ps)"
proof (induction ps s rule: strip_front.induct)
  case (1 ps s)
  show ?case
  proof (cases "find (\<lambda>p. p \<noteq> [] \<and> is_prefix p s) ps")
    case None
    then show ?thesis by (simp add: strip_front_None)
  next
    case (Some q)
    then have q: "s \<noteq> []" "q @ drop (length q) s = s" "q \<in> set ps"
      by (auto simp: find_Some_iff is_prefix_iff)
    from "1.IH" [OF Some q(1)] obtain u
      where "drop (length q) s = u @ strip_front ps (drop (length q) s)"
        and u: "set u \<subseteq> \<Union> (set ` set ps)"
      by blast
    with q Some have "s = (q @ u) @ strip_front ps s"
      by (simp add: strip_front_Some)
    moreover have "set (q @ u) \<subseteq> \<Union> (set ` set ps)" using q(3) u by auto
    ultimately show ?thesis by blast
  qed
qed

lemma TrimSpace_decomp:
  obtains u v where "s = u @ TrimSpace s @ v"
    and "set u \<union> set v \<subseteq> \<Union> (set ` set space_encs)"
proof -
  let ?l = "strip_front space_encs s"
  obtain u where u: "s = u @ ?l" "set u \<subseteq> \<Union> (set ` set space_encs)"
    using strip_front_suffix [of s space_encs] by (elim exE conjE)
  obtain v where v: "rev ?l = v @ strip_front (map rev space_encs) (rev ?l)"
      "set v \<subseteq> \<Union> (set ` set (map rev space_encs))"
    using strip_front_suffix [of "rev ?l" "map rev space_encs"] by (elim exE conjE)
  from v(1) have "?l = rev (strip_front (map rev space_encs) (rev ?l)) @ rev v"
    by (rule rev_eq_append)
  with u(1) have "s = u @ TrimSpace s @ rev v" by (simp add: TrimSpace_def Let_def)
  moreover from u(2) v(2) have "set u \<union> set (rev v) \<subseteq> \<Union> (set ` set space_encs)"
    by auto
  ultimately show ?thesis by (rule that)
qed

lemma set_TrimSpace: "set (TrimSpace s) \<subseteq> set s"
  by (rule TrimSpace_decomp [of s]) (metis Un_iff set_append subsetI)

lemma TrimSpace_fix:
  assumes "\<And>p. p \<in> set space_encs \<Longrightarrow> \<not> is_prefix p s"
    and "\<And>p. p \<in> set space_encs \<Longrightarrow> \<not> is_prefix (rev p) (rev s)"
  shows "TrimSpace s = s"
proof -
  have "strip_front space_encs s = s"
    by (rule strip_front_fix) (use assms(1) in blast)
  moreover have "strip_front (map rev space_encs) (rev s) = rev s"
    by (rule strip_front_fix) (use assms(2) in auto)
  ultimately show ?thesis by (simp add: TrimSpace_def Let_def)
qed

lemma space_encs_nonempty: "p \<in> set space_encs \<Longrightarrow> p \<noteq> []"
  by (auto simp: space_encs_def)

lemma TrimSpace_idem [simp]: "TrimSpace (TrimSpace s) = TrimSpace s"
proof (rule TrimSpace_fix)
  fix p assume p: "p \<in> set space_encs"
  let ?l = "strip_front space_encs s"
  have "\<not> is_prefix (rev p) (strip_front (map rev space_encs) (rev ?l))"
    using p by (intro strip_front_no_match) (auto dest: space_encs_nonempty)
  then show "\<not> is_prefix (rev p) (rev (TrimSpace s))"
    by (simp add: TrimSpace_def Let_def)
  obtain v where "rev ?l = v @ strip_front (map rev space_encs) (rev ?l)"
    using strip_front_suffix [of "rev ?l" "map rev space_encs"] by (elim exE conjE)
  then have "?l = TrimSpace s @ rev v"
    by (simp only: TrimSpace_def Let_def) (rule rev_eq_append)
  moreover have "\<not> is_prefix p ?l"
    using p by (intro strip_front_no_match) (auto dest: space_encs_nonempty)
  ultimately show "\<not> is_prefix p (TrimSpace s)"
    by (auto simp: is_prefix_iff)
qed

text \<open>Text that begins and ends with a printable ASCII character is left alone.\<close>

definition is_graph :: "char \<Rightarrow> bool" where
  "is_graph c = (33 \<le> (of_char c :: nat) \<and> (of_char c :: nat) \<le> 126)"

lemma space_encs_no_graph: "p \<in> set space_encs \<Longrightarrow> c \<in> set p \<Longrightarrow> \<not> is_graph c"
  by (auto simp: space_encs_def is_graph_def)

lemma space_encs_ends_no_graph:
  "p \<in> set space_encs \<Longrightarrow> \<not> is_graph (hd p) \<and> \<not> is_graph (last p)"
  using space_encs_no_graph [of p] space_encs_nonempty [of p] by auto

lemma TrimSpace_graph [go_simps]:
  assumes "s \<noteq> []" and "is_graph (hd s)" and "is_graph (last s)"
  shows "TrimSpace s = s"
proof (rule TrimSpace_fix)
  fix p assume p: "p \<in> set space_encs"
  then have ne: "p \<noteq> []" by (rule space_encs_nonempty)
  show "\<not> is_prefix p s"
    using space_encs_ends_no_graph [OF p] ne assms(2) by (auto simp: is_prefix_iff)
  show "\<not> is_prefix (rev p) (rev s)"
  proof
    assume "is_prefix (rev p) (rev s)"
    then obtain t where "rev s = rev p @ t" by (auto simp: is_prefix_iff)
    then have "s = rev t @ p" using rev_eq_append [of s "rev p" t] by simp
    with ne space_encs_ends_no_graph [OF p] assms(3) show False by simp
  qed
qed

lemma strip_front_graph:
  assumes "s \<noteq> []" and "is_graph (hd s)"
  shows "strip_front space_encs s = s"
proof (rule strip_front_fix)
  fix p assume p: "p \<in> set space_encs" "p \<noteq> []"
  obtain c q where pc: "p = c # q" using p(2) by (cases p) simp_all
  obtain d t where sd: "s = d # t" using assms(1) by (cases s) simp_all
  show "\<not> is_prefix p s"
    using space_encs_ends_no_graph [OF p(1)] assms(2) unfolding pc sd by auto
qed

lemma TrimSpace_newline:
  assumes "s \<noteq> []" and "is_graph (hd s)" and "is_graph (last s)"
  shows "TrimSpace (s @ [CHR 0x0A]) = s"
proof -
  have "strip_front space_encs (s @ [CHR 0x0A]) = s @ [CHR 0x0A]"
    using assms(1,2) by (intro strip_front_graph) simp_all
  moreover have "strip_front (map rev space_encs) (CHR 0x0A # rev s) = strip_front (map rev space_encs) (rev s)"
  proof -
    have nl: "(char_of n :: char) = CHR 0x0A \<longleftrightarrow> n mod 256 = 10" for n :: nat
      by (simp add: char_of_eq_iff take_bit_eq_mod)
    have "find (\<lambda>p. p \<noteq> [] \<and> is_prefix p (CHR 0x0A # rev s)) (map rev space_encs) = Some [CHR 0x0A]"
      by (simp add: space_encs_def nl)
    from strip_front_Some [OF this] show ?thesis by simp
  qed
  moreover have "rev (strip_front (map rev space_encs) (rev s)) = s"
    using TrimSpace_graph [OF assms] by (simp add: TrimSpace_def strip_front_graph [OF assms(1,2)])
  ultimately show ?thesis by (simp add: TrimSpace_def Let_def)
qed

lemma TrimSpace_Nil [simp]: "TrimSpace [] = []"
  by (rule TrimSpace_fix) (auto dest: space_encs_nonempty simp: is_prefix_iff)

lemma TrimSpace_nonempty:
  assumes "c \<in> set s" and "is_graph c"
  shows "TrimSpace s \<noteq> []"
proof
  assume e: "TrimSpace s = []"
  obtain u v where "s = u @ TrimSpace s @ v" "set u \<union> set v \<subseteq> \<Union> (set ` set space_encs)"
    by (rule TrimSpace_decomp)
  with e assms(1) obtain p where "p \<in> set space_encs" "c \<in> set p" by auto
  then show False using assms(2) space_encs_no_graph by blast
qed

subsection \<open>Split, cut and join\<close>

lemma split_on_nonempty [simp]: "split_on c s \<noteq> []"
  by (induction s) (auto split: list.splits)

lemma split_on_free: "c \<notin> set s \<Longrightarrow> split_on c s = [s]"
  by (induction s) auto

lemma split_on_append: "c \<notin> set s \<Longrightarrow> split_on c (s @ c # t) = s # split_on c t"
  by (induction s) auto

lemma split_on_join:
  "ps \<noteq> [] \<Longrightarrow> (\<And>p. p \<in> set ps \<Longrightarrow> c \<notin> set p) \<Longrightarrow> split_on c (join_with c ps) = ps"
  by (induction c ps rule: join_with.induct) (auto simp: split_on_free split_on_append)

lemma join_with_Cons: "join_with c ((x # p) # ps) = x # join_with c (p # ps)"
  by (cases ps) simp_all

lemma join_split_on: "join_with c (split_on c s) = s"
proof (induction s)
  case Nil
  show ?case by simp
next
  case (Cons x s)
  show ?case
    using Cons by (cases "split_on c s") (simp_all add: join_with_Cons)
qed

lemma cut_at_append: "c \<notin> set k \<Longrightarrow> cut_at c (k @ c # v) = Some (k, v)"
  by (induction k) auto

lemma cut_at_Some: "cut_at c s = Some (k, v) \<Longrightarrow> s = k @ c # v \<and> c \<notin> set k"
  by (induction s arbitrary: k) (auto split: if_splits option.splits)

lemma cut_at_None: "cut_at c s = None \<longleftrightarrow> c \<notin> set s"
  by (induction s) (auto split: option.splits)

subsection \<open>Decimal numbers\<close>

lemma digit_char_facts:
  assumes "d < 10"
  shows "digit_val (digit_char d) = d" "is_digit (digit_char d)"
  using assms by (simp_all add: digit_val_def digit_char_def is_digit_def in_range_def)

lemma dec_val_snoc [simp]: "dec_val (s @ [c]) = dec_val s * 10 + digit_val c"
  by (simp add: dec_val_def)

lemma dec_val_nat_dec [simp]: "dec_val (nat_dec n) = n"
proof (induction n rule: nat_dec.induct)
  case (1 n)
  show ?case
  proof (cases "n < 10")
    case True
    then show ?thesis using dec_val_snoc [of "[]"]
      by (simp add: nat_dec.simps [of n] digit_char_facts dec_val_def)
  next
    case False
    with 1 show ?thesis by (simp add: nat_dec.simps [of n] digit_char_facts)
  qed
qed

lemma nat_dec_digits: "list_all is_digit (nat_dec n)"
proof (induction n rule: nat_dec.induct)
  case (1 n)
  then show ?case
    by (cases "n < 10") (simp_all add: nat_dec.simps [of n] digit_char_facts)
qed

lemma nat_dec_nonempty [simp]: "nat_dec n \<noteq> []"
  by (subst nat_dec.simps) simp

lemma is_digit_no_sign: "is_digit c \<Longrightarrow> c \<noteq> CHR ''-'' \<and> c \<noteq> CHR ''+''"
  by (auto simp: is_digit_def in_range_def)

lemma Atoi_Itoa [go_simps]:
  assumes "0 \<le> n" and "n < 2 ^ 63"
  shows "Atoi (Itoa n) = Some n"
proof -
  have "is_digit (hd (nat_dec (nat n)))"
    using nat_dec_digits [of "nat n"] by (simp add: list_all_iff)
  then have "hd (nat_dec (nat n)) \<noteq> CHR ''-''" "hd (nat_dec (nat n)) \<noteq> CHR ''+''"
    by (auto dest: is_digit_no_sign)
  moreover have "nat n < 2 ^ 63" using assms by (simp add: nat_less_iff)
  ultimately show ?thesis
    using assms nat_dec_digits [of "nat n"] by (simp add: Atoi_def Itoa_def Let_def)
qed

subsection \<open>Hexadecimal\<close>

lemma hex_value_hex_digit [simp]: "d < 16 \<Longrightarrow> hex_value (hex_digit d) = Some d"
  by (auto simp: hex_value_def hex_digit_def Let_def)

lemma hex_digit_graph: "d < 16 \<Longrightarrow> is_graph (hex_digit d)"
  by (auto simp: hex_digit_def is_graph_def)

lemma hex_digit_not_x: "d < 16 \<Longrightarrow> hex_digit d \<noteq> CHR ''x''"
proof
  assume "d < 16" "hex_digit d = CHR ''x''"
  then have "of_char (hex_digit d) = (120 :: nat)" by simp
  with \<open>d < 16\<close> show False by (simp add: hex_digit_def split: if_splits)
qed

lemma hex_encode_graph: "list_all is_graph (hex_encode b)"
proof (induction b)
  case (Cons x xs)
  have "unat x < 256" by (rule byte_unat_less)
  then show ?case using Cons by (simp add: hex_digit_graph)
qed simp

lemma hex_decode_encode [simp, go_simps]: "hex_decode (hex_encode b) = Some b"
proof (induction b)
  case Nil
  show ?case by simp
next
  case (Cons x b)
  have "unat x < 16 * 16" using byte_unat_less [of x] by simp
  then have "unat x div 16 < 16" by (simp add: less_mult_imp_div_less)
  with Cons show ?case by simp
qed

lemma hex_encode_inject [simp]: "hex_encode a = hex_encode b \<longleftrightarrow> a = b"
  by (metis hex_decode_encode option.inject)

lemma length_hex_encode [simp]: "length (hex_encode b) = 2 * length b"
  by (induction b) simp_all

lemma length_hex_decode: "hex_decode s = Some b \<Longrightarrow> length s = 2 * length b"
  by (induction s arbitrary: b rule: hex_decode.induct) (auto split: option.splits)

subsection \<open>Paths\<close>

lemma split_on_snoc: "c \<notin> set b \<Longrightarrow> split_on c (a @ c # b) = split_on c a @ [b]"
proof (induction a)
  case (Cons x a)
  then show ?case by (cases "split_on c a") auto
qed (simp add: split_on_free)

lemma join_with_snoc: "xs \<noteq> [] \<Longrightarrow> join_with c (xs @ [b]) = join_with c xs @ c # b"
  by (induction c xs rule: join_with.induct) simp_all

lemma split_on_parts: "p \<in> set (split_on c s) \<Longrightarrow> c \<notin> set p"
proof (induction s arbitrary: p)
  case (Cons x s)
  then show ?case by (cases "split_on c s") (auto split: if_splits)
qed simp

text \<open>The stack of elements while a path is cleaned, the last element first: \<open>..\<close> is only at the bottom of it.\<close>

definition clean_stack :: "bool \<Rightarrow> string list \<Rightarrow> bool" where
  "clean_stack rooted st \<longleftrightarrow>
     list_all (\<lambda>e. e \<noteq> [] \<and> e \<noteq> ''.'' \<and> CHR ''/'' \<notin> set e) st \<and>
     (\<exists>a n. st = a @ replicate n ''..'' \<and> ''..'' \<notin> set a \<and> (rooted \<longrightarrow> n = 0))"

lemma clean_step_stack:
  assumes "clean_stack rooted st" "CHR ''/'' \<notin> set e"
  shows "clean_stack rooted (clean_step rooted e st)"
proof -
  obtain a n where a: "st = a @ replicate n ''..''" "''..'' \<notin> set a" "rooted \<longrightarrow> n = 0"
    using assms(1) unfolding clean_stack_def by blast
  have l: "list_all (\<lambda>e. e \<noteq> [] \<and> e \<noteq> ''.'' \<and> CHR ''/'' \<notin> set e) st"
    using assms(1) unfolding clean_stack_def by blast
  show ?thesis
  proof (cases "e = [] \<or> e = ''.''")
    case True
    then show ?thesis using assms(1) by (simp add: clean_step_def)
  next
    case False
    show ?thesis
    proof (cases "e = ''..''")
      case dd: True
      show ?thesis
      proof (cases a)
        case Nil
        show ?thesis
        proof (cases "rooted")
          case True
          then show ?thesis using a Nil dd by (simp add: clean_step_def clean_stack_def)
        next
          case nr: False
          have "clean_step rooted e st = replicate (Suc n) ''..''"
            using a Nil dd nr by (cases n) (auto simp: clean_step_def)
          then show ?thesis using nr by (auto simp: clean_stack_def list_all_iff intro!: exI [of _ "[]"] exI [of _ "Suc n"])
        qed
      next
        case (Cons x xs)
        then have "clean_step rooted e st = xs @ replicate n ''..''" using a dd by (auto simp: clean_step_def)
        then show ?thesis using a l Cons by (auto simp: clean_stack_def list_all_iff)
      qed
    next
      case nd: False
      then have "clean_step rooted e st = (e # a) @ replicate n ''..''" using a False by (simp add: clean_step_def)
      moreover have "''..'' \<notin> set (e # a)" using a(2) nd by simp
      ultimately show ?thesis using a(3) l assms(2) False nd unfolding clean_stack_def
        by (intro conjI exI [of _ "e # a"] exI [of _ n]) (auto simp: a list_all_iff)
    qed
  qed
qed

lemma clean_fold_stack:
  "(\<And>e. e \<in> set es \<Longrightarrow> CHR ''/'' \<notin> set e) \<Longrightarrow> clean_stack rooted st \<Longrightarrow> clean_stack rooted (fold (clean_step rooted) es st)"
  by (induction es arbitrary: st) (simp_all add: clean_step_stack)

lemma clean_stack_tl: "clean_stack rooted (x # st) \<Longrightarrow> clean_stack rooted st \<and> clean_step rooted x st = x # st"
proof -
  assume h: "clean_stack rooted (x # st)"
  then obtain a n where a: "x # st = a @ replicate n ''..''" "''..'' \<notin> set a" "rooted \<longrightarrow> n = 0"
    unfolding clean_stack_def by blast
  have l: "list_all (\<lambda>e. e \<noteq> [] \<and> e \<noteq> ''.'' \<and> CHR ''/'' \<notin> set e) (x # st)"
    using h unfolding clean_stack_def by blast
  show ?thesis
  proof (cases a)
    case Nil
    then obtain m where "n = Suc m" "st = replicate m ''..''" "x = ''..''" "\<not> rooted" using a by (cases n) auto
    then have "clean_stack rooted st" using l by (auto simp: clean_stack_def intro!: exI [of _ "[]"] exI [of _ m])
    moreover have "clean_step rooted x st = x # st"
      using \<open>st = _\<close> \<open>x = _\<close> \<open>\<not> rooted\<close> by (cases m) (simp_all add: clean_step_def)
    ultimately show ?thesis ..
  next
    case (Cons y ys)
    then have "st = ys @ replicate n ''..''" "x \<noteq> ''..''" "''..'' \<notin> set ys" using a by auto
    then show ?thesis using l a(3) by (auto simp: clean_stack_def clean_step_def)
  qed
qed

lemma clean_again: "clean_stack rooted st \<Longrightarrow> fold (clean_step rooted) (rev st) [] = st"
  by (induction st) (use clean_stack_tl in auto)

text \<open>A name put under a cleaned directory stays directly below it.\<close>

definition plain_element :: "string \<Rightarrow> bool" where
  "plain_element e \<longleftrightarrow> e \<noteq> [] \<and> e \<noteq> ''.'' \<and> e \<noteq> ''..'' \<and> CHR ''/'' \<notin> set e"

lemma path_Clean_stack:
  assumes "HasPrefix p ''/'' = rooted" "fold (clean_step rooted) (split_on CHR ''/'' p) [] = st"
    "join_with CHR ''/'' (rev st) \<noteq> []"
  shows "path_Clean p = (if rooted then CHR ''/'' # join_with CHR ''/'' (rev st) else join_with CHR ''/'' (rev st))"
proof -
  have "path_Clean p = (let res = (if rooted then ''/'' @ join_with CHR ''/'' (rev st) else join_with CHR ''/'' (rev st))
      in if res = [] then ''.'' else res)"
    unfolding path_Clean_def Let_def assms(1) assms(2) by (rule refl)
  then show ?thesis using assms(3) by (simp add: Let_def)
qed

lemma path_Join_below:
  assumes u: "u = path_Join [d, e]" and e: "plain_element e" and f: "plain_element f"
  shows "path_Join [u, f] = u @ CHR ''/'' # f"
proof -
  define p where "p = (if d = [] then e else d @ CHR ''/'' # e)"
  define rooted where "rooted = HasPrefix p ''/''"
  define st where "st = fold (clean_step rooted) (split_on CHR ''/'' p) []"
  have up: "u = path_Clean p" using u e by (auto simp: path_Join_def p_def plain_element_def)
  have cs: "clean_stack rooted st"
    unfolding st_def by (rule clean_fold_stack) (auto dest: split_on_parts simp: clean_stack_def)
  have "\<exists>es. split_on CHR ''/'' p = es @ [e]"
    using e by (auto simp: p_def plain_element_def split_on_snoc split_on_free)
  then have ne: "st \<noteq> []" using e by (auto simp: st_def plain_element_def clean_step_def)
  let ?j = "join_with CHR ''/'' (rev st)"
  have parts: "x \<in> set (rev st) \<Longrightarrow> CHR ''/'' \<notin> set x \<and> x \<noteq> []" for x
    using cs by (auto simp: clean_stack_def list_all_iff)
  then obtain x xs y ys where x: "rev st = x # xs" "x = y # ys" "y \<noteq> CHR ''/''"
    using ne by (cases "rev st") (auto simp: neq_Nil_conv, metis list.set_intros(1) neq_Nil_conv)
  have jne: "?j \<noteq> []" and jh: "hd ?j = y" using x by (cases xs; simp)+
  have ue: "u = (if rooted then CHR ''/'' # ?j else ?j)"
    unfolding up using jne by (intro path_Clean_stack) (simp_all add: rooted_def st_def)
  have sj: "split_on CHR ''/'' ?j = rev st" using ne parts by (intro split_on_join) auto
  have r: "HasPrefix (u @ CHR ''/'' # f) ''/'' = rooted"
    using ue jne jh x(3) by (cases ?j) (auto simp: HasPrefix_def)
  have sp: "split_on CHR ''/'' (u @ CHR ''/'' # f) = (if rooted then [[]] else []) @ rev st @ [f]"
    using f sj ue by (simp add: plain_element_def split_on_snoc)
  have "clean_step rooted [] [] = []" by (simp add: clean_step_def)
  then have "fold (clean_step rooted) (split_on CHR ''/'' (u @ CHR ''/'' # f)) [] = f # st"
    using f clean_again [OF cs] by (cases rooted) (simp_all add: sp plain_element_def, simp_all add: clean_step_def)
  from path_Clean_stack [OF r this] have "path_Clean (u @ CHR ''/'' # f) = u @ CHR ''/'' # f"
    using ne ue by (simp add: join_with_snoc)
  moreover have "u \<noteq> []" using ue jne by auto
  ultimately show ?thesis by (simp add: path_Join_def)
qed

end
