(* ===== verification/Query_Model.thy ===== *)
theory Query_Model
  imports Go_Strings
begin

text \<open>
  Package \<open>query\<close> (src/resolver/internal/query/query.go): the normalized query, the grammars of
  names, types and selectors, and the canonical form of selectors. The name and type checks of the
  contracts (\<open>_validateName\<close> in NamespaceDApp.sol, \<open>_validateTypeName\<close> in
  RecordSchemaRegistry.sol) are modelled beside them, since the Go code says that it mirrors them.

  A Go map from strings to strings is an association list with distinct keys whose order stands for
  the (unspecified) iteration order; \<open>canonical_selector_order_irrelevant\<close> shows that the order
  never matters.
\<close>

section \<open>Definitions\<close>

record query =
  qName :: string
  qType :: string
  qSelector :: string

datatype query_error =
    InvalidName string
  | InvalidType string
  | InvalidSelectorKey string
  | InvalidPort string
  | InvalidTransport string
  | InvalidService string
  | InvalidSelectorValue string string
  | DuplicateSelectorKey string
  | InvalidFragment string

subsection \<open>The regular expressions\<close>

definition name_edge :: "char \<Rightarrow> bool" where
  "name_edge c = (is_lower c \<or> is_digit c)"

definition name_char :: "char \<Rightarrow> bool" where
  "name_char c = (name_edge c \<or> c = CHR ''-'')"

definition nameRe :: "string \<Rightarrow> bool" where
  "nameRe s = (case s of [] \<Rightarrow> False
     | c # r \<Rightarrow> name_edge c \<and>
         (r = [] \<or> (length (butlast r) \<le> 61 \<and> list_all name_char (butlast r) \<and> name_edge (last r))))"

definition type_char :: "char \<Rightarrow> bool" where
  "type_char c = (is_upper c \<or> is_lower c \<or> is_digit c \<or> c = CHR ''_'' \<or> c = CHR ''-'')"

definition typeRe :: "string \<Rightarrow> bool" where
  "typeRe s = (1 \<le> length s \<and> length s \<le> 32 \<and> list_all type_char s)"

definition key_char :: "char \<Rightarrow> bool" where
  "key_char c = (is_lower c \<or> is_digit c \<or> c = CHR ''_'')"

definition selKey :: "string \<Rightarrow> bool" where
  "selKey s = (1 \<le> length s \<and> length s \<le> 32 \<and> list_all key_char s)"

definition sel_stop :: "char list" where
  "sel_stop = [CHR ''&'', CHR ''='', CHR 0x09, CHR 0x0A, CHR 0x0C, CHR 0x0D, CHR '' '']"

text \<open>The repetition count of a Go regular expression counts code points.\<close>

definition selVal :: "string \<Rightarrow> bool" where
  "selVal s = (1 \<le> length (runes s) \<and> length (runes s) \<le> 64 \<and> list_all (\<lambda>c. c \<notin> set sel_stop) s)"

definition knownTransports :: "string \<Rightarrow> bool" where
  "knownTransports v = (v = ''UDP'' \<or> v = ''TCP'' \<or> v = ''QUIC'')"

definition knownServices :: "string \<Rightarrow> bool" where
  "knownServices v = (v = ''HTTP'' \<or> v = ''SMTP'')"

definition ValidateName :: "string \<Rightarrow> query_error + unit" where
  "ValidateName s = (if nameRe s then Inr () else Inl (InvalidName s))"

definition ValidateType :: "string \<Rightarrow> query_error + unit" where
  "ValidateType s = (if typeRe s then Inr () else Inl (InvalidType s))"

subsection \<open>Canonical selectors\<close>

text \<open>The value of one key, by the cases of the switch.\<close>

definition canon_value :: "unicode \<Rightarrow> string \<Rightarrow> string \<Rightarrow> query_error + string" where
  "canon_value U k v =
     (if k = ''port'' then
        (case Atoi v of
           None \<Rightarrow> Inl (InvalidPort v)
         | Some n \<Rightarrow> if n < 1 \<or> n > 65535 then Inl (InvalidPort v) else Inr (Itoa n))
      else if k = ''transport'' then
        (let v' = ToUpper U v in if knownTransports v' then Inr v' else Inl (InvalidTransport v'))
      else if k = ''service'' then
        (let v' = ToUpper U v in if knownServices v' then Inr v' else Inl (InvalidService v'))
      else if selVal v then Inr v else Inl (InvalidSelectorValue v k))"

text \<open>One iteration up to the duplicate check: trimmed, lowercased key and canonical value.\<close>

definition canon_pair :: "unicode \<Rightarrow> string \<times> string \<Rightarrow> query_error + (string \<times> string)" where
  "canon_pair U kv =
     (let k = ToLower U (TrimSpace (fst kv)); v = TrimSpace (snd kv)
      in if \<not> selKey k then Inl (InvalidSelectorKey k)
         else rbind (canon_value U k v) (\<lambda>v'. Inr (k, v')))"

text \<open>The loop over the pairs, with the map \<open>canon\<close> built so far.\<close>

fun canon_loop ::
  "unicode \<Rightarrow> (string \<times> string) list \<Rightarrow> (string \<times> string) list \<Rightarrow> query_error + (string \<times> string) list" where
  "canon_loop U canon [] = Inr canon"
| "canon_loop U canon (kv # rest) =
     rbind (canon_pair U kv) (\<lambda>(k, v).
       if map_of canon k \<noteq> None then Inl (DuplicateSelectorKey k)
       else canon_loop U (canon @ [(k, v)]) rest)"

definition sel_part :: "string \<times> string \<Rightarrow> string" where
  "sel_part kv = fst kv @ CHR ''='' # snd kv"

definition CanonicalSelector :: "unicode \<Rightarrow> (string \<times> string) list \<Rightarrow> query_error + string" where
  "CanonicalSelector U pairs =
     (if pairs = [] then Inr []
      else rbind (canon_loop U [] pairs) (\<lambda>canon.
        Inr (join_with CHR ''&''
          (map (\<lambda>k. sel_part (k, the (map_of canon k))) (sort (map fst canon))))))"

fun parse_parts ::
  "unicode \<Rightarrow> (string \<times> string) list \<Rightarrow> string list \<Rightarrow> query_error + (string \<times> string) list" where
  "parse_parts U pairs [] = Inr pairs"
| "parse_parts U pairs (part # rest) =
     (case cut_at CHR ''='' part of
        None \<Rightarrow> Inl (InvalidFragment part)
      | Some (k, v) \<Rightarrow>
          if map_of pairs (ToLower U k) \<noteq> None then Inl (DuplicateSelectorKey k)
          else parse_parts U (pairs @ [(ToLower U k, v)]) rest)"

definition ParsePairs :: "unicode \<Rightarrow> string \<Rightarrow> query_error + (string \<times> string) list" where
  "ParsePairs U raw =
     (if TrimSpace raw = [] then Inr [] else parse_parts U [] (split_on CHR ''&'' raw))"

definition ParseSelectorString :: "unicode \<Rightarrow> string \<Rightarrow> query_error + string" where
  "ParseSelectorString U raw = rbind (ParsePairs U raw) (CanonicalSelector U)"

definition New_query :: "unicode \<Rightarrow> string \<Rightarrow> string \<Rightarrow> (string \<times> string) list \<Rightarrow> query_error + query" where
  "New_query U name recordType selectorPairs =
     rbind (ValidateName name) (\<lambda>_.
     rbind (ValidateType recordType) (\<lambda>_.
     rbind (CanonicalSelector U selectorPairs) (\<lambda>sel.
       Inr \<lparr>qName = name, qType = recordType, qSelector = sel\<rparr>)))"

subsection \<open>The contracts' checks\<close>

text \<open>\<open>_validateName\<close>: the bounds, the two edges, then the loop over all bytes.\<close>

definition contract_validateName :: "string \<Rightarrow> bool" where
  "contract_validateName b =
     (if length b = 0 \<or> length b > 63 then False
      else if b ! 0 = CHR ''-'' \<or> b ! (length b - 1) = CHR ''-'' then False
      else list_all (\<lambda>c. (CHR ''a'' \<le> c \<and> c \<le> CHR ''z'') \<or> (CHR ''0'' \<le> c \<and> c \<le> CHR ''9'') \<or> c = CHR ''-'') b)"

definition contract_validateTypeName :: "string \<Rightarrow> bool" where
  "contract_validateTypeName b =
     (if length b = 0 \<or> length b > 32 then False
      else list_all (\<lambda>c. (CHR ''a'' \<le> c \<and> c \<le> CHR ''z'') \<or> (CHR ''A'' \<le> c \<and> c \<le> CHR ''Z'')
             \<or> (CHR ''0'' \<le> c \<and> c \<le> CHR ''9'') \<or> c = CHR ''-'' \<or> c = CHR ''_'') b)"

subsection \<open>Well-formedness\<close>

text \<open>A pair in canonical form: processing it changes nothing.\<close>

definition canonical_pair :: "unicode \<Rightarrow> string \<times> string \<Rightarrow> bool" where
  "canonical_pair U kv = (canon_pair U kv = Inr kv)"

definition wf_query :: "unicode \<Rightarrow> query \<Rightarrow> bool" where
  "wf_query U q = (nameRe (qName q) \<and> typeRe (qType q) \<and> ParseSelectorString U (qSelector q) = Inr (qSelector q))"

section \<open>Facts\<close>

lemma le_char_iff: "(c::char) \<le> d \<longleftrightarrow> (of_char c :: nat) \<le> of_char d"
  by (simp add: less_eq_char_def)

lemma class_simps:
  "is_lower c \<longleftrightarrow> CHR ''a'' \<le> c \<and> c \<le> CHR ''z''"
  "is_upper c \<longleftrightarrow> CHR ''A'' \<le> c \<and> c \<le> CHR ''Z''"
  "is_digit c \<longleftrightarrow> CHR ''0'' \<le> c \<and> c \<le> CHR ''9''"
  by (simp_all add: is_lower_def is_upper_def is_digit_def in_range_def le_char_iff)

text \<open>the resolver accepts exactly the names that the contract accepts
  (\<open>ValidateName\<close> mirrors \<open>NamespaceDApp._validateName\<close>).\<close>

theorem ValidateName_matches_contract:
  "isOk (ValidateName s) \<longleftrightarrow> contract_validateName s"
proof (cases s)
  case Nil
  then show ?thesis by (simp add: ValidateName_def nameRe_def contract_validateName_def)
next
  case (Cons c r)
  have edge: "name_edge x \<longleftrightarrow> name_char x \<and> x \<noteq> CHR ''-''" for x
    by (auto simp: name_char_def name_edge_def class_simps le_char_iff)
  have body: "contract_validateName s \<longleftrightarrow>
      length r \<le> 62 \<and> c \<noteq> CHR ''-'' \<and> last s \<noteq> CHR ''-'' \<and> list_all name_char s"
    using Cons by (auto simp: contract_validateName_def name_char_def name_edge_def class_simps
        last_conv_nth list_all_iff)
  show ?thesis
  proof (cases r rule: rev_cases)
    case Nil
    with Cons show ?thesis unfolding body by (auto simp: ValidateName_def nameRe_def edge)
  next
    case (snoc r' d)
    with Cons show ?thesis unfolding body by (auto simp: ValidateName_def nameRe_def edge)
  qed
qed

text \<open>the resolver accepts exactly the record types that the schema registry accepts.\<close>

theorem ValidateType_matches_registry:
  "isOk (ValidateType s) \<longleftrightarrow> contract_validateTypeName s"
  by (auto simp: ValidateType_def typeRe_def contract_validateTypeName_def type_char_def class_simps
      list_all_iff Suc_le_eq)

subsection \<open>The loop of CanonicalSelector\<close>

lemma canon_loop_Inr:
  assumes "distinct (map fst acc)"
  shows "canon_loop U acc ps = Inr canon \<longleftrightarrow>
    (\<exists>rs. map (canon_pair U) ps = map Inr rs \<and> canon = acc @ rs \<and> distinct (map fst canon))"
  using assms
proof (induction ps arbitrary: acc)
  case Nil
  then show ?case by auto
next
  case (Cons kv ps)
  show ?case
  proof (cases "canon_pair U kv")
    case (Inl e)
    then show ?thesis by (auto simp: map_eq_Cons_conv)
  next
    case (Inr kv')
    obtain k v where kv': "kv' = (k, v)" by (cases kv')
    show ?thesis
    proof (cases "k \<in> fst ` set acc")
      case True
      then have "map_of acc k \<noteq> None" by (simp add: map_of_eq_None_fst)
      with True Inr kv' show ?thesis by (auto simp: map_eq_Cons_conv)
    next
      case False
      with Cons.prems have "distinct (map fst (acc @ [(k, v)]))" by auto
      note IH = Cons.IH [OF this]
      have "canon_loop U acc (kv # ps) = canon_loop U (acc @ [(k, v)]) ps"
        using Inr kv' False by (simp add: map_of_eq_None_fst [THEN iffD2])
      then show ?thesis using IH Inr kv' by (auto simp: map_eq_Cons_conv)
    qed
  qed
qed

lemma canon_loop_nil_Inr:
  "canon_loop U [] ps = Inr canon \<longleftrightarrow>
     map (canon_pair U) ps = map Inr canon \<and> distinct (map fst canon)"
  by (auto simp: canon_loop_Inr)

lemma map_Inr_conv: "map f xs = map Inr ys \<longleftrightarrow> (\<forall>x \<in> set xs. \<exists>y. f x = Inr y) \<and> ys = map (projr \<circ> f) xs"
proof (induction xs arbitrary: ys)
  case Nil
  then show ?case by auto
next
  case (Cons x xs)
  then show ?case by (cases ys) (auto simp: Cons)
qed

lemma sort_mset_cong: "mset xs = mset ys \<Longrightarrow> sort xs = sort ys"
  by (metis mset_sort properties_for_sort sorted_sort)

definition render :: "(string \<times> string) list \<Rightarrow> string" where
  "render canon = join_with CHR ''&''
     (map (\<lambda>k. sel_part (k, the (map_of canon k))) (sort (map fst canon)))"

lemma CanonicalSelector_render:
  "CanonicalSelector U pairs =
     (if pairs = [] then Inr [] else rbind (canon_loop U [] pairs) (\<lambda>canon. Inr (render canon)))"
  by (simp add: CanonicalSelector_def render_def)

lemma render_cong:
  assumes "mset c = mset c'" and "distinct (map fst c)"
  shows "render c = render c'"
proof -
  have "distinct (map fst c')"
    using assms by (metis mset_eq_imp_distinct_iff mset_map)
  moreover have "set c = set c'" using assms(1) by (rule mset_eq_setD)
  ultimately have "map_of c = map_of c'" using assms(2) by (simp add: map_of_inject_set)
  moreover have "sort (map fst c) = sort (map fst c')"
    using assms(1) by (intro sort_mset_cong) simp
  ultimately show ?thesis by (simp add: render_def)
qed

lemma canonical_selector_perm:
  assumes m: "mset ps = mset ps'" and s: "CanonicalSelector U ps = Inr s"
  shows "CanonicalSelector U ps' = Inr s"
proof (cases "ps = []")
  case True
  with m s show ?thesis by simp
next
  case False
  with m have ne: "ps' \<noteq> []" by auto
  from False s obtain c where c: "canon_loop U [] ps = Inr c" "s = render c"
    by (auto simp: CanonicalSelector_render rbind_eq_Inr)
  let ?c' = "map (projr \<circ> canon_pair U) ps'"
  from c(1) have c1: "\<forall>x \<in> set ps. \<exists>y. canon_pair U x = Inr y" "c = map (projr \<circ> canon_pair U) ps"
      and d: "distinct (map fst c)"
    by (auto simp: canon_loop_nil_Inr map_Inr_conv)
  have mc: "mset c = mset ?c'" using m c1(2) by (metis mset_map)
  have "distinct (map fst ?c')"
    using d mc by (metis mset_eq_imp_distinct_iff mset_map)
  moreover have "\<forall>x \<in> set ps'. \<exists>y. canon_pair U x = Inr y"
    using c1(1) mset_eq_setD [OF m] by simp
  ultimately have "canon_loop U [] ps' = Inr ?c'"
    unfolding canon_loop_nil_Inr map_Inr_conv by blast
  then show ?thesis using ne c(2) render_cong [OF mc d] by (simp add: CanonicalSelector_render)
qed

text \<open>Go's random map iteration order is invisible: whatever order the pairs are visited in,
  \<open>CanonicalSelector\<close> succeeds in all orders or in none, and with the same string.\<close>

theorem canonical_selector_order_irrelevant:
  assumes "mset ps = mset ps'"
  shows "CanonicalSelector U ps = Inr s \<longleftrightarrow> CanonicalSelector U ps' = Inr s"
  using canonical_selector_perm [OF assms] canonical_selector_perm [OF assms [symmetric]] by blast

text \<open>Case mapping of ASCII only, and two selectors, for the witnesses.\<close>

definition ascii_only :: unicode where
  "ascii_only = \<lparr>uni_lower = id, uni_upper = id\<rparr>"

definition sample_pairs :: "(string \<times> string) list" where
  "sample_pairs = [(''transport'', ''TCP''), (''port'', ''025'')]"

lemma sample_canon_pairs:
  "canon_pair ascii_only (''transport'', ''TCP'') = Inr (''transport'', ''TCP'')"
  "canon_pair ascii_only (''port'', ''025'') = Inr (''port'', ''25'')"
proof -
  have "Itoa 25 = ''25''" by (simp add: Itoa_def nat_dec.simps digit_char_def char_of_eq_iff take_bit_eq_mod)
  moreover have "Atoi ''025'' = Some 25"
    by (simp add: Atoi_def is_digit_def in_range_def dec_val_def digit_val_def)
  ultimately show
    "canon_pair ascii_only (''transport'', ''TCP'') = Inr (''transport'', ''TCP'')"
    "canon_pair ascii_only (''port'', ''025'') = Inr (''port'', ''25'')"
    by (simp_all add: canon_pair_def go_simps is_graph_def is_ascii_def is_upper_def is_lower_def is_digit_def
        in_range_def selKey_def key_char_def canon_value_def knownTransports_def Let_def)
qed

lemma sample_canonical:
  "CanonicalSelector ascii_only sample_pairs = Inr ''port=25&transport=TCP''"
  "CanonicalSelector ascii_only (rev sample_pairs) = Inr ''port=25&transport=TCP''"
  by (simp_all add: CanonicalSelector_def sample_pairs_def sample_canon_pairs sel_part_def
      list_less_def lexord_def less_char_def)

theorem canonical_selector_order_irrelevant_witness:
  "CanonicalSelector ascii_only (rev sample_pairs) = Inr ''port=25&transport=TCP''"
  using canonical_selector_order_irrelevant [of sample_pairs "rev sample_pairs" ascii_only "''port=25&transport=TCP''"]
    sample_canonical(1) by simp

subsection \<open>Canonical pairs are fixed points\<close>

lemma key_char_facts:
  assumes "key_char c"
  shows "is_ascii c" "\<not> is_upper c" "is_graph c" "c \<noteq> CHR ''&''" "c \<noteq> CHR ''=''"
  using assms
  by (auto simp: key_char_def is_lower_def is_digit_def is_upper_def in_range_def is_ascii_def is_graph_def)

lemma selKey_facts:
  assumes "selKey k"
  shows "k \<noteq> []" "ToLower U k = k" "TrimSpace k = k" "CHR ''&'' \<notin> set k" "CHR ''='' \<notin> set k"
proof -
  from assms show ne: "k \<noteq> []" by (auto simp: selKey_def)
  from assms have all: "key_char c" if "c \<in> set k" for c
    using that by (simp add: selKey_def list_all_iff)
  show "ToLower U k = k"
    using all key_char_facts(1,2) by (intro ToLower_id) (auto simp: list_all_iff)
  show "TrimSpace k = k"
    using ne by (intro TrimSpace_graph key_char_facts(3) all) simp_all
  show "CHR ''&'' \<notin> set k" "CHR ''='' \<notin> set k"
    using all key_char_facts(4,5) by blast+
qed

lemma is_digit_graph: "is_digit c \<Longrightarrow> is_graph c \<and> c \<notin> set sel_stop"
  by (auto simp: is_digit_def in_range_def is_graph_def sel_stop_def)

lemma Itoa_facts:
  assumes "0 \<le> n"
  shows "TrimSpace (Itoa n) = Itoa n" "list_all (\<lambda>c. c \<notin> set sel_stop) (Itoa n)"
proof -
  have d: "Itoa n = nat_dec (nat n)" using assms by (simp add: Itoa_def)
  have all: "is_digit c" if "c \<in> set (nat_dec m)" for c m
    using nat_dec_digits [of m] that by (simp add: list_all_iff)
  show "TrimSpace (Itoa n) = Itoa n"
    unfolding d using all is_digit_graph by (intro TrimSpace_graph) (meson hd_in_set last_in_set nat_dec_nonempty)+
  show "list_all (\<lambda>c. c \<notin> set sel_stop) (Itoa n)"
    unfolding d using all is_digit_graph by (auto simp: list_all_iff)
qed

lemma known_values:
  assumes "knownTransports v \<or> knownServices v"
  shows "ToUpper U v = v" "TrimSpace v = v" "list_all (\<lambda>c. c \<notin> set sel_stop) v"
  using assms
  by (auto simp: knownTransports_def knownServices_def sel_stop_def is_ascii_def is_lower_def in_range_def
      is_graph_def intro!: ToUpper_id TrimSpace_graph)

lemma canon_value_Inr:
  assumes "canon_value U k v = Inr v'" and "TrimSpace v = v"
  shows "canon_value U k v' = Inr v'" "TrimSpace v' = v'" "list_all (\<lambda>c. c \<notin> set sel_stop) v'"
  using assms
  by (auto simp: canon_value_def Let_def known_values Itoa_facts Atoi_Itoa selVal_def
      split: if_splits option.splits)

lemma canon_pair_Inr:
  assumes "canon_pair U kv = Inr (k, v)"
  shows "selKey k" "canonical_pair U (k, v)" "list_all (\<lambda>c. c \<notin> set sel_stop) v"
proof -
  from assms have k: "selKey k" and v: "canon_value U k (TrimSpace (snd kv)) = Inr v"
    by (auto simp: canon_pair_def Let_def rbind_eq_Inr split: if_splits)
  note v' = canon_value_Inr [OF v TrimSpace_idem]
  show "selKey k" by (rule k)
  show "list_all (\<lambda>c. c \<notin> set sel_stop) v" by (rule v'(3))
  show "canonical_pair U (k, v)"
    using k v' by (simp add: canonical_pair_def canon_pair_def Let_def selKey_facts)
qed

subsection \<open>Parsing a rendered selector\<close>

definition sorted_pairs :: "(string \<times> string) list \<Rightarrow> (string \<times> string) list" where
  "sorted_pairs canon = map (\<lambda>k. (k, the (map_of canon k))) (sort (map fst canon))"

lemma render_sorted_pairs: "render canon = join_with CHR ''&'' (map sel_part (sorted_pairs canon))"
  by (simp add: render_def sorted_pairs_def comp_def)

lemma map_fst_sorted_pairs [simp]: "map fst (sorted_pairs canon) = sort (map fst canon)"
  by (simp add: sorted_pairs_def comp_def)

lemma sorted_pairs_eq_Nil [simp]: "sorted_pairs canon = [] \<longleftrightarrow> canon = []"
proof -
  have "length (sorted_pairs canon) = length canon" by (simp add: sorted_pairs_def)
  then show ?thesis by (simp only: length_0_conv [symmetric])
qed

lemma set_sorted_pairs:
  assumes "distinct (map fst canon)"
  shows "set (sorted_pairs canon) = set canon"
  using assms by (force simp: sorted_pairs_def)

lemma sorted_pairs_fix:
  assumes "distinct (map fst ps)" and "sorted (map fst ps)"
  shows "sorted_pairs ps = ps"
proof -
  have "sorted_pairs ps = map (\<lambda>kv. (fst kv, the (map_of ps (fst kv)))) ps"
    using assms(2) by (simp add: sorted_pairs_def sorted_sort_id comp_def)
  also have "\<dots> = ps" using assms(1) by (intro map_idI) (auto simp: map_of_is_SomeI)
  finally show ?thesis .
qed

lemma set_join_with: "p \<in> set ps \<Longrightarrow> set p \<subseteq> set (join_with c ps)"
  by (induction c ps rule: join_with.induct) auto

lemma parse_parts_rendered:
  assumes "distinct (map fst (acc @ ps))" and "\<And>k v. (k, v) \<in> set ps \<Longrightarrow> selKey k"
  shows "parse_parts U acc (map sel_part ps) = Inr (acc @ ps)"
  using assms
proof (induction ps arbitrary: acc)
  case Nil
  then show ?case by simp
next
  case (Cons kv ps)
  obtain k v where kv: "kv = (k, v)" by (cases kv)
  from Cons.prems(2) [of k v] kv have k: "selKey k" by simp
  have "parse_parts U (acc @ [(k, v)]) (map sel_part ps) = Inr ((acc @ [(k, v)]) @ ps)"
    using Cons.prems kv by (intro Cons.IH) auto
  moreover have "k \<notin> fst ` set acc" using Cons.prems(1) kv by auto
  moreover have "cut_at CHR ''='' (sel_part kv) = Some (k, v)"
    using selKey_facts(5) [OF k] kv by (simp add: sel_part_def cut_at_append)
  ultimately show ?case using selKey_facts(2) [OF k] kv by (simp add: map_of_eq_None_fst)
qed

text \<open>The lists of pairs that the loop builds: distinct valid keys, canonical values.\<close>

definition canon_pairs :: "unicode \<Rightarrow> (string \<times> string) list \<Rightarrow> bool" where
  "canon_pairs U ps = (distinct (map fst ps) \<and>
     (\<forall>(k, v) \<in> set ps. selKey k \<and> canonical_pair U (k, v) \<and> list_all (\<lambda>c. c \<notin> set sel_stop) v))"

lemma canon_loop_canon_pairs:
  assumes "canon_loop U [] ps = Inr canon"
  shows "canon_pairs U canon" "length canon = length ps"
proof -
  from assms have m: "map (canon_pair U) ps = map Inr canon" and d: "distinct (map fst canon)"
    by (simp_all add: canon_loop_nil_Inr)
  from m show "length canon = length ps" by (metis length_map)
  have "selKey k \<and> canonical_pair U (k, v) \<and> list_all (\<lambda>c. c \<notin> set sel_stop) v"
    if "(k, v) \<in> set canon" for k v
  proof -
    have "Inr (k, v) \<in> set (map (canon_pair U) ps)" unfolding m using that by auto
    then obtain kv where "canon_pair U kv = Inr (k, v)" by auto
    then show ?thesis using canon_pair_Inr [of U kv k v] by simp
  qed
  with d show "canon_pairs U canon" by (auto simp: canon_pairs_def)
qed

lemma canon_pairs_sorted_pairs: "canon_pairs U ps \<Longrightarrow> canon_pairs U (sorted_pairs ps)"
  by (auto simp: canon_pairs_def set_sorted_pairs)

lemma ParsePairs_render:
  assumes c: "canon_pairs U canon" and ne: "canon \<noteq> []"
  shows "ParsePairs U (render canon) = Inr (sorted_pairs canon)"
proof -
  let ?ps = "sorted_pairs canon"
  have ps: "canon_pairs U ?ps" by (rule canon_pairs_sorted_pairs [OF c])
  have ps_ne: "?ps \<noteq> []" using ne by simp
  then obtain k v where kv: "(k, v) \<in> set ?ps" by (metis list.set_intros(1) neq_Nil_conv surj_pair)
  then have k: "selKey k" using ps by (auto simp: canon_pairs_def)
  then have "hd k \<in> set k" "is_graph (hd k)"
    using selKey_facts(1) [OF k] by (auto simp: selKey_def list_all_iff key_char_facts(3))
  moreover have "set (sel_part (k, v)) \<subseteq> set (render canon)"
    unfolding render_sorted_pairs using kv by (intro set_join_with) force
  ultimately have trim: "TrimSpace (render canon) \<noteq> []"
    by (intro TrimSpace_nonempty [of "hd k"]) (auto simp: sel_part_def)
  have no_amp: "CHR ''&'' \<notin> set (sel_part kv')" if "kv' \<in> set ?ps" for kv'
    using ps that selKey_facts(4)
    by (cases kv') (auto simp: canon_pairs_def sel_part_def list_all_iff sel_stop_def)
  have "split_on CHR ''&'' (render canon) = map sel_part ?ps"
    unfolding render_sorted_pairs using ps_ne no_amp by (intro split_on_join) auto
  then show ?thesis
    using trim ps parse_parts_rendered [of "[]" ?ps U]
    by (auto simp: ParsePairs_def canon_pairs_def)
qed

lemma CanonicalSelector_sorted:
  assumes c: "canon_pairs U canon" and ne: "canon \<noteq> []"
  shows "CanonicalSelector U (sorted_pairs canon) = Inr (render canon)"
proof -
  let ?ps = "sorted_pairs canon"
  have ps: "canon_pairs U ?ps" by (rule canon_pairs_sorted_pairs [OF c])
  have "map (canon_pair U) ?ps = map Inr ?ps"
    using ps by (auto simp: canon_pairs_def canonical_pair_def)
  then have "canon_loop U [] ?ps = Inr ?ps"
    using ps by (simp add: canon_loop_nil_Inr canon_pairs_def)
  moreover have "sorted_pairs ?ps = ?ps"
    using ps by (intro sorted_pairs_fix) (auto simp: canon_pairs_def)
  moreover have "?ps \<noteq> []" using ne by simp
  ultimately show ?thesis by (simp add: CanonicalSelector_render render_sorted_pairs)
qed

lemma CanonicalSelector_cases:
  assumes "CanonicalSelector U ps = Inr s"
  obtains "ps = []" "s = []"
  | canon where "canon_pairs U canon" "canon \<noteq> []" "s = render canon"
      "map (canon_pair U) ps = map Inr canon"
proof (cases "ps = []")
  case True
  with assms that(1) show ?thesis by (simp add: CanonicalSelector_def)
next
  case False
  with assms obtain canon where "canon_loop U [] ps = Inr canon" "s = render canon"
    by (auto simp: CanonicalSelector_render rbind_eq_Inr)
  with False that(2) canon_loop_canon_pairs show ?thesis
    by (metis canon_loop_nil_Inr length_0_conv)
qed

lemma ParseSelectorString_canonical:
  assumes "CanonicalSelector U ps = Inr s"
  shows "ParseSelectorString U s = Inr s"
  using assms
proof (cases rule: CanonicalSelector_cases)
  case 1
  then show ?thesis by (simp add: ParseSelectorString_def ParsePairs_def CanonicalSelector_def)
next
  case (2 canon)
  then show ?thesis
    by (simp add: ParseSelectorString_def ParsePairs_render CanonicalSelector_sorted)
qed

text \<open>canonical selectors are fixed points: parsing and canonicalising a string that
  \<open>CanonicalSelector\<close> produced gives that string back, so the cache key and the on-chain key of a
  selector do not depend on how often it was normalized.\<close>

theorem canonical_selector_idempotent:
  assumes "CanonicalSelector U pairs = Inr s"
  shows "ParseSelectorString U s = Inr s"
  by (rule ParseSelectorString_canonical [OF assms])

theorem canonical_selector_idempotent_witness:
  "ParseSelectorString ascii_only ''port=25&transport=TCP'' = Inr ''port=25&transport=TCP''"
  using canonical_selector_idempotent [OF sample_canonical(1)] .

text \<open>no two meanings share a selector string: pair maps that canonicalise to the same string
  hold the same canonical key/value pairs.\<close>

theorem canonical_selector_injective:
  assumes "CanonicalSelector U p1 = Inr s" and "CanonicalSelector U p2 = Inr s"
  shows "canon_pair U ` set p1 = canon_pair U ` set p2"
proof -
  have pairs: "\<exists>c. (c \<noteq> [] \<longrightarrow> ParsePairs U s = Inr (sorted_pairs c)) \<and> (c = [] \<longrightarrow> s = []) \<and>
      canon_pair U ` set p = Inr ` set c \<and> set (sorted_pairs c) = set c"
    if "CanonicalSelector U p = Inr s" for p
    using that
  proof (cases rule: CanonicalSelector_cases)
    case 1
    then show ?thesis by (intro exI [of _ "[]"]) simp
  next
    case (2 canon)
    have "canon_pair U ` set p = Inr ` set canon" using arg_cong [OF 2(4), of set] by simp
    with 2 show ?thesis
      by (intro exI [of _ canon]) (auto simp: ParsePairs_render set_sorted_pairs canon_pairs_def)
  qed
  from pairs [OF assms(1)] obtain c1 where
      c1: "c1 \<noteq> [] \<longrightarrow> ParsePairs U s = Inr (sorted_pairs c1)" "c1 = [] \<longrightarrow> s = []"
        "canon_pair U ` set p1 = Inr ` set c1" "set (sorted_pairs c1) = set c1"
    by (elim exE conjE)
  from pairs [OF assms(2)] obtain c2 where
      c2: "c2 \<noteq> [] \<longrightarrow> ParsePairs U s = Inr (sorted_pairs c2)" "c2 = [] \<longrightarrow> s = []"
        "canon_pair U ` set p2 = Inr ` set c2" "set (sorted_pairs c2) = set c2"
    by (elim exE conjE)
  have nil: "ParsePairs U [] = Inr []" by (simp add: ParsePairs_def)
  have "set c1 = set c2"
    using c1(1,2,4) c2(1,2,4) nil by (cases "c1 = []"; cases "c2 = []") auto
  then show ?thesis using c1(3) c2(3) by simp
qed

theorem canonical_selector_injective_witness:
  "canon_pair ascii_only ` set sample_pairs = canon_pair ascii_only ` set (rev sample_pairs)"
  using canonical_selector_injective [OF sample_canonical] .

text \<open>C37: every query that passes \<open>New\<close> is well formed: its name and type satisfy the grammars
  and its selector is in canonical form; any other input is rejected.\<close>

theorem New_query_wf:
  assumes "New_query U name ty pairs = Inr q"
  shows "wf_query U q \<and> qName q = name \<and> qType q = ty \<and> CanonicalSelector U pairs = Inr (qSelector q)"
  using assms ParseSelectorString_canonical
  by (auto simp: New_query_def rbind_eq_Inr wf_query_def ValidateName_def ValidateType_def split: if_splits)

lemma sample_New_query:
  "New_query ascii_only ''example'' ''SVC'' sample_pairs =
   Inr \<lparr>qName = ''example'', qType = ''SVC'', qSelector = ''port=25&transport=TCP''\<rparr>"
proof -
  have "ValidateName ''example'' = Inr ()"
    by (simp add: ValidateName_def nameRe_def name_edge_def name_char_def is_lower_def in_range_def)
  moreover have "ValidateType ''SVC'' = Inr ()"
    by (simp add: ValidateType_def typeRe_def type_char_def is_upper_def in_range_def)
  ultimately show ?thesis by (simp add: New_query_def sample_canonical(1))
qed

theorem New_query_wf_witness:
  "wf_query ascii_only \<lparr>qName = ''example'', qType = ''SVC'', qSelector = ''port=25&transport=TCP''\<rparr>"
  using New_query_wf [OF sample_New_query] by simp

end
