(* ===== verification/Lru_Interface.thy ===== *)
theory Lru_Interface
  imports Ddns_Prelude
begin

text \<open>
  The bounded LRU of \<open>github.com/hashicorp/golang-lru/v2\<close>, which the cache uses and whose source is
  not part of the repository. Its operations are the record \<open>lru_lib\<close>, a parameter of the cache's
  definitions; an operation that runs the eviction callback returns the entries it passes to it, in
  order. The locale \<open>lru_laws\<close> states the documented behaviour that the cache relies on:
  \<open>Get\<close>, \<open>Add\<close>, \<open>Remove\<close>, \<open>Purge\<close> and \<open>Len\<close> act on a finite map with at most \<open>cap\<close> entries, and the
  callback runs for exactly the entries that leave the map.

  A least-recently-used list satisfies these laws (the interpretation at the end).
\<close>

section \<open>The interface\<close>

record ('k, 'e, 's) lru_lib =
  lru_New :: "int \<Rightarrow> string + 's"
  lru_Get :: "'k \<Rightarrow> 's \<Rightarrow> 's \<times> 'e option"
  lru_Add :: "'k \<Rightarrow> 'e \<Rightarrow> 's \<Rightarrow> 's \<times> ('k \<times> 'e) list"
  lru_Remove :: "'k \<Rightarrow> 's \<Rightarrow> 's \<times> ('k \<times> 'e) list"
  lru_Purge :: "'s \<Rightarrow> 's \<times> ('k \<times> 'e) list"
  lru_Len :: "'s \<Rightarrow> nat"

locale lru_laws =
  fixes L :: "('k, 'e, 's) lru_lib"
    and contents :: "'s \<Rightarrow> 'k \<Rightarrow> 'e option"
    and cap :: "'s \<Rightarrow> nat"
    and linv :: "'s \<Rightarrow> bool"
  assumes new_Inr: "lru_New L n = Inr s \<Longrightarrow> 0 < n \<and> linv s \<and> contents s = Map.empty \<and> cap s = nat n"
    and bounded: "linv s \<Longrightarrow> finite (dom (contents s)) \<and> card (dom (contents s)) \<le> cap s"
    and len: "linv s \<Longrightarrow> lru_Len L s = card (dom (contents s))"
    and get: "linv s \<Longrightarrow> lru_Get L k s = (s', r) \<Longrightarrow>
      linv s' \<and> cap s' = cap s \<and> contents s' = contents s \<and> r = contents s k"
    and add: "linv s \<Longrightarrow> lru_Add L k e s = (s', ev) \<Longrightarrow>
      linv s' \<and> cap s' = cap s \<and> contents s' = (contents s)(k \<mapsto> e) |` (- fst ` set ev) \<and>
      k \<notin> fst ` set ev \<and> fst ` set ev \<subseteq> dom (contents s)"
    and add_room: "linv s \<Longrightarrow> lru_Add L k e s = (s', ev) \<Longrightarrow>
      k \<in> dom (contents s) \<or> card (dom (contents s)) < cap s \<Longrightarrow> ev = []"
    and remove: "linv s \<Longrightarrow> lru_Remove L k s = (s', ev) \<Longrightarrow>
      linv s' \<and> cap s' = cap s \<and> contents s' = (contents s)(k := None) \<and>
      fst ` set ev = {k} \<inter> dom (contents s)"
    and purge: "linv s \<Longrightarrow> lru_Purge L s = (s', ev) \<Longrightarrow>
      linv s' \<and> cap s' = cap s \<and> contents s' = Map.empty \<and> fst ` set ev = dom (contents s)"

section \<open>A least-recently-used list\<close>

text \<open>Capacity and entries, most recently used first.\<close>

type_synonym ('k, 'e) lru_list = "nat \<times> ('k \<times> 'e) list"

definition ll_New :: "int \<Rightarrow> string + ('k, 'e) lru_list" where
  "ll_New n = (if n \<le> 0 then Inl ''must provide a positive size'' else Inr (nat n, []))"

definition ll_Get :: "'k \<Rightarrow> ('k, 'e) lru_list \<Rightarrow> ('k, 'e) lru_list \<times> 'e option" where
  "ll_Get k s =
     (case map_of (snd s) k of
        None \<Rightarrow> (s, None)
      | Some e \<Rightarrow> ((fst s, (k, e) # filter (\<lambda>p. fst p \<noteq> k) (snd s)), Some e))"

definition ll_Add :: "'k \<Rightarrow> 'e \<Rightarrow> ('k, 'e) lru_list \<Rightarrow> ('k, 'e) lru_list \<times> ('k \<times> 'e) list" where
  "ll_Add k e s =
     (let xs = (k, e) # filter (\<lambda>p. fst p \<noteq> k) (snd s)
      in if length xs > fst s then ((fst s, butlast xs), [last xs]) else ((fst s, xs), []))"

definition ll_Remove :: "'k \<Rightarrow> ('k, 'e) lru_list \<Rightarrow> ('k, 'e) lru_list \<times> ('k \<times> 'e) list" where
  "ll_Remove k s = ((fst s, filter (\<lambda>p. fst p \<noteq> k) (snd s)), filter (\<lambda>p. fst p = k) (snd s))"

definition ll_Purge :: "('k, 'e) lru_list \<Rightarrow> ('k, 'e) lru_list \<times> ('k \<times> 'e) list" where
  "ll_Purge s = ((fst s, []), snd s)"

definition list_lru :: "('k, 'e, ('k, 'e) lru_list) lru_lib" where
  "list_lru = \<lparr>lru_New = ll_New, lru_Get = ll_Get, lru_Add = ll_Add, lru_Remove = ll_Remove,
     lru_Purge = ll_Purge, lru_Len = (\<lambda>s. length (snd s))\<rparr>"

definition ll_contents :: "('k, 'e) lru_list \<Rightarrow> 'k \<Rightarrow> 'e option" where
  "ll_contents s = map_of (snd s)"

definition ll_inv :: "('k, 'e) lru_list \<Rightarrow> bool" where
  "ll_inv s = (0 < fst s \<and> length (snd s) \<le> fst s \<and> distinct (map fst (snd s)))"

lemma map_of_filter_ne: "map_of (filter (\<lambda>p. fst p \<noteq> k) xs) = (map_of xs)(k := None)"
  by (induction xs) (auto simp: fun_eq_iff)

lemma distinct_map_fst_filter: "distinct (map fst xs) \<Longrightarrow> distinct (map fst (filter P xs))"
  by (rule distinct_map_filter)

lemma map_of_butlast:
  assumes "distinct (map fst xs)" and "xs \<noteq> []"
  shows "map_of (butlast xs) = map_of xs |` (- {fst (last xs)})"
proof -
  obtain ys y where xs: "xs = ys @ [y]" using assms(2) by (metis rev_exhaust)
  have "fst y \<notin> fst ` set ys" using assms(1) xs by auto
  then show ?thesis
    using xs by (auto simp: fun_eq_iff restrict_map_def map_add_def map_of_eq_None_iff split: option.splits)
qed

lemma length_filter_ne_less: "k \<in> fst ` set xs \<Longrightarrow> length (filter (\<lambda>p. fst p \<noteq> k) xs) < length xs"
proof (induction xs)
  case (Cons x xs)
  show ?case
  proof (cases "fst x = k")
    case True
    then show ?thesis by (simp add: le_imp_less_Suc)
  next
    case False
    with Cons show ?thesis by auto
  qed
qed simp

lemma card_dom_ll: "distinct (map fst xs) \<Longrightarrow> card (dom (map_of xs)) = length xs"
  by (metis distinct_card dom_map_of_conv_image_fst length_map list.set_map)

lemma ll_Add_spec:
  assumes inv: "ll_inv s" and a: "ll_Add k e s = (s', ev)"
  shows "ll_inv s' \<and> fst s' = fst s \<and> ll_contents s' = (ll_contents s)(k \<mapsto> e) |` (- fst ` set ev) \<and>
      k \<notin> fst ` set ev \<and> fst ` set ev \<subseteq> dom (ll_contents s)"
proof -
  let ?f = "filter (\<lambda>p. fst p \<noteq> k) (snd s)"
  let ?xs = "(k, e) # ?f"
  have d: "distinct (map fst ?xs)" using inv by (auto simp: ll_inv_def distinct_map_fst_filter)
  have m: "map_of ?xs = (ll_contents s)(k \<mapsto> e)" by (simp add: ll_contents_def map_of_filter_ne)
  have f: "length ?f \<le> fst s" "0 < fst s"
    using inv le_trans [OF length_filter_le [of "\<lambda>p. fst p \<noteq> k" "snd s"]]
    by (simp_all add: ll_inv_def)
  show ?thesis
  proof (cases "length ?xs > fst s")
    case True
    then have s': "s' = (fst s, butlast ?xs)" "ev = [last ?xs]" and ne: "?f \<noteq> []"
      using a f by (auto simp: ll_Add_def Let_def)
    have lst: "last ?xs \<in> set ?f" using last_in_set [OF ne] ne by simp
    have b: "map_of (butlast ?xs) = map_of ?xs |` (- {fst (last ?xs)})"
      by (rule map_of_butlast [OF d]) simp
    have "ll_contents s' = (ll_contents s)(k \<mapsto> e) |` (- fst ` set ev)"
      by (simp only: s' ll_contents_def snd_conv b list.set image_insert image_empty)
        (simp only: m [unfolded ll_contents_def])
    moreover have "distinct (map fst (butlast ?xs))"
      using d by (metis distinct_butlast map_butlast)
    moreover have "fst (last ?xs) \<in> fst ` set (snd s)" "fst (last ?xs) \<noteq> k"
      using lst by (force, force)
    ultimately show ?thesis
      using s' f by (auto simp: ll_inv_def ll_contents_def dom_map_of_conv_image_fst)
  next
    case False
    then have "s' = (fst s, ?xs)" "ev = []" using a by (auto simp: ll_Add_def Let_def)
    with False d m f show ?thesis
      by (auto simp: ll_inv_def ll_contents_def restrict_map_def fun_eq_iff)
  qed
qed

lemma ll_Add_room:
  assumes "ll_inv s" and "ll_Add k e s = (s', ev)"
    and "k \<in> dom (ll_contents s) \<or> card (dom (ll_contents s)) < fst s"
  shows "ev = []"
proof -
  have "length (filter (\<lambda>p. fst p \<noteq> k) (snd s)) < fst s"
    using assms(3)
  proof
    assume "k \<in> dom (ll_contents s)"
    then have "k \<in> fst ` set (snd s)" by (simp only: ll_contents_def dom_map_of_conv_image_fst)
    from length_filter_ne_less [OF this] show ?thesis using assms(1) by (simp add: ll_inv_def)
  next
    assume "card (dom (ll_contents s)) < fst s"
    then have "length (snd s) < fst s"
      using assms(1) by (simp add: ll_inv_def ll_contents_def card_dom_ll)
    with length_filter_le show ?thesis by (rule le_less_trans)
  qed
  then show ?thesis using assms(2) by (simp add: ll_Add_def Let_def)
qed

lemma ll_Get_spec:
  assumes inv: "ll_inv s" and g: "ll_Get k s = (s', r)"
  shows "ll_inv s' \<and> fst s' = fst s \<and> ll_contents s' = ll_contents s \<and> r = ll_contents s k"
proof (cases "map_of (snd s) k")
  case None
  then show ?thesis using assms by (simp add: ll_Get_def ll_contents_def)
next
  case (Some e)
  then have "k \<in> fst ` set (snd s)" by (metis map_of_eq_None_iff option.distinct(1))
  then have "length (filter (\<lambda>p. fst p \<noteq> k) (snd s)) < fst s"
    using length_filter_ne_less [of k "snd s"] inv by (simp add: ll_inv_def)
  with Some assms show ?thesis
    by (auto simp: ll_Get_def ll_inv_def ll_contents_def map_of_filter_ne distinct_map_fst_filter)
qed

interpretation ll: lru_laws list_lru ll_contents fst ll_inv
proof (unfold_locales, goal_cases)
  case (1 n s)
  then show ?case
    by (auto simp: list_lru_def ll_New_def ll_inv_def ll_contents_def split: if_splits)
next
  case (2 s)
  then show ?case
    by (simp add: ll_contents_def ll_inv_def card_dom_ll finite_dom_map_of)
next
  case (3 s)
  then show ?case
    by (simp add: list_lru_def ll_contents_def ll_inv_def card_dom_ll)
next
  case (4 s k s' r)
  then show ?case using ll_Get_spec by (simp add: list_lru_def)
next
  case (5 s k e s' ev)
  then have "ll_inv s" "ll_Add k e s = (s', ev)" by (simp_all add: list_lru_def)
  then show ?case by (rule ll_Add_spec)
next
  case (6 s k e s' ev)
  then show ?case using ll_Add_room by (simp add: list_lru_def)
next
  case (7 s k s' ev)
  then show ?case
    by (auto simp: le_trans [OF length_filter_le] list_lru_def ll_Remove_def ll_inv_def ll_contents_def map_of_filter_ne distinct_map_fst_filter
        dom_map_of_conv_image_fst)
next
  case (8 s s' ev)
  then show ?case
    by (auto simp: list_lru_def ll_Purge_def ll_inv_def ll_contents_def dom_map_of_conv_image_fst)
qed

end
