(* ===== verification/Chain_Types.thy ===== *)
theory Chain_Types
  imports Ddns_Prelude
begin

text \<open>
  The resolver-level data of src/resolver/internal/chain/types.go: records, resolve results,
  domains and contract events, the lookup of a field by name, and the conversion from the
  generated contract binding.
\<close>

section \<open>Definitions\<close>

record chain_record =
  rType :: string
  rSelector :: string
  rFieldNames :: "string list"
  rFieldVals :: "string list"
  rTTL :: "32 word"
  rGeneration :: "64 word"
  rOwnerSig :: bytes
  rCommitment :: hash32
  rExists :: bool

text \<open>The loop of \<open>Record.Field\<close>: the first field with the name decides; a value array that is too
  short yields "absent".\<close>

fun Field_loop :: "string \<Rightarrow> string list \<Rightarrow> string list \<Rightarrow> string option" where
  "Field_loop name [] vals = None"
| "Field_loop name (n # ns) vals =
     (if n = name then (case vals of [] \<Rightarrow> None | v # _ \<Rightarrow> Some v) else Field_loop name ns (tl vals))"

definition Field :: "chain_record \<Rightarrow> string \<Rightarrow> string option" where
  "Field r name = Field_loop name (rFieldNames r) (rFieldVals r)"

record resolve_result =
  resRecord :: chain_record
  resOwner :: address
  resPubKey :: bytes
  resOwnerSigValid :: bool
  resZKProof :: bytes

record chain_domain =
  dOwner :: address
  dPubKey :: bytes
  dExpiry :: "64 word"
  dGeneration :: "64 word"

datatype event_kind = EventRecordSet | EventRecordRemoved | EventTransferred | EventRegistered

record record_event =
  evKind :: event_kind
  evName :: string
  evNameHash :: hash32
  evRecordType :: string
  evSelector :: string
  evBlock :: "64 word"

text \<open>The struct that abigen generates for the contract's records.\<close>

record dapp_record =
  bRecordType :: string
  bSelector :: string
  bFieldNames :: "string list"
  bFieldValues :: "string list"
  bTtl :: "32 word"
  bGeneration :: "64 word"
  bOwnerSig :: bytes
  bCommitment :: hash32
  bExists :: bool

definition fromBinding :: "dapp_record \<Rightarrow> chain_record" where
  "fromBinding r =
     \<lparr>rType = bRecordType r, rSelector = bSelector r, rFieldNames = bFieldNames r,
      rFieldVals = bFieldValues r, rTTL = bTtl r, rGeneration = bGeneration r,
      rOwnerSig = bOwnerSig r, rCommitment = bCommitment r, rExists = bExists r\<rparr>"

definition zero_address :: address where "zero_address = replicate 20 0"
definition zero_hash :: hash32 where "zero_hash = replicate 32 0"

section \<open>Facts\<close>

lemma Field_loop_map_of: "length ns \<le> length vals \<Longrightarrow> Field_loop name ns vals = map_of (zip ns vals) name"
proof (induction name ns vals rule: Field_loop.induct)
  case (2 name n ns vals)
  then show ?case by (cases vals) auto
qed simp

text \<open>On records whose arrays have equal lengths, \<open>Field\<close> is lookup in the name/value pairs.\<close>

lemma Field_map_of:
  "length (rFieldNames r) = length (rFieldVals r) \<Longrightarrow>
   Field r name = map_of (zip (rFieldNames r) (rFieldVals r)) name"
  by (simp add: Field_def Field_loop_map_of)

end
