(* ===== verification/Ttl_Cache.thy ===== *)
theory Ttl_Cache
  imports Lru_Interface Chain_Types
begin

text \<open>
  The resolver's answer cache, src/resolver/internal/cache: a bounded LRU whose entries expire after
  the record's TTL, with two indexes (name to live keys, hash to name) that serve the invalidation
  driven by contract events.

  The state is the record \<open>ttl_cache\<close>; every operation runs in one critical section of the cache's
  mutex, so an operation is one function on the state. The clock reading is an argument, in
  nanoseconds. What the package takes from elsewhere is the record \<open>cache_env\<close>: the LRU of
  golang-lru, keccak256, and the order in which a Go map is traversed.
\<close>

section \<open>State and operations\<close>

record cache_key =
  kName :: string
  kType :: string
  kSelector :: string

record 'v centry =
  ce_value :: 'v
  ce_expiresAt :: int

record 's ttl_cache =
  c_lru :: 's
  c_capacity :: int
  c_nameKeys :: "string \<Rightarrow> cache_key list option"
  c_hashNames :: "hash32 \<Rightarrow> string option"
  c_hits :: "64 word"
  c_misses :: "64 word"
  c_evictions :: "64 word"

record ('v, 's) cache_env =
  env_lru :: "(cache_key, 'v centry, 's) lru_lib"
  env_keccak :: "bytes \<Rightarrow> hash32"
  env_order :: "cache_key list \<Rightarrow> cache_key list"

record cache_stats =
  st_Hits :: "64 word"
  st_Misses :: "64 word"
  st_Evictions :: "64 word"
  st_Entries :: nat
  st_Capacity :: int

definition nameHash :: "('v, 's) cache_env \<Rightarrow> string \<Rightarrow> hash32" where
  "nameHash E name = env_keccak E (str_bytes name)"

definition cache_New :: "('v, 's) cache_env \<Rightarrow> int \<Rightarrow> string + 's ttl_cache" where
  "cache_New E capacity =
     rbind (lru_New (env_lru E) capacity) (\<lambda>inner.
       Inr \<lparr>c_lru = inner, c_capacity = capacity, c_nameKeys = Map.empty, c_hashNames = Map.empty,
            c_hits = 0, c_misses = 0, c_evictions = 0\<rparr>)"

definition dropFromIndex :: "('v, 's) cache_env \<Rightarrow> cache_key \<Rightarrow> 's ttl_cache \<Rightarrow> 's ttl_cache" where
  "dropFromIndex E k c =
     (case c_nameKeys c (kName k) of
        None \<Rightarrow> c
      | Some keys \<Rightarrow>
          (let keys' = removeAll k keys
           in if keys' = []
              then c\<lparr>c_nameKeys := (c_nameKeys c)(kName k := None),
                     c_hashNames := (c_hashNames c)(nameHash E (kName k) := None)\<rparr>
              else c\<lparr>c_nameKeys := (c_nameKeys c)(kName k \<mapsto> keys')\<rparr>))"

text \<open>The eviction callback, and its runs for the entries an LRU operation hands to it.\<close>

definition on_evict :: "('v, 's) cache_env \<Rightarrow> cache_key \<Rightarrow> 's ttl_cache \<Rightarrow> 's ttl_cache" where
  "on_evict E k c = dropFromIndex E k (c\<lparr>c_evictions := c_evictions c + 1\<rparr>)"

definition fire :: "('v, 's) cache_env \<Rightarrow> (cache_key \<times> 'v centry) list \<Rightarrow> 's ttl_cache \<Rightarrow> 's ttl_cache" where
  "fire E evicted c = fold (\<lambda>p. on_evict E (fst p)) evicted c"

definition cache_lru_Remove :: "('v, 's) cache_env \<Rightarrow> cache_key \<Rightarrow> 's ttl_cache \<Rightarrow> 's ttl_cache" where
  "cache_lru_Remove E k c =
     (let (s, evicted) = lru_Remove (env_lru E) k (c_lru c) in fire E evicted (c\<lparr>c_lru := s\<rparr>))"

definition cache_Get ::
  "('v, 's) cache_env \<Rightarrow> int \<Rightarrow> cache_key \<Rightarrow> 's ttl_cache \<Rightarrow> 's ttl_cache \<times> 'v option" where
  "cache_Get E now k c =
     (let (s, e) = lru_Get (env_lru E) k (c_lru c); c = c\<lparr>c_lru := s\<rparr>
      in case e of
           None \<Rightarrow> (c\<lparr>c_misses := c_misses c + 1\<rparr>, None)
         | Some e \<Rightarrow>
             if ce_expiresAt e < now
             then (let c = cache_lru_Remove E k c in (c\<lparr>c_misses := c_misses c + 1\<rparr>, None))
             else (c\<lparr>c_hits := c_hits c + 1\<rparr>, Some (ce_value e)))"

definition cache_Set ::
  "('v, 's) cache_env \<Rightarrow> int \<Rightarrow> cache_key \<Rightarrow> 'v \<Rightarrow> int \<Rightarrow> 's ttl_cache \<Rightarrow> 's ttl_cache" where
  "cache_Set E now k v ttl c =
     (let c = (case c_nameKeys c (kName k) of
                 None \<Rightarrow> c\<lparr>c_nameKeys := (c_nameKeys c)(kName k \<mapsto> [k]),
                           c_hashNames := (c_hashNames c)(nameHash E (kName k) \<mapsto> kName k)\<rparr>
               | Some keys \<Rightarrow> c\<lparr>c_nameKeys := (c_nameKeys c)(kName k \<mapsto> List.insert k keys)\<rparr>);
          (s, evicted) = lru_Add (env_lru E) k \<lparr>ce_value = v, ce_expiresAt = now + ttl\<rparr> (c_lru c)
      in fire E evicted (c\<lparr>c_lru := s\<rparr>))"

definition invalidateNameLocked :: "('v, 's) cache_env \<Rightarrow> string \<Rightarrow> 's ttl_cache \<Rightarrow> 's ttl_cache" where
  "invalidateNameLocked E name c =
     (let keys = (case c_nameKeys c name of None \<Rightarrow> [] | Some ks \<Rightarrow> env_order E ks)
      in fold (cache_lru_Remove E) keys c)"

definition InvalidateName :: "('v, 's) cache_env \<Rightarrow> string \<Rightarrow> 's ttl_cache \<Rightarrow> 's ttl_cache" where
  "InvalidateName E name c = invalidateNameLocked E name c"

definition InvalidateNameHash :: "('v, 's) cache_env \<Rightarrow> hash32 \<Rightarrow> 's ttl_cache \<Rightarrow> 's ttl_cache" where
  "InvalidateNameHash E hash c =
     (case c_hashNames c hash of None \<Rightarrow> c | Some name \<Rightarrow> invalidateNameLocked E name c)"

definition Flush :: "('v, 's) cache_env \<Rightarrow> 's ttl_cache \<Rightarrow> 's ttl_cache" where
  "Flush E c =
     (let (s, evicted) = lru_Purge (env_lru E) (c_lru c); c = fire E evicted (c\<lparr>c_lru := s\<rparr>)
      in c\<lparr>c_nameKeys := Map.empty, c_hashNames := Map.empty\<rparr>)"

definition HandleEvent :: "('v, 's) cache_env \<Rightarrow> record_event \<Rightarrow> 's ttl_cache \<Rightarrow> 's ttl_cache" where
  "HandleEvent E ev c =
     (case evKind ev of
        EventTransferred \<Rightarrow> InvalidateNameHash E (evNameHash ev) c
      | _ \<Rightarrow> InvalidateName E (evName ev) c)"

definition cache_Stats :: "('v, 's) cache_env \<Rightarrow> 's ttl_cache \<Rightarrow> cache_stats" where
  "cache_Stats E c =
     \<lparr>st_Hits = c_hits c, st_Misses = c_misses c, st_Evictions = c_evictions c,
      st_Entries = lru_Len (env_lru E) (c_lru c), st_Capacity = c_capacity c\<rparr>"

text \<open>A run of the cache: operations in the order in which they acquire the mutex.\<close>

datatype 'v cache_op =
    OpGet int cache_key
  | OpSet int cache_key 'v int
  | OpInvalidateName string
  | OpEvent record_event
  | OpFlush

fun cache_step :: "('v, 's) cache_env \<Rightarrow> 'v cache_op \<Rightarrow> 's ttl_cache \<Rightarrow> 's ttl_cache" where
  "cache_step E (OpGet now k) c = fst (cache_Get E now k c)"
| "cache_step E (OpSet now k v ttl) c = cache_Set E now k v ttl c"
| "cache_step E (OpInvalidateName n) c = InvalidateName E n c"
| "cache_step E (OpEvent ev) c = HandleEvent E ev c"
| "cache_step E OpFlush c = Flush E c"

definition cache_run :: "('v, 's) cache_env \<Rightarrow> 'v cache_op list \<Rightarrow> 's ttl_cache \<Rightarrow> 's ttl_cache" where
  "cache_run E ops c = fold (cache_step E) ops c"

text \<open>
  The specification: an unbounded map from keys to entries. An event removes the entries whose name
  (or whose name's hash, for a transfer) it carries.
\<close>

definition event_hits :: "('v, 's) cache_env \<Rightarrow> record_event \<Rightarrow> cache_key \<Rightarrow> bool" where
  "event_hits E ev k =
     (if evKind ev = EventTransferred then nameHash E (kName k) = evNameHash ev else kName k = evName ev)"

fun spec_step ::
  "('v, 's) cache_env \<Rightarrow> 'v cache_op \<Rightarrow> (cache_key \<Rightarrow> 'v centry option) \<Rightarrow> cache_key \<Rightarrow> 'v centry option" where
  "spec_step E (OpGet now k) m =
     (case m k of Some e \<Rightarrow> if ce_expiresAt e < now then m(k := None) else m | None \<Rightarrow> m)"
| "spec_step E (OpSet now k v ttl) m = m(k \<mapsto> \<lparr>ce_value = v, ce_expiresAt = now + ttl\<rparr>)"
| "spec_step E (OpInvalidateName n) m = m |` {k. kName k \<noteq> n}"
| "spec_step E (OpEvent ev) m = m |` {k. \<not> event_hits E ev k}"
| "spec_step E OpFlush m = Map.empty"

fun set_keys :: "'v cache_op \<Rightarrow> cache_key set" where
  "set_keys (OpSet now k v ttl) = {k}"
| "set_keys _ = {}"

fun is_get :: "'v cache_op \<Rightarrow> bool" where
  "is_get (OpGet now k) = True"
| "is_get _ = False"

definition names_in :: "string set \<Rightarrow> 'v cache_op list \<Rightarrow> bool" where
  "names_in N ops \<longleftrightarrow> list_all (\<lambda>op. kName ` set_keys op \<subseteq> N) ops"

section \<open>The interface the server uses\<close>

text \<open>
  What a user of the cache may rely on: \<open>get\<close> returns exactly the stored, unexpired value, \<open>store\<close> stores
  it and may forget other entries, \<open>push\<close> removes the entries an event concerns, \<open>forget\<close> those of a name,
  \<open>flush\<close> all. From this follows that any
  property of the entries that holds when they are stored holds of every answer taken from the cache.
\<close>

locale answer_cache =
  fixes get :: "int \<Rightarrow> cache_key \<Rightarrow> 'c \<Rightarrow> 'c \<times> 'v option"
    and store :: "int \<Rightarrow> cache_key \<Rightarrow> 'v \<Rightarrow> int \<Rightarrow> 'c \<Rightarrow> 'c"
    and push :: "record_event \<Rightarrow> 'c \<Rightarrow> 'c"
    and forget :: "string \<Rightarrow> 'c \<Rightarrow> 'c"
    and flush :: "'c \<Rightarrow> 'c"
    and valid :: "'c \<Rightarrow> bool"
    and stored :: "'c \<Rightarrow> cache_key \<Rightarrow> 'v centry option"
    and concerns :: "record_event \<Rightarrow> cache_key \<Rightarrow> bool"
    and names :: "string set"
  assumes get_hit: "valid c \<Longrightarrow> get now k c = (c', Some v) \<Longrightarrow>
      stored c' = stored c \<and> (\<exists>e. stored c k = Some e \<and> ce_value e = v \<and> now \<le> ce_expiresAt e)"
    and get_miss: "valid c \<Longrightarrow> get now k c = (c', None) \<Longrightarrow> stored c' = (stored c)(k := None)"
    and get_valid: "valid c \<Longrightarrow> get now k c = (c', r) \<Longrightarrow> valid c'"
    and store_valid: "valid c \<Longrightarrow> kName k \<in> names \<Longrightarrow> valid (store now k v ttl c)"
    and store_stored: "valid c \<Longrightarrow> kName k \<in> names \<Longrightarrow>
      stored (store now k v ttl c) k = Some \<lparr>ce_value = v, ce_expiresAt = now + ttl\<rparr> \<and>
      stored (store now k v ttl c) \<subseteq>\<^sub>m (stored c)(k \<mapsto> \<lparr>ce_value = v, ce_expiresAt = now + ttl\<rparr>)"
    and push_valid: "valid c \<Longrightarrow> valid (push ev c)"
    and push_stored: "valid c \<Longrightarrow> stored (push ev c) = stored c |` {k. \<not> concerns ev k}"
    and forget_valid: "valid c \<Longrightarrow> valid (forget n c)"
    and forget_stored: "valid c \<Longrightarrow> stored (forget n c) = stored c |` {k. kName k \<noteq> n}"
    and flush_valid: "valid c \<Longrightarrow> valid (flush c)"
    and flush_stored: "valid c \<Longrightarrow> stored (flush c) = Map.empty"
begin

lemma get_entries:
  assumes "valid c" "get now k c = (c', r)"
  shows "stored c' \<subseteq>\<^sub>m stored c"
proof (cases r)
  case None
  then show ?thesis using get_miss assms by (fastforce simp: map_le_def)
next
  case (Some v)
  then show ?thesis using get_hit assms by (simp add: map_le_refl)
qed

lemma store_entries:
  assumes "valid c" "kName k \<in> names"
    and "\<And>j e. stored c j = Some e \<Longrightarrow> P j e" and "P k \<lparr>ce_value = v, ce_expiresAt = now + ttl\<rparr>"
    and "stored (store now k v ttl c) j = Some e"
  shows "P j e"
proof -
  have "((stored c)(k \<mapsto> \<lparr>ce_value = v, ce_expiresAt = now + ttl\<rparr>)) j = Some e"
    using store_stored [OF assms(1,2)] assms(5) by (metis domI map_le_def)
  then show ?thesis using assms(3,4) by (cases "j = k") simp_all
qed

end

section \<open>The index invariant\<close>

text \<open>
  \<open>index_keys c n\<close> are the keys the index holds for a name. The index is exact when it lists
  precisely the keys stored in the LRU, without empty buckets. The hash index is exact when it maps
  the hashes of precisely the indexed names back to them; that needs the hash to be free of
  collisions on the names \<open>N\<close> the cache has seen, and no more.
\<close>

definition index_keys :: "'s ttl_cache \<Rightarrow> string \<Rightarrow> cache_key set" where
  "index_keys c n = (case c_nameKeys c n of None \<Rightarrow> {} | Some ks \<Rightarrow> set ks)"

definition index_exact :: "cache_key set \<Rightarrow> 's ttl_cache \<Rightarrow> bool" where
  "index_exact D c \<longleftrightarrow>
     (\<forall>n. index_keys c n = {k \<in> D. kName k = n} \<and> c_nameKeys c n \<noteq> Some [])"

definition hash_exact :: "('v, 's) cache_env \<Rightarrow> string set \<Rightarrow> 's ttl_cache \<Rightarrow> bool" where
  "hash_exact E N c \<longleftrightarrow>
     dom (c_nameKeys c) \<subseteq> N \<and>
     (\<forall>h n. c_hashNames c h = Some n \<longleftrightarrow> h = nameHash E n \<and> n \<in> dom (c_nameKeys c))"

definition map_order :: "('v, 's) cache_env \<Rightarrow> bool" where
  "map_order E \<longleftrightarrow> (\<forall>ks. mset (env_order E ks) = mset ks)"

definition cache_ok ::
  "('v, 's) cache_env \<Rightarrow> ('s \<Rightarrow> cache_key \<Rightarrow> 'v centry option) \<Rightarrow> ('s \<Rightarrow> nat) \<Rightarrow> ('s \<Rightarrow> bool) \<Rightarrow>
   string set \<Rightarrow> 's ttl_cache \<Rightarrow> bool" where
  "cache_ok E contents cap linv N c \<longleftrightarrow>
     linv (c_lru c) \<and> int (cap (c_lru c)) = c_capacity c \<and>
     index_exact (dom (contents (c_lru c))) c \<and> hash_exact E N c"

lemma index_exactI:
  assumes "\<And>n. c_nameKeys c n = None \<Longrightarrow> {k \<in> D. kName k = n} = {}"
    and "\<And>n ks. c_nameKeys c n = Some ks \<Longrightarrow> ks \<noteq> [] \<and> set ks = {k \<in> D. kName k = n}"
  shows "index_exact D c"
  using assms unfolding index_exact_def index_keys_def by (simp split: option.split)

lemma index_exact_None: "index_exact D c \<Longrightarrow> c_nameKeys c n = None \<Longrightarrow> {k \<in> D. kName k = n} = {}"
  unfolding index_exact_def index_keys_def by (metis option.simps(4))

lemma index_exact_Some:
  "index_exact D c \<Longrightarrow> c_nameKeys c n = Some ks \<Longrightarrow> ks \<noteq> [] \<and> set ks = {k \<in> D. kName k = n}"
  unfolding index_exact_def index_keys_def by (metis option.simps(5))

lemma index_exact_dom: "index_exact D c \<Longrightarrow> dom (c_nameKeys c) = kName ` D"
proof (rule set_eqI)
  fix n assume a: "index_exact D c"
  show "n \<in> dom (c_nameKeys c) \<longleftrightarrow> n \<in> kName ` D"
  proof (cases "c_nameKeys c n")
    case None
    then show ?thesis using index_exact_None [OF a None] by auto
  next
    case (Some ks)
    then have "ks \<noteq> []" "set ks = {k \<in> D. kName k = n}" using index_exact_Some [OF a Some] by simp_all
    then have "{k \<in> D. kName k = n} \<noteq> {}" by (metis set_empty)
    then show ?thesis using Some by auto
  qed
qed

lemma index_exact_lru [simp]: "index_exact D (c\<lparr>c_lru := s\<rparr>) = index_exact D c"
  by (simp add: index_exact_def index_keys_def)

lemma hash_exact_lru [simp]: "hash_exact E N (c\<lparr>c_lru := s\<rparr>) = hash_exact E N c"
  by (simp add: hash_exact_def)

lemma index_exact_counters [simp]:
  "index_exact D (c\<lparr>c_hits := a\<rparr>) = index_exact D c"
  "index_exact D (c\<lparr>c_misses := a\<rparr>) = index_exact D c"
  "index_exact D (c\<lparr>c_evictions := a\<rparr>) = index_exact D c"
  by (simp_all add: index_exact_def index_keys_def)

lemma hash_exact_counters [simp]:
  "hash_exact E N (c\<lparr>c_hits := a\<rparr>) = hash_exact E N c"
  "hash_exact E N (c\<lparr>c_misses := a\<rparr>) = hash_exact E N c"
  "hash_exact E N (c\<lparr>c_evictions := a\<rparr>) = hash_exact E N c"
  by (simp_all add: hash_exact_def)

lemma dropFromIndex_keeps [simp]:
  "c_lru (dropFromIndex E k c) = c_lru c" "c_capacity (dropFromIndex E k c) = c_capacity c"
  "c_hits (dropFromIndex E k c) = c_hits c" "c_misses (dropFromIndex E k c) = c_misses c"
  by (simp_all add: dropFromIndex_def Let_def split: option.splits)

lemma dropFromIndex_index:
  assumes a: "index_exact D c"
  shows "index_exact (D - {k}) (dropFromIndex E k c)"
proof (cases "c_nameKeys c (kName k)")
  case None
  then have "k \<notin> D" using index_exact_None [OF a None] by auto
  then show ?thesis using a None by (simp add: dropFromIndex_def)
next
  case (Some ks)
  then have ks: "set ks = {j \<in> D. kName j = kName k}" using index_exact_Some [OF a Some] by simp
  have emp: "removeAll k ks = [] \<longleftrightarrow> set ks - {k} = {}" by (metis set_empty set_removeAll)
  show ?thesis
  proof (rule index_exactI)
    fix n assume n: "c_nameKeys (dropFromIndex E k c) n = None"
    show "{j \<in> D - {k}. kName j = n} = {}"
    proof (cases "n = kName k")
      case True
      then have "removeAll k ks = []" using n Some by (simp add: dropFromIndex_def Let_def split: if_splits)
      then have "set ks - {k} = {}" by (simp only: emp)
      then have "{j \<in> D. kName j = n} \<subseteq> {k}" unfolding ks True by blast
      then show ?thesis by blast
    next
      case False
      then have "c_nameKeys c n = None"
        using n Some by (simp add: dropFromIndex_def Let_def split: if_splits)
      then show ?thesis using index_exact_None [OF a] by blast
    qed
  next
    fix n l assume n: "c_nameKeys (dropFromIndex E k c) n = Some l"
    show "l \<noteq> [] \<and> set l = {j \<in> D - {k}. kName j = n}"
    proof (cases "n = kName k")
      case True
      then have l: "l = removeAll k ks" "l \<noteq> []"
        using n Some by (simp_all add: dropFromIndex_def Let_def split: if_splits)
      then have "set l = {j \<in> D. kName j = kName k} - {k}" by (simp only: set_removeAll ks)
      then show ?thesis using l(2) True by blast
    next
      case False
      then have "c_nameKeys c n = Some l"
        using n Some by (auto simp: dropFromIndex_def Let_def split: if_splits)
      then show ?thesis using index_exact_Some [OF a] False by auto
    qed
  qed
qed

lemma dropFromIndex_hash:
  assumes h: "hash_exact E N c" and i: "inj_on (nameHash E) N"
  shows "hash_exact E N (dropFromIndex E k c)"
proof (cases "c_nameKeys c (kName k)")
  case None
  then show ?thesis using h by (simp add: dropFromIndex_def)
next
  case (Some ks)
  then have k: "kName k \<in> N" using h by (auto simp: hash_exact_def)
  have eq: "n = kName k" if "nameHash E (kName k) = nameHash E n" "n \<in> dom (c_nameKeys c)" for n
    using that i k h by (metis hash_exact_def inj_on_def subsetD)
  show ?thesis
  proof (cases "removeAll k ks = []")
    case True
    then have "c_nameKeys (dropFromIndex E k c) = (c_nameKeys c)(kName k := None)"
      "c_hashNames (dropFromIndex E k c) = (c_hashNames c)(nameHash E (kName k) := None)"
      using Some by (simp_all add: dropFromIndex_def)
    then show ?thesis using h eq unfolding hash_exact_def by auto
  next
    case False
    then have "c_nameKeys (dropFromIndex E k c) = (c_nameKeys c)(kName k \<mapsto> removeAll k ks)"
      "c_hashNames (dropFromIndex E k c) = c_hashNames c"
      using Some by (simp_all add: dropFromIndex_def Let_def)
    moreover have "dom ((c_nameKeys c)(kName k \<mapsto> removeAll k ks)) = dom (c_nameKeys c)"
      using Some by auto
    ultimately show ?thesis using h unfolding hash_exact_def by simp
  qed
qed

lemma on_evict_keeps [simp]:
  "c_lru (on_evict E k c) = c_lru c" "c_capacity (on_evict E k c) = c_capacity c"
  "c_hits (on_evict E k c) = c_hits c" "c_misses (on_evict E k c) = c_misses c"
  by (simp_all add: on_evict_def)

lemma fire_keeps [simp]:
  "c_lru (fire E ev c) = c_lru c" "c_capacity (fire E ev c) = c_capacity c"
  "c_hits (fire E ev c) = c_hits c" "c_misses (fire E ev c) = c_misses c"
  unfolding fire_def by (induction ev arbitrary: c) simp_all

lemma fire_index: "index_exact D c \<Longrightarrow> index_exact (D - fst ` set ev) (fire E ev c)"
proof (induction ev arbitrary: c D)
  case (Cons p ev)
  have "index_exact (D - {fst p}) (on_evict E (fst p) c)"
    using Cons.prems by (simp add: on_evict_def dropFromIndex_index)
  from Cons.IH [OF this] show ?case by (simp add: fire_def Diff_insert2 [symmetric])
qed (simp add: fire_def)

lemma fire_hash: "hash_exact E N c \<Longrightarrow> inj_on (nameHash E) N \<Longrightarrow> hash_exact E N (fire E ev c)"
proof (induction ev arbitrary: c)
  case (Cons p ev)
  have "hash_exact E N (on_evict E (fst p) c)"
    using Cons.prems by (simp add: on_evict_def dropFromIndex_hash)
  from Cons.IH [OF this Cons.prems(2)] show ?case by (simp add: fire_def)
qed (simp add: fire_def)

lemma Remove_capacity [simp]: "c_capacity (cache_lru_Remove E k c) = c_capacity c"
  by (simp add: cache_lru_Remove_def split: prod.split)

lemma Removes_capacity [simp]: "c_capacity (fold (cache_lru_Remove E) ks c) = c_capacity c"
  by (induction ks arbitrary: c) simp_all

lemma cache_step_capacity: "c_capacity (cache_step E op c) = c_capacity c"
  by (cases op)
    (simp_all add: cache_Get_def cache_Set_def InvalidateName_def invalidateNameLocked_def HandleEvent_def
      InvalidateNameHash_def Flush_def Let_def split: prod.split option.split event_kind.split)

lemma cache_run_capacity: "c_capacity (cache_run E ops c) = c_capacity c"
  unfolding cache_run_def by (induction ops arbitrary: c) (simp_all add: cache_step_capacity)

section \<open>What the operations do to the stored answers\<close>

text \<open>
  The cache over an LRU that satisfies the laws. \<open>view c\<close> is the stored map from keys to entries;
  each operation keeps \<open>cache_ok\<close> and acts on \<open>view\<close> as stated.
\<close>

locale lru_cache = lru_laws "env_lru E" contents cap linv
  for E :: "('v, 's) cache_env" and contents :: "'s \<Rightarrow> cache_key \<Rightarrow> 'v centry option" and cap linv +
  fixes N :: "string set"
  assumes order: "map_order E"
    and collision_free: "inj_on (nameHash E) N"
begin

abbreviation (input) ok :: "'s ttl_cache \<Rightarrow> bool" where
  "ok c \<equiv> cache_ok E contents cap linv N c"

abbreviation (input) view :: "'s ttl_cache \<Rightarrow> cache_key \<Rightarrow> 'v centry option" where
  "view c \<equiv> contents (c_lru c)"

lemma remove_spec:
  assumes "ok c"
  shows "ok (cache_lru_Remove E k c) \<and> view (cache_lru_Remove E k c) = (view c)(k := None) \<and>
    c_hits (cache_lru_Remove E k c) = c_hits c \<and> c_misses (cache_lru_Remove E k c) = c_misses c"
proof -
  obtain s ev where r: "lru_Remove (env_lru E) k (c_lru c) = (s, ev)" by fastforce
  have inv: "linv (c_lru c)" and idx: "index_exact (dom (view c)) c" and h: "hash_exact E N c"
    using assms by (simp_all add: cache_ok_def)
  note p = remove [OF inv r]
  have "index_exact (dom (view c) - fst ` set ev) (fire E ev (c\<lparr>c_lru := s\<rparr>))"
    using idx by (intro fire_index) simp
  moreover have "dom (view c) - fst ` set ev = dom (contents s)" using p by auto
  ultimately show ?thesis
    using assms p h collision_free
    by (simp add: cache_ok_def cache_lru_Remove_def r fire_hash)
qed

lemma removes_spec:
  "ok c \<Longrightarrow> ok (fold (cache_lru_Remove E) ks c) \<and>
     view (fold (cache_lru_Remove E) ks c) = view c |` (- set ks) \<and>
     c_hits (fold (cache_lru_Remove E) ks c) = c_hits c \<and>
     c_misses (fold (cache_lru_Remove E) ks c) = c_misses c"
proof (induction ks arbitrary: c)
  case (Cons k ks)
  note r = remove_spec [OF Cons.prems, of k]
  then have "ok (cache_lru_Remove E k c)" by blast
  note ih = Cons.IH [OF this]
  have "(view c)(k := None) |` (- set ks) = view c |` (- set (k # ks))"
    by (auto simp: restrict_map_def fun_eq_iff)
  with r ih show ?case by (simp only: fold_simps simp_thms)
qed (simp add: restrict_map_def)

lemma invalidate_spec:
  assumes "ok c"
  shows "ok (invalidateNameLocked E name c) \<and>
    view (invalidateNameLocked E name c) = view c |` {k. kName k \<noteq> name} \<and>
    c_hits (invalidateNameLocked E name c) = c_hits c \<and>
    c_misses (invalidateNameLocked E name c) = c_misses c"
proof -
  define ks where "ks = (case c_nameKeys c name of None \<Rightarrow> [] | Some l \<Rightarrow> env_order E l)"
  have "set (env_order E l) = set l" for l
    using order by (metis map_order_def mset_eq_setD)
  then have "set ks = index_keys c name"
    by (simp add: ks_def index_keys_def split: option.split)
  also have "\<dots> = {k \<in> dom (view c). kName k = name}"
    using assms by (simp add: cache_ok_def index_exact_def)
  finally have "view c |` (- set ks) = view c |` {k. kName k \<noteq> name}"
    by (auto simp: restrict_map_def fun_eq_iff)
  then show ?thesis
    using removes_spec [OF assms, of ks] by (simp add: invalidateNameLocked_def ks_def)
qed

lemma get_spec:
  assumes "ok c" and g: "cache_Get E now k c = (c', r)"
  shows "ok c' \<and>
    r = (case view c k of None \<Rightarrow> None
         | Some e \<Rightarrow> if ce_expiresAt e < now then None else Some (ce_value e)) \<and>
    view c' = (if r = None then (view c)(k := None) else view c) \<and>
    c_hits c' = c_hits c + (if r = None then 0 else 1) \<and>
    c_misses c' = c_misses c + (if r = None then 1 else 0)"
proof -
  obtain s e where l: "lru_Get (env_lru E) k (c_lru c) = (s, e)" by fastforce
  have "linv (c_lru c)" using assms(1) by (simp add: cache_ok_def)
  note p = get [OF this l]
  define d where "d = c\<lparr>c_lru := s\<rparr>"
  have d: "ok d" "view d = view c" "c_hits d = c_hits c" "c_misses d = c_misses c"
    using assms(1) p by (simp_all add: d_def cache_ok_def)
  note rm = remove_spec [OF d(1), of k]
  have upd: "ok (x\<lparr>c_hits := a\<rparr>) = ok x" "ok (x\<lparr>c_misses := a\<rparr>) = ok x" for x a
    by (simp_all add: cache_ok_def)
  show ?thesis
  proof (cases "view c k")
    case None
    then have "(view c)(k := None) = view c" by (auto simp: fun_eq_iff)
    moreover have "c' = d\<lparr>c_misses := c_misses d + 1\<rparr>" "r = None"
      using g p None by (simp_all add: cache_Get_def l d_def)
    ultimately show ?thesis using d None upd by simp
  next
    case (Some x)
    then have "(c', r) = (if ce_expiresAt x < now
        then (let c = cache_lru_Remove E k d in (c\<lparr>c_misses := c_misses c + 1\<rparr>, None))
        else (d\<lparr>c_hits := c_hits d + 1\<rparr>, Some (ce_value x)))"
      using g p by (simp only: cache_Get_def l d_def prod.case Let_def option.case)
    then show ?thesis
      using d rm upd Some by (cases "ce_expiresAt x < now") (simp_all add: Let_def)
  qed
qed

lemma set_index:
  assumes idx: "index_exact D c" and h: "hash_exact E N c" and k: "kName k \<in> N"
  defines "d \<equiv> (case c_nameKeys c (kName k) of
      None \<Rightarrow> c\<lparr>c_nameKeys := (c_nameKeys c)(kName k \<mapsto> [k]),
                c_hashNames := (c_hashNames c)(nameHash E (kName k) \<mapsto> kName k)\<rparr>
    | Some keys \<Rightarrow> c\<lparr>c_nameKeys := (c_nameKeys c)(kName k \<mapsto> List.insert k keys)\<rparr>)"
  shows "index_exact (insert k D) d" and "hash_exact E N d"
proof -
  define l where "l = (case c_nameKeys c (kName k) of None \<Rightarrow> [k] | Some keys \<Rightarrow> List.insert k keys)"
  have nk: "c_nameKeys d = (c_nameKeys c)(kName k \<mapsto> l)"
    by (simp add: d_def l_def split: option.split)
  have l: "set l = insert k {j \<in> D. kName j = kName k}"
  proof (cases "c_nameKeys c (kName k)")
    case None
    then show ?thesis
      using index_exact_None [OF idx None] by (simp only: l_def option.case list.set)
  next
    case (Some ks)
    then show ?thesis using index_exact_Some [OF idx Some] by (simp add: l_def)
  qed
  show "index_exact (insert k D) d"
  proof (rule index_exactI)
    fix n assume "c_nameKeys d n = None"
    then have n: "n \<noteq> kName k" "c_nameKeys c n = None" by (auto simp: nk split: if_splits)
    then show "{j \<in> insert k D. kName j = n} = {}" using index_exact_None [OF idx n(2)] by auto
  next
    fix n ks assume n: "c_nameKeys d n = Some ks"
    show "ks \<noteq> [] \<and> set ks = {j \<in> insert k D. kName j = n}"
    proof (cases "n = kName k")
      case True
      then have "ks = l" using n by (simp add: nk)
      moreover have "l \<noteq> []" using l by auto
      ultimately show ?thesis using l True by auto
    next
      case False
      then have "c_nameKeys c n = Some ks" using n by (simp add: nk)
      from index_exact_Some [OF idx this] False show ?thesis by auto
    qed
  qed
  show "hash_exact E N d"
  proof (cases "c_nameKeys c (kName k)")
    case None
    have ne: "kName k = n" if "nameHash E (kName k) = nameHash E n" "c_nameKeys c n = Some y" for n y
    proof -
      have "n \<in> N" using that(2) h by (auto simp: hash_exact_def)
      with that(1) k show ?thesis using collision_free by (simp add: inj_on_def)
    qed
    have "c_hashNames d = (c_hashNames c)(nameHash E (kName k) \<mapsto> kName k)"
      using None by (simp add: d_def)
    then show ?thesis using h k ne nk unfolding hash_exact_def by auto
  next
    case (Some keys)
    then have "dom (c_nameKeys d) = dom (c_nameKeys c)" "c_hashNames d = c_hashNames c"
      using nk by (auto simp: d_def)
    then show ?thesis using h by (simp add: hash_exact_def)
  qed
qed

lemma set_spec:
  fixes now ttl :: int and v :: 'v
  assumes okc: "ok c" and k: "kName k \<in> N"
  defines "d \<equiv> cache_Set E now k v ttl c"
  shows "ok d" and "view d k = Some \<lparr>ce_value = v, ce_expiresAt = now + ttl\<rparr>"
    and "j \<noteq> k \<Longrightarrow> view d j = view c j \<or> view d j = None"
    and "k \<in> dom (view c) \<or> card (dom (view c)) < cap (c_lru c) \<Longrightarrow>
         view d = (view c)(k \<mapsto> \<lparr>ce_value = v, ce_expiresAt = now + ttl\<rparr>)"
    and "c_hits d = c_hits c" "c_misses d = c_misses c"
proof -
  define e where "e = \<lparr>ce_value = v, ce_expiresAt = now + ttl\<rparr>"
  define b where "b = (case c_nameKeys c (kName k) of
      None \<Rightarrow> c\<lparr>c_nameKeys := (c_nameKeys c)(kName k \<mapsto> [k]),
                c_hashNames := (c_hashNames c)(nameHash E (kName k) \<mapsto> kName k)\<rparr>
    | Some keys \<Rightarrow> c\<lparr>c_nameKeys := (c_nameKeys c)(kName k \<mapsto> List.insert k keys)\<rparr>)"
  have b: "c_lru b = c_lru c" "c_capacity b = c_capacity c" "c_hits b = c_hits c" "c_misses b = c_misses c"
    by (simp_all add: b_def split: option.split)
  obtain s ev where a: "lru_Add (env_lru E) k e (c_lru c) = (s, ev)" by fastforce
  have inv: "linv (c_lru c)" and idx: "index_exact (dom (view c)) c" and h: "hash_exact E N c"
    using okc by (simp_all add: cache_ok_def)
  note p = add [OF inv a]
  have d: "d = fire E ev (b\<lparr>c_lru := s\<rparr>)"
    using a by (simp add: d_def cache_Set_def b_def [symmetric] e_def b)
  have si: "index_exact (insert k (dom (view c))) b" and sh: "hash_exact E N b"
    using set_index [OF idx h k] by (simp_all add: b_def)
  have "dom (contents s) = insert k (dom (view c)) - fst ` set ev"
    using p by (simp only: dom_restrict dom_fun_upd option.simps if_False) blast
  then have "index_exact (dom (contents s)) d"
    unfolding d by (simp add: fire_index si)
  moreover have "hash_exact E N d" unfolding d using sh collision_free by (simp add: fire_hash)
  ultimately show "ok d" using p okc by (simp add: cache_ok_def d b)
  have vd: "view d = (view c)(k \<mapsto> e) |` (- fst ` set ev)" using p by (simp add: d)
  then show "view d k = Some \<lparr>ce_value = v, ce_expiresAt = now + ttl\<rparr>"
    using p by (auto simp: e_def restrict_map_def)
  show "view d j = view c j \<or> view d j = None" if "j \<noteq> k"
    using that vd by (auto simp: restrict_map_def)
  show "view d = (view c)(k \<mapsto> \<lparr>ce_value = v, ce_expiresAt = now + ttl\<rparr>)"
    if "k \<in> dom (view c) \<or> card (dom (view c)) < cap (c_lru c)"
    using add_room [OF inv a that] vd by (auto simp: e_def restrict_map_def fun_eq_iff)
  show "c_hits d = c_hits c" "c_misses d = c_misses c" by (simp_all add: d b)
qed

lemma hash_lookup: "ok c \<Longrightarrow> c_hashNames c h = Some n \<longleftrightarrow> h = nameHash E n \<and> n \<in> kName ` dom (view c)"
  using index_exact_dom [of "dom (view c)" c] by (auto simp: cache_ok_def hash_exact_def)

lemma event_spec:
  assumes "ok c"
  shows "ok (HandleEvent E ev c)"
    and "view (HandleEvent E ev c) = view c |` {k. \<not> event_hits E ev k}"
    and "c_hits (HandleEvent E ev c) = c_hits c" "c_misses (HandleEvent E ev c) = c_misses c"
proof -
  have "ok (HandleEvent E ev c) \<and> view (HandleEvent E ev c) = view c |` {k. \<not> event_hits E ev k} \<and>
      c_hits (HandleEvent E ev c) = c_hits c \<and> c_misses (HandleEvent E ev c) = c_misses c"
  proof (cases "evKind ev = EventTransferred")
    case False
    then show ?thesis
      using invalidate_spec [OF assms, of "evName ev"]
      by (cases "evKind ev") (simp_all add: HandleEvent_def InvalidateName_def event_hits_def)
  next
    case True
    show ?thesis
    proof (cases "c_hashNames c (evNameHash ev)")
      case None
      then have "\<not> (nameHash E (kName k) = evNameHash ev)" if "k \<in> dom (view c)" for k
        using that hash_lookup [OF assms, of "evNameHash ev" "kName k"] by auto
      then have "view c |` {k. nameHash E (kName k) \<noteq> evNameHash ev} = view c"
        by (intro restrict_map_id) blast
      then show ?thesis using None True assms by (simp add: HandleEvent_def InvalidateNameHash_def event_hits_def)
    next
      case (Some n)
      then have n: "evNameHash ev = nameHash E n" "n \<in> kName ` dom (view c)"
        using hash_lookup [OF assms] by simp_all
      have "kName k = n" if "k \<in> dom (view c)" "nameHash E (kName k) = nameHash E n" for k
        using that hash_lookup [OF assms, of "nameHash E n" "kName k"] Some n(1) by auto
      then have "view c |` {k. nameHash E (kName k) \<noteq> evNameHash ev} = view c |` {k. kName k \<noteq> n}"
        using n(1) by (intro restrict_map_cong) auto
      then show ?thesis
        using True Some invalidate_spec [OF assms, of n] by (simp add: HandleEvent_def InvalidateNameHash_def event_hits_def)
    qed
  qed
  then show "ok (HandleEvent E ev c)"
    "view (HandleEvent E ev c) = view c |` {k. \<not> event_hits E ev k}"
    "c_hits (HandleEvent E ev c) = c_hits c" "c_misses (HandleEvent E ev c) = c_misses c"
    by blast+
qed

lemma flush_spec:
  assumes "ok c"
  shows "ok (Flush E c) \<and> view (Flush E c) = Map.empty \<and> c_hits (Flush E c) = c_hits c \<and>
    c_misses (Flush E c) = c_misses c"
proof -
  obtain s ev where r: "lru_Purge (env_lru E) (c_lru c) = (s, ev)" by fastforce
  have "linv (c_lru c)" using assms by (simp add: cache_ok_def)
  from purge [OF this r] assms show ?thesis
    by (simp add: cache_ok_def Flush_def r index_exact_def index_keys_def hash_exact_def Let_def)
qed

lemmas get_fst = get_spec [OF _ surjective_pairing]

lemma step_ok: "ok c \<Longrightarrow> kName ` set_keys op \<subseteq> N \<Longrightarrow> ok (cache_step E op c)"
  using get_fst [of c] set_spec(1) [of c] invalidate_spec [of c] event_spec(1) [of c] flush_spec [of c]
  by (cases op) (simp_all add: InvalidateName_def)

lemma run_ok: "ok c \<Longrightarrow> names_in N ops \<Longrightarrow> ok (cache_run E ops c)"
proof (induction ops arbitrary: c)
  case (Cons op ops)
  then have "ok (cache_step E op c)" by (intro step_ok) (auto simp: names_in_def)
  from Cons.IH [OF this] Cons.prems(2) show ?case by (simp add: cache_run_def names_in_def)
qed (simp add: cache_run_def)

lemma step_refines:
  assumes okc: "ok c" and k: "kName ` set_keys op \<subseteq> N" and m: "view c \<subseteq>\<^sub>m m"
  shows "view (cache_step E op c) \<subseteq>\<^sub>m spec_step E op m"
proof (cases op)
  case (OpGet now k)
  have "view (fst (cache_Get E now k c)) =
      (case view c k of None \<Rightarrow> view c | Some e \<Rightarrow> if ce_expiresAt e < now then (view c)(k := None) else view c)"
    using get_fst [OF okc, of now k] by (auto split: option.splits if_splits simp: fun_eq_iff)
  then show ?thesis using OpGet m
    by (auto simp: map_le_def dom_def split: option.splits if_splits)
next
  case (OpSet now k v ttl)
  then have kN: "kName k \<in> N" using k by simp
  note st = set_spec(2,3) [OF okc kN, where now = now and ttl = ttl and v = v]
  show ?thesis unfolding OpSet cache_step.simps spec_step.simps map_le_def
  proof
    fix j assume "j \<in> dom (view (cache_Set E now k v ttl c))"
    then show "view (cache_Set E now k v ttl c) j =
        (m(k \<mapsto> \<lparr>ce_value = v, ce_expiresAt = now + ttl\<rparr>)) j"
      using st(1) st(2) [of j] m by (cases "j = k") (auto simp: map_le_def dom_def)
  qed
next
  case (OpInvalidateName n)
  then show ?thesis using invalidate_spec [OF okc, of n] m
    by (auto simp: InvalidateName_def map_le_def restrict_map_def split: if_splits)
next
  case (OpEvent ev)
  then show ?thesis using event_spec(2) [OF okc, of ev] m
    by (auto simp: map_le_def restrict_map_def split: if_splits)
next
  case OpFlush
  then show ?thesis using flush_spec [OF okc] by simp
qed

lemma run_refines:
  "ok c \<Longrightarrow> names_in N ops \<Longrightarrow> view c \<subseteq>\<^sub>m m \<Longrightarrow>
   view (cache_run E ops c) \<subseteq>\<^sub>m fold (spec_step E) ops m"
proof (induction ops arbitrary: c m)
  case (Cons op ops)
  then have k: "kName ` set_keys op \<subseteq> N" "names_in N ops" by (auto simp: names_in_def)
  from Cons.IH [OF step_ok [OF Cons.prems(1) k(1)] k(2) step_refines [OF Cons.prems(1) k(1) Cons.prems(3)]]
  show ?case by (simp add: cache_run_def)
qed (simp add: cache_run_def)

text \<open>With room for every key that is stored, nothing is forgotten: the cache is the specification.\<close>

lemma step_equals:
  assumes okc: "ok c" and k: "kName ` set_keys op \<subseteq> N"
    and room: "set_keys op \<subseteq> K" "dom (view c) \<subseteq> K" "finite K" "card K \<le> cap (c_lru c)"
  shows "view (cache_step E op c) = spec_step E op (view c)"
proof (cases op)
  case (OpGet now k)
  then show ?thesis
    using get_fst [OF okc, of now k] by (auto split: option.splits if_splits simp: fun_eq_iff)
next
  case (OpSet now k v ttl)
  have "k \<in> dom (view c) \<or> card (dom (view c)) < cap (c_lru c)"
  proof (rule disjCI)
    assume "\<not> card (dom (view c)) < cap (c_lru c)"
    then have "card K \<le> card (dom (view c))" using room(4) by simp
    then have "dom (view c) = K" using room(2,3) by (metis card_seteq)
    then show "k \<in> dom (view c)" using room(1) OpSet by simp
  qed
  then show ?thesis using set_spec(4) [OF okc, where k = k and now = now and ttl = ttl and v = v] OpSet k by simp
next
  case (OpInvalidateName n)
  then show ?thesis using invalidate_spec [OF okc, of n] by (simp add: InvalidateName_def)
next
  case (OpEvent ev)
  then show ?thesis using event_spec(2) [OF okc, of ev] by simp
next
  case OpFlush
  then show ?thesis using flush_spec [OF okc] by simp
qed

lemma step_counts:
  assumes okc: "ok c" and k: "kName ` set_keys op \<subseteq> N"
  shows "c_hits (cache_step E op c) + c_misses (cache_step E op c) =
    c_hits c + c_misses c + (case op of OpGet _ _ \<Rightarrow> 1 | _ \<Rightarrow> 0)"
  using get_fst [OF okc] set_spec(5,6) [OF okc] invalidate_spec [OF okc] event_spec(3,4) [OF okc]
    flush_spec [OF okc] k
  by (cases op) (simp_all add: InvalidateName_def)

lemma run_counts:
  "ok c \<Longrightarrow> names_in N ops \<Longrightarrow> c_hits (cache_run E ops c) + c_misses (cache_run E ops c) =
    c_hits c + c_misses c + of_nat (length (filter is_get ops))"
proof (induction ops arbitrary: c)
  case (Cons op ops)
  then have k: "kName ` set_keys op \<subseteq> N" "names_in N ops" by (auto simp: names_in_def)
  have "c_hits (cache_step E op c) + c_misses (cache_step E op c) =
      c_hits c + c_misses c + of_nat (if is_get op then 1 else 0)"
    using step_counts [OF Cons.prems(1) k(1)] by (cases op) simp_all
  then show ?case
    using Cons.IH [OF step_ok [OF Cons.prems(1) k(1)] k(2)] by (simp add: cache_run_def)
qed (simp add: cache_run_def)

lemma run_equals:
  "ok c \<Longrightarrow> names_in N ops \<Longrightarrow> finite K \<Longrightarrow> card K \<le> cap (c_lru c) \<Longrightarrow> dom (view c) \<subseteq> K \<Longrightarrow>
   (\<Union>op \<in> set ops. set_keys op) \<subseteq> K \<Longrightarrow> view (cache_run E ops c) = fold (spec_step E) ops (view c)"
proof (induction ops arbitrary: c)
  case (Cons op ops)
  then have k: "kName ` set_keys op \<subseteq> N" "names_in N ops" "set_keys op \<subseteq> K" by (auto simp: names_in_def)
  let ?d = "cache_step E op c"
  have eq: "view ?d = spec_step E op (view c)"
    using Cons.prems k by (intro step_equals) auto
  have "dom (spec_step E op (view c)) \<subseteq> K"
    using Cons.prems(5) k(3) by (cases op) (auto simp: restrict_map_def split: option.splits if_splits)
  moreover have okd: "ok ?d" using Cons.prems(1) k(1) by (rule step_ok)
  moreover have "cap (c_lru ?d) = cap (c_lru c)"
    using okd Cons.prems(1) by (simp add: cache_ok_def cache_step_capacity)
  ultimately have "view (cache_run E ops ?d) = fold (spec_step E) ops (view ?d)"
    using Cons.prems k eq by (intro Cons.IH) auto
  then show ?case by (simp add: cache_run_def eq)
qed (simp add: cache_run_def)

lemma new_ok:
  assumes "cache_New E n = Inr c"
  shows "ok c" and "view c = Map.empty" and "cap (c_lru c) = nat n" and "c_hits c = 0" "c_misses c = 0"
proof -
  obtain s where s: "lru_New (env_lru E) n = Inr s" and c: "c = \<lparr>c_lru = s, c_capacity = n,
      c_nameKeys = Map.empty, c_hashNames = Map.empty, c_hits = 0, c_misses = 0, c_evictions = 0\<rparr>"
    using assms by (auto simp: cache_New_def rbind_eq_Inr)
  show "ok c" "view c = Map.empty" "cap (c_lru c) = nat n" "c_hits c = 0" "c_misses c = 0"
    using new_Inr [OF s] by (simp_all add: c cache_ok_def index_exact_def index_keys_def hash_exact_def)
qed

end

sublocale lru_cache \<subseteq> ac: answer_cache "cache_Get E" "cache_Set E" "HandleEvent E" "InvalidateName E" "Flush E"
  "cache_ok E contents cap linv N" "\<lambda>c. contents (c_lru c)" "event_hits E" N
proof (unfold_locales, goal_cases)
  case (1 c now k c' v)
  then show ?case using get_spec [OF 1] by (auto split: option.splits if_splits)
next
  case (2 c now k c')
  then show ?case using get_spec [OF 2] by simp
next
  case (3 c now k c' r)
  then show ?case using get_spec [OF 3] by simp
next
  case (4 c k now v ttl)
  then show ?case by (rule set_spec(1))
next
  case (5 c k now v ttl)
  then show ?case
    using set_spec(2,3) [OF 5] step_refines [OF 5(1), of "OpSet now k v ttl" "contents (c_lru c)"] by simp
next
  case (6 c ev)
  then show ?case by (rule event_spec(1))
next
  case (7 c ev)
  then show ?case by (rule event_spec(2))
next
  case (8 c n)
  then show ?case using invalidate_spec by (simp add: InvalidateName_def)
next
  case (9 c n)
  then show ?case using invalidate_spec by (simp add: InvalidateName_def)
next
  case (10 c)
  then show ?case using flush_spec by blast
next
  case (11 c)
  then show ?case using flush_spec by blast
qed

section \<open>The LRU list as an instance\<close>

text \<open>The laws of the LRU hold of the list of \<open>Lru_Interface\<close>; with it, an injective function for the
  hash and any order, the cache can be run.\<close>

definition list_env :: "('v, (cache_key, 'v centry) lru_list) cache_env" where
  "list_env = \<lparr>env_lru = list_lru, env_keccak = id, env_order = rev\<rparr>"

interpretation lc: lru_cache list_env ll_contents fst ll_inv UNIV
proof (rule lru_cache.intro)
  show "lru_laws (env_lru list_env) ll_contents fst ll_inv"
    using ll.lru_laws_axioms by (simp add: list_env_def)
  show "lru_cache_axioms list_env UNIV"
    by (simp add: lru_cache_axioms_def list_env_def map_order_def nameHash_def inj_on_def)
qed

text \<open>A cache of two entries and a run over three keys.\<close>

definition sample_key :: "string \<Rightarrow> cache_key" where
  "sample_key t = \<lparr>kName = ''a.eth'', kType = t, kSelector = []\<rparr>"

definition sample_ops :: "nat cache_op list" where
  "sample_ops = [OpSet 0 (sample_key ''A'') 1 10, OpSet 1 (sample_key ''B'') 2 10, OpGet 5 (sample_key ''A''),
     OpSet 6 (sample_key ''C'') 3 10, OpGet 20 (sample_key ''A'')]"

definition sample_cache :: "(cache_key, nat centry) lru_list ttl_cache" where
  "sample_cache = \<lparr>c_lru = (2, []), c_capacity = 2, c_nameKeys = Map.empty, c_hashNames = Map.empty,
     c_hits = 0, c_misses = 0, c_evictions = 0\<rparr>"

lemma sample_New: "cache_New list_env 2 = Inr sample_cache"
  by (simp add: cache_New_def list_env_def list_lru_def ll_New_def sample_cache_def)

lemma names_in_UNIV [simp]: "names_in UNIV ops"
  by (simp add: names_in_def list_all_iff)

lemma sample_ok: "cache_ok list_env ll_contents fst ll_inv UNIV sample_cache"
  by (rule lc.new_ok(1) [OF sample_New])

section \<open>Properties\<close>

text \<open>
  C26: Starting from a new cache, after any sequence of lookups, insertions, invalidations, contract
  events and flushes the two name indexes describe exactly the entries in the LRU, and the number of
  entries that \<open>Stats\<close> reports is at most the configured capacity.
\<close>

theorem cache_invariant_run:
  assumes "lru_cache E contents cap linv N" and "cache_New E n = Inr c" and "names_in N ops"
  shows "cache_ok E contents cap linv N (cache_run E ops c) \<and>
    int (st_Entries (cache_Stats E (cache_run E ops c))) \<le> st_Capacity (cache_Stats E (cache_run E ops c)) \<and>
    st_Capacity (cache_Stats E (cache_run E ops c)) = n"
proof -
  note lru_cache.new_ok [OF assms(1,2)]
  then have ok: "cache_ok E contents cap linv N (cache_run E ops c)"
    using lru_cache.run_ok [OF assms(1)] assms(3) by blast
  have laws: "lru_laws (env_lru E) contents cap linv" using assms(1) by (rule lru_cache.axioms(1))
  have "linv (c_lru (cache_run E ops c))" using ok by (simp add: cache_ok_def)
  note lru_laws.len [OF laws this] lru_laws.bounded [OF laws this]
  moreover have "c_capacity c = n" using assms(2) by (auto simp: cache_New_def rbind_eq_Inr)
  ultimately show ?thesis
    using ok by (simp add: cache_Stats_def cache_run_capacity cache_ok_def)
qed

theorem cache_invariant_run_witness:
  "cache_ok list_env ll_contents fst ll_inv UNIV (cache_run list_env sample_ops sample_cache) \<and>
   st_Capacity (cache_Stats list_env (cache_run list_env sample_ops sample_cache)) = 2"
  using cache_invariant_run [OF lc.lru_cache_axioms sample_New, of sample_ops] by simp

text \<open>
  C5: The bounded cache refines an unbounded map: whatever a sequence of operations leaves in the LRU
  is exactly what the specification holds for that key (the last insertion that has not been
  invalidated, flushed or found expired since); nothing else is ever stored.
\<close>

theorem cache_refines_map:
  assumes "lru_cache E contents cap linv N" and "cache_New E n = Inr c" and "names_in N ops"
  shows "contents (c_lru (cache_run E ops c)) \<subseteq>\<^sub>m fold (spec_step E) ops Map.empty"
  using lru_cache.run_refines [OF assms(1) lru_cache.new_ok(1) [OF assms(1,2)] assms(3), of Map.empty]
    lru_cache.new_ok(2) [OF assms(1,2)] by simp

theorem cache_refines_map_witness:
  "ll_contents (c_lru (cache_run list_env sample_ops sample_cache)) \<subseteq>\<^sub>m
   fold (spec_step list_env) sample_ops Map.empty"
  using cache_refines_map [OF lc.lru_cache_axioms sample_New, of sample_ops] by simp

text \<open>
  When the keys stored during a run fit into the capacity, the cache holds exactly what the
  unbounded map holds: no entry is lost to eviction.
\<close>

theorem cache_equals_map_when_it_fits:
  assumes "lru_cache E contents cap linv N" and "cache_New E n = Inr c" and "names_in N ops"
    and "int (card (\<Union>op \<in> set ops. set_keys op)) \<le> n"
  shows "contents (c_lru (cache_run E ops c)) = fold (spec_step E) ops Map.empty"
proof -
  have "finite (set_keys op)" for op :: "'a cache_op" by (cases op) simp_all
  then have "finite (\<Union>op \<in> set ops. set_keys op)" by simp
  from lru_cache.run_equals [OF assms(1) lru_cache.new_ok(1) [OF assms(1,2)] assms(3) this]
  show ?thesis using lru_cache.new_ok(2,3) [OF assms(1,2)] assms(4) by simp
qed

theorem cache_equals_map_when_it_fits_witness:
  "ll_contents (c_lru (cache_run list_env (take 3 sample_ops) sample_cache)) (sample_key ''A'') =
   Some \<lparr>ce_value = 1, ce_expiresAt = 10\<rparr>"
proof -
  have "int (card (\<Union>op \<in> set (take 3 sample_ops). set_keys op)) \<le> 2"
    by (simp add: sample_ops_def card_insert_if)
  from cache_equals_map_when_it_fits [OF lc.lru_cache_axioms sample_New names_in_UNIV this]
  show ?thesis by (simp add: sample_ops_def sample_key_def)
qed

text \<open>
  An answer stored at time \<open>t\<close> with lifetime \<open>ttl\<close> is returned by a lookup at \<open>t'\<close> up to and
  including \<open>t + ttl\<close>, and never after it.
\<close>

theorem cache_get_after_set:
  assumes "lru_cache E contents cap linv N" and "cache_ok E contents cap linv N c" and "kName k \<in> N"
  shows "snd (cache_Get E t' k (cache_Set E t k v ttl c)) = (if t' \<le> t + ttl then Some v else None)"
proof -
  note s = lru_cache.set_spec(1,2) [OF assms, where now = t and ttl = ttl and v = v]
  show ?thesis
    using lru_cache.get_fst [OF assms(1) s(1), of t' k] s(2) by (simp split: if_splits)
qed

theorem cache_get_after_set_witness:
  "snd (cache_Get list_env 60 (sample_key ''A'') (cache_Set list_env 0 (sample_key ''A'') 7 60 sample_cache)) = Some 7 \<and>
   snd (cache_Get list_env 61 (sample_key ''A'') (cache_Set list_env 0 (sample_key ''A'') 7 60 sample_cache)) = None"
  using cache_get_after_set [OF lc.lru_cache_axioms sample_ok, of "sample_key ''A''"] by simp

text \<open>
  C17: Push invalidation is complete and exact: after a contract event a lookup misses every key the
  event concerns (by the name it carries, or for a transfer by the hash of the name), for every type
  and selector, and gives for all other keys what it gave before.
\<close>

theorem cache_event_exact:
  assumes "lru_cache E contents cap linv N" and "cache_ok E contents cap linv N c"
  shows "snd (cache_Get E now k (HandleEvent E ev c)) =
    (if event_hits E ev k then None else snd (cache_Get E now k c))"
  using lru_cache.get_fst [OF assms(1,2), of now k] lru_cache.event_spec(2) [OF assms, of ev]
    lru_cache.get_fst [OF assms(1) lru_cache.event_spec(1) [OF assms, of ev], of now k]
  by (simp add: restrict_map_def)

theorem cache_event_exact_witness:
  "let c = cache_run list_env sample_ops sample_cache;
       ev = \<lparr>evKind = EventTransferred, evName = [], evNameHash = str_bytes ''a.eth'', evRecordType = [],
             evSelector = [], evBlock = 9\<rparr>
   in snd (cache_Get list_env 7 (sample_key ''C'') (HandleEvent list_env ev c)) = None"
  using cache_event_exact [OF lc.lru_cache_axioms lc.run_ok [OF sample_ok names_in_UNIV]]
  by (simp add: event_hits_def nameHash_def list_env_def sample_key_def)

text \<open>
  The hit and miss counters add up to the number of lookups made (as 64-bit counters).
\<close>

theorem cache_counters:
  assumes "lru_cache E contents cap linv N" and "cache_New E n = Inr c" and "names_in N ops"
  shows "st_Hits (cache_Stats E (cache_run E ops c)) + st_Misses (cache_Stats E (cache_run E ops c)) =
    of_nat (length (filter is_get ops))"
  using lru_cache.run_counts [OF assms(1) lru_cache.new_ok(1) [OF assms(1,2)] assms(3)]
    lru_cache.new_ok(4,5) [OF assms(1,2)]
  by (simp add: cache_Stats_def)

theorem cache_counters_witness:
  "st_Hits (cache_Stats list_env (cache_run list_env sample_ops sample_cache)) +
   st_Misses (cache_Stats list_env (cache_run list_env sample_ops sample_cache)) = 2"
  using cache_counters [OF lc.lru_cache_axioms sample_New, of sample_ops] by (simp add: sample_ops_def)

end
