(* ===== verification/Chain_Client.thy ===== *)
theory Chain_Client
  imports Chain_Types Go_Strings
begin

text \<open>
  The chain gateway, src/resolver/internal/chain/client.go: read-only contract calls with a bounded
  number of retries and exponential back-off.

  The RPC endpoint, the contract bindings' calls and the context are the record \<open>rpc_api\<close>, functions on
  a state \<open>'w\<close> of the outside world; an error is its message. \<open>api_sleep d\<close> is the \<open>select\<close> between the
  timer of \<open>d\<close> nanoseconds and the cancellation of the context: \<open>None\<close> when the timer fired, \<open>Some e\<close>
  when the context ended with \<open>ctx.Err() = e\<close>; \<open>api_tick\<close> is the same for the poll ticker.
\<close>

section \<open>Definitions\<close>

record raw_event =
  rawName :: string
  rawNameHash :: hash32
  rawRecordType :: string
  rawSelector :: string
  rawBlock :: "64 word"

record 'w rpc_api =
  api_blockNumber :: "'w \<Rightarrow> 'w \<times> (string + 64 word)"
  api_resolve :: "string \<Rightarrow> string \<Rightarrow> string \<Rightarrow> 'w \<Rightarrow> 'w \<times> (string + dapp_record \<times> address \<times> bytes)"
  api_getDomain :: "string \<Rightarrow> 'w \<Rightarrow> 'w \<times> (string + address \<times> bytes \<times> 64 word \<times> 64 word)"
  api_listRecords :: "string \<Rightarrow> 'w \<Rightarrow> 'w \<times> (string + dapp_record list)"
  api_listTypes :: "'w \<Rightarrow> 'w \<times> (string + string list)"
  api_filter :: "event_kind \<Rightarrow> 64 word \<Rightarrow> 64 word \<Rightarrow> 'w \<Rightarrow> 'w \<times> (string + raw_event list \<times> string option)"
  api_sleep :: "int \<Rightarrow> 'w \<Rightarrow> 'w \<times> string option"
  api_tick :: "'w \<Rightarrow> 'w \<times> string option"
  api_ctxErr :: "'w \<Rightarrow> string option"

definition retryAttempts :: nat where "retryAttempts = 3"

text \<open>150 ms in nanoseconds.\<close>

definition retryBaseWait :: int where "retryBaseWait = 150 * 1000000"

definition retry_failed :: "string \<Rightarrow> string \<Rightarrow> string" where
  "retry_failed op lastErr =
     op @ '' failed after '' @ Itoa (int retryAttempts) @ '' attempts: '' @ lastErr"

text \<open>The wait before an attempt: none before the first, then 150 ms shifted left.\<close>

definition retry_wait :: "'w rpc_api \<Rightarrow> nat \<Rightarrow> 'w \<Rightarrow> 'w \<times> string option" where
  "retry_wait api attempt w =
     (if attempt > 0 then api_sleep api (retryBaseWait * 2 ^ (attempt - 1)) w else (w, None))"

text \<open>The loop of \<open>retry\<close>, with the number of attempts that remain; \<open>attempt\<close> counts from 0.\<close>

primrec retry_loop ::
  "nat \<Rightarrow> 'w rpc_api \<Rightarrow> string \<Rightarrow> ('w \<Rightarrow> 'w \<times> (string + 'a)) \<Rightarrow> string \<Rightarrow> 'w \<Rightarrow> 'w \<times> (string + 'a)" where
  "retry_loop 0 api op fn lastErr w = (w, Inl (retry_failed op lastErr))"
| "retry_loop (Suc n) api op fn lastErr w =
     (case retry_wait api (retryAttempts - Suc n) w of
        (w, Some e) \<Rightarrow> (w, Inl e)
      | (w, None) \<Rightarrow>
          (case fn w of
             (w, Inr out) \<Rightarrow> (w, Inr out)
           | (w, Inl err) \<Rightarrow>
               (case api_ctxErr api w of
                  Some e \<Rightarrow> (w, Inl e)
                | None \<Rightarrow> retry_loop n api op fn err w)))"

definition retry ::
  "'w rpc_api \<Rightarrow> string \<Rightarrow> ('w \<Rightarrow> 'w \<times> (string + 'a)) \<Rightarrow> 'w \<Rightarrow> 'w \<times> (string + 'a)" where
  "retry api op fn w = retry_loop retryAttempts api op fn [] w"

definition ChainHead :: "'w rpc_api \<Rightarrow> 'w \<Rightarrow> 'w \<times> (string + 64 word)" where
  "ChainHead api w = retry api ''blockNumber'' (api_blockNumber api) w"

definition chain_Resolve ::
  "'w rpc_api \<Rightarrow> string \<Rightarrow> string \<Rightarrow> string \<Rightarrow> 'w \<Rightarrow> 'w \<times> (string + resolve_result)" where
  "chain_Resolve api name recordType selector w =
     (case retry api ''resolve'' (api_resolve api name recordType selector) w of
        (w, Inl err) \<Rightarrow> (w, Inl (''resolve '' @ name @ ''/'' @ recordType @ '': '' @ err))
      | (w, Inr (r, owner, pubKey)) \<Rightarrow>
          (w, Inr \<lparr>resRecord = fromBinding r, resOwner = owner, resPubKey = pubKey,
                   resOwnerSigValid = False, resZKProof = []\<rparr>))"

definition chain_GetDomain :: "'w rpc_api \<Rightarrow> string \<Rightarrow> 'w \<Rightarrow> 'w \<times> (string + chain_domain)" where
  "chain_GetDomain api name w =
     (case retry api ''getDomain'' (api_getDomain api name) w of
        (w, Inl err) \<Rightarrow> (w, Inl (''getDomain '' @ name @ '': '' @ err))
      | (w, Inr (owner, pubKey, expiry, gen)) \<Rightarrow>
          (w, Inr \<lparr>dOwner = owner, dPubKey = pubKey, dExpiry = expiry, dGeneration = gen\<rparr>))"

definition chain_ListRecords :: "'w rpc_api \<Rightarrow> string \<Rightarrow> 'w \<Rightarrow> 'w \<times> (string + chain_record list)" where
  "chain_ListRecords api name w =
     (case retry api ''listRecords'' (api_listRecords api name) w of
        (w, Inl err) \<Rightarrow> (w, Inl (''listRecords '' @ name @ '': '' @ err))
      | (w, Inr out) \<Rightarrow> (w, Inr (map fromBinding out)))"

definition chain_ListTypes :: "'w rpc_api \<Rightarrow> 'w \<Rightarrow> 'w \<times> (string + string list)" where
  "chain_ListTypes api w = retry api ''listTypes'' (api_listTypes api) w"

section \<open>Facts about the retry loop\<close>

text \<open>Whatever the loop returns as a result is a result the call returned in some state it was run in;
  a predicate on states that the call, the sleep and the loop keep holds at the end.\<close>

lemma retry_loop_Inr:
  assumes "retry_loop n api op fn e w = (w', Inr out)"
  shows "\<exists>v. fn v = (w', Inr out)"
  using assms
proof (induction n arbitrary: e w)
  case (Suc n)
  then show ?case
    by (auto simp: Let_def split: prod.splits sum.splits option.splits if_splits)
qed simp

lemma retry_Inr: "retry api op fn w = (w', Inr out) \<Longrightarrow> \<exists>v. fn v = (w', Inr out)"
  unfolding retry_def by (rule retry_loop_Inr)


text \<open>The time a run may take: the back-off waits and \<open>t\<close> per call.\<close>

primrec retry_budget :: "int \<Rightarrow> nat \<Rightarrow> int" where
  "retry_budget t 0 = 0"
| "retry_budget t (Suc n) =
     (let a = retryAttempts - Suc n in (if a > 0 then retryBaseWait * 2 ^ (a - 1) else 0) + t + retry_budget t n)"

lemma retry_budget_nonneg: "0 \<le> t \<Longrightarrow> 0 \<le> retry_budget t n"
  by (induction n) (simp_all add: Let_def retryBaseWait_def)

lemma retry_loop_clock:
  fixes clock :: "'w \<Rightarrow> int"
  assumes fn: "\<And>v v' r. fn v = (v', r) \<Longrightarrow> clock v' \<le> clock v + t" and t: "0 \<le> t"
    and sl: "\<And>d v v' r. api_sleep api d v = (v', r) \<Longrightarrow> clock v' \<le> clock v + d"
    and r: "retry_loop n api op fn e w = (w', r)"
  shows "clock w' \<le> clock w + retry_budget t n"
  using r
proof (induction n arbitrary: e w)
  case (Suc n)
  define a where "a = retryAttempts - Suc n"
  define c where "c = (if a > 0 then retryBaseWait * 2 ^ (a - 1) else 0)"
  obtain v dn where v: "retry_wait api a w = (v, dn)" by fastforce
  have cv: "clock v \<le> clock w + c" using v sl by (auto simp: c_def retry_wait_def split: if_splits)
  have b: "retry_budget t (Suc n) = c + t + retry_budget t n" by (simp add: a_def c_def)
  note nn = retry_budget_nonneg [OF t, of n]
  obtain u x where u: "fn v = (u, x)" by fastforce
  note cu = fn [OF u]
  have "w' = v \<or> w' = u \<or> (\<exists>err. retry_loop n api op fn err u = (w', r))"
    using Suc.prems v u by (auto simp: a_def split: option.splits sum.splits)
  then have "clock w' \<le> clock w + c + t + retry_budget t n"
    using cv cu nn t Suc.IH by fastforce
  then show ?case by (simp only: b)
qed simp

text \<open>Without cancellation the loop returns the first success among the attempts, or the last error.\<close>

primrec attempt_results ::
  "nat \<Rightarrow> 'w rpc_api \<Rightarrow> ('w \<Rightarrow> 'w \<times> (string + 'a)) \<Rightarrow> 'w \<Rightarrow> (string + 'a) list" where
  "attempt_results 0 api fn w = []"
| "attempt_results (Suc n) api fn w =
     (let v = fst (retry_wait api (retryAttempts - Suc n) w)
      in snd (fn v) # attempt_results n api fn (fst (fn v)))"

lemma retry_loop_results:
  assumes alive: "\<And>d v. snd (api_sleep api d v) = None" "\<And>v. api_ctxErr api v = None"
  shows "snd (retry_loop n api op fn e w) =
    (case find isOk (attempt_results n api fn w) of
       Some r \<Rightarrow> r
     | None \<Rightarrow> Inl (retry_failed op (last (e # map projl (attempt_results n api fn w)))))"
proof (induction n arbitrary: e w)
  case (Suc n)
  define v where "v = fst (retry_wait api (retryAttempts - Suc n) w)"
  have sl: "retry_wait api (retryAttempts - Suc n) w = (v, None)"
    using alive(1) by (simp add: v_def retry_wait_def prod_eq_iff)
  have ar: "attempt_results (Suc n) api fn w = snd (fn v) # attempt_results n api fn (fst (fn v))"
    by (simp add: v_def Let_def)
  obtain u x where u: "fn v = (u, x)" by fastforce
  have "snd (retry_loop (Suc n) api op fn e w) =
      (case x of Inr out \<Rightarrow> Inr out | Inl err \<Rightarrow> snd (retry_loop n api op fn err u))"
    using sl by (simp add: u alive(2) split: sum.split)
  then show ?case
    unfolding ar using u by (cases x) (simp_all add: Suc.IH split: option.split)
qed simp

section \<open>Properties\<close>

text \<open>
  As long as the context is not cancelled, \<open>retry\<close> returns the first success among three attempts
  of the call; when all three fail it reports the error of the last one with the number of attempts.
\<close>

theorem retry_first_success:
  assumes "\<And>d v. snd (api_sleep api d v) = None" and "\<And>v. api_ctxErr api v = None"
  shows "length (attempt_results retryAttempts api fn w) = 3 \<and>
    snd (retry api op fn w) =
    (case find isOk (attempt_results retryAttempts api fn w) of
       Some r \<Rightarrow> r
     | None \<Rightarrow> Inl (op @ '' failed after 3 attempts: '' @
                    projl (last (attempt_results retryAttempts api fn w))))"
proof -
  have "length (attempt_results n api fn w) = n" for n w
    by (induction n arbitrary: w) (simp_all add: Let_def)
  then have l: "length (attempt_results retryAttempts api fn w) = 3" by (simp add: retryAttempts_def)
  then have "attempt_results retryAttempts api fn w \<noteq> []" by auto
  moreover have "Itoa 3 = ''3''" by code_simp
  then have "retry_failed op m = op @ '' failed after 3 attempts: '' @ m" for m
    by (simp add: retry_failed_def retryAttempts_def)
  ultimately show ?thesis
    using retry_loop_results [OF assms, of retryAttempts op fn "[]" w] l
    by (simp add: retry_def last_map split: option.split)
qed

text \<open>An endpoint whose first call times out, for the witnesses; the world is the list of the answers to
  come and the time passed.\<close>

definition flaky_api :: "((string + 64 word) list \<times> int) rpc_api" where
  "flaky_api = \<lparr>
     api_blockNumber = (\<lambda>w. case fst w of [] \<Rightarrow> (w, Inl ''eof'') | a # as \<Rightarrow> ((as, snd w), a)),
     api_resolve = (\<lambda>_ _ _ w. (w, Inl ''eof'')), api_getDomain = (\<lambda>_ w. (w, Inl ''eof'')),
     api_listRecords = (\<lambda>_ w. (w, Inl ''eof'')), api_listTypes = (\<lambda>w. (w, Inl ''eof'')),
     api_filter = (\<lambda>_ _ _ w. (w, Inl ''eof'')),
     api_sleep = (\<lambda>d w. ((fst w, snd w + d), None)), api_tick = (\<lambda>w. (w, None)), api_ctxErr = (\<lambda>_. None)\<rparr>"

theorem retry_first_success_witness:
  "snd (retry flaky_api ''blockNumber'' (api_blockNumber flaky_api) ([Inl ''timeout'', Inr 9], 0)) = Inr 9"
proof -
  have "attempt_results retryAttempts flaky_api (api_blockNumber flaky_api) ([Inl ''timeout'', Inr 9], 0) =
      [Inl ''timeout'', Inr 9, Inl ''eof'']"
    by (simp add: retryAttempts_def numeral_3_eq_3 flaky_api_def retry_wait_def)
  moreover have "snd (api_sleep flaky_api d v) = None" "api_ctxErr flaky_api v = None" for d v
    by (simp_all add: flaky_api_def)
  ultimately show ?thesis
    using retry_first_success [of flaky_api "api_blockNumber flaky_api" "([Inl ''timeout'', Inr 9], 0)"] by simp
qed

text \<open>
  C36: A retried call ends: it takes at most three calls' time plus 450 ms of back-off waits, whatever
  the endpoint answers, and cancellation can only shorten it.
\<close>

theorem retry_time_bound:
  fixes clock :: "'w \<Rightarrow> int"
  assumes "\<And>v v' r. fn v = (v', r) \<Longrightarrow> clock v' \<le> clock v + t" and "0 \<le> t"
    and "\<And>d v v' r. api_sleep api d v = (v', r) \<Longrightarrow> clock v' \<le> clock v + d"
  shows "clock (fst (retry api op fn w)) \<le> clock w + 3 * t + 450 * 1000000"
proof -
  have "retry_budget t retryAttempts = 3 * t + 450 * 1000000"
    by (simp add: retryAttempts_def numeral_3_eq_3 Let_def retryBaseWait_def)
  moreover have "retry_loop retryAttempts api op fn [] w =
      (fst (retry api op fn w), snd (retry api op fn w))"
    by (simp add: retry_def)
  ultimately show ?thesis
    using retry_loop_clock [where clock = clock and t = t and fn = fn and api = api, OF assms] by fastforce
qed

theorem retry_time_bound_witness:
  "snd (fst (retry flaky_api ''blockNumber'' (api_blockNumber flaky_api) ([], 0))) \<le> 450000000"
proof -
  have "snd v' \<le> snd v + 0" if "api_blockNumber flaky_api v = (v', r)" for v v' r
    using that by (cases "fst v") (auto simp: flaky_api_def)
  moreover have "snd v' \<le> snd v + d" if "api_sleep flaky_api d v = (v', r)" for d v v' r
    using that by (auto simp: flaky_api_def)
  ultimately show ?thesis
    using retry_time_bound [of "api_blockNumber flaky_api" snd 0 flaky_api "''blockNumber''" "([], 0)"] by simp
qed

end
