(* ===== verification/Codec.thy ===== *)
theory Codec
  imports Ddns_Prelude
begin

text \<open>
  Self-delimiting encodings. The messages that are signed (owner records, resource manifests) are
  concatenations of length-prefixed strings and fixed-width integers; they are unambiguous because
  every part is self-delimiting. The locale states this of one encoder; pairs and lists of known
  length inherit it. The two string writers of the program and the fixed-width integers are instances.
\<close>

section \<open>The interface\<close>

locale codec =
  fixes enc :: "'a \<Rightarrow> bytes"
    and fits :: "'a \<Rightarrow> bool"
  assumes split: "fits x \<Longrightarrow> fits y \<Longrightarrow> enc x @ r = enc y @ s \<longleftrightarrow> x = y \<and> r = s"
begin

lemma inject: "fits x \<Longrightarrow> fits y \<Longrightarrow> enc x = enc y \<longleftrightarrow> x = y"
  using split [of x y "[]" "[]"] by simp

lemma list_split:
  "length xs = length ys \<Longrightarrow> list_all fits xs \<Longrightarrow> list_all fits ys \<Longrightarrow>
   concat (map enc xs) @ r = concat (map enc ys) @ s \<longleftrightarrow> xs = ys \<and> r = s"
  by (induction xs ys rule: list_induct2) (auto simp: split)

end

locale two_codecs = a: codec enca fitsa + b: codec encb fitsb
  for enca :: "'a \<Rightarrow> bytes" and fitsa and encb :: "'b \<Rightarrow> bytes" and fitsb

sublocale two_codecs \<subseteq> pair: codec "\<lambda>p. enca (fst p) @ encb (snd p)" "\<lambda>p. fitsa (fst p) \<and> fitsb (snd p)"
  by unfold_locales (auto simp: a.split b.split prod_eq_iff)

section \<open>Length-prefixed strings\<close>

text \<open>The closures \<open>writeStr\<close> of \<open>RecordMessage\<close> (16-bit length) and of \<open>ResourceManifest\<close> (32-bit
  length): the length is truncated to the width of the prefix.\<close>

definition writeStr16 :: "string \<Rightarrow> bytes" where
  "writeStr16 s = PutUint16 (word_of_nat (length s)) @ str_bytes s"

definition writeStr32 :: "string \<Rightarrow> bytes" where
  "writeStr32 s = PutUint32 (word_of_nat (length s)) @ str_bytes s"

lemma word_of_nat_length_inject:
  "a < 2 ^ LENGTH('a) \<Longrightarrow> b < 2 ^ LENGTH('a) \<Longrightarrow> (word_of_nat a :: 'a::len word) = word_of_nat b \<longleftrightarrow> a = b"
  by (auto simp: word_of_nat_eq_iff take_bit_nat_eq_self)

interpretation str16: codec writeStr16 "\<lambda>s. length s < 65536"
proof (unfold_locales, goal_cases)
  case (1 x y r s)
  have "(word_of_nat (length x) :: 16 word) = word_of_nat (length y) \<longleftrightarrow> length x = length y"
    using 1 by (intro word_of_nat_length_inject) simp_all
  then show ?case
    by (cases "length x = length y") (auto simp: writeStr16_def append_eq_same_length)
qed

interpretation str32: codec writeStr32 "\<lambda>s. length s < 4294967296"
proof (unfold_locales, goal_cases)
  case (1 x y r s)
  have "(word_of_nat (length x) :: 32 word) = word_of_nat (length y) \<longleftrightarrow> length x = length y"
    using 1 by (intro word_of_nat_length_inject) simp_all
  then show ?case
    by (cases "length x = length y") (auto simp: writeStr32_def append_eq_same_length)
qed

interpretation u16: codec PutUint16 "\<lambda>_. True"
  by unfold_locales (simp add: append_eq_same_length)

interpretation u32: codec PutUint32 "\<lambda>_. True"
  by unfold_locales (simp add: append_eq_same_length)

interpretation u64: codec PutUint64 "\<lambda>_. True"
  by unfold_locales (simp add: append_eq_same_length)

interpretation field16: two_codecs writeStr16 "\<lambda>s. length s < 65536" writeStr16 "\<lambda>s. length s < 65536"
  by unfold_locales

end
