(* ===== verification/Pki.thy ===== *)
theory Pki
  imports Codec Chain_Types Go_Strings
begin

text \<open>
  The two key domains of src/resolver/internal/pki: owner signatures over records (secp256k1, EIP-191),
  and the resolver's ed25519 identity, which signs response envelopes and resource manifests.

  The cryptographic functions and hexutil of go-ethereum are the record \<open>crypto_lib\<close>, a parameter.
  \<open>sortPairs\<close> is what \<open>sort.Slice\<close> does to the field pairs: the package sort fixes the result only up to
  the order of equal keys. What the theorems need of these functions is stated in predicates.
\<close>

section \<open>Owner signatures\<close>

record crypto_lib =
  TextHash :: "bytes \<Rightarrow> bytes"
  SigToPub :: "bytes \<Rightarrow> bytes \<Rightarrow> string + bytes"
  FromECDSAPub :: "bytes \<Rightarrow> bytes"
  PubkeyToAddress :: "bytes \<Rightarrow> address"
  ecdsa_Sign :: "bytes \<Rightarrow> bytes \<Rightarrow> string + bytes"
  sortPairs :: "(string \<times> string) list \<Rightarrow> (string \<times> string) list"
  ed_NewKeyFromSeed :: "bytes \<Rightarrow> bytes"
  ed_Public :: "bytes \<Rightarrow> bytes"
  ed_Sign :: "bytes \<Rightarrow> bytes \<Rightarrow> bytes"
  ed_Verify :: "bytes \<Rightarrow> bytes \<Rightarrow> bytes \<Rightarrow> bool"
  Sum256 :: "bytes \<Rightarrow> hash32"
  hexutil_Encode :: "bytes \<Rightarrow> string"
  hexutil_Decode :: "string \<Rightarrow> bytes option"

datatype pki_error =
    ErrFieldArrays nat nat
  | ErrSigLength nat
  | ErrRecover string
  | ErrPubKeyMismatch
  | ErrOwnerMismatch
  | ErrSign string
  | ErrPanic

definition SignatureLength :: nat where "SignatureLength = 65"

text \<open>\<open>pairs[i] = pair{r.FieldNames[i], r.FieldVals[i]}\<close> for every index of the names: a shorter array
  of values is an index out of range, a panic (\<open>None\<close>).\<close>

definition field_pairs :: "chain_record \<Rightarrow> (string \<times> string) list option" where
  "field_pairs r =
     (if length (rFieldVals r) < length (rFieldNames r) then None
      else Some (zip (rFieldNames r) (rFieldVals r)))"

definition RecordMessage :: "crypto_lib \<Rightarrow> string \<Rightarrow> chain_record \<Rightarrow> bytes option" where
  "RecordMessage C name r =
     map_option (\<lambda>pairs.
       (let pairs = sortPairs C pairs
        in str_bytes ''ddns-record-v2'' @ writeStr16 name @ writeStr16 (rType r) @ writeStr16 (rSelector r) @
           PutUint32 (rTTL r) @ PutUint64 (rGeneration r) @
           PutUint16 (word_of_nat (length pairs)) @
           concat (map (\<lambda>p. writeStr16 (fst p) @ writeStr16 (snd p)) pairs))) (field_pairs r)"

definition isPlaceholderPubKey :: "bytes \<Rightarrow> bool" where
  "isPlaceholderPubKey pubKey =
     (if length pubKey = 0 then True
      else if list_all (\<lambda>b. b = 0) pubKey then True
      else if length pubKey = 65 \<and> hd pubKey = 0x04 then list_all (\<lambda>b. b = 0) (tl pubKey)
      else False)"

text \<open>\<open>if sig[64] >= 27 { sig[64] -= 27 }\<close>\<close>

definition normalize_v :: "bytes \<Rightarrow> bytes" where
  "normalize_v sg = (if sg ! 64 \<ge> 27 then sg[64 := sg ! 64 - 27] else sg)"

definition VerifyOwnerSig ::
  "crypto_lib \<Rightarrow> string \<Rightarrow> chain_record \<Rightarrow> address \<Rightarrow> bytes \<Rightarrow> pki_error + unit" where
  "VerifyOwnerSig C name r owner pubKey =
     (if length (rFieldNames r) \<noteq> length (rFieldVals r)
      then Inl (ErrFieldArrays (length (rFieldNames r)) (length (rFieldVals r)))
      else if length (rOwnerSig r) \<noteq> SignatureLength then Inl (ErrSigLength (length (rOwnerSig r)))
      else case RecordMessage C name r of
             None \<Rightarrow> Inl ErrPanic
           | Some msg \<Rightarrow>
               (case SigToPub C (TextHash C msg) (normalize_v (rOwnerSig r)) of
                  Inl e \<Rightarrow> Inl (ErrRecover e)
                | Inr recovered \<Rightarrow>
                    if \<not> isPlaceholderPubKey pubKey \<and> FromECDSAPub C recovered \<noteq> pubKey then Inl ErrPubKeyMismatch
                    else if PubkeyToAddress C recovered \<noteq> owner then Inl ErrOwnerMismatch
                    else Inr ()))"

definition SignRecord :: "crypto_lib \<Rightarrow> string \<Rightarrow> chain_record \<Rightarrow> bytes \<Rightarrow> pki_error + bytes" where
  "SignRecord C name r key =
     (case RecordMessage C name r of
        None \<Rightarrow> Inl ErrPanic
      | Some msg \<Rightarrow>
          (case ecdsa_Sign C (TextHash C msg) key of
             Inl e \<Rightarrow> Inl (ErrSign e)
           | Inr sg \<Rightarrow> if length sg \<le> 64 then Inl ErrPanic else Inr (sg[64 := sg ! 64 + 27])))"

section \<open>The resolver's identity, envelopes and resource manifests\<close>

record envelope =
  envData :: bytes
  envResolver :: string
  envSignature :: string

datatype sig_error =
    ErrMarshal string
  | ErrBadResolverKey string
  | ErrBadSignatureEncoding string
  | ErrSignatureInvalid

text \<open>An \<open>Identity\<close> is its ed25519 private key.\<close>

definition id_Sign :: "crypto_lib \<Rightarrow> bytes \<Rightarrow> bytes \<Rightarrow> bytes" where
  "id_Sign C priv message = ed_Sign C priv message"

definition PublicKeyHex :: "crypto_lib \<Rightarrow> bytes \<Rightarrow> string" where
  "PublicKeyHex C priv = ''0x'' @ hex_encode (ed_Public C priv)"

definition SealEnvelope :: "crypto_lib \<Rightarrow> ('v \<Rightarrow> string + bytes) \<Rightarrow> bytes \<Rightarrow> 'v \<Rightarrow> sig_error + envelope" where
  "SealEnvelope C marshal priv v =
     (case marshal v of
        Inl e \<Rightarrow> Inl (ErrMarshal e)
      | Inr data \<Rightarrow>
          Inr \<lparr>envData = data, envResolver = PublicKeyHex C priv,
               envSignature = hexutil_Encode C (id_Sign C priv data)\<rparr>)"

definition VerifyEnvelope :: "crypto_lib \<Rightarrow> envelope \<Rightarrow> sig_error + unit" where
  "VerifyEnvelope C env =
     (case hexutil_Decode C (envResolver env) of
        None \<Rightarrow> Inl (ErrBadResolverKey (envResolver env))
      | Some pub \<Rightarrow>
          if length pub \<noteq> 32 then Inl (ErrBadResolverKey (envResolver env))
          else case hexutil_Decode C (envSignature env) of
                 None \<Rightarrow> Inl (ErrBadSignatureEncoding (envSignature env))
               | Some sg \<Rightarrow>
                   if length sg \<noteq> 64 then Inl (ErrBadSignatureEncoding (envSignature env))
                   else if \<not> ed_Verify C pub (envData env) sg then Inl ErrSignatureInvalid
                   else Inr ())"

text \<open>The arguments of \<open>ResourceManifest\<close> that the response headers carry.\<close>

record provenance =
  pvOwner :: string
  pvPubKeyHex :: string
  pvInfoHash :: string
  pvSha256Hex :: string
  pvContentType :: string
  pvOwnerSigVerified :: bool
  pvZKProofHex :: string

definition ResourceManifest :: "crypto_lib \<Rightarrow> provenance \<Rightarrow> bytes \<Rightarrow> bytes" where
  "ResourceManifest C p body =
     str_bytes ''ddns-resource-v1'' @ writeStr32 (pvOwner p) @ writeStr32 (pvPubKeyHex p) @
     writeStr32 (pvInfoHash p) @ writeStr32 (pvSha256Hex p) @ writeStr32 (pvContentType p) @
     [if pvOwnerSigVerified p then 1 else 0] @ writeStr32 (pvZKProofHex p) @ Sum256 C body"

definition VerifyResourceSignature ::
  "crypto_lib \<Rightarrow> string \<Rightarrow> string \<Rightarrow> provenance \<Rightarrow> bytes \<Rightarrow> sig_error + unit" where
  "VerifyResourceSignature C resolverPubHex sigHex p body =
     (case hexutil_Decode C resolverPubHex of
        None \<Rightarrow> Inl (ErrBadResolverKey [])
      | Some pub \<Rightarrow>
          if length pub \<noteq> 32 then Inl (ErrBadResolverKey [])
          else case hexutil_Decode C sigHex of
                 None \<Rightarrow> Inl ErrSignatureInvalid
               | Some sg \<Rightarrow>
                   if length sg \<noteq> 64 then Inl ErrSignatureInvalid
                   else if \<not> ed_Verify C pub (ResourceManifest C p body) sg then Inl ErrSignatureInvalid
                   else Inr ())"

subsection \<open>The key file\<close>

text \<open>The file system and the random source, functions on a state \<open>'w\<close>; a call that fails returns its
  error. \<open>path_Dir\<close> is \<open>filepath.Dir\<close>.\<close>

datatype file_read = FileData string | FileNotExist | FileError string

record 'w os_env =
  os_ReadFile :: "string \<Rightarrow> 'w \<Rightarrow> file_read"
  os_MkdirAll :: "string \<Rightarrow> 'w \<Rightarrow> 'w \<times> string option"
  os_WriteFile :: "string \<Rightarrow> string \<Rightarrow> 'w \<Rightarrow> 'w \<times> string option"
  rand_Read :: "nat \<Rightarrow> 'w \<Rightarrow> 'w \<times> (string + bytes)"

definition SeedSize :: nat where "SeedSize = 32"

datatype keystore_error = ErrKeystore string | ErrOs string

definition LoadOrCreateIdentity ::
  "crypto_lib \<Rightarrow> 'w os_env \<Rightarrow> string \<Rightarrow> 'w \<Rightarrow> 'w \<times> (keystore_error + bytes)" where
  "LoadOrCreateIdentity C os path w =
     (case os_ReadFile os path w of
        FileData data \<Rightarrow>
          (case hex_decode (TrimPrefix (TrimSpace data) ''0x'') of
             None \<Rightarrow> (w, Inl (ErrKeystore path))
           | Some seed \<Rightarrow>
               if length seed \<noteq> SeedSize then (w, Inl (ErrKeystore path))
               else (w, Inr (ed_NewKeyFromSeed C seed)))
      | FileNotExist \<Rightarrow>
          (case rand_Read os SeedSize w of
             (w, Inl e) \<Rightarrow> (w, Inl (ErrOs e))
           | (w, Inr seed) \<Rightarrow>
               (let dir = path_Dir path;
                    (w, err) = (if dir \<noteq> ''.'' then os_MkdirAll os dir w else (w, None))
                in case err of
                     Some e \<Rightarrow> (w, Inl (ErrOs e))
                   | None \<Rightarrow>
                       (case os_WriteFile os path (hex_encode seed @ [CHR 0x0A]) w of
                          (w, Some e) \<Rightarrow> (w, Inl (ErrOs e))
                        | (w, None) \<Rightarrow> (w, Inr (ed_NewKeyFromSeed C seed)))))
      | FileError e \<Rightarrow> (w, Inl (ErrOs e)))"

section \<open>Facts about the signed messages\<close>

text \<open>What the package sort promises of the pairs, and the sizes for which the length prefixes are exact.\<close>

definition sorts_pairs :: "crypto_lib \<Rightarrow> bool" where
  "sorts_pairs C \<longleftrightarrow> (\<forall>ps. mset (sortPairs C ps) = mset ps \<and> sorted (map fst (sortPairs C ps)))"

definition fits_message :: "string \<Rightarrow> chain_record \<Rightarrow> bool" where
  "fits_message name r \<longleftrightarrow>
     length name < 65536 \<and> length (rType r) < 65536 \<and> length (rSelector r) < 65536 \<and>
     length (rFieldNames r) < 65536 \<and>
     list_all (\<lambda>s. length s < 65536) (rFieldNames r) \<and> list_all (\<lambda>s. length s < 65536) (rFieldVals r)"

text \<open>The content of a record that its owner's signature is meant to cover.\<close>

definition record_content ::
  "string \<Rightarrow> chain_record \<Rightarrow> string \<times> string \<times> string \<times> 32 word \<times> 64 word \<times> (string \<times> string) multiset" where
  "record_content name r =
     (name, rType r, rSelector r, rTTL r, rGeneration r, mset (zip (rFieldNames r) (rFieldVals r)))"

lemma field_pairs_Some:
  "field_pairs r = Some ps \<Longrightarrow> ps = zip (rFieldNames r) (rFieldVals r) \<and> length ps = length (rFieldNames r)"
  by (auto simp: field_pairs_def split: if_splits)

lemma fits_pairs:
  assumes "sorts_pairs C" "fits_message name r" "field_pairs r = Some ps"
  shows "list_all (\<lambda>p. length (fst p) < 65536 \<and> length (snd p) < 65536) (sortPairs C ps)"
    and "length (sortPairs C ps) = length (rFieldNames r)"
proof -
  have "mset (sortPairs C ps) = mset ps" using assms(1) by (simp add: sorts_pairs_def)
  then have "set (sortPairs C ps) = set ps" "length (sortPairs C ps) = length ps"
    using mset_eq_setD mset_eq_length by blast+
  then show "list_all (\<lambda>p. length (fst p) < 65536 \<and> length (snd p) < 65536) (sortPairs C ps)"
    "length (sortPairs C ps) = length (rFieldNames r)"
    using assms(2) field_pairs_Some [OF assms(3)]
    by (auto simp: fits_message_def list_all_iff dest: set_zip_leftD set_zip_rightD)
qed

lemma RecordMessage_content:
  assumes C: "sorts_pairs C" and fit: "fits_message name r" "fits_message name' r'"
    and m: "RecordMessage C name r = Some m" "RecordMessage C name' r' = Some m"
  shows "record_content name r = record_content name' r'"
proof -
  obtain ps where ps: "field_pairs r = Some ps" using m(1) by (auto simp: RecordMessage_def)
  obtain qs where qs: "field_pairs r' = Some qs" using m(2) by (auto simp: RecordMessage_def)
  note fp = fits_pairs [OF C fit(1) ps] and fq = fits_pairs [OF C fit(2) qs]
  have l: "length (rFieldNames r) < 65536" "length (rFieldNames r') < 65536"
    and s: "length name < 65536" "length (rType r) < 65536" "length (rSelector r) < 65536"
      "length name' < 65536" "length (rType r') < 65536" "length (rSelector r') < 65536"
    using fit by (simp_all add: fits_message_def)
  have n: "(word_of_nat (length (rFieldNames r)) :: 16 word) = word_of_nat (length (rFieldNames r')) \<longleftrightarrow>
      length (rFieldNames r) = length (rFieldNames r')"
    using l by (intro word_of_nat_length_inject) simp_all
  let ?e = "\<lambda>p. writeStr16 (fst p) @ writeStr16 (snd p)"
  have eq: "name = name' \<and> rType r = rType r' \<and> rSelector r = rSelector r' \<and> rTTL r = rTTL r' \<and>
      rGeneration r = rGeneration r' \<and> length (rFieldNames r) = length (rFieldNames r') \<and>
      concat (map ?e (sortPairs C ps)) = concat (map ?e (sortPairs C qs))"
    using m(1) [folded m(2)] by (simp add: RecordMessage_def ps qs Let_def str16.split u32.split u64.split u16.split s n fp(2) fq(2))
  then have "sortPairs C ps = sortPairs C qs"
    using field16.pair.list_split [of "sortPairs C ps" "sortPairs C qs" "[]" "[]"] fp fq by simp
  then have "mset ps = mset qs" using C by (metis sorts_pairs_def)
  then show ?thesis
    using eq field_pairs_Some [OF ps] field_pairs_Some [OF qs] by (simp add: record_content_def)
qed

lemma sorted_pairs_unique:
  assumes "mset ps = mset qs" "sorted (map fst ps)" "sorted (map fst qs)" "distinct (map fst ps)"
  shows "ps = qs"
proof -
  have "ps = sort_key fst ps" by (rule sort_key_id_if_sorted [OF assms(2), symmetric])
  also have "\<dots> = sort_key fst qs" by (rule sort_key_unique [OF assms(1,4)])
  also have "\<dots> = qs" by (rule sort_key_id_if_sorted [OF assms(3)])
  finally show ?thesis .
qed

lemma VerifyOwnerSig_Inr:
  assumes "VerifyOwnerSig C name r owner pubKey = Inr ()"
  obtains m pub where "RecordMessage C name r = Some m" "SigToPub C (TextHash C m) (normalize_v (rOwnerSig r)) = Inr pub"
    "PubkeyToAddress C pub = owner" "isPlaceholderPubKey pubKey \<or> FromECDSAPub C pub = pubKey"
    "length (rFieldNames r) = length (rFieldVals r)" "length (rOwnerSig r) = 65"
  using assms by (auto simp: VerifyOwnerSig_def SignatureLength_def split: if_splits option.splits sum.splits)

lemma RecordMessage_Some:
  "length (rFieldNames r) = length (rFieldVals r) \<Longrightarrow> \<exists>m. RecordMessage C name r = Some m"
  by (simp add: RecordMessage_def field_pairs_def)

lemma normalize_shifted:
  assumes "length sg = 65" "sg ! 64 < 27" 
  shows "normalize_v (sg[64 := sg ! 64 + 27]) = sg" and "normalize_v sg = sg"
proof -
  have "unat (sg ! 64) < 27" using assms(2) by (simp add: word_less_nat_alt)
  then have "unat (sg ! 64 + 27) = unat (sg ! 64) + 27" by (simp add: unat_word_ariths)
  then have "27 \<le> sg ! 64 + 27" by (simp add: word_le_nat_alt)
  then show "normalize_v (sg[64 := sg ! 64 + 27]) = sg" using assms(1) by (simp add: normalize_v_def)
  show "normalize_v sg = sg" using leD [of 27 "sg ! 64"] assms(2) by (auto simp: normalize_v_def)
qed

lemma Manifest_split:
  assumes "list_all (\<lambda>s. length s < 4294967296) [pvOwner p, pvPubKeyHex p, pvInfoHash p, pvSha256Hex p,
      pvContentType p, pvZKProofHex p, pvOwner q, pvPubKeyHex q, pvInfoHash q, pvSha256Hex q,
      pvContentType q, pvZKProofHex q]"
    and "ResourceManifest C p body = ResourceManifest C q body'"
  shows "p = q \<and> Sum256 C body = Sum256 C body'"
  using assms by (cases p; cases q) (auto simp: ResourceManifest_def str32.split str32.inject split: if_splits)

text \<open>The laws of hexutil and of ed25519 signatures that honest signing relies on.\<close>

definition hexutil_ok :: "crypto_lib \<Rightarrow> bool" where
  "hexutil_ok C \<longleftrightarrow> (\<forall>b. hexutil_Decode C (hexutil_Encode C b) = Some b \<and> hexutil_Encode C b = ''0x'' @ hex_encode b)"

definition ed_ok :: "crypto_lib \<Rightarrow> bytes \<Rightarrow> bool" where
  "ed_ok C priv \<longleftrightarrow> length (ed_Public C priv) = 32 \<and>
     (\<forall>m. length (ed_Sign C priv m) = 64 \<and> ed_Verify C (ed_Public C priv) m (ed_Sign C priv m))"

definition ecdsa_ok :: "crypto_lib \<Rightarrow> bytes \<Rightarrow> bytes \<Rightarrow> bool" where
  "ecdsa_ok C key pub \<longleftrightarrow>
     (\<forall>d sg. ecdsa_Sign C d key = Inr sg \<longrightarrow> length sg = 65 \<and> sg ! 64 < 27 \<and> SigToPub C d sg = Inr pub)"

lemma SealEnvelope_verifies:
  assumes "hexutil_ok C" and "ed_ok C priv" and "SealEnvelope C marshal priv v = Inr env"
  shows "VerifyEnvelope C env = Inr () \<and> hexutil_Decode C (envResolver env) = Some (ed_Public C priv) \<and>
    marshal v = Inr (envData env)"
proof -
  obtain data where "marshal v = Inr data" "env = \<lparr>envData = data, envResolver = PublicKeyHex C priv,
      envSignature = hexutil_Encode C (id_Sign C priv data)\<rparr>"
    using assms(3) by (auto simp: SealEnvelope_def split: sum.splits)
  moreover have "hexutil_Decode C (PublicKeyHex C priv) = Some (ed_Public C priv)"
    using assms(1) by (metis PublicKeyHex_def hexutil_ok_def)
  moreover have "hexutil_Decode C (hexutil_Encode C b) = Some b" for b
    using assms(1) unfolding hexutil_ok_def by blast
  ultimately show ?thesis
    using assms(2) by (simp add: VerifyEnvelope_def ed_ok_def id_Sign_def)
qed

lemma TrimPrefix_0x_hex: "TrimPrefix (hex_encode b) ''0x'' = hex_encode b"
proof (cases b)
  case (Cons x xs)
  have "hex_digit (unat x mod 16) \<noteq> CHR ''x''" by (rule hex_digit_not_x) simp
  then show ?thesis using Cons by (simp add: TrimPrefix_def)
qed (simp add: TrimPrefix_def)

lemma seed_file_decodes:
  assumes "b \<noteq> []"
  shows "hex_decode (TrimPrefix (TrimSpace (hex_encode b @ [CHR 0x0A])) ''0x'') = Some b"
proof -
  have "hex_encode b \<noteq> []" using assms by (cases b) simp_all
  then have "TrimSpace (hex_encode b @ [CHR 0x0A]) = hex_encode b"
    using hex_encode_graph [of b] by (intro TrimSpace_newline) (auto simp: list_all_iff)
  then show ?thesis by (simp add: TrimPrefix_0x_hex)
qed

lemma SignRecord_verifies:
  assumes "ecdsa_ok C key pub" and "length (rFieldNames r) = length (rFieldVals r)"
    and "SignRecord C name r key = Inr sg"
    and "isPlaceholderPubKey pubKey \<or> pubKey = FromECDSAPub C pub"
  shows "VerifyOwnerSig C name (r\<lparr>rOwnerSig := sg\<rparr>) (PubkeyToAddress C pub) pubKey = Inr () \<and>
    VerifyOwnerSig C name (r\<lparr>rOwnerSig := sg[64 := sg ! 64 - 27]\<rparr>) (PubkeyToAddress C pub) pubKey = Inr ()"
proof -
  obtain m raw where m: "RecordMessage C name r = Some m" "ecdsa_Sign C (TextHash C m) key = Inr raw"
    and sg: "sg = raw[64 := raw ! 64 + 27]"
    using assms(3) by (auto simp: SignRecord_def split: option.splits sum.splits if_splits)
  have raw: "length raw = 65" "raw ! 64 < 27" "SigToPub C (TextHash C m) raw = Inr pub"
    using assms(1) m(2) by (auto simp: ecdsa_ok_def)
  have same: "RecordMessage C name (r\<lparr>rOwnerSig := x\<rparr>) = Some m" for x
    unfolding m(1) [symmetric] by (simp add: RecordMessage_def field_pairs_def)
  have bk: "sg[64 := sg ! 64 - 27] = raw" using sg raw(1) by simp
  have "normalize_v sg = raw" "normalize_v raw = raw"
    using normalize_shifted [OF raw(1,2)] sg by simp_all
  then show ?thesis
    unfolding bk using assms(2,4) raw same sg by (auto simp: VerifyOwnerSig_def SignatureLength_def)
qed

section \<open>A toy instance\<close>

text \<open>Functions that satisfy the laws, for the witnesses: a key is its own public key and address, and
  a signature repeats the key.\<close>

definition toy_crypto :: crypto_lib where
  "toy_crypto = \<lparr>TextHash = id,
     SigToPub = (\<lambda>d sg. if sg = replicate 65 0 \<and> d \<noteq> [] then Inr [7] else Inl ''recovery failed''),
     FromECDSAPub = id, PubkeyToAddress = id,
     ecdsa_Sign = (\<lambda>d k. if k = [7] \<and> d \<noteq> [] then Inr (replicate 65 0) else Inl ''invalid key''),
     sortPairs = sort_key fst, ed_NewKeyFromSeed = id, ed_Public = take 32,
     ed_Sign = (\<lambda>k m. take 64 (k @ replicate 64 0)), ed_Verify = (\<lambda>pub m sg. True),
     Sum256 = (\<lambda>b. take 32 (b @ replicate 32 0)), hexutil_Encode = (\<lambda>b. ''0x'' @ hex_encode b),
     hexutil_Decode = (\<lambda>s. if HasPrefix s ''0x'' then hex_decode (drop 2 s) else None)\<rparr>"

lemma toy_sorts: "sorts_pairs toy_crypto"
  by (simp add: sorts_pairs_def toy_crypto_def)

lemma toy_hexutil: "hexutil_ok toy_crypto"
  by (simp add: hexutil_ok_def toy_crypto_def HasPrefix_def)

lemma toy_ed: "length k = 32 \<Longrightarrow> ed_ok toy_crypto k"
  by (simp add: ed_ok_def toy_crypto_def)

lemma toy_ecdsa: "ecdsa_ok toy_crypto [7] [7]"
  by (simp add: ecdsa_ok_def toy_crypto_def nth_replicate)

definition sample_record :: chain_record where
  "sample_record = \<lparr>rType = ''A'', rSelector = [], rFieldNames = [''ip'', ''alt''], rFieldVals = [''1.2.3.4'', ''x''],
     rTTL = 60, rGeneration = 1, rOwnerSig = [], rCommitment = [], rExists = True\<rparr>"

section \<open>Properties\<close>

text \<open>
  The message an owner signs determines the record: two records (whose strings are shorter than 64 KiB
  and that have fewer than 65536 fields) have the same message only if name, type, selector, TTL,
  generation and the multiset of field pairs are the same.
\<close>

theorem record_message_injective:
  assumes "sorts_pairs C" and "fits_message name r" and "fits_message name' r'"
    and "RecordMessage C name r = Some m" and "RecordMessage C name' r' = Some m"
  shows "record_content name r = record_content name' r'"
  by (rule RecordMessage_content [OF assms])

theorem record_message_injective_witness:
  "record_content ''a.eth'' sample_record = record_content ''a.eth''
     (sample_record\<lparr>rFieldNames := [''alt'', ''ip''], rFieldVals := [''x'', ''1.2.3.4'']\<rparr>)"
proof -
  let ?r = "sample_record\<lparr>rFieldNames := [''alt'', ''ip''], rFieldVals := [''x'', ''1.2.3.4'']\<rparr>"
  have e: "RecordMessage toy_crypto ''a.eth'' ?r = RecordMessage toy_crypto ''a.eth'' sample_record"
    by (simp add: RecordMessage_def field_pairs_def sample_record_def toy_crypto_def)
  obtain m where m: "RecordMessage toy_crypto ''a.eth'' sample_record = Some m"
    using RecordMessage_Some [of sample_record toy_crypto "''a.eth''"] by (auto simp: sample_record_def)
  have "fits_message ''a.eth'' sample_record" "fits_message ''a.eth'' ?r"
    by (simp_all add: fits_message_def sample_record_def)
  from record_message_injective [OF toy_sorts this m] e m show ?thesis by metis
qed

text \<open>
  The message does not depend on the order in which the fields are listed when their names are
  distinct: permuting the fields gives the same bytes, so the same signature.
\<close>

theorem record_message_field_order:
  assumes "sorts_pairs C" and "sorts_pairs D" and "length (rFieldNames r) = length (rFieldVals r)"
    and "length ns = length vs" and "mset (zip ns vs) = mset (zip (rFieldNames r) (rFieldVals r))"
    and "distinct ns"
  shows "RecordMessage D name (r\<lparr>rFieldNames := ns, rFieldVals := vs\<rparr>) = RecordMessage C name r"
proof -
  let ?ps = "zip ns vs" and ?qs = "zip (rFieldNames r) (rFieldVals r)"
  have m: "mset (sortPairs D ?ps) = mset ?ps" "mset (sortPairs C ?qs) = mset ?qs"
    and s: "sorted (map fst (sortPairs D ?ps))" "sorted (map fst (sortPairs C ?qs))"
    using assms(1,2) by (simp_all add: sorts_pairs_def)
  have "mset (map fst (sortPairs D ?ps)) = mset ns"
    using m(1) assms(4) by (metis map_fst_zip mset_map)
  then have "distinct (map fst (sortPairs D ?ps))" using assms(6) by (metis mset_eq_imp_distinct_iff)
  then have "sortPairs D ?ps = sortPairs C ?qs"
    using m s assms(5) by (intro sorted_pairs_unique) simp_all
  then show ?thesis using assms(3,4) by (simp add: RecordMessage_def field_pairs_def)
qed

theorem record_message_field_order_witness:
  "RecordMessage toy_crypto ''a.eth'' (sample_record\<lparr>rFieldNames := [''alt'', ''ip''], rFieldVals := [''x'', ''1.2.3.4'']\<rparr>) =
   RecordMessage toy_crypto ''a.eth'' sample_record"
  by (rule record_message_field_order [OF toy_sorts toy_sorts]) (simp_all add: sample_record_def)

text \<open>The digests of the records in \<open>S\<close>.\<close>

definition signed_digests :: "crypto_lib \<Rightarrow> (string \<times> chain_record) set \<Rightarrow> bytes set" where
  "signed_digests C S = {TextHash C m |m n r. (n, r) \<in> S \<and> RecordMessage C n r = Some m}"

text \<open>
  C6: What an accepted owner signature says, without any assumption on the signature scheme or the hash. Let \<open>S\<close> be the records
  that the owner has signed, of which there may be any number; the key may have signed other things as well. A record that
  \<open>VerifyOwnerSig\<close> accepts has the name, type, selector, TTL, generation and fields of a record in \<open>S\<close>; or its signature is a
  forgery, which recovers to the owner (and to the key registered for the name, unless that is a placeholder) on the digest of a record
  message that is not the digest of any record in \<open>S\<close>; or its message collides under \<open>TextHash\<close> with the different message of a record
  in \<open>S\<close>. So who replays a signature, of an earlier generation for example, has to break the signature scheme or the hash.
\<close>

theorem owner_signature_binds_record:
  assumes "sorts_pairs C" and "\<And>n' r'. (n', r') \<in> S \<Longrightarrow> fits_message n' r'"
    and "fits_message name r" and "VerifyOwnerSig C name r owner pubKey = Inr ()"
  shows "\<exists>m. RecordMessage C name r = Some m \<and>
    ((\<exists>(n', r') \<in> S. record_content name r = record_content n' r') \<or>
     (\<exists>pub. TextHash C m \<notin> signed_digests C S \<and> SigToPub C (TextHash C m) (normalize_v (rOwnerSig r)) = Inr pub \<and>
        PubkeyToAddress C pub = owner \<and> (isPlaceholderPubKey pubKey \<or> FromECDSAPub C pub = pubKey)) \<or>
     (\<exists>(n', r') \<in> S. \<exists>m'. RecordMessage C n' r' = Some m' \<and> m' \<noteq> m \<and> TextHash C m' = TextHash C m))"
proof -
  obtain m pub where m: "RecordMessage C name r = Some m"
    and p: "SigToPub C (TextHash C m) (normalize_v (rOwnerSig r)) = Inr pub" "PubkeyToAddress C pub = owner"
      "isPlaceholderPubKey pubKey \<or> FromECDSAPub C pub = pubKey"
    using assms(4) by (rule VerifyOwnerSig_Inr)
  show ?thesis
  proof (cases "TextHash C m \<in> signed_digests C S")
    case True
    then obtain m' n' r' where s: "(n', r') \<in> S" "RecordMessage C n' r' = Some m'" "TextHash C m' = TextHash C m"
      by (auto simp: signed_digests_def)
    have "record_content name r = record_content n' r'" if "m' = m"
      using RecordMessage_content [OF assms(1,3) assms(2) [OF s(1)] m] s(2) that by blast
    then show ?thesis using m s by (cases "m' = m") blast+
  qed (use m p in blast)
qed

text \<open>The owner has signed one record; the same signature is accepted with the fields listed in another order.\<close>

theorem owner_signature_binds_record_witness:
  "\<exists>(n', r') \<in> {(''a.eth'', sample_record)}. record_content ''a.eth'' (sample_record\<lparr>rFieldNames := [''alt'', ''ip''],
     rFieldVals := [''x'', ''1.2.3.4''], rOwnerSig := replicate 65 0\<rparr>) = record_content n' r'"
proof -
  let ?r = "sample_record\<lparr>rFieldNames := [''alt'', ''ip''], rFieldVals := [''x'', ''1.2.3.4''], rOwnerSig := replicate 65 0\<rparr>"
  let ?S = "{(''a.eth'', sample_record)}"
  have e: "RecordMessage toy_crypto ''a.eth'' ?r = RecordMessage toy_crypto ''a.eth'' sample_record"
    by (simp add: RecordMessage_def field_pairs_def sample_record_def toy_crypto_def)
  have f: "fits_message ''a.eth'' ?r" by (simp add: fits_message_def sample_record_def)
  have g: "fits_message n' r'" if "(n', r') \<in> ?S" for n' r'
    using that by (simp add: fits_message_def sample_record_def)
  have v: "VerifyOwnerSig toy_crypto ''a.eth'' ?r [7] [] = Inr ()" by code_simp
  have t: "TextHash toy_crypto m = m" for m by (simp add: toy_crypto_def)
  have s: "m \<in> signed_digests toy_crypto ?S" if "RecordMessage toy_crypto ''a.eth'' ?r = Some m" for m
    using that unfolding signed_digests_def t e by blast
  obtain m where m: "RecordMessage toy_crypto ''a.eth'' ?r = Some m"
    and alt: "(\<exists>(n', r') \<in> ?S. record_content ''a.eth'' ?r = record_content n' r') \<or> m \<notin> signed_digests toy_crypto ?S \<or>
      (\<exists>(n', r') \<in> ?S. \<exists>m'. m' \<noteq> m \<and> m' = m)"
    using owner_signature_binds_record [where S = ?S, OF toy_sorts g f v, unfolded t] by fast
  from alt s [OF m] show ?thesis by simp
qed

text \<open>
  Signing and verifying agree: a record carrying the signature that \<open>SignRecord\<close> made with the owner's key
  passes \<open>VerifyOwnerSig\<close> against the owner's address and public key (or a placeholder key), and so does the same
  signature with the raw recovery id 0 or 1 instead of 27 or 28.
\<close>

theorem sign_verify_record:
  assumes "ecdsa_ok C key pub" and "length (rFieldNames r) = length (rFieldVals r)"
    and "SignRecord C name r key = Inr sg"
    and "isPlaceholderPubKey pubKey \<or> pubKey = FromECDSAPub C pub"
  shows "VerifyOwnerSig C name (r\<lparr>rOwnerSig := sg\<rparr>) (PubkeyToAddress C pub) pubKey = Inr () \<and>
    VerifyOwnerSig C name (r\<lparr>rOwnerSig := sg[64 := sg ! 64 - 27]\<rparr>) (PubkeyToAddress C pub) pubKey = Inr ()"
  by (rule SignRecord_verifies [OF assms])

theorem sign_verify_record_witness:
  "VerifyOwnerSig toy_crypto ''a.eth'' (sample_record\<lparr>rOwnerSig := replicate 64 0 @ [27]\<rparr>) [7] [] = Inr ()"
proof -
  have "SignRecord toy_crypto ''a.eth'' sample_record [7] = Inr (replicate 64 0 @ [27])" by code_simp
  from sign_verify_record [OF toy_ecdsa _ this, of "[]"] show ?thesis
    by (simp add: sample_record_def toy_crypto_def isPlaceholderPubKey_def)
qed

text \<open>
  An envelope that the resolver seals passes verification, with the resolver's own key in it.
\<close>

theorem envelope_roundtrip:
  assumes "hexutil_ok C" and "ed_ok C priv" and "SealEnvelope C marshal priv v = Inr env"
  shows "VerifyEnvelope C env = Inr () \<and> hexutil_Decode C (envResolver env) = Some (ed_Public C priv) \<and>
    marshal v = Inr (envData env)"
  by (rule SealEnvelope_verifies [OF assms])

theorem envelope_roundtrip_witness:
  "\<exists>env. SealEnvelope toy_crypto Inr (replicate 32 5) [1, 2] = Inr env \<and> VerifyEnvelope toy_crypto env = Inr ()"
proof -
  obtain env where e: "SealEnvelope toy_crypto Inr (replicate 32 5) [1, 2] = Inr env"
    by (simp add: SealEnvelope_def)
  from envelope_roundtrip [OF toy_hexutil toy_ed e] e show ?thesis by simp
qed

text \<open>
  A resource signature covers every header and the body: when the resolver's key verifies only manifests
  the resolver signed, a response accepted by \<open>VerifyResourceSignature\<close> has exactly the provenance of a
  signed response and a body with the same SHA-256.
\<close>

theorem resource_signature_binds_headers:
  assumes "hexutil_Decode C keyHex = Some pub"
    and "\<And>m sg. ed_Verify C pub m sg \<Longrightarrow> \<exists>(q, b) \<in> S. m = ResourceManifest C q b"
    and "\<And>q b. (q, b) \<in> S \<union> {(p, body)} \<Longrightarrow> list_all (\<lambda>s. length s < 4294967296)
           [pvOwner q, pvPubKeyHex q, pvInfoHash q, pvSha256Hex q, pvContentType q, pvZKProofHex q]"
    and "VerifyResourceSignature C keyHex sigHex p body = Inr ()"
  shows "\<exists>b. (p, b) \<in> S \<and> Sum256 C b = Sum256 C body"
proof -
  obtain sg where "ed_Verify C pub (ResourceManifest C p body) sg"
    using assms(1,4) by (auto simp: VerifyResourceSignature_def split: option.splits if_splits)
  from assms(2) [OF this] obtain q b where q: "(q, b) \<in> S" "ResourceManifest C p body = ResourceManifest C q b"
    by auto
  have "p = q \<and> Sum256 C body = Sum256 C b"
    using assms(3) [of q b] assms(3) [of p body] q by (intro Manifest_split) simp_all
  then show ?thesis using q(1) by metis
qed

theorem resource_signature_binds_headers_witness:
  "let p = \<lparr>pvOwner = ''0x1'', pvPubKeyHex = ''0x'', pvInfoHash = ''ab'', pvSha256Hex = ''cd'',
        pvContentType = ''text/html'', pvOwnerSigVerified = True, pvZKProofHex = []\<rparr>;
       C = toy_crypto\<lparr>ed_Verify := (\<lambda>pub m sg. m = ResourceManifest toy_crypto p [1, 2])\<rparr>
   in VerifyResourceSignature C (''0x'' @ hex_encode (replicate 32 5)) (''0x'' @ hex_encode (replicate 64 6)) p [1, 2] = Inr () \<and>
      (\<exists>b. (p, b) \<in> {(p, [1, 2])} \<and> Sum256 C b = Sum256 C [1, 2])"
proof -
  define p where "p = \<lparr>pvOwner = ''0x1'', pvPubKeyHex = ''0x'', pvInfoHash = ''ab'', pvSha256Hex = ''cd'',
        pvContentType = ''text/html'', pvOwnerSigVerified = True, pvZKProofHex = []\<rparr>"
  define C where "C = toy_crypto\<lparr>ed_Verify := (\<lambda>pub m sg. m = ResourceManifest toy_crypto p [1, 2])\<rparr>"
  have man: "ResourceManifest C = ResourceManifest toy_crypto"
    by (intro ext) (simp add: ResourceManifest_def C_def)
  have dec: "hexutil_Decode C (''0x'' @ hex_encode b) = Some b" for b
    by (simp add: C_def toy_crypto_def HasPrefix_def)
  have v: "VerifyResourceSignature C (''0x'' @ hex_encode (replicate 32 5)) (''0x'' @ hex_encode (replicate 64 6)) p [1, 2] = Inr ()"
    unfolding VerifyResourceSignature_def dec man by (simp add: C_def)
  have "\<exists>b. (p, b) \<in> {(p, [1, 2])} \<and> Sum256 C b = Sum256 C [1, 2]"
    by (rule resource_signature_binds_headers [OF dec _ _ v]) (simp_all add: man, simp_all add: C_def p_def)
  with v show ?thesis unfolding Let_def p_def [symmetric] C_def [symmetric] by blast
qed

text \<open>
  The identity survives a restart: when the first start created the key file, every later start that
  finds what was written loads the same key.
\<close>

theorem identity_survives_restart:
  assumes "os_ReadFile os path w = FileNotExist" and "LoadOrCreateIdentity C os path w = (w', Inr priv)"
    and "\<And>u u' s. rand_Read os 32 u = (u', Inr s) \<Longrightarrow> length s = 32"
    and "\<And>p d u u'. os_WriteFile os p d u = (u', None) \<Longrightarrow> os_ReadFile os p u' = FileData d"
  shows "LoadOrCreateIdentity C os path w' = (w', Inr priv)"
proof -
  obtain seed u u' where s: "rand_Read os 32 u = (u', Inr seed)"
    and wr: "\<exists>v. os_WriteFile os path (hex_encode seed @ [CHR 0x0A]) v = (w', None)"
    and priv: "priv = ed_NewKeyFromSeed C seed"
    using assms(1,2)
    by (auto simp: LoadOrCreateIdentity_def SeedSize_def Let_def split: prod.splits sum.splits option.splits)
  have "length seed = 32" by (rule assms(3) [OF s])
  moreover from this have "seed \<noteq> []" by auto
  moreover have "os_ReadFile os path w' = FileData (hex_encode seed @ [CHR 0x0A])" using wr assms(4) by blast
  ultimately show ?thesis
    by (simp add: LoadOrCreateIdentity_def seed_file_decodes SeedSize_def priv)
qed

text \<open>A disk with one file.\<close>

definition toy_os :: "string option os_env" where
  "toy_os = \<lparr>os_ReadFile = (\<lambda>p w. case w of None \<Rightarrow> FileNotExist | Some d \<Rightarrow> FileData d),
     os_MkdirAll = (\<lambda>d w. (w, None)), os_WriteFile = (\<lambda>p d w. (Some d, None)),
     rand_Read = (\<lambda>n w. (w, Inr (replicate n 9)))\<rparr>"

theorem identity_survives_restart_witness:
  "LoadOrCreateIdentity toy_crypto toy_os ''keys/resolver.key'' (Some (hex_encode (replicate 32 9) @ [CHR 0x0A])) =
   (Some (hex_encode (replicate 32 9) @ [CHR 0x0A]), Inr (replicate 32 9))"
  by (rule identity_survives_restart [of toy_os _ None])
    (auto simp: toy_os_def LoadOrCreateIdentity_def SeedSize_def toy_crypto_def Let_def)

end
