(* ===== verification/Zk_Commit.thy ===== *)
theory Zk_Commit
  imports Ddns_Prelude
begin

text \<open>
  The record commitments and proofs of src/resolver/internal/zk: packing a message into field elements,
  the MiMC commitment, the circuit and its witness, proving and verifying with the embedded keys, and the
  256-byte wire form of a proof.

  The field, MiMC and Groth16 are gnark's; they are the record \<open>zk_lib\<close>. \<open>fr_Bytes\<close> is
  \<open>SetBigInt\<close> followed by \<open>Bytes\<close>, \<open>mimc_Sum\<close> the digest after writing blocks one by one, \<open>api_MiMC\<close> the
  hash as the circuit computes it on field elements, \<open>fp_SetBytesCanonical\<close> the decoding of a coordinate.
  Keys, constraint systems and witnesses are opaque byte strings here.
\<close>

section \<open>Definitions\<close>

record circuit =
  cLength :: nat
  cChunks :: "nat list"
  cCommitment :: nat

text \<open>The eight coordinates of a Groth16 proof.\<close>

record g16_proof =
  pArX :: nat
  pArY :: nat
  pBsXA1 :: nat
  pBsXA0 :: nat
  pBsYA1 :: nat
  pBsYA0 :: nat
  pKrsX :: nat
  pKrsY :: nat

record zk_lib =
  fr_Bytes :: "nat \<Rightarrow> bytes"
  mimc_Sum :: "bytes list \<Rightarrow> string + hash32"
  api_MiMC :: "nat list \<Rightarrow> nat"
  artifact_file :: "string \<Rightarrow> string + bytes"
  read_ccs :: "bytes \<Rightarrow> string + bytes"
  read_pk :: "bytes \<Rightarrow> string + bytes"
  read_vk :: "bytes \<Rightarrow> string + bytes"
  full_witness :: "circuit \<Rightarrow> string + bytes"
  public_witness :: "nat \<Rightarrow> string + bytes"
  groth16_Prove :: "bytes \<Rightarrow> bytes \<Rightarrow> bytes \<Rightarrow> string + g16_proof"
  groth16_Verify :: "g16_proof \<Rightarrow> bytes \<Rightarrow> bytes \<Rightarrow> string + unit"
  MarshalSolidity :: "g16_proof \<Rightarrow> bytes"
  fp_SetBytesCanonical :: "bytes \<Rightarrow> string + nat"

datatype zk_error = ErrPayloadTooLarge nat | ErrZk string

definition ChunkSize :: nat where "ChunkSize = 31"
definition MaxChunks :: nat where "MaxChunks = 16"
definition MaxPayload :: nat where "MaxPayload = ChunkSize * MaxChunks"

text \<open>\<open>Define\<close>: the constraint that the circuit imposes on its variables.\<close>

definition circuit_Define :: "zk_lib \<Rightarrow> circuit \<Rightarrow> bool" where
  "circuit_Define Z c = (api_MiMC Z (cLength c # cChunks c) = cCommitment c)"

definition pack_chunk :: "bytes \<Rightarrow> nat \<Rightarrow> bytes" where
  "pack_chunk msg i =
     (let lo = i * ChunkSize
      in if lo < length msg then (let hi = min (lo + ChunkSize) (length msg) in take (hi - lo) (drop lo msg)) else [])"

definition PackMessage :: "bytes \<Rightarrow> zk_error + nat list" where
  "PackMessage msg =
     (if length msg > MaxPayload then Inl (ErrPayloadTooLarge (length msg))
      else Inr (length msg # map (\<lambda>i. be_nat (pack_chunk msg i)) [0..<MaxChunks]))"

definition lift_zk :: "string + 'a \<Rightarrow> zk_error + 'a" where
  "lift_zk r = (case r of Inl e \<Rightarrow> Inl (ErrZk e) | Inr x \<Rightarrow> Inr x)"

definition Commitment :: "zk_lib \<Rightarrow> bytes \<Rightarrow> zk_error + hash32" where
  "Commitment Z msg =
     rbind (PackMessage msg) (\<lambda>elements. lift_zk (mimc_Sum Z (map (fr_Bytes Z) elements)))"

definition assignment :: "zk_lib \<Rightarrow> bytes \<Rightarrow> zk_error + circuit" where
  "assignment Z msg =
     rbind (PackMessage msg) (\<lambda>elements.
     rbind (Commitment Z msg) (\<lambda>commitment.
       Inr \<lparr>cLength = elements ! 0, cChunks = map (\<lambda>i. elements ! (i + 1)) [0..<MaxChunks],
            cCommitment = be_nat commitment\<rparr>))"

text \<open>The package state that \<open>loadArtifacts\<close> fills once.\<close>

record zk_state =
  zs_once :: bool
  zs_loadErr :: "string option"
  zs_ccs :: bytes
  zs_pk :: bytes
  zs_vk :: bytes

definition zk_initial :: zk_state where
  "zk_initial = \<lparr>zs_once = False, zs_loadErr = None, zs_ccs = [], zs_pk = [], zs_vk = []\<rparr>"

definition load_once :: "zk_lib \<Rightarrow> zk_state \<Rightarrow> zk_state" where
  "load_once Z s =
     (case artifact_file Z ''artifacts/record_v1.ccs'' of
        Inl e \<Rightarrow> s\<lparr>zs_loadErr := Some (''zk artifacts missing (run `make zk-setup`): '' @ e)\<rparr>
      | Inr ccsBytes \<Rightarrow>
     (case read_ccs Z ccsBytes of
        Inl e \<Rightarrow> s\<lparr>zs_loadErr := Some (''read ccs: '' @ e)\<rparr>
      | Inr ccs \<Rightarrow>
     (let s = s\<lparr>zs_ccs := ccs\<rparr> in
      case artifact_file Z ''artifacts/record_v1.pk'' of
        Inl e \<Rightarrow> s\<lparr>zs_loadErr := Some e\<rparr>
      | Inr pkBytes \<Rightarrow>
     (case read_pk Z pkBytes of
        Inl e \<Rightarrow> s\<lparr>zs_loadErr := Some (''read pk: '' @ e)\<rparr>
      | Inr pk \<Rightarrow>
     (let s = s\<lparr>zs_pk := pk\<rparr> in
      case artifact_file Z ''artifacts/record_v1.vk'' of
        Inl e \<Rightarrow> s\<lparr>zs_loadErr := Some e\<rparr>
      | Inr vkBytes \<Rightarrow>
     (case read_vk Z vkBytes of
        Inl e \<Rightarrow> s\<lparr>zs_loadErr := Some (''read vk: '' @ e)\<rparr>
      | Inr vk \<Rightarrow> s\<lparr>zs_vk := vk\<rparr>))))))"

definition loadArtifacts :: "zk_lib \<Rightarrow> zk_state \<Rightarrow> zk_state \<times> (zk_error + unit)" where
  "loadArtifacts Z s =
     (let s = (if zs_once s then s else (load_once Z s)\<lparr>zs_once := True\<rparr>)
      in (s, case zs_loadErr s of None \<Rightarrow> Inr () | Some e \<Rightarrow> Inl (ErrZk e)))"

definition Prove :: "zk_lib \<Rightarrow> bytes \<Rightarrow> zk_state \<Rightarrow> zk_state \<times> (zk_error + g16_proof)" where
  "Prove Z msg s =
     (case loadArtifacts Z s of
        (s, Inl e) \<Rightarrow> (s, Inl e)
      | (s, Inr _) \<Rightarrow>
          (s, rbind (assignment Z msg) (\<lambda>assign.
              case full_witness Z assign of
                Inl e \<Rightarrow> Inl (ErrZk (''witness: '' @ e))
              | Inr w \<Rightarrow>
                  (case groth16_Prove Z (zs_ccs s) (zs_pk s) w of
                     Inl e \<Rightarrow> Inl (ErrZk (''prove: '' @ e))
                   | Inr pf \<Rightarrow> Inr pf))))"

definition Verify :: "zk_lib \<Rightarrow> g16_proof \<Rightarrow> hash32 \<Rightarrow> zk_state \<Rightarrow> zk_state \<times> (zk_error + unit)" where
  "Verify Z pf commitment s =
     (case loadArtifacts Z s of
        (s, Inl e) \<Rightarrow> (s, Inl e)
      | (s, Inr _) \<Rightarrow>
          (s, rbind (lift_zk (public_witness Z (be_nat commitment))) (\<lambda>pubW.
              lift_zk (groth16_Verify Z pf (zs_vk s) pubW))))"

definition SolidityCalldata :: "zk_lib \<Rightarrow> g16_proof \<Rightarrow> bytes" where
  "SolidityCalldata Z pf = MarshalSolidity Z pf"

definition calldata_word :: "zk_lib \<Rightarrow> bytes \<Rightarrow> nat \<Rightarrow> string + nat" where
  "calldata_word Z data i = fp_SetBytesCanonical Z (take 32 (drop (32 * i) data))"

definition ProofFromSolidityCalldata :: "zk_lib \<Rightarrow> bytes \<Rightarrow> string + g16_proof" where
  "ProofFromSolidityCalldata Z data =
     (if length data \<noteq> 256 then Inl ''want 256-byte proof calldata''
      else
        rbind (calldata_word Z data 0) (\<lambda>arX.
        rbind (calldata_word Z data 1) (\<lambda>arY.
        rbind (calldata_word Z data 2) (\<lambda>bsXA1.
        rbind (calldata_word Z data 3) (\<lambda>bsXA0.
        rbind (calldata_word Z data 4) (\<lambda>bsYA1.
        rbind (calldata_word Z data 5) (\<lambda>bsYA0.
        rbind (calldata_word Z data 6) (\<lambda>krsX.
        rbind (calldata_word Z data 7) (\<lambda>krsY.
          Inr \<lparr>pArX = arX, pArY = arY, pBsXA1 = bsXA1, pBsXA0 = bsXA0, pBsYA1 = bsYA1, pBsYA0 = bsYA0,
               pKrsX = krsX, pKrsY = krsY\<rparr>)))))))))"

section \<open>Facts\<close>

lemma lift_zk_Inr [simp]: "lift_zk r = Inr x \<longleftrightarrow> r = Inr x"
  by (cases r) (simp_all add: lift_zk_def)

lemma Commitment_Inr:
  "Commitment Z m = Inr c \<longleftrightarrow> (\<exists>es. PackMessage m = Inr es \<and> mimc_Sum Z (map (fr_Bytes Z) es) = Inr c)"
  by (simp add: Commitment_def rbind_eq_Inr)

lemma pack_chunk_take: "pack_chunk msg i = take ChunkSize (drop (i * ChunkSize) msg)"
  by (auto simp: pack_chunk_def Let_def min_def)

lemma concat_chunks: "concat (map (\<lambda>i. take k (drop (i * k) xs)) [0..<n]) = take (n * k) xs"
proof (induction n)
  case (Suc n)
  have "take (n * k) xs @ take k (drop (n * k) xs) = take (n * k + k) xs" by (simp add: take_add)
  with Suc show ?case by (simp add: add.commute)
qed simp

lemma PackMessage_elements:
  assumes "PackMessage msg = Inr es"
  shows "es = length msg # map (\<lambda>i. be_nat (pack_chunk msg i)) [0..<MaxChunks]" and "length msg \<le> MaxPayload"
  using assms by (auto simp: PackMessage_def split: if_splits)

lemma PackMessage_unpack:
  assumes "PackMessage msg = Inr es"
  shows "concat (map (pack_chunk msg) [0..<MaxChunks]) = msg"
proof -
  have "pack_chunk msg = (\<lambda>i. take ChunkSize (drop (i * ChunkSize) msg))"
    by (rule ext) (rule pack_chunk_take)
  then show ?thesis
    using PackMessage_elements(2) [OF assms] by (simp add: concat_chunks MaxPayload_def mult.commute)
qed

lemma PackMessage_bound:
  assumes "PackMessage msg = Inr es" and "e \<in> set es"
  shows "e < 2 ^ 248"
proof -
  consider "e = length msg" | i where "e = be_nat (pack_chunk msg i)"
    using assms(2) PackMessage_elements(1) [OF assms(1)] by auto
  then show ?thesis
  proof cases
    case 1
    then show ?thesis
      using PackMessage_elements(2) [OF assms(1)] by (simp add: MaxPayload_def ChunkSize_def MaxChunks_def)
  next
    case 2
    have "length (pack_chunk msg i) \<le> 31" by (simp add: pack_chunk_take ChunkSize_def)
    then have "(256::nat) ^ length (pack_chunk msg i) \<le> 256 ^ 31" by (intro power_increasing) simp_all
    then have "be_nat (pack_chunk msg i) < 256 ^ 31" using be_nat_less less_le_trans by blast
    then show ?thesis using 2 by simp
  qed
qed

lemma PackMessage_inject:
  assumes "PackMessage m = Inr es" and "PackMessage m' = Inr es"
  shows "m = m'"
proof -
  have l: "length m = length m'" and
    c: "\<And>i. i < MaxChunks \<Longrightarrow> be_nat (pack_chunk m i) = be_nat (pack_chunk m' i)"
    using PackMessage_elements(1) [OF assms(1)] PackMessage_elements(1) [OF assms(2)] by auto
  have "pack_chunk m i = pack_chunk m' i" if "i < MaxChunks" for i
    using c [OF that] by (intro be_nat_inject) (simp_all add: pack_chunk_take l)
  then have "concat (map (pack_chunk m) [0..<MaxChunks]) = concat (map (pack_chunk m') [0..<MaxChunks])"
    by (intro arg_cong [where f = concat] map_cong) simp_all
  then show ?thesis using PackMessage_unpack [OF assms(1)] PackMessage_unpack [OF assms(2)] by simp
qed

lemma loadArtifacts_once: "zs_once (fst (loadArtifacts Z s))"
  by (simp add: loadArtifacts_def Let_def)

lemma loadArtifacts_idem:
  "loadArtifacts Z (fst (loadArtifacts Z s)) = loadArtifacts Z s"
  by (simp add: loadArtifacts_def Let_def)

text \<open>The package state is the initial one or the one after the first load; proving gives the same result in both.\<close>

definition zk_reach :: "zk_lib \<Rightarrow> zk_state \<Rightarrow> bool" where
  "zk_reach Z s \<longleftrightarrow> s = zk_initial \<or> s = fst (loadArtifacts Z zk_initial)"

lemma zk_reach_load: "zk_reach Z s \<Longrightarrow> loadArtifacts Z s = loadArtifacts Z zk_initial"
  by (auto simp: zk_reach_def loadArtifacts_idem)

lemma zk_reach_Prove: "zk_reach Z s \<Longrightarrow> Prove Z msg s = Prove Z msg zk_initial"
  by (simp add: Prove_def zk_reach_load)

lemma Prove_reach: "zk_reach Z s \<Longrightarrow> zk_reach Z (fst (Prove Z msg s))"
  by (simp add: zk_reach_Prove) (auto simp: zk_reach_def Prove_def split: prod.splits sum.splits)

text \<open>What the theorems use of gnark: the in-circuit hash agrees with the native one, and a proof made from
  a satisfying assignment verifies for its public input.\<close>

definition mimc_agrees :: "zk_lib \<Rightarrow> bool" where
  "mimc_agrees Z \<longleftrightarrow> (\<forall>es h. mimc_Sum Z (map (fr_Bytes Z) es) = Inr h \<longrightarrow> api_MiMC Z es = be_nat h)"

definition groth16_complete :: "zk_lib \<Rightarrow> bytes \<Rightarrow> bytes \<Rightarrow> bytes \<Rightarrow> bool" where
  "groth16_complete Z ccs pk vk \<longleftrightarrow>
     (\<forall>c w pf pw. circuit_Define Z c \<and> full_witness Z c = Inr w \<and> groth16_Prove Z ccs pk w = Inr pf \<and>
        public_witness Z (cCommitment c) = Inr pw \<longrightarrow> groth16_Verify Z pf vk pw = Inr ())"

lemma assignment_Inr:
  assumes "assignment Z msg = Inr c"
  obtains es com where "PackMessage msg = Inr es" "Commitment Z msg = Inr com"
    "c = \<lparr>cLength = es ! 0, cChunks = map (\<lambda>i. es ! (i + 1)) [0..<MaxChunks], cCommitment = be_nat com\<rparr>"
  using assms by (auto simp: assignment_def rbind_eq_Inr)

lemma assignment_elements:
  assumes "PackMessage msg = Inr es"
  shows "es ! 0 # map (\<lambda>i. es ! (i + 1)) [0..<MaxChunks] = es"
proof -
  have "map (\<lambda>i. es ! (i + 1)) [0..<MaxChunks] = map (\<lambda>i. be_nat (pack_chunk msg i)) [0..<MaxChunks]"
    unfolding PackMessage_elements(1) [OF assms] by (intro map_cong) simp_all
  then show ?thesis using PackMessage_elements(1) [OF assms] by simp
qed

lemma assignment_satisfies:
  assumes "mimc_agrees Z" and "assignment Z msg = Inr c"
  shows "circuit_Define Z c"
  using assms(2)
proof (rule assignment_Inr)
  fix es com
  assume es: "PackMessage msg = Inr es" and com: "Commitment Z msg = Inr com"
    and c: "c = \<lparr>cLength = es ! 0, cChunks = map (\<lambda>i. es ! (i + 1)) [0..<MaxChunks], cCommitment = be_nat com\<rparr>"
  have "mimc_Sum Z (map (fr_Bytes Z) es) = Inr com"
    using es com by (auto simp: Commitment_def lift_zk_def split: sum.splits)
  then show ?thesis
    using assms(1) assignment_elements [OF es] by (simp add: circuit_Define_def c mimc_agrees_def)
qed

lemma Prove_Inr:
  assumes "Prove Z msg s = (s', Inr pf)"
  obtains c w where "loadArtifacts Z s = (s', Inr ())" "assignment Z msg = Inr c" "full_witness Z c = Inr w"
    "groth16_Prove Z (zs_ccs s') (zs_pk s') w = Inr pf"
proof -
  have l: "loadArtifacts Z s = (s', Inr ())"
    and p: "rbind (assignment Z msg) (\<lambda>assign. case full_witness Z assign of
        Inl e \<Rightarrow> Inl (ErrZk (''witness: '' @ e))
      | Inr w \<Rightarrow> (case groth16_Prove Z (zs_ccs s') (zs_pk s') w of
           Inl e \<Rightarrow> Inl (ErrZk (''prove: '' @ e)) | Inr pf \<Rightarrow> Inr pf)) = Inr pf"
    using assms by (auto simp: Prove_def split: prod.splits sum.splits)
  obtain c where a: "assignment Z msg = Inr c" using p by (auto simp: rbind_eq_Inr)
  obtain w where w: "full_witness Z c = Inr w" using p a by (cases "full_witness Z c") simp_all
  have "groth16_Prove Z (zs_ccs s') (zs_pk s') w = Inr pf"
    using p a w by (cases "groth16_Prove Z (zs_ccs s') (zs_pk s') w") simp_all
  then show thesis using that l a w by blast
qed

lemma Prove_Verify:
  assumes "mimc_agrees Z" and "Prove Z msg s = (s', Inr pf)" and "Commitment Z msg = Inr com"
    and "groth16_complete Z (zs_ccs s') (zs_pk s') (zs_vk s')" and "public_witness Z (be_nat com) = Inr pw"
  shows "snd (Verify Z pf com s') = Inr ()"
proof -
  obtain c w where l: "loadArtifacts Z s = (s', Inr ())" and c: "assignment Z msg = Inr c" "full_witness Z c = Inr w"
    "groth16_Prove Z (zs_ccs s') (zs_pk s') w = Inr pf"
    using assms(2) by (rule Prove_Inr)
  have "cCommitment c = be_nat com" using c(1) assms(3) by (auto elim!: assignment_Inr)
  then have v: "groth16_Verify Z pf (zs_vk s') pw = Inr ()"
    using assignment_satisfies [OF assms(1) c(1)] c assms(4,5) unfolding groth16_complete_def by metis
  have "loadArtifacts Z s' = (s', Inr ())" using loadArtifacts_idem [of Z s] l by simp
  then show ?thesis using v assms(5) by (simp add: Verify_def lift_zk_def)
qed

lemma calldata_decodes:
  assumes "\<And>p. MarshalSolidity Z p = concat (map (be_bytes 32)
             [pArX p, pArY p, pBsXA1 p, pBsXA0 p, pBsYA1 p, pBsYA0 p, pKrsX p, pKrsY p])"
    and "\<And>b n. b = be_bytes 32 n \<Longrightarrow> n < q \<Longrightarrow> fp_SetBytesCanonical Z b = Inr n"
    and "list_all (\<lambda>n. n < q) [pArX p, pArY p, pBsXA1 p, pBsXA0 p, pBsYA1 p, pBsYA0 p, pKrsX p, pKrsY p]"
  shows "ProofFromSolidityCalldata Z (SolidityCalldata Z p) = Inr p"
  using assms(3) assms(2) [OF refl]
  by (simp add: ProofFromSolidityCalldata_def SolidityCalldata_def calldata_word_def assms(1))

text \<open>What gnark promises of the loaded keys, proofs and encodings, with base field modulus \<open>q\<close>.\<close>

definition proof_coords :: "g16_proof \<Rightarrow> nat list" where
  "proof_coords p = [pArX p, pArY p, pBsXA1 p, pBsXA0 p, pBsYA1 p, pBsYA0 p, pKrsX p, pKrsY p]"

definition gnark_ok :: "zk_lib \<Rightarrow> nat \<Rightarrow> bool" where
  "gnark_ok Z q \<longleftrightarrow>
     mimc_agrees Z \<and>
     (let s = fst (loadArtifacts Z zk_initial) in groth16_complete Z (zs_ccs s) (zs_pk s) (zs_vk s)) \<and>
     (\<forall>n. \<exists>pw. public_witness Z n = Inr pw) \<and>
     (\<forall>ccs pk w p. groth16_Prove Z ccs pk w = Inr p \<longrightarrow> list_all (\<lambda>n. n < q) (proof_coords p)) \<and>
     (\<forall>p. MarshalSolidity Z p = concat (map (be_bytes 32) (proof_coords p))) \<and>
     (\<forall>n < q. fp_SetBytesCanonical Z (be_bytes 32 n) = Inr n)"

lemma proof_usable:
  assumes g: "gnark_ok Z q" and p: "snd (Prove Z msg zk_initial) = Inr pf" and com: "Commitment Z msg = Inr com"
  shows "ProofFromSolidityCalldata Z (SolidityCalldata Z pf) = Inr pf" and "snd (Verify Z pf com zk_initial) = Inr ()"
proof -
  define s where "s = fst (Prove Z msg zk_initial)"
  have pr: "Prove Z msg zk_initial = (s, Inr pf)" using p by (simp add: s_def prod_eq_iff)
  then have s: "s = fst (loadArtifacts Z zk_initial)" by (auto simp: Prove_def split: prod.splits sum.splits)
  obtain pw where pw: "public_witness Z (be_nat com) = Inr pw" using g unfolding gnark_ok_def by meson
  have "snd (Verify Z pf com s) = Inr ()"
    using g pr com pw s by (intro Prove_Verify [of Z msg zk_initial]) (simp_all add: gnark_ok_def Let_def)
  moreover have "loadArtifacts Z s = loadArtifacts Z zk_initial" by (simp add: s loadArtifacts_idem)
  ultimately show "snd (Verify Z pf com zk_initial) = Inr ()" by (simp add: Verify_def)
  obtain ccs pk w where "groth16_Prove Z ccs pk w = Inr pf"
    using pr by (rule Prove_Inr)
  then have "list_all (\<lambda>n. n < q) (proof_coords pf)" using g unfolding gnark_ok_def by blast
  then show "ProofFromSolidityCalldata Z (SolidityCalldata Z pf) = Inr pf"
    using g by (intro calldata_decodes [where q = q]) (simp_all add: gnark_ok_def proof_coords_def)
qed

section \<open>A toy instance\<close>

text \<open>Functions with the required properties for the witnesses: the hash keeps its input, and a proof
  carries the public input.\<close>

definition toy_zk :: zk_lib where
  "toy_zk = \<lparr>fr_Bytes = be_bytes 32, mimc_Sum = (\<lambda>bs. Inr (concat bs)),
     api_MiMC = (\<lambda>es. be_nat (concat (map (be_bytes 32) es))),
     artifact_file = Inr \<circ> str_bytes, read_ccs = Inr, read_pk = Inr, read_vk = Inr,
     full_witness = (\<lambda>c. Inr (big_Bytes (cCommitment c))), public_witness = (\<lambda>n. Inr (big_Bytes n)),
     groth16_Prove = (\<lambda>_ _ w. Inr \<lparr>pArX = be_nat w mod 2 ^ 256, pArY = 1, pBsXA1 = 2, pBsXA0 = 3, pBsYA1 = 4, pBsYA0 = 5,
        pKrsX = 6, pKrsY = 7\<rparr>),
     groth16_Verify = (\<lambda>p _ w. if pArX p = be_nat w mod 2 ^ 256 then Inr () else Inl ''invalid proof''),
     MarshalSolidity = (\<lambda>p. concat (map (be_bytes 32) [pArX p, pArY p, pBsXA1 p, pBsXA0 p, pBsYA1 p, pBsYA0 p,
        pKrsX p, pKrsY p])),
     fp_SetBytesCanonical = (\<lambda>b. Inr (be_nat b))\<rparr>"

lemma toy_mimc: "mimc_agrees toy_zk"
  by (simp add: mimc_agrees_def toy_zk_def)

lemma toy_groth16: "groth16_complete toy_zk ccs pk vk"
  by (auto simp: groth16_complete_def toy_zk_def)

text \<open>A variant with a constant hash, whose proofs have reduced coordinates.\<close>

definition small_zk :: zk_lib where
  "small_zk = toy_zk\<lparr>mimc_Sum := (\<lambda>_. Inr (replicate 32 1)), api_MiMC := (\<lambda>_. be_nat (replicate 32 1))\<rparr>"

lemma small_gnark: "gnark_ok small_zk (2 ^ 256)"
proof -
  have "fp_SetBytesCanonical small_zk (be_bytes 32 n) = Inr n" if "n < 2 ^ 256" for n
    using be_nat_be_bytes [of 32 n] that by (simp add: small_zk_def toy_zk_def)
  moreover have "mimc_agrees small_zk" by (simp add: mimc_agrees_def small_zk_def)
  moreover have "groth16_complete small_zk ccs pk vk" for ccs pk vk
    by (auto simp: groth16_complete_def small_zk_def toy_zk_def)
  moreover have "list_all (\<lambda>n. n < 2 ^ 256) (proof_coords p)" if "groth16_Prove small_zk ccs pk w = Inr p" for ccs pk w p
    using that by (auto simp: small_zk_def toy_zk_def proof_coords_def)
  ultimately show ?thesis
    by (simp add: gnark_ok_def Let_def) (simp add: small_zk_def toy_zk_def proof_coords_def)
qed

section \<open>Properties\<close>

text \<open>
  Packing loses nothing: a message of at most 496 bytes becomes 17 elements, each below \<open>2 ^ 248\<close> (so below
  the field modulus), and no two messages have the same elements, whatever zero bytes they end in; longer
  messages are refused.
\<close>

theorem pack_message_faithful:
  "(PackMessage msg = Inl (ErrPayloadTooLarge (length msg)) \<longleftrightarrow> 496 < length msg) \<and>
   (\<forall>es. PackMessage msg = Inr es \<longrightarrow>
      length es = 17 \<and> list_all (\<lambda>e. e < 2 ^ 248) es \<and> (\<forall>msg'. PackMessage msg' = Inr es \<longrightarrow> msg' = msg))"
proof (intro conjI allI impI)
  show "PackMessage msg = Inl (ErrPayloadTooLarge (length msg)) \<longleftrightarrow> 496 < length msg"
    by (simp add: PackMessage_def MaxPayload_def ChunkSize_def MaxChunks_def)
  fix es assume es: "PackMessage msg = Inr es"
  show "length es = 17" using PackMessage_elements(1) [OF es] by (simp add: MaxChunks_def)
  show "list_all (\<lambda>e. e < 2 ^ 248) es" using PackMessage_bound [OF es] by (simp add: list_all_iff)
  fix msg' assume "PackMessage msg' = Inr es"
  then show "msg' = msg" using es by (rule PackMessage_inject)
qed

theorem pack_message_faithful_witness:
  "\<exists>es. PackMessage [0, 1] = Inr es \<and> length es = 17 \<and> PackMessage [0, 1, 0] \<noteq> Inr es"
proof -
  obtain es where es: "PackMessage [0, 1] = Inr es"
    by (simp add: PackMessage_def MaxPayload_def ChunkSize_def MaxChunks_def)
  with pack_message_faithful [of "[0, 1]"] have "length es = 17" "\<forall>msg'. PackMessage msg' = Inr es \<longrightarrow> msg' = [0, 1]"
    by simp_all
  then have "PackMessage [0, 1, 0] \<noteq> Inr es" by fastforce
  with es \<open>length es = 17\<close> show ?thesis by blast
qed

text \<open>
  The commitment binds the message: when MiMC has no collision on the two inputs and field elements below
  \<open>2 ^ 248\<close> have distinct encodings, messages with the same commitment are equal.
\<close>

theorem commitment_binds_message:
  assumes "inj_on (fr_Bytes Z) {e. e < 2 ^ 248}"
    and "\<And>bs bs' h. mimc_Sum Z bs = Inr h \<Longrightarrow> mimc_Sum Z bs' = Inr h \<Longrightarrow> length bs = 17 \<Longrightarrow> length bs' = 17 \<Longrightarrow> bs = bs'"
    and "Commitment Z m = Inr c" and "Commitment Z m' = Inr c"
  shows "m = m'"
proof -
  obtain es es' where e: "PackMessage m = Inr es" "PackMessage m' = Inr es'"
    and s: "mimc_Sum Z (map (fr_Bytes Z) es) = Inr c" "mimc_Sum Z (map (fr_Bytes Z) es') = Inr c"
    using assms(3,4) unfolding Commitment_Inr by blast
  have l: "length es = 17" "length es' = 17"
    using PackMessage_elements(1) [OF e(1)] PackMessage_elements(1) [OF e(2)] by (simp_all add: MaxChunks_def)
  have "map (fr_Bytes Z) es = map (fr_Bytes Z) es'" using assms(2) [OF s] l by simp
  moreover have "inj_on (fr_Bytes Z) (set es \<union> set es')"
    by (rule inj_on_subset [OF assms(1)]) (use PackMessage_bound [OF e(1)] PackMessage_bound [OF e(2)] in auto)
  ultimately have "es = es'" by (simp add: inj_on_map_eq_map)
  with e show ?thesis by (metis PackMessage_inject)
qed

theorem commitment_binds_message_witness:
  "\<exists>c. Commitment toy_zk [1, 2] = Inr c \<and> Commitment toy_zk [1, 2, 0] \<noteq> Inr c"
proof -
  obtain c where a: "Commitment toy_zk [1, 2] = Inr c"
    by (simp add: Commitment_def PackMessage_def lift_zk_def toy_zk_def MaxPayload_def ChunkSize_def MaxChunks_def)
  define Z where "Z = toy_zk\<lparr>mimc_Sum := (\<lambda>bs. if length bs = 17 \<and> list_all (\<lambda>b. length b = 32) bs then Inr (concat bs) else Inl [])\<rparr>"
  have com: "Commitment Z m = Inr d" if "Commitment toy_zk m = Inr d" for m d
  proof -
    obtain es where es: "PackMessage m = Inr es" "d = concat (map (be_bytes 32) es)"
      using \<open>Commitment toy_zk m = Inr d\<close> by (auto simp: Commitment_Inr toy_zk_def)
    have "length es = 17" using PackMessage_elements(1) [OF es(1)] by (simp add: MaxChunks_def)
    with es show ?thesis
      by (intro Commitment_Inr [THEN iffD2] exI [of _ es]) (simp add: Z_def toy_zk_def list_all_iff)
  qed
  have "inj_on (fr_Bytes Z) {e. e < 2 ^ 248}"
    using be_bytes_inject [of 32] by (auto simp: inj_on_def Z_def toy_zk_def)
  moreover have "bs = bs'" if h: "mimc_Sum Z bs = Inr h" "mimc_Sum Z bs' = Inr h" and "length bs = 17" "length bs' = 17" for bs bs' h
  proof -
    have "list_all (\<lambda>b. length b = 32) bs" "list_all (\<lambda>b. length b = 32) bs'" "concat bs = concat bs'"
      using h by (auto simp: Z_def split: if_splits)
    moreover have "length bs = length bs'" using that by simp
    ultimately show ?thesis
      by (intro concat_injective) (auto simp: list_all_iff set_zip)
  qed
  ultimately have "Commitment toy_zk [1, 2, 0] \<noteq> Inr c"
    using commitment_binds_message [of Z "[1, 2, 0]" c "[1, 2]"] com [OF a] com [of "[1, 2, 0]" c] by auto
  with a show ?thesis by blast
qed

text \<open>
  The prover's assignment satisfies the circuit: for every message that can be committed, the witness that
  \<open>assignment\<close> builds fulfils the constraint of \<open>Define\<close>, with the message's commitment as the public input.
\<close>

theorem assignment_satisfies_circuit:
  assumes "mimc_agrees Z" and "assignment Z msg = Inr c"
  shows "circuit_Define Z c \<and> length (cChunks c) = 16 \<and>
    (\<exists>com. Commitment Z msg = Inr com \<and> cCommitment c = be_nat com)"
  using assms(2) assignment_satisfies [OF assms] by (auto elim!: assignment_Inr simp: MaxChunks_def)

theorem assignment_satisfies_circuit_witness:
  "\<exists>c. assignment toy_zk [1, 2, 3] = Inr c \<and> circuit_Define toy_zk c"
proof -
  obtain c where c: "assignment toy_zk [1, 2, 3] = Inr c"
    by (simp add: assignment_def Commitment_def PackMessage_def lift_zk_def toy_zk_def MaxPayload_def ChunkSize_def MaxChunks_def)
  from assignment_satisfies_circuit [OF toy_mimc c] c show ?thesis by blast
qed

text \<open>
  A proof that the resolver produces for a record message is accepted by \<open>Verify\<close> for that message's
  commitment, with the same loaded keys.
\<close>

theorem prove_then_verify:
  assumes "mimc_agrees Z" and "Prove Z msg s = (s', Inr pf)" and "Commitment Z msg = Inr com"
    and "groth16_complete Z (zs_ccs s') (zs_pk s') (zs_vk s')" and "public_witness Z (be_nat com) = Inr pw"
  shows "snd (Verify Z pf com s') = Inr ()"
  by (rule Prove_Verify [OF assms])

theorem prove_then_verify_witness:
  "\<exists>pf com s'. Prove toy_zk [1, 2, 3] zk_initial = (s', Inr pf) \<and> Commitment toy_zk [1, 2, 3] = Inr com \<and>
     snd (Verify toy_zk pf com s') = Inr ()"
proof -
  obtain com where com: "Commitment toy_zk [1, 2, 3] = Inr com"
    by (simp add: Commitment_def PackMessage_def lift_zk_def toy_zk_def MaxPayload_def ChunkSize_def MaxChunks_def)
  obtain c where c: "assignment toy_zk [1, 2, 3] = Inr c"
    by (simp add: assignment_def Commitment_def PackMessage_def lift_zk_def toy_zk_def MaxPayload_def ChunkSize_def MaxChunks_def)
  have "loadArtifacts toy_zk zk_initial = (fst (loadArtifacts toy_zk zk_initial), Inr ())"
    by (simp add: loadArtifacts_def load_once_def toy_zk_def zk_initial_def Let_def)
  then obtain s' where "loadArtifacts toy_zk zk_initial = (s', Inr ())" by blast
  then obtain pf where p: "Prove toy_zk [1, 2, 3] zk_initial = (s', Inr pf)"
    by (simp add: Prove_def c) (simp add: toy_zk_def)
  have "public_witness toy_zk (be_nat com) = Inr (big_Bytes (be_nat com))" by (simp add: toy_zk_def)
  from prove_then_verify [OF toy_mimc p com toy_groth16 this] p com show ?thesis by blast
qed

text \<open>
  The wire form of a proof is lossless: a proof whose eight coordinates are serialized as 32-byte words in
  the contract's order (A.X, A.Y, B.X1, B.X0, B.Y1, B.Y0, C.X, C.Y) is reconstructed exactly.
\<close>

theorem proof_calldata_roundtrip:
  assumes "\<And>p. MarshalSolidity Z p = concat (map (be_bytes 32)
             [pArX p, pArY p, pBsXA1 p, pBsXA0 p, pBsYA1 p, pBsYA0 p, pKrsX p, pKrsY p])"
    and "\<And>b n. b = be_bytes 32 n \<Longrightarrow> n < q \<Longrightarrow> fp_SetBytesCanonical Z b = Inr n"
    and "list_all (\<lambda>n. n < q) [pArX p, pArY p, pBsXA1 p, pBsXA0 p, pBsYA1 p, pBsYA0 p, pKrsX p, pKrsY p]"
  shows "ProofFromSolidityCalldata Z (SolidityCalldata Z p) = Inr p"
  by (rule calldata_decodes [OF assms])

theorem proof_calldata_roundtrip_witness:
  "let p = \<lparr>pArX = 10, pArY = 1, pBsXA1 = 2, pBsXA0 = 3, pBsYA1 = 4, pBsYA0 = 5, pKrsX = 6, pKrsY = 7\<rparr>
   in ProofFromSolidityCalldata toy_zk (SolidityCalldata toy_zk p) = Inr p"
proof -
  have "fp_SetBytesCanonical toy_zk b = Inr n" if "b = be_bytes 32 n" "n < 100" for b n
    using that be_nat_be_bytes [of 32 n] by (simp add: toy_zk_def)
  then show ?thesis
    unfolding Let_def by (intro proof_calldata_roundtrip [where q = 100]) (simp_all add: toy_zk_def)
qed

end
