(* ===== verification/Query_Path.thy ===== *)
theory Query_Path
  imports Query_Model Ttl_Cache Chain_Client Pki Zk_Commit
begin

text \<open>
  The resolution path that the REST and UDP front ends share, src/resolver/internal/server/handle.go: cache
  lookup, chain read, verification of the owner's signature, proof of the commitment, cache fill.

  The libraries and the chain endpoint are the record \<open>resolver_env\<close>; the part of the server's state that a
  query changes is the record \<open>qstate\<close>. A query carries the two clock readings it may make (at the lookup and
  at the fill). The locale \<open>query_path\<close> proves what the answers of a run of the server are, from the interface
  \<open>answer_cache\<close> alone. Here the queries of a run come one after the other; the code runs them concurrently and holds a lock only for the
  single operations of the cache. Query_Race cuts \<open>HandleQuery\<close> into the segments between which other goroutines can run, and shows
  which of these facts remain.
\<close>

section \<open>Definitions\<close>

record ('s, 'w) resolver_env =
  rv_cache :: "(resolve_result, 's) cache_env"
  rv_crypto :: crypto_lib
  rv_zk :: zk_lib
  rv_api :: "'w rpc_api"

record ('s, 'w) qstate =
  q_cache :: "'s ttl_cache"
  q_zk :: zk_state
  q_world :: 'w

record query_result =
  qrResult :: "resolve_result option"
  qrCached :: bool

definition Found :: "query_result \<Rightarrow> bool" where
  "Found r =
     (case qrResult r of
        None \<Rightarrow> False
      | Some res \<Rightarrow> rExists (resRecord res) \<and> resOwner res \<noteq> zero_address)"

definition query_key :: "query \<Rightarrow> cache_key" where
  "query_key q = \<lparr>kName = qName q, kType = qType q, kSelector = qSelector q\<rparr>"

text \<open>\<open>time.Duration(ttl) * time.Second\<close>, a product of 64-bit integers.\<close>

definition ttl_duration :: "32 word \<Rightarrow> int" where
  "ttl_duration ttl = sint ((ucast ttl :: 64 word) * 1000000000)"

text \<open>\<open>proveRecord\<close>; the empty list is the nil slice. The message cannot panic after the length check.\<close>

definition proveRecord ::
  "('s, 'w) resolver_env \<Rightarrow> string \<Rightarrow> chain_record \<Rightarrow> zk_state \<Rightarrow> zk_state \<times> bytes" where
  "proveRecord R name rec z =
     (if rCommitment rec = zero_hash then (z, [])
      else if length (rFieldNames rec) \<noteq> length (rFieldVals rec) then (z, [])
      else
        (case RecordMessage (rv_crypto R) name rec of
           None \<Rightarrow> (z, [])
         | Some msg \<Rightarrow>
             (case Commitment (rv_zk R) msg of
                Inl err \<Rightarrow> (z, [])
              | Inr com \<Rightarrow>
                  if com \<noteq> rCommitment rec then (z, [])
                  else
                    (case Prove (rv_zk R) msg z of
                       (z, Inl err) \<Rightarrow> (z, [])
                     | (z, Inr pf) \<Rightarrow> (z, SolidityCalldata (rv_zk R) pf)))))"

text \<open>The checks made of an existing record before it is cached: the verdict on the owner's signature and the proof.\<close>

definition check_answer ::
  "('s, 'w) resolver_env \<Rightarrow> query \<Rightarrow> resolve_result \<Rightarrow> zk_state \<Rightarrow> zk_state \<times> resolve_result" where
  "check_answer R q res z =
     (let res = (case VerifyOwnerSig (rv_crypto R) (qName q) (resRecord res) (resOwner res) (resPubKey res) of
                   Inl err \<Rightarrow> res
                 | Inr _ \<Rightarrow> res\<lparr>resOwnerSigValid := True\<rparr>);
          (z, pf) = proveRecord R (qName q) (resRecord res) z
      in (z, res\<lparr>resZKProof := pf\<rparr>))"

definition HandleQuery ::
  "('s, 'w) resolver_env \<Rightarrow> int \<times> int \<Rightarrow> query \<Rightarrow> ('s, 'w) qstate \<Rightarrow> ('s, 'w) qstate \<times> (string + query_result)" where
  "HandleQuery R ts q s =
     (let key = query_key q;
          (c, hit) = cache_Get (rv_cache R) (fst ts) key (q_cache s);
          s = s\<lparr>q_cache := c\<rparr>
      in case hit of
           Some res \<Rightarrow> (s, Inr \<lparr>qrResult = Some res, qrCached = True\<rparr>)
         | None \<Rightarrow>
             (case chain_Resolve (rv_api R) (qName q) (qType q) (qSelector q) (q_world s) of
                (w, Inl err) \<Rightarrow> (s\<lparr>q_world := w\<rparr>, Inl err)
              | (w, Inr res) \<Rightarrow>
                  (let s = s\<lparr>q_world := w\<rparr>
                   in if rExists (resRecord res)
                      then
                        (let (z, res) = check_answer R q res (q_zk s);
                             s = s\<lparr>q_zk := z\<rparr>;
                             s = (if rTTL (resRecord res) > 0
                                  then s\<lparr>q_cache := cache_Set (rv_cache R) (snd ts) key res
                                           (ttl_duration (rTTL (resRecord res))) (q_cache s)\<rparr>
                                  else s)
                         in (s, Inr \<lparr>qrResult = Some res, qrCached = False\<rparr>))
                      else (s, Inr \<lparr>qrResult = Some res, qrCached = False\<rparr>))))"

text \<open>What happens to the server's answers over time: queries, contract events handed to the cache, the
  invalidations of the showcase API, and changes of the world outside (new blocks, torrents, files), in the order in
  which they happen.\<close>

datatype 'w server_op =
    SQuery "int \<times> int" query
  | SEvent record_event
  | SInvalidate string
  | SFlush
  | SWorld 'w

fun srv_step ::
  "('s, 'w) resolver_env \<Rightarrow> 'w server_op \<Rightarrow> ('s, 'w) qstate \<Rightarrow> ('s, 'w) qstate \<times> (string + query_result) option" where
  "srv_step R (SQuery ts q) s = (case HandleQuery R ts q s of (s, r) \<Rightarrow> (s, Some r))"
| "srv_step R (SEvent ev) s = (s\<lparr>q_cache := HandleEvent (rv_cache R) ev (q_cache s)\<rparr>, None)"
| "srv_step R (SInvalidate n) s = (s\<lparr>q_cache := InvalidateName (rv_cache R) n (q_cache s)\<rparr>, None)"
| "srv_step R SFlush s = (s\<lparr>q_cache := Flush (rv_cache R) (q_cache s)\<rparr>, None)"
| "srv_step R (SWorld w) s = (s\<lparr>q_world := w\<rparr>, None)"

text \<open>The state after a sequence of operations, and the trace of the operations with their answers, the last one first.\<close>

type_synonym 'w trace = "('w server_op \<times> (string + query_result) option) list"

fun srv_run ::
  "('s, 'w) resolver_env \<Rightarrow> 'w server_op list \<Rightarrow> ('s, 'w) qstate \<times> 'w trace \<Rightarrow> ('s, 'w) qstate \<times> 'w trace" where
  "srv_run R [] st = st"
| "srv_run R (op # ops) st =
     (let (s, r) = srv_step R op (fst st) in srv_run R ops (s, (op, r) # snd st))"

section \<open>What answers should be\<close>

text \<open>The operations that must remove the answers for a key.\<close>

fun removes :: "('s, 'w) resolver_env \<Rightarrow> 'w server_op \<Rightarrow> cache_key \<Rightarrow> bool" where
  "removes R (SQuery ts q) k = False"
| "removes R (SEvent ev) k = event_hits (rv_cache R) ev k"
| "removes R (SInvalidate n) k = (kName k = n)"
| "removes R SFlush k = True"
| "removes R (SWorld w) k = False"

text \<open>A result whose verdict is what \<open>VerifyOwnerSig\<close> says of a record the chain returned for the query.\<close>

definition from_chain :: "('s, 'w) resolver_env \<Rightarrow> query \<Rightarrow> resolve_result \<Rightarrow> bool" where
  "from_chain R q res \<longleftrightarrow>
     (\<exists>w w' r0. chain_Resolve (rv_api R) (qName q) (qType q) (qSelector q) w = (w', Inr r0) \<and>
        resRecord res = resRecord r0 \<and> resOwner res = resOwner r0 \<and> resPubKey res = resPubKey r0) \<and>
     (resOwnerSigValid res \<longleftrightarrow> rExists (resRecord res) \<and>
        VerifyOwnerSig (rv_crypto R) (qName q) (resRecord res) (resOwner res) (resPubKey res) = Inr ()) \<and>
     (resZKProof res \<noteq> [] \<longrightarrow>
        (\<exists>msg pf. RecordMessage (rv_crypto R) (qName q) (resRecord res) = Some msg \<and>
           Commitment (rv_zk R) msg = Inr (rCommitment (resRecord res)) \<and>
           snd (Prove (rv_zk R) msg zk_initial) = Inr pf \<and> resZKProof res = SolidityCalldata (rv_zk R) pf))"

text \<open>A cached answer at time \<open>t\<close> goes back to a query in the trace that read it from the chain at most its
  TTL ago, with nothing since then that concerns the key.\<close>

definition read_earlier :: "('s, 'w) resolver_env \<Rightarrow> 'w trace \<Rightarrow> cache_key \<Rightarrow> int \<Rightarrow> resolve_result \<Rightarrow> bool" where
  "read_earlier R tr k t res \<longleftrightarrow>
     (\<exists>newer older ts q.
        tr = newer @ (SQuery ts q, Some (Inr \<lparr>qrResult = Some res, qrCached = False\<rparr>)) # older \<and>
        query_key q = k \<and> rExists (resRecord res) \<and> t \<le> snd ts + ttl_duration (rTTL (resRecord res)) \<and>
        list_all (\<lambda>e. \<not> removes R (fst e) k) newer)"

definition answers_ok :: "('s, 'w) resolver_env \<Rightarrow> 'w trace \<Rightarrow> bool" where
  "answers_ok R tr \<longleftrightarrow>
     (\<forall>newer older ts q qr. tr = newer @ (SQuery ts q, Some (Inr qr)) # older \<longrightarrow>
        (\<exists>res. qrResult qr = Some res \<and> from_chain R q res \<and>
           (qrCached qr \<longrightarrow> read_earlier R older (query_key q) (fst ts) res)))"

section \<open>Facts\<close>

lemma ttl_duration_exact: "ttl_duration ttl = uint ttl * 1000000000"
proof -
  have b: "uint ttl < 2 ^ 32" using uint_bounded [of ttl] by simp
  have "uint ((ucast ttl :: 64 word) * 1000000000) = (uint ttl * 1000000000) mod 2 ^ 64"
    by (simp add: uint_word_ariths unsigned_ucast_eq take_bit_eq_mod mod_mult_left_eq)
  also have "\<dots> = uint ttl * 1000000000"
    using b by (intro mod_pos_pos_trivial) simp_all
  finally have u: "uint ((ucast ttl :: 64 word) * 1000000000) = uint ttl * 1000000000" .
  have "sint ((ucast ttl :: 64 word) * 1000000000) = signed_take_bit 63 (uint ttl * 1000000000)"
    by (simp only: sint_uint u) simp
  also have "\<dots> = uint ttl * 1000000000"
    using b by (intro signed_take_bit_int_eq_self) (simp_all add: order.trans [OF _ mult_nonneg_nonneg])
  finally show ?thesis by (simp add: ttl_duration_def)
qed

lemma proveRecord_proof:
  assumes "proveRecord R name rec z = (z', pf)" "pf \<noteq> []"
  obtains msg g where "RecordMessage (rv_crypto R) name rec = Some msg"
    "Commitment (rv_zk R) msg = Inr (rCommitment rec)" "Prove (rv_zk R) msg z = (z', Inr g)"
    "pf = SolidityCalldata (rv_zk R) g"
  using assms by (auto simp: proveRecord_def split: if_splits option.splits sum.splits prod.splits)

lemma proveRecord_reach:
  "proveRecord R name rec z = (z', pf) \<Longrightarrow> zk_reach (rv_zk R) z \<Longrightarrow> zk_reach (rv_zk R) z'"
  using Prove_reach [of "rv_zk R" z]
  by (auto simp: proveRecord_def split: if_splits option.splits sum.splits prod.splits) (metis fst_conv)+

lemma check_answer_fields:
  assumes "check_answer R q r0 z = (z', res)"
  shows "resRecord res = resRecord r0" "resOwner res = resOwner r0" "resPubKey res = resPubKey r0"
    "resOwnerSigValid res \<longleftrightarrow> resOwnerSigValid r0 \<or>
       VerifyOwnerSig (rv_crypto R) (qName q) (resRecord res) (resOwner res) (resPubKey res) = Inr ()"
    "proveRecord R (qName q) (resRecord res) z = (z', resZKProof res)"
  using assms by (auto simp: check_answer_def Let_def split: sum.splits prod.splits)

lemma chain_Resolve_unchecked:
  "chain_Resolve api n t sel w = (w', Inr r) \<Longrightarrow> \<not> resOwnerSigValid r \<and> resZKProof r = []"
  by (auto simp: chain_Resolve_def split: prod.splits sum.splits)

lemma from_chain_checked:
  assumes "chain_Resolve (rv_api R) (qName q) (qType q) (qSelector q) w = (w', Inr r0)"
    and "rExists (resRecord r0)" and "check_answer R q r0 z = (z', res)" and "zk_reach (rv_zk R) z"
  shows "from_chain R q res"
proof -
  note f = check_answer_fields [OF assms(3)]
  show ?thesis
    unfolding from_chain_def
  proof (intro conjI)
    show "\<exists>w w' r0. chain_Resolve (rv_api R) (qName q) (qType q) (qSelector q) w = (w', Inr r0) \<and>
        resRecord res = resRecord r0 \<and> resOwner res = resOwner r0 \<and> resPubKey res = resPubKey r0"
      using assms(1) f(1-3) by blast
    show "resOwnerSigValid res \<longleftrightarrow> rExists (resRecord res) \<and>
        VerifyOwnerSig (rv_crypto R) (qName q) (resRecord res) (resOwner res) (resPubKey res) = Inr ()"
      using f(1,4) assms(2) chain_Resolve_unchecked [OF assms(1)] by simp
    show "resZKProof res \<noteq> [] \<longrightarrow>
        (\<exists>msg pf. RecordMessage (rv_crypto R) (qName q) (resRecord res) = Some msg \<and>
           Commitment (rv_zk R) msg = Inr (rCommitment (resRecord res)) \<and>
           snd (Prove (rv_zk R) msg zk_initial) = Inr pf \<and> resZKProof res = SolidityCalldata (rv_zk R) pf)"
    proof
      assume "resZKProof res \<noteq> []"
      with f(5) show "\<exists>msg pf. RecordMessage (rv_crypto R) (qName q) (resRecord res) = Some msg \<and>
           Commitment (rv_zk R) msg = Inr (rCommitment (resRecord res)) \<and>
           snd (Prove (rv_zk R) msg zk_initial) = Inr pf \<and> resZKProof res = SolidityCalldata (rv_zk R) pf"
        by (rule proveRecord_proof) (use zk_reach_Prove [OF assms(4)] in auto)
    qed
  qed
qed

lemma from_chain_absent:
  assumes "chain_Resolve (rv_api R) (qName q) (qType q) (qSelector q) w = (w', Inr r0)" "\<not> rExists (resRecord r0)"
  shows "from_chain R q r0"
  using assms chain_Resolve_unchecked [OF assms(1)] unfolding from_chain_def by blast

text \<open>The outcomes of \<open>HandleQuery\<close>: a hit, a failed read, an answer that is not stored, and one that is.\<close>

lemma HandleQuery_cases:
  assumes "HandleQuery R ts q s = (s', r)" and "cache_Get (rv_cache R) (fst ts) (query_key q) (q_cache s) = (c, hit)"
    and z: "zk_reach (rv_zk R) (q_zk s)"
  obtains (hit) res where "hit = Some res" "s' = s\<lparr>q_cache := c\<rparr>" "r = Inr \<lparr>qrResult = Some res, qrCached = True\<rparr>"
  | (failed) err where "hit = None" "q_cache s' = c" "r = Inl err"
  | (unstored) res where "hit = None" "q_cache s' = c" "from_chain R q res"
      "r = Inr \<lparr>qrResult = Some res, qrCached = False\<rparr>"
  | (stored) res where "hit = None" "from_chain R q res" "r = Inr \<lparr>qrResult = Some res, qrCached = False\<rparr>"
      "rExists (resRecord res)"
      "q_cache s' = cache_Set (rv_cache R) (snd ts) (query_key q) res (ttl_duration (rTTL (resRecord res))) c"
proof (cases hit)
  case (Some res)
  then show ?thesis using assms by (intro that(1)) (auto simp: HandleQuery_def Let_def)
next
  case None
  obtain w x where x: "chain_Resolve (rv_api R) (qName q) (qType q) (qSelector q) (q_world s) = (w, x)" by fastforce
  show ?thesis
  proof (cases x)
    case (Inl err)
    then show ?thesis using assms None x by (intro that(2)) (auto simp: HandleQuery_def Let_def)
  next
    case (Inr r0)
    note rd = x [unfolded Inr]
    show ?thesis
    proof (cases "rExists (resRecord r0)")
      case False
      then show ?thesis
        using assms None rd from_chain_absent [OF rd False] by (intro that(3) [of r0]) (auto simp: HandleQuery_def Let_def)
    next
      case True
      obtain z res where ch: "check_answer R q r0 (q_zk s) = (z, res)" by fastforce
      note fc = from_chain_checked [OF rd True ch z]
      have ex: "rExists (resRecord res)" using True check_answer_fields(1) [OF ch] by simp
      show ?thesis
      proof (cases "rTTL (resRecord res) > 0")
        case True': True
        show ?thesis
          using assms None rd True ch True' ex fc by (intro that(4) [of res]) (auto simp: HandleQuery_def Let_def)
      next
        case False
        then show ?thesis
          using assms None rd True ch fc by (intro that(3) [of res]) (auto simp: HandleQuery_def Let_def)
      qed
    qed
  qed
qed

lemma query_key_inject [simp]: "query_key q = query_key q' \<longleftrightarrow> q = q'"
  by (cases q; cases q') (auto simp: query_key_def)

lemma read_earlierI:
  "tr = newer @ (SQuery ts q, Some (Inr \<lparr>qrResult = Some res, qrCached = False\<rparr>)) # older \<Longrightarrow>
   query_key q = k \<Longrightarrow> rExists (resRecord res) \<Longrightarrow> t \<le> snd ts + ttl_duration (rTTL (resRecord res)) \<Longrightarrow>
   list_all (\<lambda>e. \<not> removes R (fst e) k) newer \<Longrightarrow> read_earlier R tr k t res"
  unfolding read_earlier_def by blast

lemma read_earlierE:
  assumes "read_earlier R tr k t res"
  obtains newer older ts q where
    "tr = newer @ (SQuery ts q, Some (Inr \<lparr>qrResult = Some res, qrCached = False\<rparr>)) # older"
    "query_key q = k" "rExists (resRecord res)" "t \<le> snd ts + ttl_duration (rTTL (resRecord res))"
    "list_all (\<lambda>e. \<not> removes R (fst e) k) newer"
  using assms unfolding read_earlier_def by blast

lemma read_earlier_later:
  assumes "read_earlier R tr k t res" "\<not> removes R op k"
  shows "read_earlier R ((op, r) # tr) k t res"
  using assms(1)
proof (rule read_earlierE)
  fix newer older ts q
  assume "tr = newer @ (SQuery ts q, Some (Inr \<lparr>qrResult = Some res, qrCached = False\<rparr>)) # older"
    "query_key q = k" "rExists (resRecord res)" "t \<le> snd ts + ttl_duration (rTTL (resRecord res))"
    "list_all (\<lambda>e. \<not> removes R (fst e) k) newer"
  then show ?thesis
    using assms(2) by (intro read_earlierI [of _ "(op, r) # newer" ts q _ older]) simp_all
qed

lemma read_earlier_mono: "read_earlier R tr k t res \<Longrightarrow> t' \<le> t \<Longrightarrow> read_earlier R tr k t' res"
  by (erule read_earlierE, erule read_earlierI) simp_all

lemma read_earlier_now:
  "query_key q = k \<Longrightarrow> rExists (resRecord res) \<Longrightarrow> t = snd ts + ttl_duration (rTTL (resRecord res)) \<Longrightarrow>
   read_earlier R ((SQuery ts q, Some (Inr \<lparr>qrResult = Some res, qrCached = False\<rparr>)) # tr) k t res"
  by (rule read_earlierI [of _ "[]" ts q _ tr]) simp_all

definition answer_ok :: "('s, 'w) resolver_env \<Rightarrow> 'w trace \<Rightarrow> 'w server_op \<times> (string + query_result) option \<Rightarrow> bool" where
  "answer_ok R older e \<longleftrightarrow>
     (\<forall>ts q qr. e = (SQuery ts q, Some (Inr qr)) \<longrightarrow>
        (\<exists>res. qrResult qr = Some res \<and> from_chain R q res \<and>
           (qrCached qr \<longrightarrow> read_earlier R older (query_key q) (fst ts) res)))"

lemma answers_ok_Nil [simp]: "answers_ok R []"
  by (simp add: answers_ok_def)

lemma answers_ok_Cons: "answer_ok R tr e \<Longrightarrow> answers_ok R tr \<Longrightarrow> answers_ok R (e # tr)"
  unfolding answers_ok_def answer_ok_def by (simp add: Cons_eq_append_conv) blast

lemma read_earlier_from_chain:
  assumes "read_earlier R tr (query_key q) t res" "answers_ok R tr"
  shows "from_chain R q res"
proof -
  obtain newer older ts q' where
    tr: "tr = newer @ (SQuery ts q', Some (Inr \<lparr>qrResult = Some res, qrCached = False\<rparr>)) # older"
    and q: "query_key q' = query_key q"
    using assms(1) by (rule read_earlierE)
  have "\<exists>r. qrResult \<lparr>qrResult = Some res, qrCached = False\<rparr> = Some r \<and> from_chain R q' r"
    using assms(2) tr unfolding answers_ok_def by blast
  then show ?thesis using q by simp
qed

lemma HandleQuery_reach:
  assumes "HandleQuery R ts q s = (s', r)" "zk_reach (rv_zk R) (q_zk s)"
  shows "zk_reach (rv_zk R) (q_zk s')"
proof -
  have "zk_reach (rv_zk R) (fst (check_answer R q r0 (q_zk s)))" for r0
    using check_answer_fields(5) [of R q r0 "q_zk s"] proveRecord_reach [OF _ assms(2)]
    by (metis surjective_pairing)
  then show ?thesis
    using assms by (auto simp: HandleQuery_def Let_def case_prod_beta split: option.splits sum.splits if_splits)
qed

section \<open>Runs of the server\<close>

fun query_names :: "'w server_op \<Rightarrow> string set" where
  "query_names (SQuery ts q) = {qName q}"
| "query_names _ = {}"

locale query_path = lru_cache "rv_cache R" contents cap linv N
  for R :: "('s, 'w) resolver_env" and contents :: "'s \<Rightarrow> cache_key \<Rightarrow> resolve_result centry option" and cap linv N
begin

text \<open>The invariant: every stored entry goes back to a chain read in the trace, and every answer given is right.\<close>

definition run_inv :: "('s, 'w) qstate \<times> 'w trace \<Rightarrow> bool" where
  "run_inv st \<longleftrightarrow>
     cache_ok (rv_cache R) contents cap linv N (q_cache (fst st)) \<and> answers_ok R (snd st) \<and>
     zk_reach (rv_zk R) (q_zk (fst st)) \<and>
     (\<forall>k e. contents (c_lru (q_cache (fst st))) k = Some e \<longrightarrow> read_earlier R (snd st) k (ce_expiresAt e) (ce_value e))"

lemma query_step:
  assumes inv: "run_inv (s, tr)" and n: "qName q \<in> N" and h: "HandleQuery R ts q s = (s', r)"
  shows "run_inv (s', (SQuery ts q, Some r) # tr)"
proof -
  let ?tr = "(SQuery ts q, Some r) # tr"
  obtain c x where g: "cache_Get (rv_cache R) (fst ts) (query_key q) (q_cache s) = (c, x)" by fastforce
  have ok: "cache_ok (rv_cache R) contents cap linv N (q_cache s)" and a: "answers_ok R tr" and zr: "zk_reach (rv_zk R) (q_zk s)"
    and src: "\<And>k e. contents (c_lru (q_cache s)) k = Some e \<Longrightarrow> read_earlier R tr k (ce_expiresAt e) (ce_value e)"
    using inv by (simp_all add: run_inv_def)
  have okc: "cache_ok (rv_cache R) contents cap linv N c" using ac.get_valid [OF ok g] .
  have old: "read_earlier R ?tr k (ce_expiresAt e) (ce_value e)" if "contents (c_lru c) k = Some e" for k e
    using that src ac.get_entries [OF ok g] by (intro read_earlier_later) (auto simp: map_le_def dom_def)
  note zr' = HandleQuery_reach [OF h zr]
  from h g zr show ?thesis
  proof (cases rule: HandleQuery_cases)
    case (hit res)
    note g = g [unfolded hit(1)]
    obtain e where e: "contents (c_lru (q_cache s)) (query_key q) = Some e" "ce_value e = res" "fst ts \<le> ce_expiresAt e"
      using ac.get_hit [OF ok g] by blast
    have re: "read_earlier R tr (query_key q) (fst ts) res"
      using read_earlier_mono [OF src [OF e(1)] e(3)] e(2) by simp
    then have "answer_ok R tr (SQuery ts q, Some r)"
      using read_earlier_from_chain [OF re a] hit(3) by (simp add: answer_ok_def)
    then show ?thesis using a okc old hit(2) zr by (simp add: run_inv_def answers_ok_Cons)
  next
    case (failed err)
    then show ?thesis using a okc old zr' by (simp add: run_inv_def answers_ok_Cons answer_ok_def)
  next
    case (unstored res)
    then show ?thesis using a okc old zr' by (simp add: run_inv_def answers_ok_Cons answer_ok_def)
  next
    case (stored res)
    have k: "kName (query_key q) \<in> N" using n by (simp add: query_key_def)
    have "read_earlier R ?tr k (ce_expiresAt e) (ce_value e)"
      if "contents (c_lru (q_cache s')) k = Some e" for k e
    proof (rule ac.store_entries [OF okc k, where P = "\<lambda>k e. read_earlier R ?tr k (ce_expiresAt e) (ce_value e)"])
      show "contents (c_lru (cache_Set (rv_cache R) (snd ts) (query_key q) res (ttl_duration (rTTL (resRecord res))) c)) k = Some e"
        using that stored(5) by simp
      show "read_earlier R ?tr (query_key q) (ce_expiresAt \<lparr>ce_value = res, ce_expiresAt = snd ts + ttl_duration (rTTL (resRecord res))\<rparr>)
          (ce_value \<lparr>ce_value = res, ce_expiresAt = snd ts + ttl_duration (rTTL (resRecord res))\<rparr>)"
        using stored(3,4) by (simp add: read_earlier_now)
    qed (rule old)
    moreover have "cache_ok (rv_cache R) contents cap linv N (q_cache s')"
      unfolding stored(5) by (rule ac.store_valid [OF okc k])
    ultimately show ?thesis using a stored(2,3) zr' by (simp add: run_inv_def answers_ok_Cons answer_ok_def)
  qed
qed

lemma removal_step:
  assumes inv: "run_inv (s, tr)"
    and ok: "cache_ok (rv_cache R) contents cap linv N c"
    and left: "\<And>k e. contents (c_lru c) k = Some e \<Longrightarrow> contents (c_lru (q_cache s)) k = Some e \<and> \<not> removes R op k"
  shows "run_inv (s\<lparr>q_cache := c\<rparr>, (op, None) # tr)"
  using inv ok left by (auto simp: run_inv_def answer_ok_def intro!: answers_ok_Cons read_earlier_later)

lemma step_inv:
  assumes inv: "run_inv (s, tr)" and n: "query_names op \<subseteq> N" and st: "srv_step R op s = (s', r)"
  shows "run_inv (s', (op, r) # tr)"
proof -
  have ok: "cache_ok (rv_cache R) contents cap linv N (q_cache s)" using inv by (simp add: run_inv_def)
  show ?thesis
  proof (cases op)
    case (SQuery ts q)
    then show ?thesis using st n query_step [OF inv, of q ts s'] by (auto split: prod.splits)
  next
    case (SEvent ev)
    have "run_inv (s\<lparr>q_cache := HandleEvent (rv_cache R) ev (q_cache s)\<rparr>, (SEvent ev, None) # tr)"
      using inv ac.push_valid [OF ok] by (rule removal_step) (auto simp: ac.push_stored [OF ok] restrict_map_def split: if_splits)
    then show ?thesis using SEvent st by simp
  next
    case (SInvalidate nm)
    have "run_inv (s\<lparr>q_cache := InvalidateName (rv_cache R) nm (q_cache s)\<rparr>, (SInvalidate nm, None) # tr)"
      using inv ac.forget_valid [OF ok] by (rule removal_step) (auto simp: ac.forget_stored [OF ok] restrict_map_def split: if_splits)
    then show ?thesis using SInvalidate st by simp
  next
    case SFlush
    have "run_inv (s\<lparr>q_cache := Flush (rv_cache R) (q_cache s)\<rparr>, (SFlush, None) # tr)"
      using inv ac.flush_valid [OF ok] by (rule removal_step) (auto simp: ac.flush_stored [OF ok])
    then show ?thesis using SFlush st by simp
  next
    case (SWorld w)
    have "run_inv (s\<lparr>q_world := w\<rparr>, (SWorld w, None) # tr)"
      using inv by (auto simp: run_inv_def answer_ok_def intro!: answers_ok_Cons read_earlier_later)
    then show ?thesis using SWorld st by simp
  qed
qed

lemma run_keeps:
  "run_inv st \<Longrightarrow> \<Union> (query_names ` set ops) \<subseteq> N \<Longrightarrow> run_inv (srv_run R ops st)"
proof (induction ops arbitrary: st)
  case (Cons op ops)
  obtain s r where st: "srv_step R op (fst st) = (s, r)" by fastforce
  have "run_inv (s, (op, r) # snd st)"
    using Cons.prems st by (intro step_inv [of "fst st" "snd st"]) auto
  from Cons.IH [OF this] Cons.prems(2) show ?case by (simp add: st)
qed simp

lemma fresh_inv: "cache_New (rv_cache R) n = Inr c \<Longrightarrow> run_inv (\<lparr>q_cache = c, q_zk = zk_initial, q_world = w\<rparr>, [])"
  using new_ok [of n c] by (simp add: run_inv_def zk_reach_def)

lemma run_answer:
  assumes "cache_New (rv_cache R) n = Inr c" "\<Union> (query_names ` set ops) \<subseteq> N"
    and "snd (srv_run R ops (\<lparr>q_cache = c, q_zk = zk_initial, q_world = w\<rparr>, [])) =
           newer @ (SQuery ts q, Some (Inr qr)) # older"
  shows "\<exists>res. qrResult qr = Some res \<and> from_chain R q res \<and>
    (qrCached qr \<longrightarrow> read_earlier R older (query_key q) (fst ts) res)"
proof -
  have "answers_ok R (newer @ (SQuery ts q, Some (Inr qr)) # older)"
    using run_keeps [OF fresh_inv [OF assms(1), of w] assms(2)] assms(3) by (simp add: run_inv_def)
  then show ?thesis unfolding answers_ok_def by blast
qed

text \<open>What a handler gets when it makes a query after any such run.\<close>

lemma next_answer:
  assumes "cache_New (rv_cache R) n = Inr c" "\<Union> (query_names ` set ops) \<subseteq> N" "qName q \<in> N"
    and "HandleQuery R ts q (fst (srv_run R ops (\<lparr>q_cache = c, q_zk = zk_initial, q_world = w\<rparr>, []))) = (s', Inr qr)"
  shows "\<exists>res. qrResult qr = Some res \<and> from_chain R q res"
proof -
  obtain s tr where st: "srv_run R ops (\<lparr>q_cache = c, q_zk = zk_initial, q_world = w\<rparr>, []) = (s, tr)" by fastforce
  have "run_inv (s, tr)" using run_keeps [OF fresh_inv [OF assms(1), of w] assms(2)] by (simp add: st)
  from query_step [OF this assms(3)] assms(4) have "answers_ok R ((SQuery ts q, Some (Inr qr)) # tr)"
    by (simp add: st run_inv_def)
  then have "answers_ok R ([] @ (SQuery ts q, Some (Inr qr)) # tr)" by simp
  then show ?thesis unfolding answers_ok_def by blast
qed

end

section \<open>The LRU list as an instance\<close>

definition list_resolver ::
  "crypto_lib \<Rightarrow> zk_lib \<Rightarrow> 'w rpc_api \<Rightarrow> ((cache_key, resolve_result centry) lru_list, 'w) resolver_env" where
  "list_resolver C Z api = \<lparr>rv_cache = list_env, rv_crypto = C, rv_zk = Z, rv_api = api\<rparr>"

interpretation qp: query_path "list_resolver C Z api" ll_contents fst ll_inv UNIV for C Z api
  unfolding query_path_def using lc.lru_cache_axioms by (simp add: list_resolver_def)

text \<open>A chain with one record, signed by its owner and with a commitment, and a fresh server over it.\<close>

definition chain_sample_record :: dapp_record where
  "chain_sample_record = \<lparr>bRecordType = ''A'', bSelector = [], bFieldNames = [''ip''], bFieldValues = [''1.2.3.4''],
     bTtl = 60, bGeneration = 1, bOwnerSig = replicate 65 0, bCommitment = replicate 32 1, bExists = True\<rparr>"

definition record_chain :: "((string + 64 word) list \<times> int) rpc_api" where
  "record_chain = flaky_api\<lparr>api_resolve := (\<lambda>n t sel w. (w, Inr (chain_sample_record, [7], [])))\<rparr>"

definition sample_query :: query where
  "sample_query = \<lparr>qName = ''example'', qType = ''A'', qSelector = []\<rparr>"

definition sample_resolver ::
  "((cache_key, resolve_result centry) lru_list, (string + 64 word) list \<times> int) resolver_env" where
  "sample_resolver = list_resolver toy_crypto small_zk record_chain"

definition fresh_cache :: "(cache_key, resolve_result centry) lru_list ttl_cache" where
  "fresh_cache = \<lparr>c_lru = (2, []), c_capacity = 2, c_nameKeys = Map.empty, c_hashNames = Map.empty,
     c_hits = 0, c_misses = 0, c_evictions = 0\<rparr>"

lemma fresh_New: "cache_New (rv_cache sample_resolver) 2 = Inr fresh_cache"
  by (simp add: sample_resolver_def list_resolver_def cache_New_def list_env_def list_lru_def ll_New_def fresh_cache_def)

definition sample_answer :: resolve_result where
  "sample_answer = snd (check_answer sample_resolver sample_query
     \<lparr>resRecord = fromBinding chain_sample_record, resOwner = [7], resPubKey = [], resOwnerSigValid = False, resZKProof = []\<rparr>
     zk_initial)"

lemma sample_checked:
  "check_answer sample_resolver sample_query
     \<lparr>resRecord = fromBinding chain_sample_record, resOwner = [7], resPubKey = [], resOwnerSigValid = False, resZKProof = []\<rparr>
     zk_initial =
   (fst (check_answer sample_resolver sample_query
     \<lparr>resRecord = fromBinding chain_sample_record, resOwner = [7], resPubKey = [], resOwnerSigValid = False, resZKProof = []\<rparr>
     zk_initial), sample_answer)"
  by (simp add: sample_answer_def)

lemma sample_chain_Resolve:
  "chain_Resolve record_chain n t sel w =
     (w, Inr \<lparr>resRecord = fromBinding chain_sample_record, resOwner = [7], resPubKey = [], resOwnerSigValid = False, resZKProof = []\<rparr>)"
  by (simp add: chain_Resolve_def record_chain_def retry_def retryAttempts_def numeral_3_eq_3 retry_wait_def flaky_api_def)

lemma sample_check:
  "resRecord sample_answer = fromBinding chain_sample_record" "rExists (resRecord sample_answer)"
  "rTTL (resRecord sample_answer) = 60"
  using check_answer_fields(1) [OF surjective_pairing, of sample_resolver sample_query _ zk_initial]
  by (simp_all add: sample_answer_def fromBinding_def chain_sample_record_def)

definition sample_run ::
  "((cache_key, resolve_result centry) lru_list, (string + 64 word) list \<times> int) qstate \<times> ((string + 64 word) list \<times> int) trace" where
  "sample_run = srv_run sample_resolver [SQuery (0, 1) sample_query, SQuery (5, 6) sample_query]
     (\<lparr>q_cache = fresh_cache, q_zk = zk_initial, q_world = ([], 0)\<rparr>, [])"

lemma sample_trace:
  "snd sample_run =
     [(SQuery (5, 6) sample_query, Some (Inr \<lparr>qrResult = Some sample_answer, qrCached = True\<rparr>)),
      (SQuery (0, 1) sample_query, Some (Inr \<lparr>qrResult = Some sample_answer, qrCached = False\<rparr>))]"
proof -
  have ex: "rExists (fromBinding chain_sample_record)" "rTTL (fromBinding chain_sample_record) = 60" by (simp_all add: fromBinding_def chain_sample_record_def)
  obtain z where ch: "check_answer sample_resolver sample_query
     \<lparr>resRecord = fromBinding chain_sample_record, resOwner = [7], resPubKey = [], resOwnerSigValid = False, resZKProof = []\<rparr>
     zk_initial = (z, sample_answer)"
    using sample_checked by blast
  have api: "rv_api sample_resolver = record_chain" and cc: "rv_cache sample_resolver = list_env"
    by (simp_all add: sample_resolver_def list_resolver_def)
  show ?thesis
    by (simp add: sample_run_def HandleQuery_def Let_def cc api sample_chain_Resolve ex ch sample_check
        cache_Get_def cache_Set_def list_env_def list_lru_def ll_Get_def ll_Add_def fire_def fresh_cache_def
        ttl_duration_exact)
qed

section \<open>Properties\<close>

text \<open>
  C20: A proof that the resolver attaches to an answer is usable: it decodes from its 256-byte form and
  \<open>Verify\<close> accepts it for the record's on-chain commitment, which is the commitment of exactly the message that
  the owner's signature covers. A record whose commitment is wrong gets no proof.
\<close>

theorem served_proofs_verify:
  assumes "query_path R contents cap linv N" and "cache_New (rv_cache R) n = Inr c"
    and "\<Union> (query_names ` set ops) \<subseteq> N"
    and "snd (srv_run R ops (\<lparr>q_cache = c, q_zk = zk_initial, q_world = w\<rparr>, [])) =
           newer @ (SQuery ts q, Some (Inr qr)) # older"
    and "gnark_ok (rv_zk R) m" and "qrResult qr = Some res" and "resZKProof res \<noteq> []"
  shows "\<exists>msg pf. RecordMessage (rv_crypto R) (qName q) (resRecord res) = Some msg \<and>
    Commitment (rv_zk R) msg = Inr (rCommitment (resRecord res)) \<and>
    ProofFromSolidityCalldata (rv_zk R) (resZKProof res) = Inr pf \<and>
    snd (Verify (rv_zk R) pf (rCommitment (resRecord res)) zk_initial) = Inr ()"
proof -
  have "from_chain R q res" using query_path.run_answer [OF assms(1-4)] assms(6) by auto
  then obtain msg pf where "RecordMessage (rv_crypto R) (qName q) (resRecord res) = Some msg"
    and com: "Commitment (rv_zk R) msg = Inr (rCommitment (resRecord res))"
    and p: "snd (Prove (rv_zk R) msg zk_initial) = Inr pf" "resZKProof res = SolidityCalldata (rv_zk R) pf"
    using assms(7) unfolding from_chain_def by blast
  with proof_usable [OF assms(5) p(1) com] show ?thesis by auto
qed

lemma sample_proof: "resZKProof sample_answer \<noteq> []"
proof -
  let ?rec = "fromBinding chain_sample_record"
  obtain msg where msg: "RecordMessage toy_crypto ''example'' ?rec = Some msg" "length msg \<le> 496"
    by (simp add: RecordMessage_def field_pairs_def fromBinding_def chain_sample_record_def toy_crypto_def writeStr16_def)
  obtain es where "PackMessage msg = Inr es"
    using msg(2) by (simp add: PackMessage_def MaxPayload_def ChunkSize_def MaxChunks_def)
  then have com: "Commitment small_zk msg = Inr (replicate 32 1)" "\<exists>a. assignment small_zk msg = Inr a"
    by (simp_all add: Commitment_def assignment_def small_zk_def lift_zk_def)
  have "rCommitment ?rec = replicate 32 1" "length (rFieldNames ?rec) = length (rFieldVals ?rec)"
    by (simp_all add: fromBinding_def chain_sample_record_def)
  moreover have "replicate 32 (1 :: byte) \<noteq> zero_hash" by (simp add: zero_hash_def)
  moreover obtain z pf where "Prove small_zk msg zk_initial = (z, Inr pf)"
  proof -
    have "loadArtifacts small_zk zk_initial = (fst (loadArtifacts small_zk zk_initial), Inr ())"
      by (simp add: loadArtifacts_def load_once_def small_zk_def toy_zk_def zk_initial_def Let_def)
    then obtain z where "loadArtifacts small_zk zk_initial = (z, Inr ())" by blast
    then show thesis using that com(2) by (auto simp: Prove_def) (simp add: small_zk_def toy_zk_def)
  qed
  moreover have "SolidityCalldata small_zk pf \<noteq> []" for pf
  proof -
    have "length (SolidityCalldata small_zk pf) = 256" by (simp add: SolidityCalldata_def small_zk_def toy_zk_def)
    then show ?thesis by auto
  qed
  ultimately have "snd (proveRecord sample_resolver ''example'' ?rec zk_initial) \<noteq> []"
    using msg com by (simp add: proveRecord_def sample_resolver_def list_resolver_def)
  then show ?thesis
    using check_answer_fields(5) [OF sample_checked] by (simp add: sample_check(1)) (simp add: sample_query_def)
qed

theorem served_proofs_verify_witness:
  "\<exists>pf. ProofFromSolidityCalldata small_zk (resZKProof sample_answer) = Inr pf \<and>
     snd (Verify small_zk pf (replicate 32 1) zk_initial) = Inr ()"
proof -
  have z: "rv_zk sample_resolver = small_zk" by (simp add: sample_resolver_def list_resolver_def)
  have r: "rCommitment (resRecord sample_answer) = replicate 32 1"
    by (simp add: sample_check(1) fromBinding_def chain_sample_record_def)
  from served_proofs_verify [OF qp.query_path_axioms [of toy_crypto small_zk record_chain, folded sample_resolver_def]
      fresh_New subset_UNIV sample_trace [unfolded sample_run_def, THEN trans, OF append_Nil [symmetric]]]
  show ?thesis using small_gnark sample_proof by (auto simp: z r)
qed

end
