(* ===== verification/Query_Race.thy ===== *)
theory Query_Race
  imports Query_Path
begin

text \<open>
  Concurrent queries. The handlers of src/resolver/internal/server run in goroutines of their own, beside the event
  watcher; only the single operations of the cache hold its mutex. Here \<open>HandleQuery\<close> (handle.go) is cut where another
  goroutine can run: cache lookup, chain read with its checks, cache fill. A system has any number of queries in
  flight, and its operations are these three segments, contract events, invalidations, flushes and changes of the
  world outside, in any order.

  The locale \<open>query_path\<close> is extended by what the answers are in every such interleaving. It is weaker than what
  Query_Path shows for queries one after the other, and the last lemma shows that it has to be.
\<close>

section \<open>The segments of a query\<close>

definition hq_lookup ::
  "('s, 'w) resolver_env \<Rightarrow> int \<Rightarrow> query \<Rightarrow> ('s, 'w) qstate \<Rightarrow> ('s, 'w) qstate \<times> resolve_result option" where
  "hq_lookup R t q s =
     (let (c, hit) = cache_Get (rv_cache R) t (query_key q) (q_cache s) in (s\<lparr>q_cache := c\<rparr>, hit))"

datatype read_outcome = ReadFailed string | NotStored resolve_result | ToStore resolve_result

definition hq_read :: "('s, 'w) resolver_env \<Rightarrow> query \<Rightarrow> ('s, 'w) qstate \<Rightarrow> ('s, 'w) qstate \<times> read_outcome" where
  "hq_read R q s =
     (case chain_Resolve (rv_api R) (qName q) (qType q) (qSelector q) (q_world s) of
        (w, Inl err) \<Rightarrow> (s\<lparr>q_world := w\<rparr>, ReadFailed err)
      | (w, Inr res) \<Rightarrow>
          if rExists (resRecord res)
          then (let (z, res) = check_answer R q res (q_zk s)
                in (s\<lparr>q_world := w, q_zk := z\<rparr>, if rTTL (resRecord res) > 0 then ToStore res else NotStored res))
          else (s\<lparr>q_world := w\<rparr>, NotStored res))"

definition hq_fill :: "('s, 'w) resolver_env \<Rightarrow> int \<Rightarrow> query \<Rightarrow> resolve_result \<Rightarrow> ('s, 'w) qstate \<Rightarrow> ('s, 'w) qstate" where
  "hq_fill R t q res s =
     s\<lparr>q_cache := cache_Set (rv_cache R) t (query_key q) res (ttl_duration (rTTL (resRecord res))) (q_cache s)\<rparr>"

section \<open>Interleavings\<close>

text \<open>A query in flight has missed the cache, or has read the record it is going to store.\<close>

datatype in_flight = Missed query | Checked query resolve_result

record ('s, 'w) race =
  rc_state :: "('s, 'w) qstate"
  rc_flight :: "nat \<Rightarrow> in_flight option"

datatype 'w race_op =
    RLookup nat int query
  | RRead nat
  | RFill nat int
  | REvent record_event
  | RInvalidate string
  | RFlush
  | RWorld 'w

text \<open>A step and the answer that it gives, if it ends a query. An operation for a number that is not in the phase it
  needs does nothing.\<close>

type_synonym race_answer = "(query \<times> (string + query_result)) option"

fun race_step ::
  "('s, 'w) resolver_env \<Rightarrow> 'w race_op \<Rightarrow> ('s, 'w) race \<Rightarrow> ('s, 'w) race \<times> race_answer" where
  "race_step R (RLookup i t q) s =
     (case rc_flight s i of
        Some f \<Rightarrow> (s, None)
      | None \<Rightarrow>
          (case hq_lookup R t q (rc_state s) of
             (st, Some res) \<Rightarrow> (s\<lparr>rc_state := st\<rparr>, Some (q, Inr \<lparr>qrResult = Some res, qrCached = True\<rparr>))
           | (st, None) \<Rightarrow> (s\<lparr>rc_state := st, rc_flight := (rc_flight s)(i \<mapsto> Missed q)\<rparr>, None)))"
| "race_step R (RRead i) s =
     (case rc_flight s i of
        Some (Missed q) \<Rightarrow>
          (case hq_read R q (rc_state s) of
             (st, ReadFailed err) \<Rightarrow> (s\<lparr>rc_state := st, rc_flight := (rc_flight s)(i := None)\<rparr>, Some (q, Inl err))
           | (st, NotStored res) \<Rightarrow>
               (s\<lparr>rc_state := st, rc_flight := (rc_flight s)(i := None)\<rparr>,
                Some (q, Inr \<lparr>qrResult = Some res, qrCached = False\<rparr>))
           | (st, ToStore res) \<Rightarrow> (s\<lparr>rc_state := st, rc_flight := (rc_flight s)(i \<mapsto> Checked q res)\<rparr>, None))
      | _ \<Rightarrow> (s, None))"
| "race_step R (RFill i t) s =
     (case rc_flight s i of
        Some (Checked q res) \<Rightarrow>
          (s\<lparr>rc_state := hq_fill R t q res (rc_state s), rc_flight := (rc_flight s)(i := None)\<rparr>,
           Some (q, Inr \<lparr>qrResult = Some res, qrCached = False\<rparr>))
      | _ \<Rightarrow> (s, None))"
| "race_step R (REvent ev) s =
     (s\<lparr>rc_state := (rc_state s)\<lparr>q_cache := HandleEvent (rv_cache R) ev (q_cache (rc_state s))\<rparr>\<rparr>, None)"
| "race_step R (RInvalidate n) s =
     (s\<lparr>rc_state := (rc_state s)\<lparr>q_cache := InvalidateName (rv_cache R) n (q_cache (rc_state s))\<rparr>\<rparr>, None)"
| "race_step R RFlush s = (s\<lparr>rc_state := (rc_state s)\<lparr>q_cache := Flush (rv_cache R) (q_cache (rc_state s))\<rparr>\<rparr>, None)"
| "race_step R (RWorld w) s = (s\<lparr>rc_state := (rc_state s)\<lparr>q_world := w\<rparr>\<rparr>, None)"

type_synonym 'w race_trace = "('w race_op \<times> race_answer) list"

fun race_run ::
  "('s, 'w) resolver_env \<Rightarrow> 'w race_op list \<Rightarrow> ('s, 'w) race \<times> 'w race_trace \<Rightarrow> ('s, 'w) race \<times> 'w race_trace" where
  "race_run R [] st = st"
| "race_run R (op # ops) st = (let (s, a) = race_step R op (fst st) in race_run R ops (s, (op, a) # snd st))"

definition race_start :: "'s ttl_cache \<Rightarrow> 'w \<Rightarrow> ('s, 'w) race" where
  "race_start c w = \<lparr>rc_state = \<lparr>q_cache = c, q_zk = zk_initial, q_world = w\<rparr>, rc_flight = Map.empty\<rparr>"

section \<open>What answers are in every interleaving\<close>

fun race_removes :: "('s, 'w) resolver_env \<Rightarrow> 'w race_op \<Rightarrow> cache_key \<Rightarrow> bool" where
  "race_removes R (REvent ev) k = event_hits (rv_cache R) ev k"
| "race_removes R (RInvalidate n) k = (kName k = n)"
| "race_removes R RFlush k = True"
| "race_removes R _ k = False"

text \<open>The trace, the last step first, has the fill of a query for the key with this result, no more than its TTL before
  \<open>t\<close>, and nothing since then that removes the key.\<close>

fun filled_since :: "('s, 'w) resolver_env \<Rightarrow> cache_key \<Rightarrow> int \<Rightarrow> resolve_result \<Rightarrow> 'w race_trace \<Rightarrow> bool" where
  "filled_since R k t res [] = False"
| "filled_since R k t res ((op, a) # tr) =
     ((\<exists>i t0 q. op = RFill i t0 \<and> a = Some (q, Inr \<lparr>qrResult = Some res, qrCached = False\<rparr>) \<and> query_key q = k \<and>
         rExists (resRecord res) \<and> t \<le> t0 + ttl_duration (rTTL (resRecord res))) \<or>
      \<not> race_removes R op k \<and> filled_since R k t res tr)"

definition race_answer_ok :: "('s, 'w) resolver_env \<Rightarrow> 'w race_op \<Rightarrow> race_answer \<Rightarrow> 'w race_trace \<Rightarrow> bool" where
  "race_answer_ok R op a older \<longleftrightarrow>
     (\<forall>q qr. a = Some (q, Inr qr) \<longrightarrow>
        (\<exists>res. qrResult qr = Some res \<and> from_chain R q res \<and>
           (qrCached qr \<longrightarrow> (\<exists>i t. op = RLookup i t q \<and> filled_since R (query_key q) t res older))))"

fun race_answers_ok :: "('s, 'w) resolver_env \<Rightarrow> 'w race_trace \<Rightarrow> bool" where
  "race_answers_ok R [] = True"
| "race_answers_ok R ((op, a) # tr) = (race_answer_ok R op a tr \<and> race_answers_ok R tr)"

section \<open>Facts\<close>

lemma filled_since_mono: "filled_since R k t res tr \<Longrightarrow> t' \<le> t \<Longrightarrow> filled_since R k t' res tr"
proof (induction tr)
  case (Cons e tr)
  then show ?case by (cases e) force
qed simp

lemma race_answers_okD: "race_answers_ok R (newer @ (op, a) # older) \<Longrightarrow> race_answer_ok R op a older"
proof (induction newer)
  case (Cons e newer)
  then show ?case by (cases e) simp
qed simp

lemma filled_since_exists: "filled_since R k t res tr \<Longrightarrow> rExists (resRecord res)"
proof (induction tr)
  case (Cons e tr)
  then show ?case by (cases e) auto
qed simp

lemma race_answer_ok_None [simp]: "race_answer_ok R op None tr"
  by (simp add: race_answer_ok_def)

lemma hq_lookup_state: "hq_lookup R t q s = (s', r) \<Longrightarrow> q_zk s' = q_zk s \<and>
  cache_Get (rv_cache R) t (query_key q) (q_cache s) = (q_cache s', r)"
  by (auto simp: hq_lookup_def split: prod.splits)

lemma hq_read_result:
  assumes "hq_read R q s = (s', x)" "zk_reach (rv_zk R) (q_zk s)"
  shows "q_cache s' = q_cache s" "zk_reach (rv_zk R) (q_zk s')"
    "x = NotStored res \<or> x = ToStore res \<Longrightarrow> from_chain R q res" "x = ToStore res \<Longrightarrow> rExists (resRecord res)"
proof -
  obtain w y where y: "chain_Resolve (rv_api R) (qName q) (qType q) (qSelector q) (q_world s) = (w, y)" by fastforce
  have "q_cache s' = q_cache s \<and> zk_reach (rv_zk R) (q_zk s') \<and>
    (x = NotStored res \<or> x = ToStore res \<longrightarrow> from_chain R q res) \<and> (x = ToStore res \<longrightarrow> rExists (resRecord res))"
  proof (cases y)
    case (Inl err)
    then show ?thesis using assms y by (auto simp: hq_read_def)
  next
    case (Inr r0)
    note rd = y [unfolded Inr]
    show ?thesis
    proof (cases "rExists (resRecord r0)")
      case False
      then show ?thesis using assms rd from_chain_absent [OF rd False] by (auto simp: hq_read_def)
    next
      case True
      obtain z r where ch: "check_answer R q r0 (q_zk s) = (z, r)" by fastforce
      have "zk_reach (rv_zk R) z" using check_answer_fields(5) [OF ch] assms(2) by (rule proveRecord_reach)
      then show ?thesis
        using assms(1) rd True ch from_chain_checked [OF rd True ch assms(2)] check_answer_fields(1) [OF ch]
        by (auto simp: hq_read_def split: if_splits)
    qed
  qed
  then show "q_cache s' = q_cache s" "zk_reach (rv_zk R) (q_zk s')"
    "x = NotStored res \<or> x = ToStore res \<Longrightarrow> from_chain R q res" "x = ToStore res \<Longrightarrow> rExists (resRecord res)" by blast+
qed

fun flight_names :: "'w race_op \<Rightarrow> string set" where
  "flight_names (RLookup i t q) = {qName q}"
| "flight_names _ = {}"

text \<open>What is known of the queries in flight, and of the stored entries.\<close>

definition flight_ok :: "('s, 'w) resolver_env \<Rightarrow> string set \<Rightarrow> in_flight \<Rightarrow> bool" where
  "flight_ok R N f \<longleftrightarrow>
     (case f of
        Missed q \<Rightarrow> qName q \<in> N
      | Checked q res \<Rightarrow> qName q \<in> N \<and> from_chain R q res \<and> rExists (resRecord res))"

definition entry_ok :: "('s, 'w) resolver_env \<Rightarrow> 'w race_trace \<Rightarrow> cache_key \<Rightarrow> resolve_result centry \<Rightarrow> bool" where
  "entry_ok R tr k e \<longleftrightarrow>
     filled_since R k (ce_expiresAt e) (ce_value e) tr \<and> (\<forall>q. query_key q = k \<longrightarrow> from_chain R q (ce_value e))"

lemma entry_ok_later: "entry_ok R tr k e \<Longrightarrow> \<not> race_removes R op k \<Longrightarrow> entry_ok R ((op, a) # tr) k e"
  by (simp add: entry_ok_def)

context query_path begin

definition race_inv :: "('s, 'w) race \<times> 'w race_trace \<Rightarrow> bool" where
  "race_inv st \<longleftrightarrow>
     cache_ok (rv_cache R) contents cap linv N (q_cache (rc_state (fst st))) \<and> race_answers_ok R (snd st) \<and>
     zk_reach (rv_zk R) (q_zk (rc_state (fst st))) \<and>
     (\<forall>i f. rc_flight (fst st) i = Some f \<longrightarrow> flight_ok R N f) \<and>
     (\<forall>k e. contents (c_lru (q_cache (rc_state (fst st)))) k = Some e \<longrightarrow> entry_ok R (snd st) k e)"

lemma race_invI:
  assumes "cache_ok (rv_cache R) contents cap linv N (q_cache (rc_state s))" "race_answer_ok R op a tr" "race_answers_ok R tr"
    "zk_reach (rv_zk R) (q_zk (rc_state s))" "\<And>i f. rc_flight s i = Some f \<Longrightarrow> flight_ok R N f"
    "\<And>k e. contents (c_lru (q_cache (rc_state s))) k = Some e \<Longrightarrow> entry_ok R ((op, a) # tr) k e"
  shows "race_inv (s, (op, a) # tr)"
  using assms by (simp add: race_inv_def)

lemma race_invD:
  assumes "race_inv (s, tr)"
  shows "cache_ok (rv_cache R) contents cap linv N (q_cache (rc_state s))" "race_answers_ok R tr"
    "zk_reach (rv_zk R) (q_zk (rc_state s))" "rc_flight s i = Some f \<Longrightarrow> flight_ok R N f"
    "contents (c_lru (q_cache (rc_state s))) k = Some e \<Longrightarrow> entry_ok R tr k e"
  using assms by (simp_all add: race_inv_def)

lemma race_idle:
  assumes "race_inv (s, tr)" "\<And>k. \<not> race_removes R op k"
  shows "race_inv (s, (op, None) # tr)"
  using race_invD [OF assms(1)] assms(2) by (intro race_invI) (auto intro: entry_ok_later)

lemma race_lookup:
  assumes inv: "race_inv (s, tr)" and n: "qName q \<in> N" and st: "race_step R (RLookup i t q) s = (s', a)"
  shows "race_inv (s', (RLookup i t q, a) # tr)"
proof (cases "rc_flight s i")
  case (Some f)
  then show ?thesis using st race_idle [OF inv, of "RLookup i t q"] by auto
next
  case None
  note D = race_invD [OF inv]
  obtain u r where h: "hq_lookup R t q (rc_state s) = (u, r)" by fastforce
  note g = hq_lookup_state [OF h, THEN conjunct2]
  have ok: "cache_ok (rv_cache R) contents cap linv N (q_cache u)" using ac.get_valid [OF D(1) g] .
  have old: "entry_ok R ((RLookup i t q, b) # tr) k e" if "contents (c_lru (q_cache u)) k = Some e" for k e b
    using that D(5) ac.get_entries [OF D(1) g] by (intro entry_ok_later) (auto simp: map_le_def dom_def)
  have z: "zk_reach (rv_zk R) (q_zk u)" using D(3) hq_lookup_state [OF h] by simp
  show ?thesis
  proof (cases r)
    case None': None
    have s': "s' = s\<lparr>rc_state := u, rc_flight := (rc_flight s)(i \<mapsto> Missed q)\<rparr>" "a = None" using st None None' h by auto
    then show ?thesis using ok D(2,4) z old n by (intro race_invI) (auto simp: flight_ok_def split: if_splits)
  next
    case (Some res)
    have s': "s' = s\<lparr>rc_state := u\<rparr>" "a = Some (q, Inr \<lparr>qrResult = Some res, qrCached = True\<rparr>)" using st None Some h by auto
    obtain e where e: "contents (c_lru (q_cache (rc_state s))) (query_key q) = Some e" "ce_value e = res" "t \<le> ce_expiresAt e"
      using ac.get_hit [OF D(1) g [unfolded Some]] by blast
    have "from_chain R q res" "filled_since R (query_key q) t res tr"
      using D(5) [OF e(1)] e(2,3) filled_since_mono by (auto simp: entry_ok_def)
    then have "race_answer_ok R (RLookup i t q) a tr" by (simp add: race_answer_ok_def s')
    then show ?thesis using ok D(2,4) z old s' by (intro race_invI) auto
  qed
qed

lemma race_read:
  assumes inv: "race_inv (s, tr)" and st: "race_step R (RRead i) s = (s', a)"
  shows "race_inv (s', (RRead i, a) # tr)"
proof (cases "\<exists>q. rc_flight s i = Some (Missed q)")
  case False
  then have "s' = s" "a = None" using st by (auto split: option.splits in_flight.splits)
  then show ?thesis using race_idle [OF inv, of "RRead i"] by simp
next
  case True
  then obtain q where q: "rc_flight s i = Some (Missed q)" by blast
  note D = race_invD [OF inv]
  obtain u x where h: "hq_read R q (rc_state s) = (u, x)" by fastforce
  note r = hq_read_result [OF h D(3)]
  have n: "qName q \<in> N" using D(4) [OF q] by (simp add: flight_ok_def)
  have old: "entry_ok R ((RRead i, b) # tr) k e" if "contents (c_lru (q_cache u)) k = Some e" for k e b
    using that D(5) r(1) by (intro entry_ok_later) auto
  have fl: "flight_ok R N f" if "((rc_flight s)(i := g)) j = Some f" "\<And>f. g = Some f \<Longrightarrow> flight_ok R N f" for g j f
    using that D(4) by (auto split: if_splits)
  have ans: "race_answer_ok R (RRead i) a tr"
    using st q h r(3) by (auto simp: race_answer_ok_def split: read_outcome.splits)
  have s': "rc_state s' = u" "\<And>j f. rc_flight s' j = Some f \<Longrightarrow> flight_ok R N f"
    using st q h r(3,4) n D(4) by (auto simp: flight_ok_def split: read_outcome.splits if_splits)
  show ?thesis using ans D(1,2) r(1,2) old s' by (intro race_invI) auto
qed

lemma race_fill:
  assumes inv: "race_inv (s, tr)" and st: "race_step R (RFill i t) s = (s', a)"
  shows "race_inv (s', (RFill i t, a) # tr)"
proof (cases "\<exists>q res. rc_flight s i = Some (Checked q res)")
  case False
  then have "s' = s" "a = None" using st by (auto split: option.splits in_flight.splits)
  then show ?thesis using race_idle [OF inv, of "RFill i t"] by simp
next
  case True
  then obtain q res where q: "rc_flight s i = Some (Checked q res)" by blast
  note D = race_invD [OF inv]
  let ?tr = "(RFill i t, a) # tr"
  have f: "qName q \<in> N" "from_chain R q res" "rExists (resRecord res)" using D(4) [OF q] by (simp_all add: flight_ok_def)
  then have k: "kName (query_key q) \<in> N" by (simp add: query_key_def)
  have s': "s' = s\<lparr>rc_state := hq_fill R t q res (rc_state s), rc_flight := (rc_flight s)(i := None)\<rparr>"
    and a: "a = Some (q, Inr \<lparr>qrResult = Some res, qrCached = False\<rparr>)" using st q by auto
  have "entry_ok R ?tr k e" if e: "contents (c_lru (q_cache (rc_state s'))) k = Some e" for k e
  proof (rule ac.store_entries [OF D(1) k, where P = "entry_ok R ?tr"])
    show "contents (c_lru (cache_Set (rv_cache R) t (query_key q) res (ttl_duration (rTTL (resRecord res))) (q_cache (rc_state s)))) k = Some e"
      using e by (simp add: s' hq_fill_def)
    show "entry_ok R ?tr (query_key q) \<lparr>ce_value = res, ce_expiresAt = t + ttl_duration (rTTL (resRecord res))\<rparr>"
      using f a by (auto simp: entry_ok_def)
    show "entry_ok R ?tr k' e'" if "contents (c_lru (q_cache (rc_state s))) k' = Some e'" for k' e'
      using D(5) [OF that] by (intro entry_ok_later) simp_all
  qed
  moreover have "cache_ok (rv_cache R) contents cap linv N (q_cache (rc_state s'))"
    using ac.store_valid [OF D(1) k] by (simp add: s' hq_fill_def)
  ultimately show ?thesis
    using D(2,3,4) f(2) by (intro race_invI) (auto simp: s' a hq_fill_def race_answer_ok_def split: if_splits)
qed

lemma race_removal:
  assumes inv: "race_inv (s, tr)" and ok: "cache_ok (rv_cache R) contents cap linv N c"
    and left: "\<And>k e. contents (c_lru c) k = Some e \<Longrightarrow>
      contents (c_lru (q_cache (rc_state s))) k = Some e \<and> \<not> race_removes R op k"
  shows "race_inv (s\<lparr>rc_state := (rc_state s)\<lparr>q_cache := c\<rparr>\<rparr>, (op, None) # tr)"
  using race_invD [OF inv] ok left by (intro race_invI) (auto intro: entry_ok_later)

lemma race_step_inv:
  assumes inv: "race_inv (s, tr)" and n: "flight_names op \<subseteq> N" and st: "race_step R op s = (s', a)"
  shows "race_inv (s', (op, a) # tr)"
proof -
  note ok = race_invD(1) [OF inv]
  show ?thesis
  proof (cases op)
    case (RLookup i t q)
    then show ?thesis using race_lookup [OF inv] n st by simp
  next
    case (RRead i)
    then show ?thesis using race_read [OF inv] st by blast
  next
    case (RFill i t)
    then show ?thesis using race_fill [OF inv] st by blast
  next
    case (REvent ev)
    have "race_inv (s\<lparr>rc_state := (rc_state s)\<lparr>q_cache := HandleEvent (rv_cache R) ev (q_cache (rc_state s))\<rparr>\<rparr>, (REvent ev, None) # tr)"
      using inv ac.push_valid [OF ok] by (rule race_removal) (auto simp: ac.push_stored [OF ok] restrict_map_def split: if_splits)
    then show ?thesis using REvent st by simp
  next
    case (RInvalidate nm)
    have "race_inv (s\<lparr>rc_state := (rc_state s)\<lparr>q_cache := InvalidateName (rv_cache R) nm (q_cache (rc_state s))\<rparr>\<rparr>, (RInvalidate nm, None) # tr)"
      using inv ac.forget_valid [OF ok] by (rule race_removal) (auto simp: ac.forget_stored [OF ok] restrict_map_def split: if_splits)
    then show ?thesis using RInvalidate st by simp
  next
    case RFlush
    have "race_inv (s\<lparr>rc_state := (rc_state s)\<lparr>q_cache := Flush (rv_cache R) (q_cache (rc_state s))\<rparr>\<rparr>, (RFlush, None) # tr)"
      using inv ac.flush_valid [OF ok] by (rule race_removal) (auto simp: ac.flush_stored [OF ok])
    then show ?thesis using RFlush st by simp
  next
    case (RWorld w)
    have "race_inv (s\<lparr>rc_state := (rc_state s)\<lparr>q_world := w\<rparr>\<rparr>, (RWorld w, None) # tr)"
      using race_invD [OF inv] by (intro race_invI) (auto intro: entry_ok_later)
    then show ?thesis using RWorld st by simp
  qed
qed

lemma race_run_inv:
  "race_inv st \<Longrightarrow> \<Union> (flight_names ` set ops) \<subseteq> N \<Longrightarrow> race_inv (race_run R ops st)"
proof (induction ops arbitrary: st)
  case (Cons op ops)
  obtain s a where st: "race_step R op (fst st) = (s, a)" by fastforce
  have "race_inv (s, (op, a) # snd st)"
    using Cons.prems st by (intro race_step_inv [of "fst st" "snd st"]) auto
  from Cons.IH [OF this] Cons.prems(2) show ?case by (simp add: st)
qed simp

lemma race_start_inv: "cache_New (rv_cache R) n = Inr c \<Longrightarrow> race_inv (race_start c w, [])"
  using new_ok [of n c] by (simp add: race_inv_def race_start_def zk_reach_def)

lemma race_answers:
  assumes "cache_New (rv_cache R) n = Inr c" "\<Union> (flight_names ` set ops) \<subseteq> N"
    and "snd (race_run R ops (race_start c w, [])) = newer @ (op, a) # older"
  shows "race_answer_ok R op a older"
proof -
  have "race_answers_ok R (newer @ (op, a) # older)"
    using race_run_inv [OF race_start_inv [OF assms(1), of w] assms(2)] assms(3) by (simp add: race_inv_def)
  then show ?thesis by (rule race_answers_okD)
qed

end

lemma race_run_append_trace: "race_run R ops (s, tr @ tr0) = (let (s', new) = race_run R ops (s, tr) in (s', new @ tr0))"
proof (induction ops arbitrary: s tr)
  case (Cons op ops)
  obtain u a where u: "race_step R op s = (u, a)" by fastforce
  from Cons.IH [of u "(op, a) # tr"] show ?case by (simp add: u)
qed simp

text \<open>Without interruption the three segments are \<open>HandleQuery\<close>: the same state, the same result, given once.\<close>

lemma segments_are_HandleQuery:
  assumes "rc_flight s i = None" and "HandleQuery R ts q (rc_state s) = (st, r)"
    and "race_run R [RLookup i (fst ts) q, RRead i, RFill i (snd ts)] (s, []) = (s', tr)"
  shows "rc_state s' = st \<and> rc_flight s' = rc_flight s \<and> filter (\<lambda>a. a \<noteq> None) (map snd tr) = [Some (q, r)]"
proof -
  obtain u h where h: "hq_lookup R (fst ts) q (rc_state s) = (u, h)" by fastforce
  show ?thesis
  proof (cases h)
    case (Some res)
    have "(rc_flight s)(i := None) = rc_flight s" using assms(1) by auto
    then show ?thesis using assms h Some by (auto simp: HandleQuery_def hq_lookup_def Let_def split: prod.splits)
  next
    case None
    obtain v x where x: "hq_read R q u = (v, x)" by fastforce
    have fl: "(rc_flight s)(i := None) = rc_flight s" using assms(1) by auto
    have "HandleQuery R ts q (rc_state s) =
      (case x of ReadFailed e \<Rightarrow> (v, Inl e) | NotStored res \<Rightarrow> (v, Inr \<lparr>qrResult = Some res, qrCached = False\<rparr>)
       | ToStore res \<Rightarrow> (hq_fill R (snd ts) q res v, Inr \<lparr>qrResult = Some res, qrCached = False\<rparr>))"
      using h None x
      by (auto simp: HandleQuery_def hq_lookup_def hq_read_def hq_fill_def Let_def split: prod.splits sum.splits if_splits)
    then show ?thesis
      using assms h None x fl by (cases x) auto
  qed
qed

text \<open>A query that starts in a state of any interleaving, and is then not interrupted, is answered from the chain.\<close>

lemma race_next_answer:
  assumes qp: "query_path R contents cap linv N" and "cache_New (rv_cache R) n = Inr c" and "\<Union> (flight_names ` set ops) \<subseteq> N"
    and "qName q \<in> N" and h: "HandleQuery R ts q (rc_state (fst (race_run R ops (race_start c w, [])))) = (st, Inr qr)"
  shows "\<exists>res. qrResult qr = Some res \<and> from_chain R q res"
proof -
  define s where "s = fst (race_run R ops (race_start c w, []))"
  define s0 where "s0 = s\<lparr>rc_flight := Map.empty\<rparr>"
  have "query_path.race_inv R contents cap linv N (race_run R ops (race_start c w, []))"
    by (rule query_path.race_run_inv [OF qp query_path.race_start_inv [OF qp assms(2)] assms(3)])
  then obtain tr where "query_path.race_inv R contents cap linv N (s, tr)" unfolding s_def by (metis prod.collapse)
  then have i: "query_path.race_inv R contents cap linv N (s0, tr)"
    by (simp add: query_path.race_inv_def [OF qp] s0_def)
  define segs :: "'b race_op list" where "segs = [RLookup 0 (fst ts) q, RRead 0, RFill 0 (snd ts)]"
  obtain s' tr' where r: "race_run R segs (s0, []) = (s', tr')" by fastforce
  have e: "race_run R segs (s0, tr) = (s', tr' @ tr)" using race_run_append_trace [of R segs s0 "[]" tr] r by simp
  have "query_path.race_inv R contents cap linv N (race_run R segs (s0, tr))"
    by (rule query_path.race_run_inv [OF qp i]) (use assms(4) in \<open>simp add: segs_def\<close>)
  then have ok: "race_answers_ok R (tr' @ tr)" by (simp add: e query_path.race_inv_def [OF qp])
  have "filter (\<lambda>a. a \<noteq> None) (map snd tr') = [Some (q, Inr qr)]"
    using segments_are_HandleQuery [OF _ _ r [unfolded segs_def]] h by (simp add: s0_def s_def)
  then have "Some (q, Inr qr) \<in> set (map snd tr')" by (metis list.set_intros(1) filter_is_subset subsetD)
  then obtain op a b where "tr' = a @ (op, Some (q, Inr qr)) # b" by (auto dest: split_list)
  with ok have "race_answer_ok R op (Some (q, Inr qr)) (b @ tr)" using race_answers_okD [of R a op "Some (q, Inr qr)" "b @ tr"] by simp
  then show ?thesis by (auto simp: race_answer_ok_def)
qed

section \<open>Properties\<close>

text \<open>
  C1: Whatever runs in between, an answer is a result that the contract returned for exactly this query, with the verdict
  of \<open>VerifyOwnerSig\<close>; and an answer from the cache was stored by a query of the same key at most the record's TTL
  before, with no event, invalidation or flush for its name since it was stored.
\<close>

theorem interleaved_answers_come_from_chain:
  assumes "query_path R contents cap linv N" and "cache_New (rv_cache R) n = Inr c" and "\<Union> (flight_names ` set ops) \<subseteq> N"
    and "snd (race_run R ops (race_start c w, [])) = newer @ (op, Some (q, Inr qr)) # older"
  shows "\<exists>res. qrResult qr = Some res \<and> from_chain R q res \<and>
    (qrCached qr \<longrightarrow> (\<exists>i t. op = RLookup i t q \<and> filled_since R (query_key q) t res older))"
  using query_path.race_answers [OF assms] by (simp add: race_answer_ok_def)

text \<open>A chain from which the record disappears when the first component of the world is no longer empty.\<close>

definition fading_chain :: "((string + 64 word) list \<times> int) rpc_api" where
  "fading_chain = flaky_api\<lparr>api_resolve := (\<lambda>n t sel w.
     (w, Inr (chain_sample_record\<lparr>bExists := (fst w = [])\<rparr>, [7], [])))\<rparr>"

definition fading_resolver ::
  "((cache_key, resolve_result centry) lru_list, (string + 64 word) list \<times> int) resolver_env" where
  "fading_resolver = list_resolver toy_crypto small_zk fading_chain"

definition removal_event :: record_event where
  "removal_event = \<lparr>evKind = EventRecordRemoved, evName = ''example'', evNameHash = [], evRecordType = ''A'', evSelector = [],
     evBlock = 1\<rparr>"

text \<open>A query reads the record; it is removed and the event is handled; the query stores what it has read.\<close>

definition stale_ops :: "((string + 64 word) list \<times> int) race_op list" where
  "stale_ops = [RLookup 0 0 sample_query, RRead 0, RWorld ([Inl []], 0), REvent removal_event, RFill 0 1, RLookup 1 5 sample_query]"

definition stale_end ::
  "((cache_key, resolve_result centry) lru_list, (string + 64 word) list \<times> int) race \<times> ((string + 64 word) list \<times> int) race_trace" where
  "stale_end = race_run fading_resolver stale_ops (race_start fresh_cache ([], 0), [])"

lemma fading_New: "cache_New (rv_cache fading_resolver) 2 = Inr fresh_cache"
  using fresh_New by (simp add: fading_resolver_def sample_resolver_def list_resolver_def)

lemma fading_Resolve:
  "chain_Resolve (rv_api fading_resolver) n t sel w =
     (w, Inr \<lparr>resRecord = (fromBinding chain_sample_record)\<lparr>rExists := (fst w = [])\<rparr>, resOwner = [7], resPubKey = [],
              resOwnerSigValid = False, resZKProof = []\<rparr>)"
  by (simp add: fading_resolver_def list_resolver_def chain_Resolve_def fading_chain_def retry_def retryAttempts_def
      numeral_3_eq_3 retry_wait_def flaky_api_def fromBinding_def)

lemma fading_check: "check_answer fading_resolver q r z = check_answer sample_resolver q r z"
proof -
  have "rv_crypto fading_resolver = rv_crypto sample_resolver" "rv_zk fading_resolver = rv_zk sample_resolver"
    by (simp_all add: fading_resolver_def sample_resolver_def list_resolver_def)
  then show ?thesis by (simp only: check_answer_def proveRecord_def)
qed

lemma stale_trace:
  "snd stale_end =
     [(RLookup 1 5 sample_query, Some (sample_query, Inr \<lparr>qrResult = Some sample_answer, qrCached = True\<rparr>)),
      (RFill 0 1, Some (sample_query, Inr \<lparr>qrResult = Some sample_answer, qrCached = False\<rparr>)),
      (REvent removal_event, None), (RWorld ([Inl []], 0), None), (RRead 0, None), (RLookup 0 0 sample_query, None)] \<and>
   q_world (rc_state (fst stale_end)) = ([Inl []], 0)"
proof -
  have ex: "(fromBinding chain_sample_record)\<lparr>rExists := True\<rparr> = fromBinding chain_sample_record"
    "rExists (fromBinding chain_sample_record)" "rTTL (fromBinding chain_sample_record) = 60"
    by (simp_all add: fromBinding_def chain_sample_record_def)
  obtain z where ch: "check_answer sample_resolver sample_query
     \<lparr>resRecord = fromBinding chain_sample_record, resOwner = [7], resPubKey = [], resOwnerSigValid = False, resZKProof = []\<rparr>
     zk_initial = (z, sample_answer)"
    using sample_checked by blast
  have cc: "rv_cache fading_resolver = list_env" by (simp add: fading_resolver_def list_resolver_def)
  have rd: "hq_read fading_resolver sample_query \<lparr>q_cache = c, q_zk = zk_initial, q_world = ([], 0)\<rparr> =
      (\<lparr>q_cache = c, q_zk = z, q_world = ([], 0)\<rparr>, ToStore sample_answer)" for c
    using ch sample_check by (simp add: hq_read_def fading_Resolve fading_check ex)
  show ?thesis
    by (simp add: stale_end_def stale_ops_def race_start_def rd ex(3) hq_lookup_def hq_fill_def Let_def cc sample_check
        cache_Get_def cache_Set_def list_env_def list_lru_def ll_Get_def ll_Add_def fire_def fresh_cache_def
        ttl_duration_exact HandleEvent_def removal_event_def InvalidateName_def invalidateNameLocked_def)
qed

theorem interleaved_answers_come_from_chain_witness:
  "from_chain fading_resolver sample_query sample_answer \<and>
   filled_since fading_resolver (query_key sample_query) 5 sample_answer (tl (snd stale_end))"
  using interleaved_answers_come_from_chain [OF qp.query_path_axioms [of toy_crypto small_zk fading_chain, folded fading_resolver_def]
      fading_New subset_UNIV stale_trace [THEN conjunct1, unfolded stale_end_def, THEN trans, OF append_Nil [symmetric]]]
    stale_trace
  by auto

text \<open>
  Push invalidation can be overtaken: a record that was removed on the chain, and whose removal event has been
  handled, is served from the cache after that, for up to its TTL, if a query had read it before the event and stored
  it afterwards. The fill does not check whether the name was invalidated since the read.
\<close>

lemma stale_fill_survives_event:
  "stale_end = race_run fading_resolver stale_ops (race_start fresh_cache ([], 0), []) \<and>
   hd (snd stale_end) = (RLookup 1 5 sample_query, Some (sample_query, Inr \<lparr>qrResult = Some sample_answer, qrCached = True\<rparr>)) \<and>
   rExists (resRecord sample_answer) \<and>
   (REvent removal_event, None) \<in> set (snd stale_end) \<and>
   event_hits (rv_cache fading_resolver) removal_event (query_key sample_query) \<and>
   (\<exists>w r. chain_Resolve (rv_api fading_resolver) (qName sample_query) (qType sample_query) (qSelector sample_query)
      (q_world (rc_state (fst stale_end))) = (w, Inr r) \<and> \<not> rExists (resRecord r))"
  using stale_trace sample_check(2)
  by (simp add: stale_end_def fading_Resolve event_hits_def removal_event_def sample_query_def query_key_def)

end
