(* ===== verification/Solidity.thy ===== *)
theory Solidity
  imports Query_Model Chain_Types
begin

text \<open>
  The vocabulary of the models of the contracts under src/contracts/contracts: the message of a call, checked arithmetic
  on \<open>uint256\<close>, the ABI encodings whose hashes the contracts use as keys, and the two functions of the virtual machine
  that are parameters, keccak256 and ecrecover.

  A \<open>uint256\<close> is a natural number; an operation that leaves the range reverts with a panic, which is an error value here. A
  \<open>uint64\<close> is a 64-bit word: the cast \<open>uint64(x)\<close> truncates and \<open>unchecked\<close> additions wrap, as words do. A storage mapping is a
  total function, whose values are zero until written.
\<close>

section \<open>Calls\<close>

record sol_lib =
  keccak256 :: "bytes \<Rightarrow> hash32"
  ecrecover :: "hash32 \<Rightarrow> byte \<Rightarrow> hash32 \<Rightarrow> hash32 \<Rightarrow> address"

record sol_msg =
  msg_sender :: address
  msg_value :: nat
  block_timestamp :: nat

text \<open>Checked arithmetic; \<open>p\<close> is the panic of the contract's error type.\<close>

definition u256_add :: "'e \<Rightarrow> nat \<Rightarrow> nat \<Rightarrow> 'e + nat" where
  "u256_add p a b = (if a + b < 2 ^ 256 then Inr (a + b) else Inl p)"

definition u256_mul :: "'e \<Rightarrow> nat \<Rightarrow> nat \<Rightarrow> 'e + nat" where
  "u256_mul p a b = (if a * b < 2 ^ 256 then Inr (a * b) else Inl p)"

definition u256_sub :: "'e \<Rightarrow> nat \<Rightarrow> nat \<Rightarrow> 'e + nat" where
  "u256_sub p a b = (if b \<le> a then Inr (a - b) else Inl p)"

section \<open>Encodings\<close>

text \<open>The 32-byte words of the ABI: integers big-endian, addresses padded on the left, byte sequences as their length
  followed by their bytes, padded on the right to a multiple of 32.\<close>

definition abi_uint :: "nat \<Rightarrow> bytes" where
  "abi_uint n = be_bytes 32 n"

definition abi_address :: "address \<Rightarrow> bytes" where
  "abi_address a = replicate 12 0 @ a"

definition abi_tail :: "bytes \<Rightarrow> bytes" where
  "abi_tail b = abi_uint (length b) @ b @ replicate ((32 - length b mod 32) mod 32) 0"

text \<open>\<open>abi.encode(string, address, bytes, bytes32)\<close>: four head words, the dynamic ones as offsets, then the tails.\<close>

definition abi_encode_commitment :: "bytes \<Rightarrow> address \<Rightarrow> bytes \<Rightarrow> hash32 \<Rightarrow> bytes" where
  "abi_encode_commitment name owner pubKey secret =
     abi_uint 128 @ abi_address owner @ abi_uint (128 + length (abi_tail name)) @ secret @ abi_tail name @ abi_tail pubKey"

section \<open>Facts\<close>

lemma u256_add_eq_Inr [simp]: "u256_add p a b = Inr c \<longleftrightarrow> c = a + b \<and> a + b < 2 ^ 256"
  by (auto simp: u256_add_def)

lemma u256_mul_eq_Inr [simp]: "u256_mul p a b = Inr c \<longleftrightarrow> c = a * b \<and> a * b < 2 ^ 256"
  by (auto simp: u256_mul_def)

lemma u256_sub_eq_Inr [simp]: "u256_sub p a b = Inr c \<longleftrightarrow> c = a - b \<and> b \<le> a"
  by (auto simp: u256_sub_def)

lemma length_abi [simp]: "length (abi_uint n) = 32" "length (abi_address a) = 12 + length a"
  by (simp_all add: abi_uint_def abi_address_def)

text \<open>A tail can be cut off a longer sequence: its first word tells its length.\<close>

lemma abi_tail_prefix:
  assumes "abi_tail a @ x = abi_tail b @ y" and "length a < 2 ^ 256" "length b < 2 ^ 256"
  shows "a = b \<and> x = y"
proof -
  have e: "abi_uint (length a) @ (a @ replicate ((32 - length a mod 32) mod 32) 0) @ x =
      abi_uint (length b) @ (b @ replicate ((32 - length b mod 32) mod 32) 0) @ y"
    using assms(1) by (simp add: abi_tail_def)
  then have "abi_uint (length a) = abi_uint (length b)" by (simp add: append_eq_append_conv)
  then have l: "length a = length b" using assms(2,3) by (intro be_bytes_inject [of 32]) (simp_all add: abi_uint_def)
  with e show ?thesis by (simp add: append_eq_append_conv)
qed

text \<open>The preimage of a registration commitment determines what was committed to.\<close>

lemma abi_encode_commitment_inject:
  assumes "abi_encode_commitment n a k s = abi_encode_commitment n' a' k' s'"
    and "length a = 20" "length a' = 20" "length s = 32" "length s' = 32"
    and "length n < 2 ^ 256" "length n' < 2 ^ 256" "length k < 2 ^ 256" "length k' < 2 ^ 256"
  shows "n = n' \<and> a = a' \<and> k = k' \<and> s = s'"
proof -
  have "a = a' \<and> s = s' \<and> abi_tail n @ abi_tail k = abi_tail n' @ abi_tail k'"
    using assms(1-5) by (auto simp: abi_encode_commitment_def abi_address_def append_eq_append_conv)
  moreover from this have "n = n' \<and> abi_tail k = abi_tail k'" using abi_tail_prefix assms(6,7) by blast
  moreover from this have "k = k'" using abi_tail_prefix [of k "[]" k' "[]"] assms(8,9) by simp
  ultimately show ?thesis by blast
qed

end
