(* ===== verification/Schema_Registry.thy ===== *)
theory Schema_Registry
  imports Solidity
begin

text \<open>
  The schema registry, src/contracts/contracts/RecordSchemaRegistry.sol: the declaration of record types with mandatory and
  optional fields, and what the namespace contract asks of it (the locale \<open>schema_registry\<close>).
\<close>

section \<open>Definitions\<close>

record FieldSpec =
  fs_name :: string
  fs_mandatory :: bool

record Schema =
  sc_name :: string
  sc_exists :: bool
  sc_fields :: "FieldSpec list"

datatype registry_error =
  TypeAlreadyExists | UnknownType | InvalidTypeName | InvalidFieldName | TooManySchemaFields | DuplicateField | RegistryNotPayable

datatype registry_log = TypeDeclared hash32 string address nat nat

record registry =
  rg_schemas :: "hash32 \<Rightarrow> Schema"
  rg_typeNames :: "string list"
  rg_logs :: "registry_log list"

definition MAX_FIELDS :: nat where "MAX_FIELDS = 16"
definition REG_MAX_FIELD_NAME_LENGTH :: nat where "REG_MAX_FIELD_NAME_LENGTH = 32"

definition validateFieldName :: "string \<Rightarrow> registry_error + unit" where
  "validateFieldName b =
     (if length b = 0 \<or> length b > REG_MAX_FIELD_NAME_LENGTH then Inl InvalidFieldName else Inr ())"

text \<open>One of the two loops that append the field specifications.\<close>

fun push_fields :: "bool \<Rightarrow> string list \<Rightarrow> FieldSpec list \<Rightarrow> registry_error + FieldSpec list" where
  "push_fields mandatory [] fs = Inr fs"
| "push_fields mandatory (n # ns) fs =
     rbind (validateFieldName n) (\<lambda>_. push_fields mandatory ns (fs @ [\<lparr>fs_name = n, fs_mandatory = mandatory\<rparr>]))"

text \<open>The two nested loops of \<open>_checkNoDuplicates\<close>: each name against those after it.\<close>

fun checkNoDuplicates :: "sol_lib \<Rightarrow> FieldSpec list \<Rightarrow> registry_error + unit" where
  "checkNoDuplicates L [] = Inr ()"
| "checkNoDuplicates L (f # fs) =
     (let hi = keccak256 L (str_bytes (fs_name f))
      in if list_ex (\<lambda>g. hi = keccak256 L (str_bytes (fs_name g))) fs then Inl DuplicateField
         else checkNoDuplicates L fs)"

definition declare_internal ::
  "sol_lib \<Rightarrow> address \<Rightarrow> string \<Rightarrow> string list \<Rightarrow> string list \<Rightarrow> registry \<Rightarrow> registry_error + registry" where
  "declare_internal L sender name mandatory optional s =
     (if \<not> contract_validateTypeName name then Inl InvalidTypeName
      else if length mandatory + length optional > MAX_FIELDS then Inl TooManySchemaFields
      else
        (let h = keccak256 L (str_bytes name); sc = rg_schemas s h
         in if sc_exists sc then Inl TypeAlreadyExists
            else
              rbind (push_fields True mandatory (sc_fields sc)) (\<lambda>fs.
              rbind (push_fields False optional fs) (\<lambda>fs.
              rbind (checkNoDuplicates L fs) (\<lambda>_.
                Inr (s\<lparr>rg_schemas := (rg_schemas s)(h := \<lparr>sc_name = name, sc_exists = True, sc_fields = fs\<rparr>),
                       rg_typeNames := rg_typeNames s @ [name],
                       rg_logs := rg_logs s @ [TypeDeclared h name sender (length mandatory) (length optional)]\<rparr>))))))"

definition declareType ::
  "sol_lib \<Rightarrow> sol_msg \<Rightarrow> string \<Rightarrow> string list \<Rightarrow> string list \<Rightarrow> registry \<Rightarrow> registry_error + registry" where
  "declareType L m name mandatory optional s =
     (if msg_value m > 0 then Inl RegistryNotPayable else declare_internal L (msg_sender m) name mandatory optional s)"

definition empty_registry :: registry where
  "empty_registry =
     \<lparr>rg_schemas = (\<lambda>_. \<lparr>sc_name = [], sc_exists = False, sc_fields = []\<rparr>), rg_typeNames = [], rg_logs = []\<rparr>"

definition registry_constructor :: "sol_lib \<Rightarrow> address \<Rightarrow> registry_error + registry" where
  "registry_constructor L sender =
     rbind (declare_internal L sender ''A'' [''address''] [] empty_registry) (\<lambda>s.
     rbind (declare_internal L sender ''AAAA'' [''address''] [] s) (\<lambda>s.
     rbind (declare_internal L sender ''MX'' [''host'', ''priority''] [] s) (\<lambda>s.
     rbind (declare_internal L sender ''SVC'' [''target'', ''service'', ''transport''] [''port''] s) (\<lambda>s.
       declare_internal L sender ''ResourceRef'' [''infoHash'', ''sha256'', ''contentType''] [] s))))"

definition typeExists :: "sol_lib \<Rightarrow> registry \<Rightarrow> string \<Rightarrow> bool" where
  "typeExists L s typeName = sc_exists (rg_schemas s (keccak256 L (str_bytes typeName)))"

definition getSchema :: "sol_lib \<Rightarrow> registry \<Rightarrow> string \<Rightarrow> registry_error + FieldSpec list" where
  "getSchema L s typeName =
     (let sc = rg_schemas s (keccak256 L (str_bytes typeName))
      in if \<not> sc_exists sc then Inl UnknownType else Inr (sc_fields sc))"

definition mandatoryFields :: "registry \<Rightarrow> hash32 \<Rightarrow> registry_error + string list" where
  "mandatoryFields s typeHash =
     (let sc = rg_schemas s typeHash
      in if \<not> sc_exists sc then Inl UnknownType else Inr (map fs_name (filter fs_mandatory (sc_fields sc))))"

definition listTypes :: "registry \<Rightarrow> string list" where
  "listTypes s = rg_typeNames s"

section \<open>What a declaration does\<close>

lemma push_fields_Inr:
  "push_fields b ns fs = Inr fs' \<longleftrightarrow>
   fs' = fs @ map (\<lambda>n. \<lparr>fs_name = n, fs_mandatory = b\<rparr>) ns \<and> (\<forall>n \<in> set ns. 0 < length n \<and> length n \<le> 32)"
  by (induction ns arbitrary: fs)
    (auto simp: validateFieldName_def REG_MAX_FIELD_NAME_LENGTH_def rbind_eq_Inr split: if_splits)

lemma checkNoDuplicates_Inr:
  "checkNoDuplicates L fs = Inr () \<longleftrightarrow> distinct (map (\<lambda>f. keccak256 L (str_bytes (fs_name f))) fs)"
  by (induction fs) (auto simp: Let_def list_ex_iff)

lemma declare_internal_Inr:
  assumes "declare_internal L sender name mandatory optional s = Inr s'"
    and "sc_fields (rg_schemas s (keccak256 L (str_bytes name))) = []"
  shows "contract_validateTypeName name \<and> \<not> typeExists L s name \<and> length mandatory + length optional \<le> 16 \<and>
    rg_schemas s' = (rg_schemas s)(keccak256 L (str_bytes name) :=
      \<lparr>sc_name = name, sc_exists = True,
       sc_fields = map (\<lambda>n. \<lparr>fs_name = n, fs_mandatory = True\<rparr>) mandatory @ map (\<lambda>n. \<lparr>fs_name = n, fs_mandatory = False\<rparr>) optional\<rparr>) \<and>
    rg_typeNames s' = rg_typeNames s @ [name] \<and> distinct (map (\<lambda>n. keccak256 L (str_bytes n)) (mandatory @ optional))"
  using assms
  by (auto simp: declare_internal_def Let_def rbind_eq_Inr push_fields_Inr checkNoDuplicates_Inr typeExists_def MAX_FIELDS_def o_def
      simp del: distinct_append split: if_splits)

text \<open>The storage of a type that is not declared is empty, and the list of type names has exactly the declared types.\<close>

definition registry_inv :: "sol_lib \<Rightarrow> registry \<Rightarrow> bool" where
  "registry_inv L s \<longleftrightarrow>
     (\<forall>h. \<not> sc_exists (rg_schemas s h) \<longrightarrow> sc_fields (rg_schemas s h) = []) \<and>
     (\<forall>h. sc_exists (rg_schemas s h) \<longleftrightarrow> h \<in> (\<lambda>n. keccak256 L (str_bytes n)) ` set (rg_typeNames s)) \<and>
     distinct (map (\<lambda>n. keccak256 L (str_bytes n)) (rg_typeNames s)) \<and>
     (\<forall>n \<in> set (rg_typeNames s). contract_validateTypeName n \<and> sc_name (rg_schemas s (keccak256 L (str_bytes n))) = n)"

lemma registry_inv_empty: "registry_inv L empty_registry"
  by (simp add: registry_inv_def empty_registry_def)

lemma registry_inv_declare:
  assumes "registry_inv L s" and "declare_internal L sender name mandatory optional s = Inr s'"
  shows "registry_inv L s'"
proof -
  define h where "h = keccak256 L (str_bytes name)"
  have nx: "\<not> sc_exists (rg_schemas s h)"
    using assms(2) by (auto simp: declare_internal_def Let_def h_def split: if_splits)
  then have e: "sc_fields (rg_schemas s h) = []" using assms(1) by (simp add: registry_inv_def)
  note d = declare_internal_Inr [OF assms(2) e [unfolded h_def], folded h_def]
  have new: "h \<notin> (\<lambda>n. keccak256 L (str_bytes n)) ` set (rg_typeNames s)" using nx assms(1) by (simp add: registry_inv_def)
  show ?thesis using assms(1) d new unfolding registry_inv_def by (auto simp: h_def image_iff)
qed

section \<open>What the namespace contract relies on\<close>

text \<open>The interface \<open>IRecordSchemaRegistry\<close> and its contract: the mandatory fields of a type can be read when the type
  exists, they satisfy the registry's limits, and they stay as they are for ever.\<close>

locale schema_registry =
  fixes L :: sol_lib
    and exists_type :: "'r \<Rightarrow> string \<Rightarrow> bool"
    and mandatory_of :: "'r \<Rightarrow> hash32 \<Rightarrow> registry_error + string list"
    and later :: "'r \<Rightarrow> 'r \<Rightarrow> bool"
  assumes mandatory_readable: "exists_type r t \<Longrightarrow> \<exists>ms. mandatory_of r (keccak256 L (str_bytes t)) = Inr ms"
    and later_exists: "later r r' \<Longrightarrow> exists_type r t \<Longrightarrow> exists_type r' t"
    and later_mandatory: "later r r' \<Longrightarrow> mandatory_of r h = Inr ms \<Longrightarrow> mandatory_of r' h = Inr ms"
begin

lemma schema_is_stable:
  assumes "later r r'" "exists_type r t"
  shows "\<exists>ms. mandatory_of r (keccak256 L (str_bytes t)) = Inr ms \<and> mandatory_of r' (keccak256 L (str_bytes t)) = Inr ms"
  using mandatory_readable [OF assms(2)] later_mandatory [OF assms(1)] by blast

end

text \<open>Successive states of the deployed registry.\<close>

inductive registry_later :: "sol_lib \<Rightarrow> registry \<Rightarrow> registry \<Rightarrow> bool" for L where
  later_refl: "registry_later L s s"
| later_declare: "registry_later L s s' \<Longrightarrow> declareType L m name mandatory optional s' = Inr s'' \<Longrightarrow> registry_later L s s''"

lemma declareType_keeps:
  assumes "declareType L m name mandatory optional s = Inr s'" and "sc_exists (rg_schemas s h)"
  shows "rg_schemas s' h = rg_schemas s h"
  using assms
  by (auto simp: declareType_def declare_internal_def Let_def rbind_eq_Inr split: if_splits)

lemma registry_later_keeps: "registry_later L s s' \<Longrightarrow> sc_exists (rg_schemas s h) \<Longrightarrow> rg_schemas s' h = rg_schemas s h"
  by (induction rule: registry_later.induct) (auto simp: declareType_keeps)

interpretation deployed: schema_registry L "typeExists L" mandatoryFields "registry_later L" for L
  by unfold_locales
    (auto simp: typeExists_def mandatoryFields_def Let_def registry_later_keeps split: if_splits)

end
