(* ===== verification/Namespace_Contract.thy ===== *)
theory Namespace_Contract
  imports Schema_Registry
begin

text \<open>
  The namespace contract, src/contracts/contracts/NamespaceDApp.sol: registration by commit and reveal, renewal, transfer, the
  record store with its key lists, and the views that the resolver reads.

  An entry point is a function of the message, its arguments and the contract's storage; it reverts (\<open>Inl\<close>) or returns the
  new storage, which includes the balance and the emitted logs. Ether leaves the contract by a call of the recipient, who may
  refuse it or call the contract again before returning: \<open>callee\<close> is what the recipient does to the storage. The relation
  \<open>dapp_runs\<close> has all calls at one block time, with every re-entrance by a callee, and \<open>dapp_history\<close> any number of
  them over time.
\<close>

section \<open>State\<close>

record domain =
  dm_owner :: address
  dm_pubKey :: bytes
  dm_expiry :: "64 word"
  dm_generation :: "64 word"

datatype dapp_log =
    Committed hash32 nat
  | Registered hash32 string address bytes "64 word" "64 word" nat
  | Renewed hash32 "64 word" nat
  | Transferred hash32 address address bytes
  | Withdrawn address nat
  | RecordSet hash32 string hash32 string string "32 word"
  | RecordRemoved hash32 string hash32 string string

datatype dapp_error =
    InvalidDomainName | InvalidPubKey | NameUnavailable | DomainNotRegistered | DomainExpired | NotDomainOwner
  | InsufficientFee nat nat | NotTreasurer | ZeroAddress | RefundFailed | WithdrawFailed | UnknownRecordType
  | MissingMandatoryField string | FieldArrayMismatch | TooManyFields | FieldValueTooLong | FieldNameTooLong
  | SelectorTooLong | InvalidTTL | RecordNotFound | CommitmentNotFound | CommitmentTooNew | CommitmentTooOld
  | RegistryReverted registry_error | NotPayable | SolPanic

record dapp =
  nd_domains :: "hash32 \<Rightarrow> domain"
  nd_records :: "hash32 \<Rightarrow> hash32 \<Rightarrow> dapp_record"
  nd_recordKeys :: "hash32 \<Rightarrow> 64 word \<Rightarrow> hash32 list"
  nd_recordKeyIndex :: "hash32 \<Rightarrow> 64 word \<Rightarrow> hash32 \<Rightarrow> nat"
  nd_commitments :: "hash32 \<Rightarrow> nat"
  nd_balance :: nat
  nd_logs :: "dapp_log list"

record dapp_env =
  basePrice :: nat
  treasurer :: address

type_synonym dapp_callee = "address \<Rightarrow> nat \<Rightarrow> dapp \<Rightarrow> dapp option"

definition REGISTRATION_PERIOD :: nat where "REGISTRATION_PERIOD = 365 * 24 * 60 * 60"
definition MIN_COMMITMENT_AGE :: nat where "MIN_COMMITMENT_AGE = 30"
definition MAX_COMMITMENT_AGE :: nat where "MAX_COMMITMENT_AGE = 24 * 60 * 60"
definition MAX_RECORD_FIELDS :: nat where "MAX_RECORD_FIELDS = 16"
definition MAX_FIELD_NAME_LENGTH :: nat where "MAX_FIELD_NAME_LENGTH = 64"
definition MAX_FIELD_VALUE_LENGTH :: nat where "MAX_FIELD_VALUE_LENGTH = 1024"
definition MAX_SELECTOR_LENGTH :: nat where "MAX_SELECTOR_LENGTH = 256"

text \<open>The zero values of storage.\<close>

definition zero_domain :: domain where
  "zero_domain = \<lparr>dm_owner = zero_address, dm_pubKey = [], dm_expiry = 0, dm_generation = 0\<rparr>"

definition zero_record :: dapp_record where
  "zero_record =
     \<lparr>bRecordType = [], bSelector = [], bFieldNames = [], bFieldValues = [], bTtl = 0, bGeneration = 0, bOwnerSig = [],
      bCommitment = zero_hash, bExists = False\<rparr>"

definition dapp_constructor :: "nat \<Rightarrow> address \<Rightarrow> dapp_env \<times> dapp" where
  "dapp_constructor price sender =
     (\<lparr>basePrice = price, treasurer = sender\<rparr>,
      \<lparr>nd_domains = (\<lambda>_. zero_domain), nd_records = (\<lambda>_ _. zero_record), nd_recordKeys = (\<lambda>_ _. []),
       nd_recordKeyIndex = (\<lambda>_ _ _. 0), nd_commitments = (\<lambda>_. 0), nd_balance = 0, nd_logs = []\<rparr>)"

definition emit :: "dapp_log \<Rightarrow> dapp \<Rightarrow> dapp" where
  "emit l s = s\<lparr>nd_logs := nd_logs s @ [l]\<rparr>"

section \<open>Views\<close>

definition name_hash :: "sol_lib \<Rightarrow> string \<Rightarrow> hash32" where
  "name_hash L name = keccak256 L (str_bytes name)"

definition priceOf :: "dapp_env \<Rightarrow> string \<Rightarrow> dapp_error + nat" where
  "priceOf E name =
     (let len = length name
      in if len = 0 \<or> len > 63 then Inl InvalidDomainName
         else if len = 1 then u256_mul SolPanic (basePrice E) 16
         else if len = 2 then u256_mul SolPanic (basePrice E) 8
         else if len = 3 then u256_mul SolPanic (basePrice E) 4
         else if len = 4 then u256_mul SolPanic (basePrice E) 2
         else Inr (basePrice E))"

text \<open>The condition that several functions test: never owned, or expired.\<close>

definition inactive :: "nat \<Rightarrow> domain \<Rightarrow> bool" where
  "inactive now d \<longleftrightarrow> dm_owner d = zero_address \<or> now > unat (dm_expiry d)"

definition available :: "sol_lib \<Rightarrow> nat \<Rightarrow> dapp \<Rightarrow> string \<Rightarrow> bool" where
  "available L now s name = inactive now (nd_domains s (name_hash L name))"

definition ownerOf :: "sol_lib \<Rightarrow> nat \<Rightarrow> dapp \<Rightarrow> string \<Rightarrow> address" where
  "ownerOf L now s name =
     (let d = nd_domains s (name_hash L name) in if inactive now d then zero_address else dm_owner d)"

definition getDomain :: "sol_lib \<Rightarrow> dapp \<Rightarrow> string \<Rightarrow> address \<times> bytes \<times> 64 word \<times> 64 word" where
  "getDomain L s name =
     (let d = nd_domains s (name_hash L name) in (dm_owner d, dm_pubKey d, dm_expiry d, dm_generation d))"

definition recordKeyOf :: "sol_lib \<Rightarrow> string \<Rightarrow> string \<Rightarrow> hash32" where
  "recordKeyOf L recordType selector =
     keccak256 L (keccak256 L (str_bytes recordType) @ keccak256 L (str_bytes selector))"

definition lookup_record :: "sol_lib \<Rightarrow> nat \<Rightarrow> dapp \<Rightarrow> string \<Rightarrow> string \<Rightarrow> string \<Rightarrow> dapp_record" where
  "lookup_record L now s name recordType selector =
     (let h = name_hash L name; d = nd_domains s h
      in if inactive now d then zero_record
         else (let r = nd_records s h (recordKeyOf L recordType selector)
               in if \<not> bExists r \<or> bGeneration r \<noteq> dm_generation d then zero_record else r))"

definition resolve :: "sol_lib \<Rightarrow> nat \<Rightarrow> dapp \<Rightarrow> string \<Rightarrow> string \<Rightarrow> string \<Rightarrow> dapp_record \<times> address \<times> bytes" where
  "resolve L now s name recordType selector =
     (let record' = lookup_record L now s name recordType selector; d = nd_domains s (name_hash L name)
      in if \<not> inactive now d then (record', dm_owner d, dm_pubKey d) else (record', zero_address, []))"

definition listRecords :: "sol_lib \<Rightarrow> nat \<Rightarrow> dapp \<Rightarrow> string \<Rightarrow> dapp_record list" where
  "listRecords L now s name =
     (let h = name_hash L name; d = nd_domains s h
      in if inactive now d then []
         else filter (\<lambda>r. bExists r \<and> bGeneration r = dm_generation d)
                (map (nd_records s h) (nd_recordKeys s h (dm_generation d))))"

section \<open>Mutations\<close>

definition makeCommitment :: "sol_lib \<Rightarrow> string \<Rightarrow> address \<Rightarrow> bytes \<Rightarrow> hash32 \<Rightarrow> hash32" where
  "makeCommitment L name owner pubKey secret =
     keccak256 L (abi_encode_commitment (str_bytes name) owner pubKey secret)"

definition commit :: "sol_msg \<Rightarrow> hash32 \<Rightarrow> dapp \<Rightarrow> dapp_error + dapp" where
  "commit m commitment s =
     Inr (emit (Committed commitment (block_timestamp m))
            (s\<lparr>nd_commitments := (nd_commitments s)(commitment := block_timestamp m)\<rparr>))"

text \<open>A call with value: \<open>ok\<close> is false when the balance is too small or the recipient fails.\<close>

definition send_value :: "dapp_callee \<Rightarrow> address \<Rightarrow> nat \<Rightarrow> dapp \<Rightarrow> dapp option" where
  "send_value callee recipient amount s =
     (if amount > nd_balance s then None else callee recipient amount (s\<lparr>nd_balance := nd_balance s - amount\<rparr>))"

definition refundExcess :: "dapp_callee \<Rightarrow> sol_msg \<Rightarrow> nat \<Rightarrow> dapp \<Rightarrow> dapp_error + dapp" where
  "refundExcess callee m price s =
     rbind (u256_sub SolPanic (msg_value m) price) (\<lambda>excess.
       if excess > 0
       then (case send_value callee (msg_sender m) excess s of None \<Rightarrow> Inl RefundFailed | Some s \<Rightarrow> Inr s)
       else Inr s)"

text \<open>The checks of \<open>register\<close> on the commitment: neither missing nor too new nor too old.\<close>

definition check_commitment :: "nat \<Rightarrow> nat \<Rightarrow> dapp_error + unit" where
  "check_commitment now committedAt =
     (if committedAt = 0 then Inl CommitmentNotFound
      else
        rbind (u256_add SolPanic committedAt MIN_COMMITMENT_AGE) (\<lambda>earliest.
          if now < earliest then Inl CommitmentTooNew
          else
            rbind (u256_add SolPanic committedAt MAX_COMMITMENT_AGE) (\<lambda>latest.
              if now > latest then Inl CommitmentTooOld else Inr ())))"

text \<open>\<open>register\<close> up to the refund; the price is what the refund needs.\<close>

definition register_update ::
  "sol_lib \<Rightarrow> dapp_env \<Rightarrow> sol_msg \<Rightarrow> string \<Rightarrow> bytes \<Rightarrow> hash32 \<Rightarrow> dapp \<Rightarrow> dapp_error + nat \<times> dapp" where
  "register_update L E m name pubKey secret s =
     (if \<not> contract_validateName name then Inl InvalidDomainName
      else if length pubKey = 0 \<or> length pubKey > 128 then Inl InvalidPubKey
      else
        (let commitment = makeCommitment L name (msg_sender m) pubKey secret
         in rbind (check_commitment (block_timestamp m) (nd_commitments s commitment)) (\<lambda>_.
              let s = s\<lparr>nd_commitments := (nd_commitments s)(commitment := 0)\<rparr>; h = name_hash L name; d = nd_domains s h
              in if dm_owner d \<noteq> zero_address \<and> block_timestamp m \<le> unat (dm_expiry d) then Inl NameUnavailable
                 else
                   rbind (priceOf E name) (\<lambda>price.
                     if msg_value m < price then Inl (InsufficientFee price (msg_value m))
                     else
                       rbind (u256_add SolPanic (block_timestamp m) REGISTRATION_PERIOD) (\<lambda>until.
                         let d = \<lparr>dm_owner = msg_sender m, dm_pubKey = pubKey, dm_expiry = word_of_nat until,
                                  dm_generation = dm_generation d + 1\<rparr>
                         in Inr (price,
                              emit (Registered h name (msg_sender m) pubKey (dm_expiry d) (dm_generation d) price)
                                (s\<lparr>nd_domains := (nd_domains s)(h := d)\<rparr>)))))))"

definition register ::
  "sol_lib \<Rightarrow> dapp_env \<Rightarrow> dapp_callee \<Rightarrow> sol_msg \<Rightarrow> string \<Rightarrow> bytes \<Rightarrow> hash32 \<Rightarrow> dapp \<Rightarrow> dapp_error + dapp" where
  "register L E callee m name pubKey secret s =
     rbind (register_update L E m name pubKey secret s) (\<lambda>(price, s). refundExcess callee m price s)"

definition renew_update :: "sol_lib \<Rightarrow> dapp_env \<Rightarrow> sol_msg \<Rightarrow> string \<Rightarrow> dapp \<Rightarrow> dapp_error + nat \<times> dapp" where
  "renew_update L E m name s =
     (let h = name_hash L name; d = nd_domains s h
      in if dm_owner d = zero_address then Inl DomainNotRegistered
         else if block_timestamp m > unat (dm_expiry d) then Inl DomainExpired
         else
           rbind (priceOf E name) (\<lambda>price.
             if msg_value m < price then Inl (InsufficientFee price (msg_value m))
             else
               rbind (u256_add SolPanic (unat (dm_expiry d)) REGISTRATION_PERIOD) (\<lambda>until.
                 let d = d\<lparr>dm_expiry := word_of_nat until\<rparr>
                 in Inr (price, emit (Renewed h (dm_expiry d) price) (s\<lparr>nd_domains := (nd_domains s)(h := d)\<rparr>)))))"

definition renew :: "sol_lib \<Rightarrow> dapp_env \<Rightarrow> dapp_callee \<Rightarrow> sol_msg \<Rightarrow> string \<Rightarrow> dapp \<Rightarrow> dapp_error + dapp" where
  "renew L E callee m name s =
     rbind (renew_update L E m name s) (\<lambda>(price, s). refundExcess callee m price s)"

text \<open>The guard that \<open>transfer\<close>, \<open>setRecord\<close> and \<open>removeRecord\<close> share: an active domain, called by its owner.\<close>

definition require_owner :: "sol_msg \<Rightarrow> domain \<Rightarrow> dapp_error + unit" where
  "require_owner m d =
     (if dm_owner d = zero_address then Inl DomainNotRegistered
      else if block_timestamp m > unat (dm_expiry d) then Inl DomainExpired
      else if msg_sender m \<noteq> dm_owner d then Inl NotDomainOwner
      else Inr ())"

definition transfer :: "sol_lib \<Rightarrow> sol_msg \<Rightarrow> string \<Rightarrow> address \<Rightarrow> bytes \<Rightarrow> dapp \<Rightarrow> dapp_error + dapp" where
  "transfer L m name newOwner newPubKey s =
     (if newOwner = zero_address then Inl ZeroAddress
      else if length newPubKey = 0 \<or> length newPubKey > 128 then Inl InvalidPubKey
      else
        (let h = name_hash L name; d = nd_domains s h
         in rbind (require_owner m d) (\<lambda>_.
              let d' = d\<lparr>dm_owner := newOwner, dm_pubKey := newPubKey, dm_generation := dm_generation d + 1\<rparr>
              in Inr (emit (Transferred h (dm_owner d) newOwner newPubKey) (s\<lparr>nd_domains := (nd_domains s)(h := d')\<rparr>)))))"

definition withdraw :: "dapp_env \<Rightarrow> dapp_callee \<Rightarrow> sol_msg \<Rightarrow> address \<Rightarrow> dapp \<Rightarrow> dapp_error + dapp" where
  "withdraw E callee m recipient s =
     (if msg_sender m \<noteq> treasurer E then Inl NotTreasurer
      else if recipient = zero_address then Inl ZeroAddress
      else
        (let amount = nd_balance s
         in (case send_value callee recipient amount (emit (Withdrawn recipient amount) s) of
               None \<Rightarrow> Inl WithdrawFailed
             | Some s \<Rightarrow> Inr s)))"

section \<open>The record store\<close>

text \<open>The loop over the fields: the name of a field is looked at before its value.\<close>

fun check_fields :: "string list \<Rightarrow> string list \<Rightarrow> dapp_error + unit" where
  "check_fields (n # ns) (v # vs) =
     (if length n > MAX_FIELD_NAME_LENGTH then Inl FieldNameTooLong
      else if length v > MAX_FIELD_VALUE_LENGTH then Inl FieldValueTooLong
      else check_fields ns vs)"
| "check_fields _ _ = Inr ()"

fun check_mandatory :: "sol_lib \<Rightarrow> string list \<Rightarrow> string list \<Rightarrow> dapp_error + unit" where
  "check_mandatory L [] fieldNames = Inr ()"
| "check_mandatory L (w # ws) fieldNames =
     (if list_ex (\<lambda>n. keccak256 L (str_bytes n) = keccak256 L (str_bytes w)) fieldNames
      then check_mandatory L ws fieldNames else Inl (MissingMandatoryField w))"

definition checkMandatoryFields :: "sol_lib \<Rightarrow> registry \<Rightarrow> hash32 \<Rightarrow> string list \<Rightarrow> dapp_error + unit" where
  "checkMandatoryFields L reg typeHash fieldNames =
     (case mandatoryFields reg typeHash of
        Inl e \<Rightarrow> Inl (RegistryReverted e)
      | Inr mandatory \<Rightarrow> check_mandatory L mandatory fieldNames)"

text \<open>The checks of \<open>setRecord\<close> after those on the owner.\<close>

definition check_record ::
  "sol_lib \<Rightarrow> registry \<Rightarrow> string \<Rightarrow> string \<Rightarrow> string list \<Rightarrow> string list \<Rightarrow> 32 word \<Rightarrow> dapp_error + unit" where
  "check_record L reg recordType selector fieldNames fieldValues ttl =
     (if length fieldNames \<noteq> length fieldValues then Inl FieldArrayMismatch
      else if length fieldNames > MAX_RECORD_FIELDS then Inl TooManyFields
      else if length selector > MAX_SELECTOR_LENGTH then Inl SelectorTooLong
      else if ttl = 0 then Inl InvalidTTL
      else
        rbind (check_fields fieldNames fieldValues) (\<lambda>_.
          if \<not> typeExists L reg recordType then Inl UnknownRecordType
          else checkMandatoryFields L reg (keccak256 L (str_bytes recordType)) fieldNames))"

text \<open>The key is appended to the list of the generation unless it has an index there.\<close>

definition push_key :: "hash32 \<Rightarrow> 64 word \<Rightarrow> hash32 \<Rightarrow> dapp \<Rightarrow> dapp" where
  "push_key h g key s =
     (if nd_recordKeyIndex s h g key = 0
      then (let keys = nd_recordKeys s h g @ [key]
            in s\<lparr>nd_recordKeys := (nd_recordKeys s)(h := (nd_recordKeys s h)(g := keys)),
                 nd_recordKeyIndex := (nd_recordKeyIndex s)(h := (nd_recordKeyIndex s h)(g := (nd_recordKeyIndex s h g)(key := length keys)))\<rparr>)
      else s)"

definition setRecord ::
  "sol_lib \<Rightarrow> registry \<Rightarrow> sol_msg \<Rightarrow> string \<Rightarrow> string \<Rightarrow> string \<Rightarrow> string list \<Rightarrow> string list \<Rightarrow> 32 word \<Rightarrow> bytes \<Rightarrow> hash32 \<Rightarrow>
   dapp \<Rightarrow> dapp_error + dapp" where
  "setRecord L reg m name recordType selector fieldNames fieldValues ttl ownerSig commitment s =
     (let h = name_hash L name; d = nd_domains s h
      in rbind (require_owner m d) (\<lambda>_.
         rbind (check_record L reg recordType selector fieldNames fieldValues ttl) (\<lambda>_.
           let key = recordKeyOf L recordType selector;
               r = \<lparr>bRecordType = recordType, bSelector = selector, bFieldNames = fieldNames, bFieldValues = fieldValues, bTtl = ttl,
                    bGeneration = dm_generation d, bOwnerSig = ownerSig, bCommitment = commitment, bExists = True\<rparr>
           in Inr (emit (RecordSet h name key recordType selector ttl)
                (push_key h (dm_generation d) key
                   (s\<lparr>nd_records := (nd_records s)(h := (nd_records s h)(key := r))\<rparr>))))))"

text \<open>Swap with the last key and pop; an index out of range and a subtraction below zero are panics.\<close>

definition swap_remove :: "hash32 \<Rightarrow> hash32 list \<Rightarrow> (hash32 \<Rightarrow> nat) \<Rightarrow> dapp_error + hash32 list \<times> (hash32 \<Rightarrow> nat)" where
  "swap_remove key keys index =
     (let idxPlus1 = index key
      in rbind (u256_sub SolPanic (length keys) 1) (\<lambda>lastIdx.
         rbind (u256_sub SolPanic idxPlus1 1) (\<lambda>i.
         rbind (if i = lastIdx then Inr (keys, index)
                else if i \<ge> length keys then Inl SolPanic
                else (let moved = keys ! lastIdx in Inr (keys[i := moved], index(moved := idxPlus1)))) (\<lambda>(keys, index).
           Inr (butlast keys, index(key := 0))))))"

definition removeRecord :: "sol_lib \<Rightarrow> sol_msg \<Rightarrow> string \<Rightarrow> string \<Rightarrow> string \<Rightarrow> dapp \<Rightarrow> dapp_error + dapp" where
  "removeRecord L m name recordType selector s =
     (let h = name_hash L name; d = nd_domains s h; g = dm_generation d
      in rbind (require_owner m d) (\<lambda>_.
           let key = recordKeyOf L recordType selector; r = nd_records s h key
           in if \<not> bExists r \<or> bGeneration r \<noteq> g then Inl RecordNotFound
              else
                rbind (swap_remove key (nd_recordKeys s h g) (nd_recordKeyIndex s h g)) (\<lambda>(keys, index).
                  Inr (emit (RecordRemoved h name key recordType selector)
                    (s\<lparr>nd_records := (nd_records s)(h := (nd_records s h)(key := zero_record)),
                       nd_recordKeys := (nd_recordKeys s)(h := (nd_recordKeys s h)(g := keys)),
                       nd_recordKeyIndex := (nd_recordKeyIndex s)(h := (nd_recordKeyIndex s h)(g := index))\<rparr>)))))"

section \<open>Calls and histories\<close>

datatype dapp_call =
    CallCommit hash32
  | CallRegister string bytes hash32
  | CallRenew string
  | CallTransfer string address bytes
  | CallWithdraw address
  | CallSetRecord string string string "string list" "string list" "32 word" bytes hash32
  | CallRemoveRecord string string string

definition payable :: "dapp_call \<Rightarrow> bool" where
  "payable c = (case c of CallRegister _ _ _ \<Rightarrow> True | CallRenew _ \<Rightarrow> True | _ \<Rightarrow> False)"

definition dapp_exec ::
  "sol_lib \<Rightarrow> dapp_env \<Rightarrow> registry \<Rightarrow> dapp_callee \<Rightarrow> sol_msg \<Rightarrow> dapp_call \<Rightarrow> dapp \<Rightarrow> dapp_error + dapp" where
  "dapp_exec L E reg callee m c s =
     (if msg_value m > 0 \<and> \<not> payable c then Inl NotPayable
      else
        (let s = s\<lparr>nd_balance := nd_balance s + msg_value m\<rparr>
         in case c of
              CallCommit h \<Rightarrow> commit m h s
            | CallRegister name pubKey secret \<Rightarrow> register L E callee m name pubKey secret s
            | CallRenew name \<Rightarrow> renew L E callee m name s
            | CallTransfer name newOwner newPubKey \<Rightarrow> transfer L m name newOwner newPubKey s
            | CallWithdraw recipient \<Rightarrow> withdraw E callee m recipient s
            | CallSetRecord name t sel ns vs ttl sg com \<Rightarrow> setRecord L reg m name t sel ns vs ttl sg com s
            | CallRemoveRecord name t sel \<Rightarrow> removeRecord L m name t sel s))"

text \<open>Calls at one block time by the accounts \<open>A\<close>. What a callee does to the contract is itself a run of calls.\<close>

inductive dapp_runs :: "sol_lib \<Rightarrow> dapp_env \<Rightarrow> address set \<Rightarrow> nat \<Rightarrow> dapp \<Rightarrow> dapp \<Rightarrow> bool" for L E A now where
  runs_refl: "dapp_runs L E A now s s"
| runs_call: "dapp_runs L E A now s s1 \<Longrightarrow> block_timestamp m = now \<Longrightarrow> msg_sender m \<in> A \<Longrightarrow>
    dapp_exec L E reg callee m c s1 = Inr s2 \<Longrightarrow>
    (\<And>a v t t'. callee a v t = Some t' \<Longrightarrow> dapp_runs L E A now t t') \<Longrightarrow> dapp_runs L E A now s s2"

text \<open>Time passes between blocks.\<close>

inductive dapp_history :: "sol_lib \<Rightarrow> dapp_env \<Rightarrow> address set \<Rightarrow> nat \<Rightarrow> dapp \<Rightarrow> nat \<Rightarrow> dapp \<Rightarrow> bool" for L E A t s where
  history_refl: "dapp_history L E A t s t s"
| history_block: "dapp_history L E A t s t1 s1 \<Longrightarrow> t1 \<le> t2 \<Longrightarrow> dapp_runs L E A t2 s1 s2 \<Longrightarrow> dapp_history L E A t s t2 s2"

section \<open>Calls as updates\<close>

text \<open>What a call has done to the storage before ether leaves the contract.\<close>

definition dapp_update ::
  "sol_lib \<Rightarrow> dapp_env \<Rightarrow> registry \<Rightarrow> sol_msg \<Rightarrow> dapp_call \<Rightarrow> dapp \<Rightarrow> dapp_error + dapp" where
  "dapp_update L E reg m c s =
     (case c of
        CallCommit h \<Rightarrow> commit m h s
      | CallRegister name pubKey secret \<Rightarrow> rbind (register_update L E m name pubKey secret s) (\<lambda>(price, s). Inr s)
      | CallRenew name \<Rightarrow> rbind (renew_update L E m name s) (\<lambda>(price, s). Inr s)
      | CallTransfer name newOwner newPubKey \<Rightarrow> transfer L m name newOwner newPubKey s
      | CallWithdraw recipient \<Rightarrow> Inr (emit (Withdrawn recipient (nd_balance s)) s)
      | CallSetRecord name t sel ns vs ttl sg com \<Rightarrow> setRecord L reg m name t sel ns vs ttl sg com s
      | CallRemoveRecord name t sel \<Rightarrow> removeRecord L m name t sel s)"

lemma refundExcess_Inr:
  assumes "refundExcess callee m price s = Inr s'"
  shows "s' = s \<or> (\<exists>a v b. callee a v (s\<lparr>nd_balance := b\<rparr>) = Some s')"
  using assms by (auto simp: refundExcess_def rbind_eq_Inr send_value_def split: if_splits option.splits)

text \<open>Every entry point changes the storage first and sends ether last.\<close>

lemma dapp_exec_Inr:
  assumes "dapp_exec L E reg callee m c s = Inr s'"
  obtains s1 where "dapp_update L E reg m c (s\<lparr>nd_balance := nd_balance s + msg_value m\<rparr>) = Inr s1"
    "s' = s1 \<or> (\<exists>a v b. callee a v (s1\<lparr>nd_balance := b\<rparr>) = Some s')"
proof -
  let ?s = "s\<lparr>nd_balance := nd_balance s + msg_value m\<rparr>"
  have "\<exists>s1. dapp_update L E reg m c ?s = Inr s1 \<and>
      (s' = s1 \<or> (\<exists>a v b. callee a v (s1\<lparr>nd_balance := b\<rparr>) = Some s'))"
  proof (cases c)
    case (CallRegister n k sec)
    then obtain p s1 where "register_update L E m n k sec ?s = Inr (p, s1)" "refundExcess callee m p s1 = Inr s'"
      using assms by (auto simp: dapp_exec_def payable_def register_def rbind_eq_Inr)
    with CallRegister refundExcess_Inr show ?thesis by (fastforce simp: dapp_update_def)
  next
    case (CallRenew n)
    then obtain p s1 where "renew_update L E m n ?s = Inr (p, s1)" "refundExcess callee m p s1 = Inr s'"
      using assms by (auto simp: dapp_exec_def payable_def renew_def rbind_eq_Inr)
    with CallRenew refundExcess_Inr show ?thesis by (fastforce simp: dapp_update_def)
  next
    case (CallWithdraw r)
    then show ?thesis using assms
      by (auto simp: dapp_exec_def payable_def dapp_update_def withdraw_def send_value_def Let_def split: if_splits option.splits)
  qed (use assms in \<open>auto simp: dapp_exec_def payable_def dapp_update_def Let_def split: if_splits\<close>)
  then show thesis using that by blast
qed

text \<open>
  A relation between storages that every update establishes, that does not look at the balance and that can be chained, holds
  between the ends of every run, whatever the callees do: the contract is safe against re-entrance.
\<close>

locale dapp_relation =
  fixes L :: sol_lib and E :: dapp_env and A :: "address set" and now :: nat and P :: "dapp \<Rightarrow> dapp \<Rightarrow> bool"
  assumes rel_balance: "P s (s\<lparr>nd_balance := b\<rparr>)"
    and rel_trans: "P s s1 \<Longrightarrow> P s1 s2 \<Longrightarrow> P s s2"
    and rel_update: "block_timestamp m = now \<Longrightarrow> msg_sender m \<in> A \<Longrightarrow> dapp_update L E reg m c s = Inr s1 \<Longrightarrow> P s s1"
begin

lemma rel_refl: "P s s"
  using rel_balance [of s "nd_balance s"] by simp

lemma rel_runs: "dapp_runs L E A now s s' \<Longrightarrow> P s s'"
proof (induction rule: dapp_runs.induct)
  case (runs_call s s1 m reg callee c s2)
  obtain u where u: "dapp_update L E reg m c (s1\<lparr>nd_balance := nd_balance s1 + msg_value m\<rparr>) = Inr u"
    "s2 = u \<or> (\<exists>a v b. callee a v (u\<lparr>nd_balance := b\<rparr>) = Some s2)"
    using dapp_exec_Inr [OF runs_call.hyps(4)] by blast
  have 1: "P s1 u" by (rule rel_trans [OF rel_balance rel_update [OF runs_call.hyps(2,3) u(1)]])
  have 2: "P u s2"
    using u(2)
  proof
    assume "\<exists>a v b. callee a v (u\<lparr>nd_balance := b\<rparr>) = Some s2"
    then obtain a v b where "callee a v (u\<lparr>nd_balance := b\<rparr>) = Some s2" by blast
    then show "P u s2" by (rule rel_trans [OF rel_balance runs_call.IH(2)])
  qed (simp add: rel_refl)
  show ?case by (rule rel_trans [OF runs_call.IH(1) rel_trans [OF 1 2]])
qed (rule rel_refl)

end

end
