(* ===== verification/Namespace_Laws.thy ===== *)
theory Namespace_Laws
  imports Namespace_Contract
begin

text \<open>
  What the namespace contract guarantees, over every history of calls and with every re-entrance: its key lists describe the
  live records exactly, only the owner changes what an active name resolves to, a name is registered only by a commitment that
  was published in time, and what changes without one of the events the resolver watches is the expiry of names.
\<close>

section \<open>What the entry points do\<close>

lemma require_owner_Inr [simp]:
  "require_owner m d = Inr u \<longleftrightarrow> \<not> inactive (block_timestamp m) d \<and> msg_sender m = dm_owner d"
  by (auto simp: require_owner_def inactive_def)

lemma check_commitment_Inr:
  "check_commitment now c = Inr u \<longleftrightarrow> c \<noteq> 0 \<and> c + 30 \<le> now \<and> now \<le> c + 86400 \<and> c + 86400 < 2 ^ 256"
  by (auto simp: check_commitment_def rbind_eq_Inr MIN_COMMITMENT_AGE_def MAX_COMMITMENT_AGE_def u256_add_def split: if_splits)

lemma register_update_Inr:
  assumes "register_update L E m name pubKey secret s = Inr (price, s')"
  defines "h \<equiv> name_hash L name" and "c \<equiv> makeCommitment L name (msg_sender m) pubKey secret"
  shows "contract_validateName name" "check_commitment (block_timestamp m) (nd_commitments s c) = Inr ()"
    "inactive (block_timestamp m) (nd_domains s h)" "priceOf E name = Inr price" "price \<le> msg_value m"
    "s' = emit (Registered h name (msg_sender m) pubKey (word_of_nat (block_timestamp m + REGISTRATION_PERIOD))
                  (dm_generation (nd_domains s h) + 1) price)
       (s\<lparr>nd_commitments := (nd_commitments s)(c := 0),
          nd_domains := (nd_domains s)(h := \<lparr>dm_owner = msg_sender m, dm_pubKey = pubKey,
            dm_expiry = word_of_nat (block_timestamp m + REGISTRATION_PERIOD), dm_generation = dm_generation (nd_domains s h) + 1\<rparr>)\<rparr>)"
  using assms
  by (auto simp: register_update_def Let_def rbind_eq_Inr inactive_def h_def c_def simp del: One_nat_def split: if_splits)

lemma renew_update_Inr:
  assumes "renew_update L E m name s = Inr (price, s')"
  defines "h \<equiv> name_hash L name" and "e \<equiv> word_of_nat (unat (dm_expiry (nd_domains s (name_hash L name))) + REGISTRATION_PERIOD)"
  shows "\<not> inactive (block_timestamp m) (nd_domains s h)"
    "s' = emit (Renewed h e price) (s\<lparr>nd_domains := (nd_domains s)(h := (nd_domains s h)\<lparr>dm_expiry := e\<rparr>)\<rparr>)"
  using assms by (auto simp: renew_update_def Let_def rbind_eq_Inr inactive_def h_def e_def split: if_splits)

lemma transfer_Inr:
  assumes "transfer L m name newOwner newPubKey s = Inr s'"
  defines "h \<equiv> name_hash L name"
  shows "\<not> inactive (block_timestamp m) (nd_domains s h)" "msg_sender m = dm_owner (nd_domains s h)" "newOwner \<noteq> zero_address"
    "s' = emit (Transferred h (dm_owner (nd_domains s h)) newOwner newPubKey)
       (s\<lparr>nd_domains := (nd_domains s)(h := (nd_domains s h)\<lparr>dm_owner := newOwner, dm_pubKey := newPubKey,
            dm_generation := dm_generation (nd_domains s h) + 1\<rparr>)\<rparr>)"
  using assms by (auto simp: transfer_def Let_def rbind_eq_Inr h_def split: if_splits)

definition record_of ::
  "string \<Rightarrow> string \<Rightarrow> string list \<Rightarrow> string list \<Rightarrow> 32 word \<Rightarrow> 64 word \<Rightarrow> bytes \<Rightarrow> hash32 \<Rightarrow> dapp_record" where
  "record_of t sel ns vs ttl g sg com =
     \<lparr>bRecordType = t, bSelector = sel, bFieldNames = ns, bFieldValues = vs, bTtl = ttl, bGeneration = g, bOwnerSig = sg,
      bCommitment = com, bExists = True\<rparr>"

lemma record_of_simps [simp]:
  "bExists (record_of t sel ns vs ttl g sg com)" "bGeneration (record_of t sel ns vs ttl g sg com) = g"
  "bRecordType (record_of t sel ns vs ttl g sg com) = t" "bSelector (record_of t sel ns vs ttl g sg com) = sel"
  "bFieldNames (record_of t sel ns vs ttl g sg com) = ns" "bFieldValues (record_of t sel ns vs ttl g sg com) = vs"
  "bTtl (record_of t sel ns vs ttl g sg com) = ttl"
  by (simp_all add: record_of_def)

lemma setRecord_Inr:
  assumes "setRecord L reg m name t sel ns vs ttl sg com s = Inr s'"
  defines "h \<equiv> name_hash L name" and "k \<equiv> recordKeyOf L t sel" and "g \<equiv> dm_generation (nd_domains s (name_hash L name))"
  shows "\<not> inactive (block_timestamp m) (nd_domains s h)" "msg_sender m = dm_owner (nd_domains s h)"
    "check_record L reg t sel ns vs ttl = Inr ()"
    "s' = emit (RecordSet h name k t sel ttl)
       (push_key h g k (s\<lparr>nd_records := (nd_records s)(h := (nd_records s h)(k := record_of t sel ns vs ttl g sg com))\<rparr>))"
  using assms by (auto simp: setRecord_def Let_def rbind_eq_Inr h_def k_def g_def record_of_def split: if_splits)

lemma removeRecord_Inr:
  assumes "removeRecord L m name t sel s = Inr s'"
  defines "h \<equiv> name_hash L name" and "k \<equiv> recordKeyOf L t sel" and "g \<equiv> dm_generation (nd_domains s (name_hash L name))"
  obtains keys index where "\<not> inactive (block_timestamp m) (nd_domains s h)" "msg_sender m = dm_owner (nd_domains s h)"
    "bExists (nd_records s h k)" "bGeneration (nd_records s h k) = g"
    "swap_remove k (nd_recordKeys s h g) (nd_recordKeyIndex s h g) = Inr (keys, index)"
    "s' = emit (RecordRemoved h name k t sel)
       (s\<lparr>nd_records := (nd_records s)(h := (nd_records s h)(k := zero_record)),
          nd_recordKeys := (nd_recordKeys s)(h := (nd_recordKeys s h)(g := keys)),
          nd_recordKeyIndex := (nd_recordKeyIndex s)(h := (nd_recordKeyIndex s h)(g := index))\<rparr>)"
  using assms by (auto simp: removeRecord_def Let_def rbind_eq_Inr split: if_splits)

lemma emit_simps [simp]:
  "nd_domains (emit l s) = nd_domains s" "nd_records (emit l s) = nd_records s" "nd_recordKeys (emit l s) = nd_recordKeys s"
  "nd_recordKeyIndex (emit l s) = nd_recordKeyIndex s" "nd_commitments (emit l s) = nd_commitments s"
  "nd_logs (emit l s) = nd_logs s @ [l]" "nd_balance (emit l s) = nd_balance s"
  by (simp_all add: emit_def)

lemma push_key_simps [simp]:
  "nd_domains (push_key h g k s) = nd_domains s" "nd_records (push_key h g k s) = nd_records s"
  "nd_commitments (push_key h g k s) = nd_commitments s" "nd_logs (push_key h g k s) = nd_logs s"
  by (simp_all add: push_key_def Let_def)

text \<open>The cases of an update, with the equations above.\<close>

lemma dapp_update_cases [consumes 1, case_names Commit Register Renew Transfer Withdraw SetRecord RemoveRecord]:
  assumes "dapp_update L E reg m c s = Inr s'"
    and "\<And>h. c = CallCommit h \<Longrightarrow> commit m h s = Inr s' \<Longrightarrow> P"
    and "\<And>n k sec price. c = CallRegister n k sec \<Longrightarrow> register_update L E m n k sec s = Inr (price, s') \<Longrightarrow> P"
    and "\<And>n price. c = CallRenew n \<Longrightarrow> renew_update L E m n s = Inr (price, s') \<Longrightarrow> P"
    and "\<And>n a k. c = CallTransfer n a k \<Longrightarrow> transfer L m n a k s = Inr s' \<Longrightarrow> P"
    and "\<And>a. c = CallWithdraw a \<Longrightarrow> s' = emit (Withdrawn a (nd_balance s)) s \<Longrightarrow> P"
    and "\<And>n t sel ns vs ttl sg com. c = CallSetRecord n t sel ns vs ttl sg com \<Longrightarrow>
      setRecord L reg m n t sel ns vs ttl sg com s = Inr s' \<Longrightarrow> P"
    and "\<And>n t sel. c = CallRemoveRecord n t sel \<Longrightarrow> removeRecord L m n t sel s = Inr s' \<Longrightarrow> P"
  shows P
  using assms by (cases c) (auto simp: dapp_update_def rbind_eq_Inr)

section \<open>Silent changes\<close>

text \<open>The name (by its hash) of a log that the resolver watches.\<close>

definition log_name :: "dapp_log \<Rightarrow> hash32 option" where
  "log_name l =
     (case l of
        Registered h _ _ _ _ _ _ \<Rightarrow> Some h | Transferred h _ _ _ \<Rightarrow> Some h
      | RecordSet h _ _ _ _ _ \<Rightarrow> Some h | RecordRemoved h _ _ _ _ \<Rightarrow> Some h
      | _ \<Rightarrow> None)"

text \<open>What may happen to a domain without such a log: an active one is renewed.\<close>

definition quiet_domain :: "nat \<Rightarrow> domain \<Rightarrow> domain \<Rightarrow> bool" where
  "quiet_domain now d d' \<longleftrightarrow> d' = d \<or> \<not> inactive now d \<and> (\<exists>e. d' = d\<lparr>dm_expiry := e\<rparr>)"

definition quiet_change :: "nat \<Rightarrow> dapp \<Rightarrow> dapp \<Rightarrow> bool" where
  "quiet_change now s s' \<longleftrightarrow>
     (\<exists>new. nd_logs s' = nd_logs s @ new \<and>
        (\<forall>h. (\<forall>l \<in> set new. log_name l \<noteq> Some h) \<longrightarrow>
           quiet_domain now (nd_domains s h) (nd_domains s' h) \<and> nd_records s' h = nd_records s h))"

lemma quiet_domain_trans: "quiet_domain now d d1 \<Longrightarrow> quiet_domain now d1 d2 \<Longrightarrow> quiet_domain now d d2"
  by (auto simp: quiet_domain_def)

lemma quiet_change_trans:
  assumes "quiet_change now s s1" "quiet_change now s1 s2" shows "quiet_change now s s2"
proof -
  obtain a b where "nd_logs s1 = nd_logs s @ a" "nd_logs s2 = nd_logs s1 @ b"
    "\<And>h. \<forall>l \<in> set a. log_name l \<noteq> Some h \<Longrightarrow>
       quiet_domain now (nd_domains s h) (nd_domains s1 h) \<and> nd_records s1 h = nd_records s h"
    "\<And>h. \<forall>l \<in> set b. log_name l \<noteq> Some h \<Longrightarrow>
       quiet_domain now (nd_domains s1 h) (nd_domains s2 h) \<and> nd_records s2 h = nd_records s1 h"
    using assms unfolding quiet_change_def by blast
  then show ?thesis unfolding quiet_change_def by (intro exI [of _ "a @ b"]) (auto intro: quiet_domain_trans)
qed

lemma quiet_change_update:
  assumes "dapp_update L E reg m c s = Inr s'" and "block_timestamp m = now"
  shows "quiet_change now s s'"
  using assms(1)
proof (cases rule: dapp_update_cases)
  case (Commit h)
  then show ?thesis by (auto simp: commit_def quiet_change_def quiet_domain_def)
next
  case (Register n k sec price)
  then show ?thesis by (auto simp: register_update_Inr(6) [OF Register(2)] quiet_change_def quiet_domain_def log_name_def)
next
  case (Renew n price)
  then show ?thesis using renew_update_Inr(1) [OF Renew(2)] assms(2)
    by (auto simp: renew_update_Inr(2) [OF Renew(2)] quiet_change_def quiet_domain_def)
next
  case (Transfer n a k)
  then show ?thesis by (auto simp: transfer_Inr(4) [OF Transfer(2)] quiet_change_def quiet_domain_def log_name_def)
next
  case (Withdraw a)
  then show ?thesis by (auto simp: quiet_change_def quiet_domain_def)
next
  case (SetRecord n t sel ns vs ttl sg com)
  then show ?thesis by (auto simp: setRecord_Inr(4) [OF SetRecord(2)] quiet_change_def quiet_domain_def log_name_def)
next
  case (RemoveRecord n t sel)
  show ?thesis by (rule removeRecord_Inr [OF RemoveRecord(2)]) (auto simp: quiet_change_def quiet_domain_def log_name_def)
qed

interpretation quiet: dapp_relation L E A now "quiet_change now" for L E A now
proof
  show "quiet_change now s (s\<lparr>nd_balance := b\<rparr>)" for s b by (auto simp: quiet_change_def quiet_domain_def)
qed (auto intro: quiet_change_trans quiet_change_update)

lemma inactive_mono: "inactive t d \<Longrightarrow> t \<le> t' \<Longrightarrow> inactive t' d"
  by (auto simp: inactive_def)

text \<open>Over time: the domain is the same up to its expiry, and a domain that was inactive at the start is unchanged.\<close>

definition quiet_since :: "nat \<Rightarrow> domain \<Rightarrow> domain \<Rightarrow> bool" where
  "quiet_since t d d' \<longleftrightarrow> (\<exists>e. d' = d\<lparr>dm_expiry := e\<rparr>) \<and> (inactive t d \<longrightarrow> d' = d)"

lemma quiet_since_step:
  assumes "quiet_since t d d1" "quiet_domain t2 d1 d2" "t \<le> t2" shows "quiet_since t d d2"
  using assms inactive_mono [of t d t2] by (auto simp: quiet_since_def quiet_domain_def)

lemma quiet_since_refl: "quiet_since t d d"
  unfolding quiet_since_def by (intro conjI exI [of _ "dm_expiry d"]) simp_all

lemma history_quiet:
  assumes "dapp_history L E A t s t' s'"
  shows "t \<le> t' \<and> (\<exists>new. nd_logs s' = nd_logs s @ new \<and>
    (\<forall>h. (\<forall>l \<in> set new. log_name l \<noteq> Some h) \<longrightarrow>
       quiet_since t (nd_domains s h) (nd_domains s' h) \<and> nd_records s' h = nd_records s h))"
  using assms
proof (induction rule: dapp_history.induct)
  case (history_block t1 s1 t2 s2)
  obtain new where new: "nd_logs s1 = nd_logs s @ new" "\<And>h. \<forall>l \<in> set new. log_name l \<noteq> Some h \<Longrightarrow>
      quiet_since t (nd_domains s h) (nd_domains s1 h) \<and> nd_records s1 h = nd_records s h"
    using history_block.IH by blast
  obtain b where b: "nd_logs s2 = nd_logs s1 @ b" "\<And>h. \<forall>l \<in> set b. log_name l \<noteq> Some h \<Longrightarrow>
      quiet_domain t2 (nd_domains s1 h) (nd_domains s2 h) \<and> nd_records s2 h = nd_records s1 h"
    using quiet.rel_runs [OF history_block.hyps(3)] unfolding quiet_change_def by blast
  have le: "t \<le> t2" using history_block by linarith
  have "quiet_since t (nd_domains s h) (nd_domains s2 h) \<and> nd_records s2 h = nd_records s h"
    if "\<forall>l \<in> set (new @ b). log_name l \<noteq> Some h" for h
    using new(2) [of h] b(2) [of h] quiet_since_step [OF _ _ le] that by (metis Un_iff set_append)
  then show ?case using le new(1) b(1) by (intro conjI exI [of _ "new @ b"]) simp_all
qed (auto simp: quiet_since_refl)

lemma resolve_inactive: "inactive t (nd_domains s (name_hash L name)) \<Longrightarrow> resolve L t s name ty sel = (zero_record, zero_address, [])"
  by (simp add: resolve_def lookup_record_def Let_def)

lemma resolve_quiet:
  assumes "quiet_since t (nd_domains s h) (nd_domains s' h)" "nd_records s' h = nd_records s h" "t \<le> t'" "h = name_hash L name"
  shows "resolve L t' s' name ty sel = resolve L t s name ty sel \<or> inactive t' (nd_domains s' h)"
proof (cases "inactive t (nd_domains s h)")
  case True
  then show ?thesis using assms(1,3) inactive_mono [of t "nd_domains s h" t'] by (simp add: quiet_since_def)
next
  case False
  from assms(1) obtain e where "nd_domains s' h = (nd_domains s h)\<lparr>dm_expiry := e\<rparr>" by (auto simp: quiet_since_def)
  then have "dm_owner (nd_domains s' h) = dm_owner (nd_domains s h)" "dm_pubKey (nd_domains s' h) = dm_pubKey (nd_domains s h)"
    "dm_generation (nd_domains s' h) = dm_generation (nd_domains s h)" by simp_all
  then show ?thesis using False assms(2) unfolding assms(4)
    by (cases "inactive t' (nd_domains s' (name_hash L name))") (simp_all add: resolve_def lookup_record_def Let_def)
qed

section \<open>The record store\<close>

text \<open>\<open>_recordKeyIndex\<close> has the position (counted from one) of every key of the list and nothing else.\<close>

definition index_ok :: "hash32 list \<Rightarrow> (hash32 \<Rightarrow> nat) \<Rightarrow> bool" where
  "index_ok ks index \<longleftrightarrow> (\<forall>k. index k \<noteq> 0 \<longrightarrow> k \<in> set ks) \<and> (\<forall>i < length ks. index (ks ! i) = Suc i)"

definition record_wf :: "sol_lib \<Rightarrow> hash32 \<Rightarrow> dapp_record \<Rightarrow> bool" where
  "record_wf L k r \<longleftrightarrow>
     k = recordKeyOf L (bRecordType r) (bSelector r) \<and> length (bFieldNames r) = length (bFieldValues r) \<and>
     length (bFieldNames r) \<le> 16 \<and> length (bSelector r) \<le> 256 \<and> bTtl r \<noteq> 0"

definition dapp_inv :: "sol_lib \<Rightarrow> dapp \<Rightarrow> bool" where
  "dapp_inv L s \<longleftrightarrow>
     (\<forall>h g. index_ok (nd_recordKeys s h g) (nd_recordKeyIndex s h g)) \<and>
     (\<forall>h k. bExists (nd_records s h k) \<longrightarrow>
        k \<in> set (nd_recordKeys s h (bGeneration (nd_records s h k))) \<and> record_wf L k (nd_records s h k))"

lemma index_ok_distinct: "index_ok ks index \<Longrightarrow> distinct ks"
  unfolding index_ok_def distinct_conv_nth by (metis Suc_inject)

lemma index_ok_push: "index_ok ks index \<Longrightarrow> index k = 0 \<Longrightarrow> index_ok (ks @ [k]) (index(k := Suc (length ks)))"
  unfolding index_ok_def by (auto simp: nth_append less_Suc_eq)

lemma index_ok_member: "index_ok ks index \<Longrightarrow> k \<in> set ks \<longleftrightarrow> index k \<noteq> 0"
  unfolding index_ok_def by (metis in_set_conv_nth nat.simps(3))

text \<open>The last element moved into the place of another one.\<close>

lemma set_swapped_butlast:
  assumes "distinct ks" and n: "length ks = Suc n" and i: "i < n"
  shows "set (butlast (ks[i := ks ! n])) = set ks - {ks ! i}"
proof -
  obtain xs x where ks: "ks = xs @ [x]" "length xs = n" using n by (metis length_Suc_conv_rev)
  have "set (xs[i := x]) = insert x (set xs - {xs ! i})"
    using set_update_distinct [of xs i x] assms(1) i ks by simp
  with assms(1) i ks show ?thesis by (auto simp: nth_append butlast_append list_update_append)
qed

text \<open>Removing a key that is in the list: no panic, the rest of the list up to order, and an exact index again.\<close>

lemma swap_remove_ok:
  assumes ok: "index_ok ks index" and k: "k \<in> set ks"
  shows "\<exists>ks' index'. swap_remove k ks index = Inr (ks', index') \<and> index_ok ks' index' \<and> set ks' = set ks - {k}"
proof -
  obtain i where i: "i < length ks" "ks ! i = k" using k by (metis in_set_conv_nth)
  have ik: "index k = Suc i" using ok i by (auto simp: index_ok_def)
  have d: "distinct ks" by (rule index_ok_distinct [OF ok])
  define n where "n = length ks - 1"
  have n: "length ks = Suc n" using i by (simp add: n_def)
  show ?thesis
  proof (cases "i = n")
    case True
    then have "ks = butlast ks @ [k]" using i n by (metis append_butlast_last_id last_conv_nth list.size(3) n_def nat.simps(3))
    then obtain xs where xs: "ks = xs @ [k]" by blast
    have "swap_remove k ks index = Inr (xs, index(k := 0))"
      using ik True xs n by (simp add: swap_remove_def u256_sub_def)
    moreover have "index_ok xs (index(k := 0))"
      using ok d unfolding index_ok_def xs by (auto simp: nth_append less_Suc_eq)
    ultimately show ?thesis using xs d by auto
  next
    case False
    then have lt: "i < n" using i n by simp
    define x where "x = ks ! n"
    have xk: "x \<noteq> k" using d i n lt by (auto simp: x_def nth_eq_iff_index_eq)
    define zs where "zs = butlast (ks[i := x])"
    have lz: "length zs = n" using n by (simp add: zs_def)
    have nz: "zs ! j = (if j = i then x else ks ! j)" if "j < n" for j
      using that lt n by (simp add: zs_def nth_butlast)
    have r: "swap_remove k ks index = Inr (zs, index(x := Suc i, k := 0))"
      using ik False n lt by (simp add: swap_remove_def u256_sub_def x_def zs_def Let_def)
    have sz: "set zs = set ks - {k}" using set_swapped_butlast [OF d n lt] i(2) by (simp add: zs_def x_def)
    have "index_ok zs (index(x := Suc i, k := 0))"
      unfolding index_ok_def
    proof (intro conjI allI impI)
      fix y assume "(index(x := Suc i, k := 0)) y \<noteq> 0"
      then show "y \<in> set zs" using ok n unfolding sz by (auto simp: index_ok_def x_def split: if_splits)
    next
      fix j assume j: "j < length zs"
      then have "zs ! j \<noteq> k" using sz by (metis Diff_iff insertI1 nth_mem)
      moreover have "zs ! j = x \<longleftrightarrow> j = i"
        using nz [of j] j lz d n by (auto simp: x_def nth_eq_iff_index_eq)
      moreover have "index (ks ! j) = Suc j" using ok j lz n by (simp add: index_ok_def)
      ultimately show "(index(x := Suc i, k := 0)) (zs ! j) = Suc j" using nz [of j] j lz by auto
    qed
    then show ?thesis using r sz by blast
  qed
qed

lemma check_record_Inr:
  "check_record L reg t sel ns vs ttl = Inr u \<Longrightarrow>
   length ns = length vs \<and> length ns \<le> 16 \<and> length sel \<le> 256 \<and> ttl \<noteq> 0 \<and> typeExists L reg t"
  by (auto simp: check_record_def rbind_eq_Inr MAX_RECORD_FIELDS_def MAX_SELECTOR_LENGTH_def split: if_splits)

lemma push_key_keys:
  assumes "index_ok (nd_recordKeys s h g) (nd_recordKeyIndex s h g)"
  shows "index_ok (nd_recordKeys (push_key h g k s) h g) (nd_recordKeyIndex (push_key h g k s) h g)"
    "set (nd_recordKeys (push_key h g k s) h g) = insert k (set (nd_recordKeys s h g))"
    "\<And>h' g'. (h', g') \<noteq> (h, g) \<Longrightarrow> nd_recordKeys (push_key h g k s) h' g' = nd_recordKeys s h' g' \<and>
       nd_recordKeyIndex (push_key h g k s) h' g' = nd_recordKeyIndex s h' g'"
  using index_ok_push [OF assms, of k] index_ok_member [OF assms, of k] assms by (auto simp: push_key_def Let_def)

lemma dapp_inv_setRecord:
  assumes inv: "dapp_inv L s" and r: "setRecord L reg m name t sel ns vs ttl sg com s = Inr s'"
  shows "dapp_inv L s'"
proof -
  define h k g where d: "h = name_hash L name" "k = recordKeyOf L t sel" "g = dm_generation (nd_domains s h)"
  define s1 where "s1 = s\<lparr>nd_records := (nd_records s)(h := (nd_records s h)(k := record_of t sel ns vs ttl g sg com))\<rparr>"
  note s' = setRecord_Inr(4) [OF r, folded d(1), folded d(2,3), folded s1_def]
  note wf = check_record_Inr [OF setRecord_Inr(3) [OF r]]
  have ix: "index_ok (nd_recordKeys s1 h' g') (nd_recordKeyIndex s1 h' g')" for h' g'
    using inv by (simp add: dapp_inv_def s1_def)
  note pk = push_key_keys [OF ix [of h g], where k = k]
  have keys: "set (nd_recordKeys s h' g') \<subseteq> set (nd_recordKeys s' h' g')" for h' g'
    using pk(2) pk(3) [of h' g'] by (cases "(h', g') = (h, g)") (auto simp: s' s1_def)
  have "index_ok (nd_recordKeys s' h' g') (nd_recordKeyIndex s' h' g')" for h' g'
    using pk(1) pk(3) [of h' g'] ix [of h' g'] by (cases "(h', g') = (h, g)") (auto simp: s')
  moreover have "k' \<in> set (nd_recordKeys s' h' (bGeneration (nd_records s' h' k'))) \<and> record_wf L k' (nd_records s' h' k')"
    if "bExists (nd_records s' h' k')" for h' k'
  proof (cases "h' = h \<and> k' = k")
    case True
    then show ?thesis using pk(2) wf by (simp add: s' s1_def record_wf_def d(2))
  next
    case False
    then have "nd_records s' h' k' = nd_records s h' k'" by (auto simp: s' s1_def)
    then show ?thesis using that inv keys unfolding dapp_inv_def by (metis subsetD)
  qed
  ultimately show ?thesis by (simp add: dapp_inv_def)
qed

lemma dapp_inv_removeRecord:
  assumes inv: "dapp_inv L s" and r: "removeRecord L m name t sel s = Inr s'"
  shows "dapp_inv L s'"
proof -
  define h k g where d: "h = name_hash L name" "k = recordKeyOf L t sel" "g = dm_generation (nd_domains s h)"
  obtain ks index where ex: "bExists (nd_records s h k)" "bGeneration (nd_records s h k) = g"
    and sr: "swap_remove k (nd_recordKeys s h g) (nd_recordKeyIndex s h g) = Inr (ks, index)"
    and s': "s' = emit (RecordRemoved h name k t sel)
       (s\<lparr>nd_records := (nd_records s)(h := (nd_records s h)(k := zero_record)),
          nd_recordKeys := (nd_recordKeys s)(h := (nd_recordKeys s h)(g := ks)),
          nd_recordKeyIndex := (nd_recordKeyIndex s)(h := (nd_recordKeyIndex s h)(g := index))\<rparr>)"
    by (rule removeRecord_Inr [OF r, folded d(1), folded d(2,3)])
  have ix: "index_ok (nd_recordKeys s h g) (nd_recordKeyIndex s h g)" and kin: "k \<in> set (nd_recordKeys s h g)"
    using inv ex unfolding dapp_inv_def by blast+
  have ks: "index_ok ks index" "set ks = set (nd_recordKeys s h g) - {k}"
    using swap_remove_ok [OF ix kin] sr by auto
  have "index_ok (nd_recordKeys s' h' g') (nd_recordKeyIndex s' h' g')" for h' g'
    using ks(1) inv by (simp add: s' dapp_inv_def)
  moreover have "k' \<in> set (nd_recordKeys s' h' (bGeneration (nd_records s' h' k'))) \<and> record_wf L k' (nd_records s' h' k')"
    if e: "bExists (nd_records s' h' k')" for h' k'
  proof -
    have ne: "h' = h \<Longrightarrow> k' \<noteq> k" using e by (auto simp: s' zero_record_def)
    then have r: "nd_records s' h' k' = nd_records s h' k'" by (auto simp: s')
    then have "k' \<in> set (nd_recordKeys s h' (bGeneration (nd_records s h' k'))) \<and> record_wf L k' (nd_records s h' k')"
      using inv e unfolding dapp_inv_def by metis
    then show ?thesis using ne ks(2) unfolding r by (auto simp: s')
  qed
  ultimately show ?thesis by (simp add: dapp_inv_def)
qed

lemma dapp_inv_same:
  assumes "dapp_inv L s" "nd_records s' = nd_records s" "nd_recordKeys s' = nd_recordKeys s" "nd_recordKeyIndex s' = nd_recordKeyIndex s"
  shows "dapp_inv L s'"
  using assms by (simp add: dapp_inv_def)

lemma dapp_inv_update:
  assumes "dapp_update L E reg m c s = Inr s'" and "dapp_inv L s"
  shows "dapp_inv L s'"
  using assms(1)
proof (cases rule: dapp_update_cases)
  case (Register n k sec price)
  show ?thesis by (rule dapp_inv_same [OF assms(2)]) (simp_all add: register_update_Inr(6) [OF Register(2)])
next
  case (Renew n price)
  show ?thesis by (rule dapp_inv_same [OF assms(2)]) (simp_all add: renew_update_Inr(2) [OF Renew(2)])
next
  case (Transfer n a k)
  show ?thesis by (rule dapp_inv_same [OF assms(2)]) (simp_all add: transfer_Inr(4) [OF Transfer(2)])
next
  case (SetRecord n t sel ns vs ttl sg com)
  then show ?thesis using dapp_inv_setRecord [OF assms(2)] by blast
next
  case (RemoveRecord n t sel)
  then show ?thesis using dapp_inv_removeRecord [OF assms(2)] by blast
next
  case (Commit h)
  then show ?thesis by (intro dapp_inv_same [OF assms(2)]) (auto simp: commit_def)
qed (rule dapp_inv_same [OF assms(2)], simp_all)

interpretation inv: dapp_relation L E A now "\<lambda>s s'. dapp_inv L s \<longrightarrow> dapp_inv L s'" for L E A now
proof
  show "dapp_inv L s \<longrightarrow> dapp_inv L (s\<lparr>nd_balance := b\<rparr>)" for s b by (simp add: dapp_inv_def)
qed (auto intro: dapp_inv_update)

lemma dapp_inv_constructor: "dapp_inv L (snd (dapp_constructor price sender))"
  by (simp add: dapp_inv_def dapp_constructor_def index_ok_def zero_record_def)

lemma dapp_inv_history: "dapp_history L E A t s t' s' \<Longrightarrow> dapp_inv L s \<Longrightarrow> dapp_inv L s'"
  by (induction rule: dapp_history.induct) (use inv.rel_runs in blast)+

section \<open>What the logs account for\<close>

text \<open>Every bump of a generation, every extension of an expiry and every commitment has a log.\<close>

definition logged :: "nat \<Rightarrow> dapp \<Rightarrow> bool" where
  "logged t s \<longleftrightarrow>
     (\<forall>h. unat (dm_generation (nd_domains s h)) \<le> length (nd_logs s)) \<and>
     (\<forall>h k. bExists (nd_records s h k) \<longrightarrow> unat (bGeneration (nd_records s h k)) \<le> unat (dm_generation (nd_domains s h))) \<and>
     (\<forall>h. unat (dm_expiry (nd_domains s h)) \<le> t + REGISTRATION_PERIOD * length (nd_logs s)) \<and>
     (\<forall>c. nd_commitments s c \<noteq> 0 \<longrightarrow> Committed c (nd_commitments s c) \<in> set (nd_logs s))"

text \<open>There were too few calls so far for a generation or an expiry to wrap around.\<close>

definition no_wrap :: "nat \<Rightarrow> dapp \<Rightarrow> bool" where
  "no_wrap t s \<longleftrightarrow> t + REGISTRATION_PERIOD * length (nd_logs s) < 2 ^ 64"

definition logged_step :: "nat \<Rightarrow> dapp \<Rightarrow> dapp \<Rightarrow> bool" where
  "logged_step now s s' \<longleftrightarrow>
     length (nd_logs s) \<le> length (nd_logs s') \<and> (no_wrap now s' \<longrightarrow> logged now s \<longrightarrow> logged now s')"

lemma no_wrap_mono: "no_wrap t' s' \<Longrightarrow> t \<le> t' \<Longrightarrow> length (nd_logs s) \<le> length (nd_logs s') \<Longrightarrow> no_wrap t s"
  unfolding no_wrap_def by (meson add_mono le_less_trans mult_le_mono2)

lemma no_wrap_logs: "no_wrap t s \<Longrightarrow> length (nd_logs s) < 2 ^ 64"
  by (simp add: no_wrap_def REGISTRATION_PERIOD_def)

lemma logged_mono: "logged t s \<Longrightarrow> t \<le> t' \<Longrightarrow> logged t' s"
  unfolding logged_def by (meson add_le_mono1 order_trans)

lemma unat_word_of_nat_le: "unat (word_of_nat n :: 'a::len word) \<le> n"
  by (simp add: unat_of_nat)

lemma unat_succ: "unat (w :: 64 word) + 1 < 2 ^ 64 \<Longrightarrow> unat (w + 1) = unat w + 1"
  by (simp add: unat_word_ariths)

text \<open>A call that bumps the generation of one name, and one that does not.\<close>

lemma logged_bump:
  assumes "logged now s" "no_wrap now s'" "nd_logs s' = nd_logs s @ [l]" "nd_records s' = nd_records s"
    "nd_domains s' = (nd_domains s)(h := d)" "dm_generation d = dm_generation (nd_domains s h) + 1"
    "unat (dm_expiry d) \<le> now + REGISTRATION_PERIOD * length (nd_logs s')" "\<forall>c. nd_commitments s' c \<in> {0, nd_commitments s c}"
  shows "logged now s'"
proof -
  have "unat (dm_generation (nd_domains s h)) + 1 < 2 ^ 64"
    using assms(1,3) no_wrap_logs [OF assms(2)] by (auto simp: logged_def intro: le_less_trans)
  then have u: "unat (dm_generation d) = unat (dm_generation (nd_domains s h)) + 1" using unat_succ assms(6) by metis
  have old: "unat (dm_expiry (nd_domains s x)) \<le> now + REGISTRATION_PERIOD * length (nd_logs s')" for x
  proof -
    have "unat (dm_expiry (nd_domains s x)) \<le> now + REGISTRATION_PERIOD * length (nd_logs s)" using assms(1) by (simp add: logged_def)
    then show ?thesis by (simp add: assms(3))
  qed
  have ex: "unat (dm_expiry (nd_domains s' x)) \<le> now + REGISTRATION_PERIOD * length (nd_logs s')" for x
    using old [of x] assms(5,7) by (cases "x = h") simp_all
  have "Committed c (nd_commitments s' c) \<in> set (nd_logs s')" if "nd_commitments s' c \<noteq> 0" for c
    using assms(1,3,8) that unfolding logged_def by (metis Un_iff insertE set_append singletonD)
  moreover have "unat (dm_generation (nd_domains s' x)) \<le> length (nd_logs s')" for x
    using assms(1,3,5) u unfolding logged_def by (cases "x = h") (auto intro: le_SucI)
  moreover have "unat (bGeneration (nd_records s' x k)) \<le> unat (dm_generation (nd_domains s' x))" if "bExists (nd_records s' x k)" for x k
    using assms(1,4,5) u that unfolding logged_def by (cases "x = h") (auto intro: le_SucI)
  ultimately show ?thesis using ex unfolding logged_def by blast
qed

lemma logged_same_generation:
  assumes "logged now s" "nd_logs s' = nd_logs s @ [l]"
    and "\<And>h. dm_generation (nd_domains s' h) = dm_generation (nd_domains s h)"
    and "\<And>h. unat (dm_expiry (nd_domains s' h)) \<le> unat (dm_expiry (nd_domains s h)) + REGISTRATION_PERIOD"
    and "\<And>h k. bExists (nd_records s' h k) \<Longrightarrow>
      nd_records s' h k = nd_records s h k \<or> bGeneration (nd_records s' h k) = dm_generation (nd_domains s h)"
    and "\<And>c. nd_commitments s' c = nd_commitments s c \<or> l = Committed c (nd_commitments s' c)"
  shows "logged now s'"
proof -
  have "unat (dm_expiry (nd_domains s' h)) \<le> now + REGISTRATION_PERIOD * length (nd_logs s')" for h
    using assms(1,2) assms(4) [of h] unfolding logged_def by (auto intro: order_trans [of _ "_ + REGISTRATION_PERIOD"])
  moreover have "Committed c (nd_commitments s' c) \<in> set (nd_logs s')" if "nd_commitments s' c \<noteq> 0" for c
    using assms(1,2) assms(6) [of c] that unfolding logged_def by auto
  moreover have "unat (bGeneration (nd_records s' h k)) \<le> unat (dm_generation (nd_domains s' h))" if "bExists (nd_records s' h k)" for h k
    using assms(1,3) assms(5) [OF that] that unfolding logged_def by (metis order_refl)
  ultimately show ?thesis using assms(1-3) unfolding logged_def by (auto simp: le_SucI)
qed

lemma logged_step_update:
  assumes u: "dapp_update L E reg m c s = Inr s'" and "block_timestamp m = now"
  shows "logged_step now s s'"
proof -
  have "length (nd_logs s) \<le> length (nd_logs s')"
    using quiet_change_update [OF assms] by (auto simp: quiet_change_def)
  moreover have "logged now s'" if w: "no_wrap now s'" and l: "logged now s"
    using u
  proof (cases rule: dapp_update_cases)
    case (Commit h)
    then show ?thesis using assms(2) by (intro logged_same_generation [OF l, of s' "Committed h now"]) (auto simp: commit_def split: if_splits)
  next
    case (Register n k sec price)
    note s' = register_update_Inr(6) [OF Register(2)]
    show ?thesis
      by (rule logged_bump [OF l w]) (simp_all add: s' assms(2) add.assoc [symmetric] del: of_nat_add,
        simp_all add: unat_word_of_nat_le trans_le_add1 del: of_nat_add)
  next
    case (Renew n price)
    note s' = renew_update_Inr(2) [OF Renew(2)]
    show ?thesis by (rule logged_same_generation [OF l]) (simp_all add: s' unat_word_of_nat_le del: of_nat_add)
  next
    case (Transfer n a k)
    note s' = transfer_Inr(4) [OF Transfer(2)]
    have "unat (dm_expiry (nd_domains s (name_hash L n))) \<le> now + REGISTRATION_PERIOD * length (nd_logs s)"
      using l by (simp add: logged_def)
    then show ?thesis by (intro logged_bump [OF l w]) (simp_all add: s', simp_all)
  next
    case (Withdraw a)
    then show ?thesis by (intro logged_same_generation [OF l]) simp_all
  next
    case (SetRecord n t sel ns vs ttl sg com)
    note s' = setRecord_Inr(4) [OF SetRecord(2)]
    show ?thesis by (rule logged_same_generation [OF l]) (auto simp: s')
  next
    case (RemoveRecord n t sel)
    show ?thesis
      by (rule removeRecord_Inr [OF RemoveRecord(2)], rule logged_same_generation [OF l]) (auto simp: zero_record_def split: if_splits)
  qed
  ultimately show ?thesis by (simp add: logged_step_def)
qed

interpretation logged: dapp_relation L E A now "logged_step now" for L E A now
proof
  show "logged_step now s (s\<lparr>nd_balance := b\<rparr>)" for s b by (simp add: logged_step_def logged_def)
  show "logged_step now s s1 \<Longrightarrow> logged_step now s1 s2 \<Longrightarrow> logged_step now s s2" for s s1 s2
    unfolding logged_step_def using no_wrap_mono [of now s2 now s1] by auto
qed (auto intro: logged_step_update)

lemma logged_history:
  assumes "dapp_history L E A t s t' s'" and "no_wrap t' s'" and "logged t s"
  shows "logged t' s'"
proof -
  have "length (nd_logs s) \<le> length (nd_logs s') \<and> (no_wrap t' s' \<longrightarrow> logged t' s')"
    using assms(1)
  proof (induction rule: dapp_history.induct)
    case (history_block t1 s1 t2 s2)
    then show ?case
      using logged.rel_runs [OF history_block.hyps(3)] no_wrap_mono [of t2 s2 t1 s1] logged_mono [of t1 s1 t2]
      by (auto simp: logged_step_def)
  qed (simp add: assms(3))
  then show ?thesis using assms(2) by blast
qed

lemma logged_constructor: "logged t (snd (dapp_constructor price sender))"
  by (simp add: logged_def dapp_constructor_def zero_domain_def zero_record_def)

section \<open>What others cannot change\<close>

text \<open>As seen by the owner of an active name who makes no call: the expiry may grow, everything else stays.\<close>

definition untouched :: "hash32 \<Rightarrow> dapp \<Rightarrow> dapp \<Rightarrow> bool" where
  "untouched h s s' \<longleftrightarrow>
     (\<exists>e. nd_domains s' h = (nd_domains s h)\<lparr>dm_expiry := e\<rparr> \<and> unat (dm_expiry (nd_domains s h)) \<le> unat e) \<and>
     nd_records s' h = nd_records s h"

definition owner_safe :: "address set \<Rightarrow> hash32 \<Rightarrow> nat \<Rightarrow> dapp \<Rightarrow> dapp \<Rightarrow> bool" where
  "owner_safe A h now s s' \<longleftrightarrow>
     logged_step now s s' \<and>
     (no_wrap now s' \<longrightarrow> logged now s \<longrightarrow> \<not> inactive now (nd_domains s h) \<longrightarrow> dm_owner (nd_domains s h) \<notin> A \<longrightarrow> untouched h s s')"

lemma untouched_refl:
  "nd_domains s' h = nd_domains s h \<Longrightarrow> nd_records s' h = nd_records s h \<Longrightarrow> untouched h s s'"
  unfolding untouched_def by (intro conjI exI [of _ "dm_expiry (nd_domains s h)"]) simp_all

lemma untouched_trans: "untouched h s s1 \<Longrightarrow> untouched h s1 s2 \<Longrightarrow> untouched h s s2"
  unfolding untouched_def by fastforce

lemma untouched_active: "untouched h s s' \<Longrightarrow> t \<le> unat (dm_expiry (nd_domains s h)) \<Longrightarrow> \<not> inactive t (nd_domains s h) \<Longrightarrow>
   \<not> inactive t (nd_domains s' h) \<and> dm_owner (nd_domains s' h) = dm_owner (nd_domains s h)"
  by (auto simp: untouched_def inactive_def)

lemma owner_safe_update:
  assumes u: "dapp_update L E reg m c s = Inr s'" and m: "block_timestamp m = now" "msg_sender m \<in> A"
  shows "owner_safe A h now s s'"
  unfolding owner_safe_def
proof (intro conjI impI)
  show "logged_step now s s'" using logged_step_update [OF u m(1)] .
  assume w: "no_wrap now s'" and l: "logged now s" and act: "\<not> inactive now (nd_domains s h)"
    and o: "dm_owner (nd_domains s h) \<notin> A"
  have ne: "name_hash L n \<noteq> h" if "msg_sender m = dm_owner (nd_domains s (name_hash L n))" for n
    using that o m(2) by metis
  from u show "untouched h s s'"
  proof (cases rule: dapp_update_cases)
    case (Renew n price)
    note s' = renew_update_Inr(2) [OF Renew(2)]
    let ?e = "unat (dm_expiry (nd_domains s h)) + REGISTRATION_PERIOD"
    have "unat (dm_expiry (nd_domains s h)) \<le> now + REGISTRATION_PERIOD * length (nd_logs s)" using l by (simp add: logged_def)
    then have "?e < 2 ^ 64" using w by (simp add: no_wrap_def s')
    then have e: "unat (word_of_nat ?e :: 64 word) = ?e" by (simp only: unat_of_nat) simp
    show ?thesis
    proof (cases "name_hash L n = h")
      case True
      then show ?thesis unfolding untouched_def
        by (intro conjI exI [of _ "word_of_nat ?e"]) (use e in \<open>simp_all add: s' del: of_nat_add\<close>)
    qed (simp add: s' untouched_refl)
  next
    case (Register n k sec price)
    have "name_hash L n \<noteq> h" using register_update_Inr(3) [OF Register(2)] act m(1) by metis
    then show ?thesis by (simp add: register_update_Inr(6) [OF Register(2)] untouched_refl)
  next
    case (Transfer n a k)
    show ?thesis using ne [OF transfer_Inr(2) [OF Transfer(2)]] by (simp add: transfer_Inr(4) [OF Transfer(2)] untouched_refl)
  next
    case (SetRecord n t sel ns vs ttl sg com)
    show ?thesis using ne [OF setRecord_Inr(2) [OF SetRecord(2)]] by (simp add: setRecord_Inr(4) [OF SetRecord(2)] untouched_refl)
  next
    case (RemoveRecord n t sel)
    show ?thesis by (rule removeRecord_Inr [OF RemoveRecord(2)]) (use ne [of n] in \<open>simp add: untouched_refl\<close>)
  next
    case (Commit x)
    then show ?thesis by (auto simp: commit_def intro: untouched_refl)
  next
    case (Withdraw a)
    then show ?thesis by (simp add: untouched_refl)
  qed
qed

interpretation safe: dapp_relation L E A now "owner_safe A h now" for L E A now h
proof
  show "owner_safe A h now s (s\<lparr>nd_balance := b\<rparr>)" for s b
    by (auto simp: owner_safe_def logged.rel_balance intro: untouched_refl)
  fix s s1 s2 assume a: "owner_safe A h now s s1" "owner_safe A h now s1 s2"
  show "owner_safe A h now s s2"
    unfolding owner_safe_def
  proof (intro conjI impI)
    show "logged_step now s s2" using a logged.rel_trans by (auto simp: owner_safe_def)
    assume w: "no_wrap now s2" and l: "logged now s" and act: "\<not> inactive now (nd_domains s h)"
      and o: "dm_owner (nd_domains s h) \<notin> A"
    have w1: "no_wrap now s1" using no_wrap_mono [OF w] a(2) by (auto simp: owner_safe_def logged_step_def)
    have u: "untouched h s s1" using a(1) w1 l act o by (auto simp: owner_safe_def)
    have "logged now s1" using a(1) w1 l by (auto simp: owner_safe_def logged_step_def)
    moreover have "\<not> inactive now (nd_domains s1 h) \<and> dm_owner (nd_domains s1 h) = dm_owner (nd_domains s h)"
      using untouched_active [OF u _ act] act by (auto simp: inactive_def)
    ultimately have "untouched h s1 s2" using a(2) w o by (auto simp: owner_safe_def)
    then show "untouched h s s2" by (rule untouched_trans [OF u])
  qed
qed (rule owner_safe_update)

lemma owner_safe_history:
  assumes "dapp_history L E A t s t' s'" and "no_wrap t' s'" and "logged t s" and "\<not> inactive t (nd_domains s h)"
    and "dm_owner (nd_domains s h) \<notin> A" and "t' \<le> unat (dm_expiry (nd_domains s h))"
  shows "untouched h s s'"
  using assms(1,2,6)
proof (induction rule: dapp_history.induct)
  case (history_block t1 s1 t2 s2)
  have step: "owner_safe A h t2 s1 s2" using safe.rel_runs [OF history_block.hyps(3)] .
  then have len: "length (nd_logs s1) \<le> length (nd_logs s2)" by (simp add: owner_safe_def logged_step_def)
  have w1: "no_wrap t1 s1" using no_wrap_mono [OF history_block.prems(1) history_block.hyps(2) len] .
  have u: "untouched h s s1" using history_block.IH [OF w1] history_block.hyps(2) history_block.prems(2) by simp
  have l: "logged t2 s1"
    using logged_mono [OF logged_history [OF history_block.hyps(1) w1 assms(3)] history_block.hyps(2)] .
  have "\<not> inactive t2 (nd_domains s h)" using assms(4) history_block.prems(2) by (simp add: inactive_def)
  then have "\<not> inactive t2 (nd_domains s1 h) \<and> dm_owner (nd_domains s1 h) = dm_owner (nd_domains s h)"
    using untouched_active [OF u history_block.prems(2)] by blast
  then have "untouched h s1 s2" using step l history_block.prems(1) assms(5) by (simp add: owner_safe_def)
  then show ?case by (rule untouched_trans [OF u])
qed (simp add: untouched_refl)

lemma resolve_untouched:
  assumes "untouched (name_hash L name) s s'" and "\<not> inactive t (nd_domains s (name_hash L name))"
    and "t \<le> t'" and "t' \<le> unat (dm_expiry (nd_domains s (name_hash L name)))"
  shows "resolve L t' s' name ty sel = resolve L t s name ty sel"
proof -
  from assms(1) obtain e where e: "nd_domains s' (name_hash L name) = (nd_domains s (name_hash L name))\<lparr>dm_expiry := e\<rparr>"
    "unat (dm_expiry (nd_domains s (name_hash L name))) \<le> unat e" by (auto simp: untouched_def)
  have "\<not> inactive t' (nd_domains s' (name_hash L name))" using assms e by (auto simp: inactive_def)
  then show ?thesis using assms(1,2) e(1) by (simp add: resolve_def lookup_record_def Let_def untouched_def)
qed

section \<open>Listing\<close>

lemma not_bExists_zero [simp]: "\<not> bExists zero_record"
  by (simp add: zero_record_def)

lemma listRecords_exact:
  assumes "dapp_inv L s"
  shows "set (listRecords L t s name) = {r. bExists r \<and> (\<exists>ty sel. r = lookup_record L t s name ty sel)}"
    "distinct (listRecords L t s name)"
proof -
  define h g where d: "h = name_hash L name" "g = dm_generation (nd_domains s h)"
  define live where "live = (\<lambda>k. bExists (nd_records s h k) \<and> bGeneration (nd_records s h k) = g)"
  have ks: "k \<in> set (nd_recordKeys s h g)" "k = recordKeyOf L (bRecordType (nd_records s h k)) (bSelector (nd_records s h k))"
    if "live k" for k
    using that assms by (auto simp: live_def dapp_inv_def record_wf_def)
  have dk: "distinct (nd_recordKeys s h g)" using assms index_ok_distinct by (auto simp: dapp_inv_def)
  have l: "listRecords L t s name =
      (if inactive t (nd_domains s h) then [] else map (nd_records s h) (filter live (nd_recordKeys s h g)))"
    by (simp add: listRecords_def Let_def d live_def filter_map o_def)
  have lk: "lookup_record L t s name ty sel =
      (if inactive t (nd_domains s h) \<or> \<not> live (recordKeyOf L ty sel) then zero_record else nd_records s h (recordKeyOf L ty sel))" for ty sel
    by (simp add: lookup_record_def Let_def d live_def)
  show "set (listRecords L t s name) = {r. bExists r \<and> (\<exists>ty sel. r = lookup_record L t s name ty sel)}"
  proof (rule set_eqI)
    fix r
    show "r \<in> set (listRecords L t s name) \<longleftrightarrow> r \<in> {r. bExists r \<and> (\<exists>ty sel. r = lookup_record L t s name ty sel)}"
    proof (cases "inactive t (nd_domains s h)")
      case True
      then show ?thesis by (auto simp: l lk)
    next
      case False
      show ?thesis
      proof
        assume "r \<in> set (listRecords L t s name)"
        then obtain k where k: "live k" "r = nd_records s h k" using False by (auto simp: l)
        then have "r = lookup_record L t s name (bRecordType r) (bSelector r)" using ks(2) [OF k(1)] False by (simp add: lk)
        then show "r \<in> {r. bExists r \<and> (\<exists>ty sel. r = lookup_record L t s name ty sel)}" using k by (auto simp: live_def)
      next
        assume "r \<in> {r. bExists r \<and> (\<exists>ty sel. r = lookup_record L t s name ty sel)}"
        then obtain ty sel where "live (recordKeyOf L ty sel)" "r = nd_records s h (recordKeyOf L ty sel)"
          by (auto simp: lk split: if_splits)
        then show "r \<in> set (listRecords L t s name)" using False ks(1) by (auto simp: l)
      qed
    qed
  qed
  have "inj_on (nd_records s h) {k. live k}" by (rule inj_onI) (metis ks(2) mem_Collect_eq)
  then have "inj_on (nd_records s h) (set (filter live (nd_recordKeys s h g)))" by (rule inj_on_subset) auto
  then show "distinct (listRecords L t s name)" using dk by (simp add: l distinct_map)
qed

text \<open>In a consistent store a removal does not panic.\<close>

lemma removeRecord_no_panic:
  assumes "dapp_inv L s" shows "removeRecord L m name ty sel s \<noteq> Inl SolPanic"
proof
  define h k g where d: "h = name_hash L name" "k = recordKeyOf L ty sel" "g = dm_generation (nd_domains s h)"
  assume a: "removeRecord L m name ty sel s = Inl SolPanic"
  then have ex: "bExists (nd_records s h k)" "bGeneration (nd_records s h k) = g"
    and sr: "swap_remove k (nd_recordKeys s h g) (nd_recordKeyIndex s h g) = Inl SolPanic"
    by (auto simp: removeRecord_def Let_def rbind_eq_Inl require_owner_def d split: if_splits)
  have "index_ok (nd_recordKeys s h g) (nd_recordKeyIndex s h g)" "k \<in> set (nd_recordKeys s h g)"
    using assms ex unfolding dapp_inv_def by blast+
  from swap_remove_ok [OF this] sr show False by auto
qed

lemma setRecord_no_panic:
  "setRecord L reg m name ty sel ns vs ttl sg com s \<noteq> Inl (RegistryReverted e)"
proof -
  have "check_mandatory L ms ns \<noteq> Inl (RegistryReverted e)" for ms by (induction ms) auto
  moreover have "check_fields ns vs \<noteq> Inl (RegistryReverted e)" by (induction ns vs rule: check_fields.induct) auto
  ultimately show ?thesis using deployed.mandatory_readable [of L reg ty]
    by (auto simp: setRecord_def Let_def rbind_eq_Inl require_owner_def check_record_def checkMandatoryFields_def split: if_splits sum.splits)
qed

section \<open>Where live records and commitments come from\<close>

definition live :: "dapp \<Rightarrow> hash32 \<Rightarrow> hash32 \<Rightarrow> bool" where
  "live s h k \<longleftrightarrow> bExists (nd_records s h k) \<and> bGeneration (nd_records s h k) = dm_generation (nd_domains s h)"

definition set_log :: "hash32 \<Rightarrow> hash32 \<Rightarrow> dapp_log \<Rightarrow> bool" where
  "set_log h k l \<longleftrightarrow> (\<exists>n t sel ttl. l = RecordSet h n k t sel ttl)"

text \<open>Without wrap-around a record becomes live only by \<open>setRecord\<close>.\<close>

definition live_step :: "nat \<Rightarrow> dapp \<Rightarrow> dapp \<Rightarrow> bool" where
  "live_step now s s' \<longleftrightarrow> logged_step now s s' \<and> (\<exists>new. nd_logs s' = nd_logs s @ new \<and>
     (no_wrap now s' \<longrightarrow> logged now s \<longrightarrow> (\<forall>h k. live s' h k \<longrightarrow> live s h k \<or> list_ex (set_log h k) new)))"

lemma bumped_not_live:
  assumes "logged t s" "length (nd_logs s) + 1 < 2 ^ 64" "nd_records s' = nd_records s"
    "dm_generation (nd_domains s' h) = dm_generation (nd_domains s h) + 1"
  shows "\<not> live s' h k"
proof -
  have "unat (dm_generation (nd_domains s h)) \<le> length (nd_logs s)" using assms(1) by (simp add: logged_def)
  then have "unat (dm_generation (nd_domains s h) + 1) = unat (dm_generation (nd_domains s h)) + 1"
    using assms(2) by (intro unat_succ) simp
  then show ?thesis
    using assms(1,3,4) unfolding logged_def live_def by (metis Suc_eq_plus1 not_less_eq_eq order_refl)
qed

lemma live_step_update:
  assumes u: "dapp_update L E reg m c s = Inr s'" and "block_timestamp m = now"
  shows "live_step now s s'"
proof -
  have len: "length (nd_logs s) + 1 < 2 ^ 64" if "no_wrap now s'" "nd_logs s' = nd_logs s @ [l]" for l
    using no_wrap_logs [OF that(1)] that(2) by simp
  have "\<exists>new. nd_logs s' = nd_logs s @ new \<and>
     (no_wrap now s' \<longrightarrow> logged now s \<longrightarrow> (\<forall>h k. live s' h k \<longrightarrow> live s h k \<or> list_ex (set_log h k) new))"
    using u
  proof (cases rule: dapp_update_cases)
    case (Register n k sec price)
    note s' = register_update_Inr(6) [OF Register(2)]
    have "live s h x" if "no_wrap now s'" "logged now s" "live s' h x" for h x
      using bumped_not_live [OF that(2) len [OF that(1)], of _ s' "name_hash L n" x] that(3)
      by (cases "h = name_hash L n") (simp_all add: s', simp add: live_def)
    then show ?thesis by (auto simp: s')
  next
    case (Transfer n a k)
    note s' = transfer_Inr(4) [OF Transfer(2)]
    have "live s h x" if "no_wrap now s'" "logged now s" "live s' h x" for h x
      using bumped_not_live [OF that(2) len [OF that(1)], of _ s' "name_hash L n" x] that(3)
      by (cases "h = name_hash L n") (simp_all add: s', simp add: live_def)
    then show ?thesis by (auto simp: s')
  next
    case (SetRecord n t sel ns vs ttl sg com)
    show ?thesis by (auto simp: setRecord_Inr(4) [OF SetRecord(2)] live_def set_log_def split: if_splits)
  next
    case (RemoveRecord n t sel)
    show ?thesis by (rule removeRecord_Inr [OF RemoveRecord(2)]) (auto simp: live_def zero_record_def split: if_splits)
  next
    case (Renew n price)
    show ?thesis by (auto simp: renew_update_Inr(2) [OF Renew(2)] live_def split: if_splits)
  next
    case (Commit h)
    then show ?thesis by (auto simp: commit_def live_def)
  next
    case (Withdraw a)
    then show ?thesis by (auto simp: live_def)
  qed
  then show ?thesis using logged_step_update [OF assms] by (simp add: live_step_def)
qed

interpretation lives: dapp_relation L E A now "live_step now" for L E A now
proof
  show "live_step now s (s\<lparr>nd_balance := b\<rparr>)" for s b
    by (auto simp: live_step_def logged.rel_balance live_def)
  fix s s1 s2 assume a: "live_step now s s1" "live_step now s1 s2"
  have st: "logged_step now s s1" "logged_step now s1 s2" using a by (simp_all add: live_step_def)
  obtain x y where xy: "nd_logs s1 = nd_logs s @ x" "nd_logs s2 = nd_logs s1 @ y"
    and l1: "no_wrap now s1 \<Longrightarrow> logged now s \<Longrightarrow> live s1 h k \<Longrightarrow> live s h k \<or> list_ex (set_log h k) x"
    and l2: "no_wrap now s2 \<Longrightarrow> logged now s1 \<Longrightarrow> live s2 h k \<Longrightarrow> live s1 h k \<or> list_ex (set_log h k) y" for h k
    using a unfolding live_step_def by metis
  have "live s h k \<or> list_ex (set_log h k) (x @ y)" if "no_wrap now s2" "logged now s" "live s2 h k" for h k
  proof -
    have w: "no_wrap now s1" using no_wrap_mono [OF that(1)] st(2) by (simp add: logged_step_def)
    then have "logged now s1" using st(1) that(2) by (simp add: logged_step_def)
    then show ?thesis using l1 [OF w that(2)] l2 [OF that(1) _ that(3)] by auto
  qed
  then show "live_step now s s2"
    using logged.rel_trans [OF st] xy unfolding live_step_def by (intro conjI exI [of _ "x @ y"]) auto
qed (auto intro: live_step_update)

text \<open>A commitment is pending only if it has been logged since; what a registration has used up stays used up until it is committed again.\<close>

definition commit_step :: "dapp \<Rightarrow> dapp \<Rightarrow> bool" where
  "commit_step s s' \<longleftrightarrow> (\<exists>new. nd_logs s' = nd_logs s @ new \<and>
     (\<forall>c. nd_commitments s' c = nd_commitments s c \<or> nd_commitments s' c = 0 \<or> Committed c (nd_commitments s' c) \<in> set new))"

lemma commit_step_update:
  assumes "dapp_update L E reg m c s = Inr s'" shows "commit_step s s'"
  using assms
proof (cases rule: dapp_update_cases)
  case (RemoveRecord n t sel)
  show ?thesis by (rule removeRecord_Inr [OF RemoveRecord(2)]) (auto simp: commit_step_def)
next
  case (Register n k sec price)
  show ?thesis by (auto simp: register_update_Inr(6) [OF Register(2)] commit_step_def)
next
  case (Renew n price)
  show ?thesis by (auto simp: renew_update_Inr(2) [OF Renew(2)] commit_step_def)
next
  case (Transfer n a k)
  show ?thesis by (auto simp: transfer_Inr(4) [OF Transfer(2)] commit_step_def)
next
  case (SetRecord n t sel ns vs ttl sg com)
  show ?thesis by (auto simp: setRecord_Inr(4) [OF SetRecord(2)] commit_step_def)
qed (auto simp: commit_step_def commit_def)

lemma commit_step_trans:
  assumes "commit_step s s1" "commit_step s1 s2" shows "commit_step s s2"
proof -
  obtain x y where "nd_logs s1 = nd_logs s @ x" "nd_logs s2 = nd_logs s1 @ y"
    and 1: "nd_commitments s1 c = nd_commitments s c \<or> nd_commitments s1 c = 0 \<or> Committed c (nd_commitments s1 c) \<in> set x"
    and 2: "nd_commitments s2 c = nd_commitments s1 c \<or> nd_commitments s2 c = 0 \<or> Committed c (nd_commitments s2 c) \<in> set y" for c
    using assms unfolding commit_step_def by blast
  moreover have "nd_commitments s2 c = nd_commitments s c \<or> nd_commitments s2 c = 0 \<or> Committed c (nd_commitments s2 c) \<in> set (x @ y)" for c
    using 1 [of c] 2 [of c] by auto
  ultimately show ?thesis unfolding commit_step_def by (intro exI [of _ "x @ y"]) simp
qed

interpretation commits: dapp_relation L E A now commit_step for L E A now
proof
  show "commit_step s (s\<lparr>nd_balance := b\<rparr>)" for s b by (simp add: commit_step_def)
qed (auto intro: commit_step_update commit_step_trans)

lemma history_commits: "dapp_history L E A t s t' s' \<Longrightarrow> commit_step s s'"
  by (induction rule: dapp_history.induct) (auto intro: commits.rel_refl commit_step_trans commits.rel_runs)

text \<open>What a call does after it has changed the storage is a run of calls by others.\<close>

lemma exec_then_runs:
  assumes "dapp_exec L E reg callee m c s = Inr s'" and "\<And>a v x x'. callee a v x = Some x' \<Longrightarrow> dapp_runs L E A now x x'"
  obtains s1 s2 where "dapp_update L E reg m c (s\<lparr>nd_balance := nd_balance s + msg_value m\<rparr>) = Inr s1"
    "nd_domains s2 = nd_domains s1" "nd_records s2 = nd_records s1" "nd_commitments s2 = nd_commitments s1" "nd_logs s2 = nd_logs s1"
    "dapp_runs L E A now s2 s'"
proof -
  obtain s1 where u: "dapp_update L E reg m c (s\<lparr>nd_balance := nd_balance s + msg_value m\<rparr>) = Inr s1"
    and "s' = s1 \<or> (\<exists>a v b. callee a v (s1\<lparr>nd_balance := b\<rparr>) = Some s')"
    by (rule dapp_exec_Inr [OF assms(1)])
  then consider "s' = s1" | b where "dapp_runs L E A now (s1\<lparr>nd_balance := b\<rparr>) s'" using assms(2) by blast
  then show thesis
  proof cases
    case 1
    show ?thesis by (rule that [OF u refl refl refl refl]) (simp add: 1 runs_refl)
  next
    case 2
    show ?thesis by (rule that [OF u _ _ _ _ 2]) simp_all
  qed
qed

section \<open>A sample history\<close>

text \<open>An account that accepts ether and does nothing else.\<close>

definition plain_account :: dapp_callee where "plain_account a v s = Some s"

definition sample_sol :: sol_lib where
  "sample_sol = \<lparr>keccak256 = (\<lambda>b. b), ecrecover = (\<lambda>d v r s. zero_address)\<rparr>"

definition sample_registry :: registry where
  "sample_registry = projr (declareType sample_sol \<lparr>msg_sender = [1], msg_value = 0, block_timestamp = 50\<rparr> ''A'' [''address''] [] empty_registry)"

definition sample_env :: dapp_env where "sample_env = \<lparr>basePrice = 10, treasurer = [1]\<rparr>"

definition sample_msg :: "address \<Rightarrow> nat \<Rightarrow> nat \<Rightarrow> sol_msg" where
  "sample_msg a v t = \<lparr>msg_sender = a, msg_value = v, block_timestamp = t\<rparr>"

definition dapp_sample :: "(sol_msg \<times> dapp_call) list \<Rightarrow> dapp \<Rightarrow> dapp_error + dapp" where
  "dapp_sample cs s = fold (\<lambda>(m, c) r. rbind r (dapp_exec sample_sol sample_env sample_registry plain_account m c)) cs (Inr s)"

definition alice :: address where "alice = replicate 20 7"
definition bob :: address where "bob = replicate 20 8"
definition sample_secret :: hash32 where "sample_secret = replicate 32 5"

definition sample_calls :: "(sol_msg \<times> dapp_call) list" where
  "sample_calls =
     [(sample_msg alice 0 100, CallCommit (makeCommitment sample_sol ''example'' alice [42] sample_secret)),
      (sample_msg alice 12 200, CallRegister ''example'' [42] sample_secret),
      (sample_msg alice 0 300, CallSetRecord ''example'' ''A'' [] [''address''] [''1.2.3.4''] 60 [3] [4])]"

definition sample_dapp :: dapp where
  "sample_dapp = projr (dapp_sample sample_calls (snd (dapp_constructor 10 [1])))"

lemma dapp_sample_history:
  assumes "dapp_sample cs s = Inr s'" "sorted (map (block_timestamp \<circ> fst) cs)" "\<forall>x \<in> set cs. t \<le> block_timestamp (fst x) \<and> msg_sender (fst x) \<in> A"
  shows "dapp_history sample_sol sample_env A t s (if cs = [] then t else block_timestamp (fst (last cs))) s'"
  using assms
proof (induction cs arbitrary: s' rule: rev_induct)
  case Nil
  then show ?case by (simp add: dapp_sample_def history_refl)
next
  case (snoc x cs)
  obtain m c where x: "x = (m, c)" by fastforce
  obtain s1 where s1: "dapp_sample cs s = Inr s1" "dapp_exec sample_sol sample_env sample_registry plain_account m c s1 = Inr s'"
    using snoc.prems(1) by (auto simp: dapp_sample_def x rbind_eq_Inr)
  have h: "dapp_history sample_sol sample_env A t s (if cs = [] then t else block_timestamp (fst (last cs))) s1"
    using snoc.IH [OF s1(1)] snoc.prems(2,3) by (simp add: sorted_append)
  have "dapp_runs sample_sol sample_env A (block_timestamp m) s1 s'"
    by (rule runs_call [OF runs_refl refl _ s1(2)]) (use snoc.prems(3) in \<open>auto simp: x plain_account_def intro: runs_refl\<close>)
  moreover have "(if cs = [] then t else block_timestamp (fst (last cs))) \<le> block_timestamp m"
    using snoc.prems(2,3) by (auto simp: x sorted_append)
  ultimately show ?case using history_block [OF h] by (simp add: x)
qed

lemma sample_registry_A:
  "typeExists sample_sol sample_registry ''A''"
  "mandatoryFields sample_registry (keccak256 sample_sol (str_bytes ''A'')) = Inr [''address'']"
  by (simp_all add: sample_registry_def declareType_def declare_internal_def contract_validateTypeName_def MAX_FIELDS_def
      empty_registry_def validateFieldName_def REG_MAX_FIELD_NAME_LENGTH_def typeExists_def mandatoryFields_def le_char_iff Let_def)

lemma sample_accounts [simp]: "alice \<noteq> zero_address" "bob \<noteq> zero_address" "alice \<noteq> bob" "bob \<noteq> alice"
  by (simp_all add: alice_def bob_def zero_address_def)

lemmas sample_eval = dapp_sample_def sample_calls_def dapp_exec_def payable_def commit_def register_def register_update_def
   contract_validateName_def le_char_iff check_commitment_def u256_add_def MIN_COMMITMENT_AGE_def MAX_COMMITMENT_AGE_def sample_msg_def
   dapp_constructor_def zero_domain_def priceOf_def sample_env_def REGISTRATION_PERIOD_def refundExcess_def u256_sub_def
   send_value_def plain_account_def setRecord_def require_owner_def check_record_def MAX_RECORD_FIELDS_def MAX_SELECTOR_LENGTH_def
   MAX_FIELD_NAME_LENGTH_def MAX_FIELD_VALUE_LENGTH_def checkMandatoryFields_def sample_registry_A push_key_def emit_def

lemma sample_lookup:
  "isOk (dapp_sample sample_calls (snd (dapp_constructor 10 [1])))"
  "bFieldValues (lookup_record sample_sol 300 sample_dapp ''example'' ''A'' []) = [''1.2.3.4'']"
  by (simp_all add: sample_dapp_def sample_eval lookup_record_def inactive_def Let_def)

lemma sample_history: "dapp_history sample_sol sample_env UNIV 0 (snd (dapp_constructor 10 [1])) 300 sample_dapp"
proof -
  have "dapp_sample sample_calls (snd (dapp_constructor 10 [1])) = Inr sample_dapp"
    using sample_lookup(1) unfolding sample_dapp_def isOk_iff by auto
  from dapp_sample_history [OF this, of 0 UNIV] show ?thesis by (simp add: sample_calls_def sample_msg_def)
qed

lemma sample_dapp_facts:
  "getDomain sample_sol sample_dapp ''example'' = (alice, [42], 31536200, 1)"
  "length (nd_logs sample_dapp) = 3" "ownerOf sample_sol 300 sample_dapp ''example'' = alice"
  by (simp_all add: sample_dapp_def sample_eval getDomain_def ownerOf_def inactive_def Let_def)

section \<open>Properties\<close>

text \<open>
  C10: Completeness of the events. Between two moments of the contract's history in which no \<open>RecordSet\<close>, \<open>RecordRemoved\<close>,
  \<open>Transferred\<close> or \<open>Registered\<close> was emitted for a name, whatever else was called in between, the name resolves as before
  for every type and selector, unless it has expired, in which case it resolves to nothing.
\<close>

theorem silent_change_is_expiry:
  assumes "dapp_history L E A t s t' s'" and "nd_logs s' = nd_logs s @ new"
    and "\<forall>l \<in> set new. log_name l \<noteq> Some (name_hash L name)"
  shows "resolve L t' s' name ty sel = resolve L t s name ty sel \<or>
    ownerOf L t' s' name = zero_address \<and> resolve L t' s' name ty sel = (zero_record, zero_address, [])"
proof -
  have q: "t \<le> t'" "quiet_since t (nd_domains s (name_hash L name)) (nd_domains s' (name_hash L name))"
    "nd_records s' (name_hash L name) = nd_records s (name_hash L name)"
    using history_quiet [OF assms(1)] assms(2,3) by auto
  from resolve_quiet [OF q(2,3,1) refl] show ?thesis using resolve_inactive by (auto simp: ownerOf_def Let_def)
qed

definition sample_renewed :: dapp where
  "sample_renewed = projr (dapp_sample [(sample_msg bob 10 400, CallRenew ''example'')] sample_dapp)"

lemma sample_renewed_run:
  "dapp_sample [(sample_msg bob 10 400, CallRenew ''example'')] sample_dapp = Inr sample_renewed"
  "nd_logs sample_renewed = nd_logs sample_dapp @ [Renewed (name_hash sample_sol ''example'') 63072200 10]"
proof -
  have "\<exists>s. dapp_sample [(sample_msg bob 10 400, CallRenew ''example'')] sample_dapp = Inr s \<and>
      nd_logs s = nd_logs sample_dapp @ [Renewed (name_hash sample_sol ''example'') 63072200 10]"
    by (simp add: sample_dapp_def sample_eval renew_def renew_update_def Let_def)
  then show "dapp_sample [(sample_msg bob 10 400, CallRenew ''example'')] sample_dapp = Inr sample_renewed"
    "nd_logs sample_renewed = nd_logs sample_dapp @ [Renewed (name_hash sample_sol ''example'') 63072200 10]"
    by (auto simp: sample_renewed_def)
qed

lemma sample_renewed_history: "dapp_history sample_sol sample_env {bob} 300 sample_dapp 400 sample_renewed"
  using dapp_sample_history [OF sample_renewed_run(1), of 300 "{bob}"] by (simp add: sample_msg_def)

theorem silent_change_is_expiry_witness:
  "resolve sample_sol 400 sample_renewed ''example'' ''A'' [] = resolve sample_sol 300 sample_dapp ''example'' ''A'' [] \<or>
   ownerOf sample_sol 400 sample_renewed ''example'' = zero_address \<and>
     resolve sample_sol 400 sample_renewed ''example'' ''A'' [] = (zero_record, zero_address, [])"
  by (rule silent_change_is_expiry [OF sample_renewed_history sample_renewed_run(2)]) (simp add: log_name_def)

text \<open>
  C4: Access control. In any history of the deployed contract, calls by accounts other than the owner of an active name, in any
  order and with any re-entrance, do not change what the name resolves to before its registration ends. (The bound on the number of
  logs rules out that 64-bit expiries and generations wrap around.)
\<close>

theorem only_owner_changes_answers:
  assumes "dapp_history L E UNIV t0 (snd (dapp_constructor price sender)) t s" and "dapp_history L E A t s t' s'"
    and "getDomain L s name = (owner, key, expiry, gen)" and "ownerOf L t s name = owner" and "owner \<noteq> zero_address"
    and "owner \<notin> A" and "t' \<le> unat expiry" and "t' + 31536000 * length (nd_logs s') < 2 ^ 64"
  shows "resolve L t' s' name ty sel = resolve L t s name ty sel"
proof -
  let ?d = "nd_domains s (name_hash L name)"
  have d: "dm_owner ?d = owner" "dm_expiry ?d = expiry" "\<not> inactive t ?d"
    using assms(3-5) by (auto simp: getDomain_def ownerOf_def Let_def split: if_splits)
  have w: "no_wrap t' s'" using assms(8) by (simp add: no_wrap_def REGISTRATION_PERIOD_def)
  obtain new where t: "t \<le> t'" "nd_logs s' = nd_logs s @ new" using history_quiet [OF assms(2)] by blast
  have "logged t s"
    using logged_history [OF assms(1) no_wrap_mono [OF w t(1)] logged_constructor] t(2) by simp
  then have "untouched (name_hash L name) s s'"
    using owner_safe_history [OF assms(2) w _ d(3)] d assms(6,7) by simp
  then show ?thesis using resolve_untouched d t(1) assms(7) by simp
qed

theorem only_owner_changes_answers_witness:
  "resolve sample_sol 400 sample_renewed ''example'' ''A'' [] = resolve sample_sol 300 sample_dapp ''example'' ''A'' []"
  by (rule only_owner_changes_answers [OF sample_history sample_renewed_history sample_dapp_facts(1,3)])
    (simp_all add: sample_renewed_run(2) sample_dapp_facts(2))

text \<open>
  C13: The record store is consistent in every reachable state: \<open>listRecords\<close> returns every record that a lookup of the name can
  find, and nothing else, each once; the index arithmetic of \<open>removeRecord\<close> never panics.
\<close>

theorem listing_is_exact:
  assumes "dapp_history L E A t0 (snd (dapp_constructor price sender)) t s"
  shows "set (listRecords L t s name) = {r. bExists r \<and> (\<exists>ty sel. r = lookup_record L t s name ty sel)} \<and>
    distinct (listRecords L t s name) \<and> removeRecord L m name ty sel s \<noteq> Inl SolPanic"
proof -
  have "dapp_inv L s" using dapp_inv_history [OF assms dapp_inv_constructor] .
  then show ?thesis using listRecords_exact removeRecord_no_panic by blast
qed

theorem listing_is_exact_witness:
  "lookup_record sample_sol 300 sample_dapp ''example'' ''A'' [] \<in> set (listRecords sample_sol 300 sample_dapp ''example'')"
proof -
  have "bExists (lookup_record sample_sol 300 sample_dapp ''example'' ''A'' [])"
    using sample_lookup(2) by (auto simp: lookup_record_def Let_def zero_record_def split: if_splits)
  then show ?thesis using listing_is_exact [OF sample_history] by blast
qed

text \<open>
  C11: A new owner starts with nothing. A transfer or a registration logs its event first; whatever the receiver of a refund then does with the
  contract (an overpaying contract can call \<open>setRecord\<close> while it is paid back), a record resolves under the name when the call is over only if it
  was set after that event, by a call that has logged it. So no record of a previous owner ever resolves for the new one. After a transfer, which
  pays nobody, nothing resolves and the listing is empty. (The bound on the number of logs rules out that generations wrap around.)
\<close>

theorem new_owner_starts_empty:
  assumes "dapp_history L E UNIV t0 (snd (dapp_constructor price sender)) t s" and "t \<le> block_timestamp m"
    and "c = CallTransfer name a k \<or> c = CallRegister name k secret" and "dapp_exec L E reg callee m c s = Inr s'"
    and "\<And>x v y y'. callee x v y = Some y' \<Longrightarrow> dapp_runs L E UNIV (block_timestamp m) y y'"
    and "block_timestamp m + 31536000 * length (nd_logs s') < 2 ^ 64"
  shows "\<exists>ev new. nd_logs s' = nd_logs s @ ev # new \<and> log_name ev = Some (name_hash L name) \<and>
    (\<forall>t' ty sel. bExists (lookup_record L t' s' name ty sel) \<longrightarrow>
       (\<exists>n ty' sel' ttl. RecordSet (name_hash L name) n (recordKeyOf L ty sel) ty' sel' ttl \<in> set new)) \<and>
    ((\<forall>l \<in> set new. log_name l \<noteq> Some (name_hash L name)) \<longrightarrow> (\<forall>t'. listRecords L t' s' name = [])) \<and>
    (c = CallTransfer name a k \<longrightarrow> new = [])"
proof -
  let ?h = "name_hash L name" and ?now = "block_timestamp m" and ?s = "s\<lparr>nd_balance := nd_balance s + msg_value m\<rparr>"
  obtain s1 s2 where u: "dapp_update L E reg m c ?s = Inr s1" and s2: "nd_domains s2 = nd_domains s1" "nd_records s2 = nd_records s1"
    "nd_commitments s2 = nd_commitments s1" "nd_logs s2 = nd_logs s1" and r: "dapp_runs L E UNIV ?now s2 s'"
    by (rule exec_then_runs [OF assms(4,5)])
  obtain ev where ev: "nd_logs s1 = nd_logs s @ [ev]" "log_name ev = Some ?h" and g: "nd_records s1 = nd_records s"
    "dm_generation (nd_domains s1 ?h) = dm_generation (nd_domains s ?h) + 1"
    using assms(3) u register_update_Inr(6) [of L E m name k secret ?s] transfer_Inr(4) [of L m name a k ?s]
    by (auto simp: dapp_update_def rbind_eq_Inr log_name_def)
  obtain new where new: "nd_logs s' = nd_logs s2 @ new"
    and lv: "no_wrap ?now s' \<Longrightarrow> logged ?now s2 \<Longrightarrow> live s' h x \<Longrightarrow> live s2 h x \<or> list_ex (set_log h x) new" for h x
    using lives.rel_runs [OF r] unfolding live_step_def by metis
  have w: "no_wrap ?now s'" using assms(6) by (simp add: no_wrap_def REGISTRATION_PERIOD_def)
  have w': "no_wrap ?now s1" "no_wrap ?now s" using no_wrap_mono [OF w order_refl] new ev(1) s2(4) by simp_all
  have l: "logged ?now s"
    using logged_mono [OF logged_history [OF assms(1) no_wrap_mono [OF w'(2) assms(2) order_refl] logged_constructor] assms(2)] .
  then have "logged ?now ?s" by (simp add: logged_def)
  then have "logged ?now s1" using logged_step_update [OF u refl] w'(1) by (simp add: logged_step_def)
  then have l2: "logged ?now s2" using s2 by (simp add: logged_def)
  have "\<not> live s2 ?h x" for x
    by (rule bumped_not_live [OF l]) (use no_wrap_logs [OF w'(1)] ev(1) g s2 in simp_all)
  then have set: "list_ex (set_log ?h x) new" if "live s' ?h x" for x using lv [OF w l2 that] by blast
  have 1: "\<exists>n ty' sel' ttl. RecordSet ?h n (recordKeyOf L ty sel) ty' sel' ttl \<in> set new" if "bExists (lookup_record L t' s' name ty sel)" for t' ty sel
    using that set [of "recordKeyOf L ty sel"]
    by (auto simp: lookup_record_def live_def set_log_def list_ex_iff Let_def split: if_splits)
  have "\<not> live s' ?h x" if "\<forall>l \<in> set new. log_name l \<noteq> Some ?h" for x
  proof
    assume "live s' ?h x"
    then obtain n ty sel ttl where "RecordSet ?h n x ty sel ttl \<in> set new"
      using set [of x] by (auto simp: list_ex_iff set_log_def)
    with that show False by (auto simp: log_name_def dest: bspec)
  qed
  then have 2: "listRecords L t' s' name = []" if "\<forall>l \<in> set new. log_name l \<noteq> Some ?h" for t'
    using that by (auto simp: listRecords_def live_def Let_def filter_empty_conv)
  have "s' = s1" if "c = CallTransfer name a k"
    using that u assms(4) by (simp add: dapp_exec_def dapp_update_def Let_def split: if_splits)
  then have 3: "new = []" if "c = CallTransfer name a k" using that new s2(4) by simp
  show ?thesis using new ev s2(4) 1 2 3 by (intro exI [of _ ev] exI [of _ new]) auto
qed

theorem new_owner_starts_empty_witness:
  "\<exists>s'. dapp_exec sample_sol sample_env sample_registry plain_account (sample_msg alice 0 400) (CallTransfer ''example'' bob [43]) sample_dapp = Inr s' \<and>
     bExists (lookup_record sample_sol 300 sample_dapp ''example'' ''A'' []) \<and>
     ownerOf sample_sol 400 s' ''example'' = bob \<and> listRecords sample_sol 400 s' ''example'' = []"
proof -
  let ?c = "CallTransfer ''example'' bob [43]" let ?m = "sample_msg alice 0 400"
  have "\<exists>s'. dapp_exec sample_sol sample_env sample_registry plain_account ?m ?c sample_dapp = Inr s' \<and>
     ownerOf sample_sol 400 s' ''example'' = bob \<and> length (nd_logs s') = 4"
    by (simp add: sample_dapp_def sample_eval transfer_def ownerOf_def inactive_def Let_def)
  then obtain s' where s': "dapp_exec sample_sol sample_env sample_registry plain_account ?m ?c sample_dapp = Inr s'"
    "ownerOf sample_sol 400 s' ''example'' = bob" "length (nd_logs s') = 4" by blast
  have ts: "block_timestamp ?m = 400" by (simp add: sample_msg_def)
  have "\<exists>ev new. nd_logs s' = nd_logs sample_dapp @ ev # new \<and> log_name ev = Some (name_hash sample_sol ''example'') \<and>
    (\<forall>t' ty sel. bExists (lookup_record sample_sol t' s' ''example'' ty sel) \<longrightarrow>
       (\<exists>n ty' sel' ttl. RecordSet (name_hash sample_sol ''example'') n (recordKeyOf sample_sol ty sel) ty' sel' ttl \<in> set new)) \<and>
    ((\<forall>l \<in> set new. log_name l \<noteq> Some (name_hash sample_sol ''example'')) \<longrightarrow> (\<forall>t'. listRecords sample_sol t' s' ''example'' = [])) \<and>
    (?c = CallTransfer ''example'' bob [43] \<longrightarrow> new = [])"
    by (rule new_owner_starts_empty [OF sample_history _ disjI1 [OF refl] s'(1)])
      (auto simp: ts s'(3) plain_account_def intro: runs_refl)
  then have "listRecords sample_sol 400 s' ''example'' = []" by auto
  moreover have "bExists (lookup_record sample_sol 300 sample_dapp ''example'' ''A'' [])"
    using sample_lookup(2) by (auto simp: lookup_record_def Let_def zero_record_def split: if_splits)
  ultimately show ?thesis using s' by blast
qed

text \<open>
  C12: Commit and reveal. A registration succeeds only if somebody has published the commitment to exactly this name, sender, key and
  secret, at least 30 seconds and at most a day before. Anyone may publish commitments; but a different name, address, key or secret has the same
  commitment only if keccak256 collides, so that who learns the arguments from the revealing transaction cannot use its commitment for another
  account. And the registration uses the commitment up: from then on, whatever is called, the same registration fails until the commitment is
  published again.
\<close>

theorem registration_needs_commitment:
  assumes "dapp_history L E UNIV t0 (snd (dapp_constructor price sender)) t s"
    and "dapp_exec L E reg callee m (CallRegister name pubKey secret) s = Inr s'"
    and "\<forall>x v y y'. callee x v y = Some y' \<longrightarrow> dapp_runs L E UNIV (block_timestamp m) y y'"
    and "length (msg_sender m) = 20" and "length secret = 32"
  defines "C \<equiv> makeCommitment L name (msg_sender m) pubKey secret"
  shows "(\<exists>at. Committed C at \<in> set (nd_logs s) \<and> at + 30 \<le> block_timestamp m \<and> block_timestamp m \<le> at + 86400) \<and>
    (\<forall>n a k x. makeCommitment L n a k x = C \<and> length a = 20 \<and> length x = 32 \<and> length n < 2 ^ 256 \<and> length k < 2 ^ 256 \<longrightarrow>
       (n, a, k, x) = (name, msg_sender m, pubKey, secret) \<or>
       abi_encode_commitment (str_bytes n) a k x \<noteq> abi_encode_commitment (str_bytes name) (msg_sender m) pubKey secret) \<and>
    (\<forall>t' s'' new m' reg' callee'. dapp_history L E UNIV (block_timestamp m) s' t' s'' \<and> nd_logs s'' = nd_logs s @ new \<and>
       (\<forall>at. Committed C at \<notin> set new) \<and> msg_sender m' = msg_sender m \<longrightarrow>
       dapp_exec L E reg' callee' m' (CallRegister name pubKey secret) s'' = Inl CommitmentNotFound)"
proof -
  let ?s = "s\<lparr>nd_balance := nd_balance s + msg_value m\<rparr>"
  obtain s1 s2 where u: "dapp_update L E reg m (CallRegister name pubKey secret) ?s = Inr s1" and s2: "nd_domains s2 = nd_domains s1"
    "nd_records s2 = nd_records s1" "nd_commitments s2 = nd_commitments s1" "nd_logs s2 = nd_logs s1"
    and r: "dapp_runs L E UNIV (block_timestamp m) s2 s'"
    by (rule exec_then_runs [OF assms(2)]) (use assms(3) in blast)
  then obtain p where up: "register_update L E m name pubKey secret ?s = Inr (p, s1)" by (auto simp: dapp_update_def rbind_eq_Inr)
  note ru = register_update_Inr [OF up, folded C_def]
  have cc: "nd_commitments s C \<noteq> 0" "nd_commitments s C + 30 \<le> block_timestamp m" "block_timestamp m \<le> nd_commitments s C + 86400"
    using ru(2) by (simp_all add: check_commitment_Inr)
  have key: "0 < length pubKey" "length pubKey \<le> 128"
    using up by (auto simp: register_update_def split: if_splits)
  have "Committed C (nd_commitments s C) \<in> set (nd_logs s)"
    using history_commits [OF assms(1)] cc(1) by (auto simp: commit_step_def dapp_constructor_def dest: spec [of _ C])
  with cc have 1: "\<exists>at. Committed C at \<in> set (nd_logs s) \<and> at + 30 \<le> block_timestamp m \<and> block_timestamp m \<le> at + 86400" by blast
  have nl: "length name < 2 ^ 256" using ru(1) by (simp add: contract_validateName_def split: if_splits)
  have 2: "(n, a, k, x) = (name, msg_sender m, pubKey, secret)"
    if "length a = 20" "length x = 32" "length n < 2 ^ 256" "length k < 2 ^ 256"
      "abi_encode_commitment (str_bytes n) a k x = abi_encode_commitment (str_bytes name) (msg_sender m) pubKey secret" for n a k x
  proof -
    have "str_bytes n = str_bytes name \<and> a = msg_sender m \<and> k = pubKey \<and> x = secret"
      by (rule abi_encode_commitment_inject [OF that(5)]) (use that nl key assms(4,5) in simp_all)
    then show ?thesis using str_bytes_inject by auto
  qed
  have zero: "nd_commitments s'' C = 0" if h: "dapp_history L E UNIV (block_timestamp m) s' t' s''" and nl: "nd_logs s'' = nd_logs s @ new"
    and nc: "\<And>at. Committed C at \<notin> set new" for t' s'' new
  proof -
    have "commit_step s2 s''" using commit_step_trans [OF commits.rel_runs [OF r] history_commits [OF h]] .
    then obtain b where b: "nd_logs s'' = nd_logs s2 @ b"
      "nd_commitments s'' C = nd_commitments s2 C \<or> nd_commitments s'' C = 0 \<or> Committed C (nd_commitments s'' C) \<in> set b"
      by (auto simp: commit_step_def)
    have "set b \<subseteq> set new" using b(1) nl by (simp add: s2 ru(6)) auto
    then show ?thesis using b(2) nc by (auto simp: s2 ru(6))
  qed
  have "dapp_exec L E reg' callee' m' (CallRegister name pubKey secret) s'' = Inl CommitmentNotFound"
    if "dapp_history L E UNIV (block_timestamp m) s' t' s''" "nd_logs s'' = nd_logs s @ new" "\<forall>at. Committed C at \<notin> set new"
      "msg_sender m' = msg_sender m" for t' s'' new m' reg' callee'
    using zero [OF that(1,2)] that(3,4) ru(1) key
    by (simp add: dapp_exec_def payable_def register_def register_update_def check_commitment_def C_def Let_def)
  with 1 2 show ?thesis by blast
qed

theorem registration_needs_commitment_witness:
  "\<exists>s s' at. dapp_history sample_sol sample_env UNIV 0 (snd (dapp_constructor 10 [1])) 100 s \<and>
     dapp_exec sample_sol sample_env sample_registry plain_account (sample_msg alice 10 200) (CallRegister ''example'' [42] sample_secret) s = Inr s' \<and>
     Committed (makeCommitment sample_sol ''example'' alice [42] sample_secret) at \<in> set (nd_logs s) \<and> at + 30 \<le> 200 \<and>
     dapp_exec sample_sol sample_env sample_registry plain_account (sample_msg alice 10 300) (CallRegister ''example'' [42] sample_secret) s' = Inl CommitmentNotFound"
proof -
  let ?c = "makeCommitment sample_sol ''example'' alice [42] sample_secret" let ?m = "sample_msg alice 10 200"
  let ?calls = "[(sample_msg alice 0 100, CallCommit ?c)]" let ?r = "CallRegister ''example'' [42] sample_secret"
  let ?exec = "dapp_exec sample_sol sample_env sample_registry plain_account"
  define s where "s = projr (dapp_sample ?calls (snd (dapp_constructor 10 [1])))"
  have r: "dapp_sample ?calls (snd (dapp_constructor 10 [1])) = Inr s" "nd_logs s = [Committed ?c 100]"
    by (simp_all add: s_def sample_eval)
  have h: "dapp_history sample_sol sample_env UNIV 0 (snd (dapp_constructor 10 [1])) 100 s"
    using dapp_sample_history [OF r(1), of 0 UNIV] by (simp add: sample_msg_def)
  have m: "msg_sender (sample_msg a v ts) = a" "block_timestamp (sample_msg a v ts) = ts" for a v ts by (simp_all add: sample_msg_def)
  have "\<exists>s' x1 x2 x3 x4 x5 x6 x7. ?exec ?m ?r s = Inr s' \<and> nd_logs s' = nd_logs s @ [Registered x1 x2 x3 x4 x5 x6 x7]"
    by (simp add: s_def sample_eval Let_def)
  then obtain s' x1 x2 x3 x4 x5 x6 x7 where s': "?exec ?m ?r s = Inr s'" "nd_logs s' = nd_logs s @ [Registered x1 x2 x3 x4 x5 x6 x7]" by blast
  have run: "\<forall>x v y y'. plain_account x v y = Some y' \<longrightarrow> dapp_runs sample_sol sample_env UNIV (block_timestamp ?m) y y'"
    by (simp add: plain_account_def runs_refl)
  have len: "length (msg_sender ?m) = 20" "length sample_secret = 32" by (simp_all add: m alice_def sample_secret_def)
  note nc = registration_needs_commitment [OF h s'(1) run len, unfolded m]
  have "?exec (sample_msg alice 10 300) ?r s' = Inl CommitmentNotFound"
    by (rule nc [THEN conjunct2, THEN conjunct2, rule_format, where t' = 200 and s'' = s' and new = "[Registered x1 x2 x3 x4 x5 x6 x7]"])
      (intro conjI allI history_refl s'(2) m(1), simp)
  with nc [THEN conjunct1] h s'(1) show ?thesis by blast
qed

end
