(* ===== verification/Udp_Wire.thy ===== *)
theory Udp_Wire
  imports Query_Model
begin

text \<open>
  The binary wire format of the UDP front end (src/resolver/internal/server/udp.go): a six-byte
  header (magic, version, status or flags) followed by TLVs with a 16-bit big-endian length.
  The index loops of the decoders are recursions on the bytes that remain.

  \<open>udp_query_roundtrip\<close> and \<open>udp_response_roundtrip\<close> show that the decoders invert the encoders.
\<close>

section \<open>Definitions\<close>

definition udpVersion :: byte where "udpVersion = 1"
definition udpMaxResp :: nat where "udpMaxResp = 65000"

definition udpTLVName :: byte where "udpTLVName = 1"
definition udpTLVType :: byte where "udpTLVType = 2"
definition udpTLVSelector :: byte where "udpTLVSelector = 3"
definition udpTLVEnvelope :: byte where "udpTLVEnvelope = 100"
definition udpTLVError :: byte where "udpTLVError = 101"

definition udpStatusOK :: byte where "udpStatusOK = 0"
definition udpStatusBadQuery :: byte where "udpStatusBadQuery = 1"
definition udpStatusChain :: byte where "udpStatusChain = 2"
definition udpStatusInternal :: byte where "udpStatusInternal = 3"
definition udpStatusRateLimited :: byte where "udpStatusRateLimited = 4"
definition udpStatusTooLarge :: byte where "udpStatusTooLarge = 5"

definition udpMagic :: bytes where "udpMagic = str_bytes ''DDNS''"

record udpTLV =
  tlv_typ :: byte
  tlv_val :: bytes

datatype udp_error =
    PacketTooShort
  | BadMagic
  | UnsupportedVersion byte
  | UnsupportedFlags byte
  | TruncatedTLVHeader
  | TruncatedTLVValue
  | DuplicateTLV byte
  | BadQuery query_error

fun encode_tlvs :: "udpTLV list \<Rightarrow> bytes" where
  "encode_tlvs [] = []"
| "encode_tlvs (t # ts) =
     (if length (tlv_val t) > 65535 then encode_tlvs ts
      else tlv_typ t # PutUint16 (word_of_nat (length (tlv_val t))) @ tlv_val t @ encode_tlvs ts)"

definition encodeUDPResponse :: "byte \<Rightarrow> udpTLV list \<Rightarrow> bytes" where
  "encodeUDPResponse status tlvs = udpMagic @ [udpVersion, status] @ encode_tlvs tlvs"

definition encodeUDPQuery :: "query \<Rightarrow> bytes" where
  "encodeUDPQuery q = encodeUDPResponse 0
     [\<lparr>tlv_typ = udpTLVName, tlv_val = str_bytes (qName q)\<rparr>,
      \<lparr>tlv_typ = udpTLVType, tlv_val = str_bytes (qType q)\<rparr>,
      \<lparr>tlv_typ = udpTLVSelector, tlv_val = str_bytes (qSelector q)\<rparr>]"

text \<open>The loop of \<open>decodeUDPQuery\<close>: the three known TLVs are kept, duplicates of them rejected,
  all other types skipped.\<close>

function query_fields :: "(byte \<Rightarrow> string option) \<Rightarrow> bytes \<Rightarrow> udp_error + (byte \<Rightarrow> string option)" where
  "query_fields flds rest =
     (if rest = [] then Inr flds
      else if length rest < 3 then Inl TruncatedTLVHeader
      else
        (let ty = rest ! 0; n = unat (Uint16 (drop 1 rest)); body = drop 3 rest in
         if n > length body then Inl TruncatedTLVValue
         else if ty = udpTLVName \<or> ty = udpTLVType \<or> ty = udpTLVSelector then
           (if flds ty \<noteq> None then Inl (DuplicateTLV ty)
            else query_fields (flds(ty := Some (bytes_str (take n body)))) (drop n body))
         else query_fields flds (drop n body)))"
  by pat_completeness auto
termination
  by (relation "measure (\<lambda>(f, rest). length rest)") auto

definition field_or_empty :: "(byte \<Rightarrow> string option) \<Rightarrow> byte \<Rightarrow> string" where
  "field_or_empty flds ty = (case flds ty of None \<Rightarrow> [] | Some s \<Rightarrow> s)"

definition lift_query :: "query_error + 'a \<Rightarrow> udp_error + 'a" where
  "lift_query r = (case r of Inl e \<Rightarrow> Inl (BadQuery e) | Inr x \<Rightarrow> Inr x)"

definition decodeUDPQuery :: "unicode \<Rightarrow> bytes \<Rightarrow> udp_error + query" where
  "decodeUDPQuery U packet =
     (if length packet < 6 then Inl PacketTooShort
      else if take 4 packet \<noteq> udpMagic then Inl BadMagic
      else if packet ! 4 \<noteq> udpVersion then Inl (UnsupportedVersion (packet ! 4))
      else if packet ! 5 \<noteq> 0 then Inl (UnsupportedFlags (packet ! 5))
      else
        rbind (query_fields (\<lambda>_. None) (drop 6 packet)) (\<lambda>flds.
        rbind (lift_query (ParsePairs U (field_or_empty flds udpTLVSelector))) (\<lambda>pairs.
          lift_query (New_query U (field_or_empty flds udpTLVName) (field_or_empty flds udpTLVType) pairs))))"

function response_values ::
  "(byte \<Rightarrow> bytes list option) \<Rightarrow> bytes \<Rightarrow> udp_error + (byte \<Rightarrow> bytes list option)" where
  "response_values vals rest =
     (if rest = [] then Inr vals
      else if length rest < 3 then Inl TruncatedTLVHeader
      else
        (let ty = rest ! 0; n = unat (Uint16 (drop 1 rest)); body = drop 3 rest in
         if n > length body then Inl TruncatedTLVValue
         else response_values
           (vals(ty := Some ((case vals ty of None \<Rightarrow> [] | Some vs \<Rightarrow> vs) @ [take n body]))) (drop n body)))"
  by pat_completeness auto
termination
  by (relation "measure (\<lambda>(f, rest). length rest)") auto

definition decodeUDPResponse :: "bytes \<Rightarrow> udp_error + (byte \<times> (byte \<Rightarrow> bytes list option))" where
  "decodeUDPResponse packet =
     (if length packet < 6 then Inl PacketTooShort
      else if take 4 packet \<noteq> udpMagic then Inl BadMagic
      else if packet ! 4 \<noteq> udpVersion then Inl (UnsupportedVersion (packet ! 4))
      else rbind (response_values (\<lambda>_. None) (drop 6 packet)) (\<lambda>vals. Inr (packet ! 5, vals)))"

text \<open>What the TLVs of a response mean: for every type the vals in order, of those that fit.\<close>

definition tlv_values :: "udpTLV list \<Rightarrow> byte \<Rightarrow> bytes list option" where
  "tlv_values tlvs ty =
     (let vs = map tlv_val (filter (\<lambda>t. tlv_typ t = ty \<and> length (tlv_val t) \<le> 65535) tlvs)
      in if vs = [] then None else Some vs)"

section \<open>Facts\<close>

declare query_fields.simps [simp del]
declare response_values.simps [simp del]

lemma length_udpMagic [simp]: "length udpMagic = 4"
  by (simp add: udpMagic_def)

lemma header_simps [simp, wire_simps]:
  "\<not> length (encodeUDPResponse st ts) < 6"
  "take 4 (encodeUDPResponse st ts) = udpMagic"
  "encodeUDPResponse st ts ! 4 = udpVersion"
  "encodeUDPResponse st ts ! 5 = st"
  "drop 6 (encodeUDPResponse st ts) = encode_tlvs ts"
  by (simp_all add: encodeUDPResponse_def nth_append)

lemma tlv_head [wire_simps]:
  fixes v :: bytes
  assumes "length v \<le> 65535" and "rest = t # PutUint16 (word_of_nat (length v)) @ v @ others"
  shows "rest \<noteq> []" "\<not> length rest < 3" "rest ! 0 = t"
    "unat (Uint16 (drop 1 rest)) = length v" "drop 3 rest = v @ others"
proof -
  have len: "length rest = 3 + length v + length others" using assms(2) by simp
  show "rest \<noteq> []" using assms(2) by simp
  show "\<not> length rest < 3" using len by simp
  show "rest ! 0 = t" using assms(2) by simp
  have "Uint16 (drop 1 rest) = word_of_nat (length v)" using assms(2) by simp
  then show "unat (Uint16 (drop 1 rest)) = length v"
    using assms(1) by (simp add: unat_of_nat)
  show "drop 3 rest = v @ others" using assms(2) by (simp add: drop_Cons' PutUint16_def numeral_2_eq_2)
qed

lemma response_values_step:
  assumes "rest \<noteq> []" "\<not> length rest < 3" "rest ! 0 = ty" "unat (Uint16 (drop 1 rest)) = length v"
    "drop 3 rest = v @ others"
  shows "response_values vals rest =
    response_values (vals(ty := Some ((case vals ty of None \<Rightarrow> [] | Some vs \<Rightarrow> vs) @ [v]))) others"
  using assms by (subst response_values.simps) (simp add: Let_def)

lemma query_fields_step:
  assumes "rest \<noteq> []" "\<not> length rest < 3" "rest ! 0 = ty" "unat (Uint16 (drop 1 rest)) = length v"
    "drop 3 rest = v @ others"
    and "ty = udpTLVName \<or> ty = udpTLVType \<or> ty = udpTLVSelector" "flds ty = None"
  shows "query_fields flds rest = query_fields (flds(ty := Some (bytes_str v))) others"
  using assms by (subst query_fields.simps) (simp add: Let_def)

lemma response_values_cons:
  assumes "length (tlv_val t) \<le> 65535"
  shows "response_values vals (encode_tlvs (t # ts)) =
    response_values
      (vals(tlv_typ t := Some ((case vals (tlv_typ t) of None \<Rightarrow> [] | Some vs \<Rightarrow> vs) @ [tlv_val t])))
      (encode_tlvs ts)"
proof -
  have "encode_tlvs (t # ts) =
      tlv_typ t # PutUint16 (word_of_nat (length (tlv_val t))) @ tlv_val t @ encode_tlvs ts"
    using assms by simp
  from tlv_head [OF assms this] show ?thesis by (rule response_values_step)
qed

lemma query_fields_cons:
  assumes "length (tlv_val t) \<le> 65535"
    and "tlv_typ t = udpTLVName \<or> tlv_typ t = udpTLVType \<or> tlv_typ t = udpTLVSelector"
    and "flds (tlv_typ t) = None"
  shows "query_fields flds (encode_tlvs (t # ts)) =
    query_fields (flds(tlv_typ t := Some (bytes_str (tlv_val t)))) (encode_tlvs ts)"
proof -
  have "encode_tlvs (t # ts) =
      tlv_typ t # PutUint16 (word_of_nat (length (tlv_val t))) @ tlv_val t @ encode_tlvs ts"
    using assms(1) by simp
  from tlv_head [OF assms(1) this] assms(2) assms(3) show ?thesis by (rule query_fields_step)
qed

lemma response_values_encode:
  "response_values vals (encode_tlvs ts) =
     Inr (\<lambda>ty. case tlv_values ts ty of None \<Rightarrow> vals ty
       | Some vs \<Rightarrow> Some ((case vals ty of None \<Rightarrow> [] | Some us \<Rightarrow> us) @ vs))"
proof (induction ts arbitrary: vals)
  case Nil
  show ?case by (simp add: response_values.simps [of vals "[]"] tlv_values_def)
next
  case (Cons t ts)
  show ?case
  proof (cases "length (tlv_val t) \<le> 65535")
    case True
    show ?thesis
      unfolding response_values_cons [OF True] Cons
      using True by (auto simp: tlv_values_def Let_def fun_eq_iff split: option.splits)
  next
    case False
    then show ?thesis using Cons by (auto simp: tlv_values_def)
  qed
qed

text \<open>the response decoder inverts the encoder: it returns the status byte and, for every TLV
  type, exactly the encoded vals of that type in their order (a value over 65535 bytes, which
  the length field cannot express, is the only thing that is left out).\<close>

theorem udp_response_roundtrip:
  "decodeUDPResponse (encodeUDPResponse status tlvs) = Inr (status, tlv_values tlvs)"
proof -
  have "(\<lambda>ty. case tlv_values tlvs ty of None \<Rightarrow> None
      | Some vs \<Rightarrow> Some ((case None of None \<Rightarrow> [] | Some us \<Rightarrow> us) @ vs)) = tlv_values tlvs"
    by (auto split: option.splits)
  then show ?thesis
    by (simp add: decodeUDPResponse_def response_values_encode)
qed

lemma query_fields_query:
  assumes "length (qName q) \<le> 65535" "length (qType q) \<le> 65535" "length (qSelector q) \<le> 65535"
  shows "query_fields (\<lambda>_. None) (drop 6 (encodeUDPQuery q)) =
    Inr ((\<lambda>_. None)(udpTLVName := Some (qName q), udpTLVType := Some (qType q), udpTLVSelector := Some (qSelector q)))"
  using assms
  by (simp add: encodeUDPQuery_def query_fields_cons query_fields.simps [of _ "[]"]
      udpTLVName_def udpTLVType_def udpTLVSelector_def del: encode_tlvs.simps(2))

lemma wf_query_lengths: "wf_query U q \<Longrightarrow> length (qName q) \<le> 63 \<and> length (qType q) \<le> 32"
  by (auto simp: wf_query_def nameRe_def typeRe_def split: list.splits)

text \<open>a query survives the wire: for every query that \<open>query.New\<close> can produce and whose
  selector fits a TLV, the resolver's decoder returns exactly the query that was encoded.\<close>

theorem udp_query_roundtrip:
  assumes "New_query U name ty pairs = Inr q" and "length (qSelector q) \<le> 65535"
  shows "decodeUDPQuery U (encodeUDPQuery q) = Inr q"
proof -
  from assms(1) have q: "qName q = name" "qType q = ty" "CanonicalSelector U pairs = Inr (qSelector q)"
      and v: "ValidateName name = Inr ()" "ValidateType ty = Inr ()"
    by (auto simp: New_query_def rbind_eq_Inr)
  from q(3) have ps: "ParseSelectorString U (qSelector q) = Inr (qSelector q)"
    by (rule ParseSelectorString_canonical)
  then obtain ps' where p: "ParsePairs U (qSelector q) = Inr ps'" "CanonicalSelector U ps' = Inr (qSelector q)"
    by (auto simp: ParseSelectorString_def rbind_eq_Inr)
  have "length name \<le> 65535" "length ty \<le> 65535"
    using v by (auto simp: ValidateName_def ValidateType_def nameRe_def typeRe_def split: if_splits list.splits)
  note f = query_fields_query [OF this [folded q(1,2)] assms(2)]
  have h: "\<not> length (encodeUDPQuery q) < 6" "take 4 (encodeUDPQuery q) = udpMagic"
    "encodeUDPQuery q ! 4 = udpVersion" "encodeUDPQuery q ! 5 = 0"
    by (simp_all add: encodeUDPQuery_def)
  show ?thesis
    using f h p v q(1,2)
    by (simp add: decodeUDPQuery_def field_or_empty_def lift_query_def New_query_def
        udpTLVName_def udpTLVType_def udpTLVSelector_def)
qed

theorem udp_query_roundtrip_witness:
  "decodeUDPQuery ascii_only (encodeUDPQuery \<lparr>qName = ''example'', qType = ''SVC'', qSelector = ''port=25&transport=TCP''\<rparr>) =
   Inr \<lparr>qName = ''example'', qType = ''SVC'', qSelector = ''port=25&transport=TCP''\<rparr>"
  using udp_query_roundtrip [OF sample_New_query] by simp

end
