(* ===== verification/Rate_Limit.thy ===== *)
theory Rate_Limit
  imports Ddns_Prelude "HOL-Library.AList"
begin

text \<open>
  The per-IP rate limiter, src/resolver/internal/server/ratelimit.go. The token bucket of
  golang.org/x/time/rate is the record \<open>rate_lib\<close>; \<open>rl_Allow t\<close> is \<open>Allow\<close> at clock reading \<open>t\<close>. The map of
  entries is an association list with distinct keys. A request carries the three clock readings that
  \<open>allow\<close> makes, in nanoseconds: in \<open>prune\<close>, for \<open>lastSeen\<close>, and inside the bucket.
\<close>

section \<open>Definitions\<close>

record 'l rate_lib =
  rl_New :: "int \<Rightarrow> int \<Rightarrow> 'l"
  rl_Allow :: "int \<Rightarrow> 'l \<Rightarrow> 'l \<times> bool"

record 'l limiterEntry =
  le_lim :: 'l
  le_lastSeen :: int

record 'l ipLimiter =
  l_entries :: "(string \<times> 'l limiterEntry) list"
  l_rps :: int
  l_burst :: int

definition maxTrackedIPs :: nat where "maxTrackedIPs = 4096"

definition minute :: int where "minute = 60 * 1000000000"

definition newIPLimiter :: "int \<Rightarrow> int \<Rightarrow> 'l ipLimiter" where
  "newIPLimiter rps burst = \<lparr>l_entries = [], l_rps = rps, l_burst = burst\<rparr>"

definition prune :: "int \<Rightarrow> 'l ipLimiter \<Rightarrow> 'l ipLimiter" where
  "prune now l =
     (let cutoff = now - minute in l\<lparr>l_entries := filter (\<lambda>p. \<not> le_lastSeen (snd p) < cutoff) (l_entries l)\<rparr>)"

definition allow :: "'l rate_lib \<Rightarrow> int \<times> int \<times> int \<Rightarrow> string \<Rightarrow> 'l ipLimiter \<Rightarrow> 'l ipLimiter \<times> bool" where
  "allow R ts ip l =
     (let (t1, t2, t3) = ts;
          (l, e) = (case map_of (l_entries l) ip of
              Some e \<Rightarrow> (l, e)
            | None \<Rightarrow>
                (if length (l_entries l) \<ge> maxTrackedIPs then prune t1 l else l,
                 \<lparr>le_lim = rl_New R (l_rps l) (l_burst l), le_lastSeen = 0\<rparr>));
          (lim, ok) = rl_Allow R t3 (le_lim e)
      in (l\<lparr>l_entries := AList.update ip \<lparr>le_lim = lim, le_lastSeen = t2\<rparr> (l_entries l)\<rparr>, ok))"

text \<open>A sequence of requests and the decisions made for one address.\<close>

fun limiter_run ::
  "'l rate_lib \<Rightarrow> ((int \<times> int \<times> int) \<times> string) list \<Rightarrow> 'l ipLimiter \<Rightarrow> 'l ipLimiter \<times> (string \<times> bool) list" where
  "limiter_run R [] l = (l, [])"
| "limiter_run R ((ts, ip) # rs) l =
     (let (l, ok) = allow R ts ip l; (l, oks) = limiter_run R rs l in (l, (ip, ok) # oks))"

text \<open>One bucket serving the requests of one address.\<close>

fun bucket_run :: "'l rate_lib \<Rightarrow> int list \<Rightarrow> 'l \<Rightarrow> bool list" where
  "bucket_run R [] b = []"
| "bucket_run R (t # ts) b = (let (b, ok) = rl_Allow R t b in ok # bucket_run R ts b)"

section \<open>Facts\<close>

lemma map_of_filter_snd:
  "distinct (map fst xs) \<Longrightarrow>
   map_of (filter (\<lambda>p. P (snd p)) xs) k = (case map_of xs k of Some v \<Rightarrow> if P v then Some v else None | None \<Rightarrow> None)"
proof (induction xs)
  case (Cons x xs)
  obtain a b where x: "x = (a, b)" by fastforce
  have "a \<notin> fst ` set xs" using Cons.prems x by simp
  then have "map_of xs a = None" by (simp add: map_of_eq_None_fst)
  then show ?case using Cons x by (auto split: option.splits)
qed simp

lemma distinct_fst_filter: "distinct (map fst xs) \<Longrightarrow> distinct (map fst (filter P xs))"
  by (rule distinct_map_filter)

lemma prune_lookup:
  "distinct (map fst (l_entries l)) \<Longrightarrow>
   map_of (l_entries (prune now l)) k =
     (case map_of (l_entries l) k of Some e \<Rightarrow> if le_lastSeen e < now - minute then None else Some e | None \<Rightarrow> None)"
  using map_of_filter_snd [of "l_entries l" "\<lambda>e. \<not> le_lastSeen e < now - minute" k]
  by (auto simp: prune_def Let_def split: option.splits)

lemma prune_keeps [simp]: "l_rps (prune t l) = l_rps l" "l_burst (prune t l) = l_burst l"
  by (simp_all add: prune_def Let_def)

lemma prune_distinct: "distinct (map fst (l_entries l)) \<Longrightarrow> distinct (map fst (l_entries (prune t l)))"
  by (simp add: prune_def Let_def distinct_fst_filter)

text \<open>The state after a request: the address gets its updated bucket, any other address keeps its entry or,
  if idle for over a minute, loses it.\<close>

definition own_bucket :: "'l rate_lib \<Rightarrow> 'l ipLimiter \<Rightarrow> string \<Rightarrow> 'l" where
  "own_bucket R l ip =
     (case map_of (l_entries l) ip of Some e \<Rightarrow> le_lim e | None \<Rightarrow> rl_New R (l_rps l) (l_burst l))"

lemma allow_spec:
  assumes d: "distinct (map fst (l_entries l))" and a: "allow R (t1, t2, t3) ip l = (l', ok)"
  shows "distinct (map fst (l_entries l'))" and "l_rps l' = l_rps l" "l_burst l' = l_burst l"
    and "rl_Allow R t3 (own_bucket R l ip) = (own_bucket R l' ip, ok)"
    and "map_of (l_entries l') ip = Some \<lparr>le_lim = own_bucket R l' ip, le_lastSeen = t2\<rparr>"
    and "j \<noteq> ip \<Longrightarrow> map_of (l_entries l') j = map_of (l_entries l) j \<or>
      (map_of (l_entries l') j = None \<and> (\<exists>e. map_of (l_entries l) j = Some e \<and> le_lastSeen e < t1 - minute))"
proof -
  define m where "m = (case map_of (l_entries l) ip of Some e \<Rightarrow> l
    | None \<Rightarrow> if length (l_entries l) \<ge> maxTrackedIPs then prune t1 l else l)"
  obtain b where b: "rl_Allow R t3 (own_bucket R l ip) = (b, ok)"
    and l': "l' = m\<lparr>l_entries := AList.update ip \<lparr>le_lim = b, le_lastSeen = t2\<rparr> (l_entries m)\<rparr>"
    using a by (auto simp: allow_def m_def own_bucket_def Let_def split: option.splits prod.splits)
  have dm: "distinct (map fst (l_entries m))"
    using d prune_distinct [OF d] by (simp add: m_def split: option.split)
  show "distinct (map fst (l_entries l'))" using dm by (simp add: l' distinct_update)
  show "l_rps l' = l_rps l" "l_burst l' = l_burst l" by (simp_all add: l' m_def split: option.split)
  have own: "map_of (l_entries l') ip = Some \<lparr>le_lim = b, le_lastSeen = t2\<rparr>"
    by (simp add: l' update_conv)
  then have ob: "own_bucket R l' ip = b" by (simp add: own_bucket_def)
  show "rl_Allow R t3 (own_bucket R l ip) = (own_bucket R l' ip, ok)" using b ob by simp
  show "map_of (l_entries l') ip = Some \<lparr>le_lim = own_bucket R l' ip, le_lastSeen = t2\<rparr>" using own ob by simp
  assume j: "j \<noteq> ip"
  then have "map_of (l_entries l') j = map_of (l_entries m) j" by (simp add: l' update_conv)
  then show "map_of (l_entries l') j = map_of (l_entries l) j \<or>
      (map_of (l_entries l') j = None \<and> (\<exists>e. map_of (l_entries l) j = Some e \<and> le_lastSeen e < t1 - minute))"
    using prune_lookup [OF d, of t1 j] by (auto simp: m_def split: option.splits if_splits)
qed

definition seen_since :: "int \<Rightarrow> string \<Rightarrow> 'l ipLimiter \<Rightarrow> bool" where
  "seen_since T ip l = (case map_of (l_entries l) ip of None \<Rightarrow> True | Some e \<Rightarrow> T \<le> le_lastSeen e)"

lemma allow_other:
  assumes "distinct (map fst (l_entries l))" "allow R (t1, t2, t3) j l = (l', ok)" "j \<noteq> ip"
    and "seen_since T ip l" "t1 \<le> T + minute"
  shows "own_bucket R l' ip = own_bucket R l ip" and "seen_since T ip l'"
proof -
  have "map_of (l_entries l') ip = map_of (l_entries l) ip"
    using allow_spec(6) [OF assms(1,2), of ip] assms(3-5) by (auto simp: seen_since_def)
  then show "own_bucket R l' ip = own_bucket R l ip" "seen_since T ip l'"
    using allow_spec(2,3) [OF assms(1,2)] assms(4) by (simp_all add: own_bucket_def seen_since_def split: option.split)
qed

lemma limiter_run_window:
  assumes "distinct (map fst (l_entries l))" "seen_since T ip l"
    and "list_all (\<lambda>((t1, t2, t3), j). T \<le> t2 \<and> t1 \<le> T + minute) rs"
  shows "map snd (filter (\<lambda>p. fst p = ip) (snd (limiter_run R rs l))) =
    bucket_run R (map (\<lambda>r. snd (snd (fst r))) (filter (\<lambda>r. snd r = ip) rs)) (own_bucket R l ip)"
  using assms
proof (induction rs arbitrary: l)
  case (Cons r rs)
  obtain t1 t2 t3 j where r: "r = ((t1, t2, t3), j)" by (metis prod.exhaust)
  obtain l' ok where a: "allow R (t1, t2, t3) j l = (l', ok)" by fastforce
  note sp = allow_spec [OF Cons.prems(1) a]
  have t: "T \<le> t2" "t1 \<le> T + minute" using Cons.prems(3) r by simp_all
  have seen: "seen_since T ip l'"
    using allow_other(2) [OF Cons.prems(1) a _ Cons.prems(2) t(2)] sp(5) t(1) by (cases "j = ip") (auto simp: seen_since_def)
  note ih = Cons.IH [OF sp(1) seen]
  show ?case
  proof (cases "j = ip")
    case True
    then show ?thesis using ih Cons.prems(3) sp(4) a by (simp add: r case_prod_beta Let_def)
  next
    case False
    then show ?thesis
      using ih Cons.prems(3) allow_other(1) [OF Cons.prems(1) a False Cons.prems(2) t(2)]
      by (simp add: r a case_prod_beta Let_def)
  qed
qed simp

lemma update_new: "k \<notin> fst ` set xs \<Longrightarrow> AList.update k v xs = xs @ [(k, v)]"
  by (induction xs) auto

lemma allow_new_length:
  assumes "distinct (map fst (l_entries l))" "map_of (l_entries l) ip = None"
    and "\<forall>e \<in> snd ` set (l_entries l). T \<le> le_lastSeen e" "t1 \<le> T + minute" "T \<le> t2"
    and a: "allow R (t1, t2, t3) ip l = (l', ok)"
  shows "length (l_entries l') = Suc (length (l_entries l))"
    and "set (map fst (l_entries l')) = insert ip (set (map fst (l_entries l)))"
    and "\<forall>e \<in> snd ` set (l_entries l'). T \<le> le_lastSeen e"
proof -
  have "filter (\<lambda>p. \<not> le_lastSeen (snd p) < t1 - minute) (l_entries l) = l_entries l"
    using assms(3,4) by (intro filter_True) force
  then have "prune t1 l = l" by (simp add: prune_def)
  then obtain b where e: "l_entries l' = AList.update ip \<lparr>le_lim = b, le_lastSeen = t2\<rparr> (l_entries l)"
    using a assms(2) by (auto simp: allow_def Let_def split: prod.splits if_splits)
  have "ip \<notin> fst ` set (l_entries l)" using assms(2) by (simp add: map_of_eq_None_fst)
  then have "l_entries l' = l_entries l @ [(ip, \<lparr>le_lim = b, le_lastSeen = t2\<rparr>)]"
    unfolding e by (simp add: update_new)
  then show "length (l_entries l') = Suc (length (l_entries l))"
    "set (map fst (l_entries l')) = insert ip (set (map fst (l_entries l)))"
    "\<forall>e \<in> snd ` set (l_entries l'). T \<le> le_lastSeen e"
    using assms(3,5) by auto
qed

lemma limiter_run_new:
  assumes "distinct (map snd rs)" "set (map snd rs) \<inter> set (map fst (l_entries l)) = {}"
    and "distinct (map fst (l_entries l))" "\<forall>e \<in> snd ` set (l_entries l). T \<le> le_lastSeen e"
    and "list_all (\<lambda>((t1, t2, t3), j). T \<le> t2 \<and> t1 \<le> T + minute) rs"
  shows "length (l_entries (fst (limiter_run R rs l))) = length (l_entries l) + length rs"
  using assms
proof (induction rs arbitrary: l)
  case (Cons r rs)
  obtain t1 t2 t3 j where r: "r = ((t1, t2, t3), j)" by (metis prod.exhaust)
  obtain l' ok where a: "allow R (t1, t2, t3) j l = (l', ok)" by fastforce
  have n: "map_of (l_entries l) j = None" using Cons.prems(2) r by (auto simp: map_of_eq_None_fst)
  have t: "T \<le> t2" "t1 \<le> T + minute" using Cons.prems(5) r by simp_all
  note sp = allow_new_length [OF Cons.prems(3) n Cons.prems(4) t(2,1) a]
  have "length (l_entries (fst (limiter_run R rs l'))) = length (l_entries l') + length rs"
  proof (rule Cons.IH)
    show "set (map snd rs) \<inter> set (map fst (l_entries l')) = {}"
      using Cons.prems(1,2) sp(2) r by auto
  qed (use Cons.prems sp allow_spec(1) [OF Cons.prems(3) a] r in simp_all)
  then show ?case using sp(1) by (simp add: r a case_prod_beta Let_def)
qed simp

section \<open>Properties\<close>

text \<open>
  The limit is per address and cannot be evaded or triggered by others: over any stretch of requests that
  takes at most a minute, the decisions for an address are those of one token bucket fed with that address's
  requests alone, however many other addresses flood the limiter and whatever is pruned.
\<close>

theorem limiter_is_per_address:
  assumes "distinct (map fst (l_entries l))" and "seen_since T ip l"
    and "list_all (\<lambda>((t1, t2, t3), j). T \<le> t2 \<and> t1 \<le> T + minute) rs"
  shows "map snd (filter (\<lambda>p. fst p = ip) (snd (limiter_run R rs l))) =
    bucket_run R (map (\<lambda>r. snd (snd (fst r))) (filter (\<lambda>r. snd r = ip) rs)) (own_bucket R l ip)"
  by (rule limiter_run_window [OF assms])

text \<open>A bucket that grants a fixed number of requests.\<close>

definition counting_bucket :: "int rate_lib" where
  "counting_bucket = \<lparr>rl_New = (\<lambda>rps burst. burst), rl_Allow = (\<lambda>t b. if 0 < b then (b - 1, True) else (b, False))\<rparr>"

theorem limiter_is_per_address_witness:
  "map snd (filter (\<lambda>p. fst p = ''a'') (snd (limiter_run counting_bucket
     [((1, 1, 1), ''a''), ((2, 2, 2), ''b''), ((3, 3, 3), ''a''), ((4, 4, 4), ''a'')] (newIPLimiter 1 2)))) = [True, True, False]"
  using limiter_is_per_address [of "newIPLimiter 1 2" 0 "''a''"
      "[((1, 1, 1), ''a''), ((2, 2, 2), ''b''), ((3, 3, 3), ''a''), ((4, 4, 4), ''a'')]" counting_bucket]
  by (simp add: newIPLimiter_def seen_since_def minute_def counting_bucket_def own_bucket_def)

text \<open>
  The number of tracked addresses is not bounded by \<open>maxTrackedIPs\<close>: requests from any number of distinct
  addresses within a minute leave one entry for each, since pruning removes only idle entries.
\<close>

theorem limiter_map_unbounded:
  assumes "distinct (map snd rs)" and "list_all (\<lambda>((t1, t2, t3), j). T \<le> t2 \<and> t1 \<le> T + minute) rs"
  shows "length (l_entries (fst (limiter_run R rs (newIPLimiter rps burst)))) = length rs"
  using limiter_run_new [OF assms(1) _ _ _ assms(2), of "newIPLimiter rps burst"] by (simp add: newIPLimiter_def)

theorem limiter_map_unbounded_witness:
  "maxTrackedIPs < length (l_entries (fst (limiter_run counting_bucket
     (map (\<lambda>n. ((0, 0, 0), replicate n CHR ''1'')) [0..<5000]) (newIPLimiter 20 40))))"
proof -
  let ?rs = "map (\<lambda>n. ((0, 0, 0), replicate n CHR ''1'')) [0..<5000] :: ((int \<times> int \<times> int) \<times> string) list"
  have "inj_on (\<lambda>n. replicate n CHR ''1'') (set [0..<5000])"
    by (rule inj_onI) (metis length_replicate)
  then have "distinct (map snd ?rs)" by (simp add: distinct_map comp_def)
  moreover have "list_all (\<lambda>((t1, t2, t3), j). 0 \<le> t2 \<and> t1 \<le> 0 + minute) ?rs"
    by (simp add: list_all_iff minute_def)
  ultimately have "length (l_entries (fst (limiter_run counting_bucket ?rs (newIPLimiter 20 40)))) = length ?rs"
    by (rule limiter_map_unbounded)
  then show ?thesis by (simp add: maxTrackedIPs_def)
qed

end
