(* ===== verification/Config_Env.thy ===== *)
theory Config_Env
  imports Go_Strings
begin

text \<open>
  The configuration, src/resolver/internal/config: reading the .env file, the environment with defaults, the
  deployment artifact, and the range checks.

  The process environment is a map from keys to values; the files the package looks at are the record
  \<open>config_files\<close>, with \<open>cf_deployments\<close> for the decoding of the artifact's JSON.
\<close>

section \<open>Definitions\<close>

type_synonym env = "string \<Rightarrow> string option"

record config =
  RPCURL :: string
  ContractAddress :: string
  RegistryAddress :: string
  KeystorePath :: string
  RESTPort :: int
  UDPPort :: int
  BTListenPort :: int
  CacheSize :: int
  RateRPS :: int
  RateBurst :: int
  DataDir :: string
  AllowPeerHints :: bool
  EnforceType :: bool
  EnableShowcase :: bool
  ResolverRegistryAddress :: string
  ResolverIncentivesAddress :: string

record config_files =
  cf_dotenv :: "string option"
  cf_exists :: "string \<Rightarrow> bool"
  cf_read :: "string \<Rightarrow> string option"
  cf_deployments :: "string \<Rightarrow> (string \<times> string \<times> string \<times> string) option"

datatype config_error =
    ErrNotInteger string string
  | ErrPortRange string int
  | ErrBTPort int
  | ErrCacheSize int
  | ErrRates int int

definition Getenv :: "env \<Rightarrow> string \<Rightarrow> string" where
  "Getenv e k = (case e k of Some v \<Rightarrow> v | None \<Rightarrow> [])"

definition getEnv :: "env \<Rightarrow> string \<Rightarrow> string \<Rightarrow> string" where
  "getEnv e key def = (let v = Getenv e key in if v \<noteq> [] then v else def)"

definition getEnvInt :: "env \<Rightarrow> string \<Rightarrow> int \<Rightarrow> config_error + int" where
  "getEnvInt e key def =
     (let v = Getenv e key
      in if v = [] then Inr def
         else case Atoi v of None \<Rightarrow> Inl (ErrNotInteger key v) | Some n \<Rightarrow> Inr n)"

definition getEnvPort :: "env \<Rightarrow> string \<Rightarrow> int \<Rightarrow> config_error + int" where
  "getEnvPort e key def =
     rbind (getEnvInt e key def) (\<lambda>n. if n < 1 \<or> n > 65535 then Inl (ErrPortRange key n) else Inr n)"

definition getEnvBool :: "unicode \<Rightarrow> env \<Rightarrow> string \<Rightarrow> bool \<Rightarrow> bool" where
  "getEnvBool U e key def =
     (let v = TrimSpace (ToLower U (Getenv e key))
      in if v = [] then def else v \<in> set [''1'', ''true'', ''yes'', ''on''])"

subsection \<open>The .env file\<close>

text \<open>The lines \<open>bufio.Scanner\<close> yields: split at newlines, a trailing carriage return dropped, no empty last
  line, and an end at the first line that does not fit the scanner's buffer of 64 KiB.\<close>

definition drop_cr :: "string \<Rightarrow> string" where
  "drop_cr l = (if l \<noteq> [] \<and> last l = CHR 0x0D then butlast l else l)"

definition scan_lines :: "string \<Rightarrow> string list" where
  "scan_lines s =
     (let ls = split_on CHR 0x0A s; ls = (if last ls = [] then butlast ls else ls)
      in map drop_cr (takeWhile (\<lambda>l. length l < 65536) ls))"

text \<open>\<open>strings.Trim\<close> with an ASCII cutset.\<close>

definition trim_set :: "char set \<Rightarrow> string \<Rightarrow> string" where
  "trim_set cs s = rev (dropWhile (\<lambda>c. c \<in> cs) (rev (dropWhile (\<lambda>c. c \<in> cs) s)))"

text \<open>\<open>os.Setenv\<close> refuses NUL bytes, an empty key and a key with \<open>=\<close>; the error is ignored.\<close>

definition Setenv :: "string \<Rightarrow> string \<Rightarrow> env \<Rightarrow> env" where
  "Setenv k v e =
     (if k = [] \<or> CHR ''='' \<in> set k \<or> CHR 0x00 \<in> set k \<or> CHR 0x00 \<in> set v then e else e(k \<mapsto> v))"

definition dotenv_line :: "string \<Rightarrow> env \<Rightarrow> env" where
  "dotenv_line text e =
     (let line = TrimSpace text
      in if line = [] \<or> HasPrefix line ''#'' then e
         else case cut_at CHR ''='' (TrimPrefix line ''export '') of
                None \<Rightarrow> e
              | Some (k, v) \<Rightarrow>
                  (let k = TrimSpace k; v = trim_set {CHR 0x22, CHR 0x27} (TrimSpace v)
                   in if k = [] then e else if e k = None then Setenv k v e else e))"

definition loadDotEnv :: "config_files \<Rightarrow> env \<Rightarrow> env" where
  "loadDotEnv F e = (case cf_dotenv F of None \<Rightarrow> e | Some data \<Rightarrow> fold dotenv_line (scan_lines data) e)"

subsection \<open>Deployments and the configuration\<close>

definition loadDeployments :: "config_files \<Rightarrow> string \<Rightarrow> string \<times> string \<times> string \<times> string" where
  "loadDeployments F path =
     (if path = [] then ([], [], [], [])
      else
        (let data = (case cf_read F path of
              Some d \<Rightarrow> Some d
            | None \<Rightarrow> if HasPrefix path ''../'' then cf_read F (TrimPrefix path ''../'') else cf_read F (''../'' @ path))
         in case data of
              None \<Rightarrow> ([], [], [], [])
            | Some d \<Rightarrow> (case cf_deployments F d of None \<Rightarrow> ([], [], [], []) | Some cs \<Rightarrow> cs)))"

definition deployment_candidates :: "unicode \<Rightarrow> env \<Rightarrow> string \<Rightarrow> string list" where
  "deployment_candidates U e rpcURL =
     (if contains_sub (ToLower U rpcURL) ''sepolia'' \<or> Getenv e ''DDNS_NETWORK'' = ''sepolia''
      then [''contracts/deployments/sepolia.json'', ''../contracts/deployments/sepolia.json'',
            ''contracts/deployments/localhost.json'', ''../contracts/deployments/localhost.json'']
      else [''contracts/deployments/localhost.json'', ''../contracts/deployments/localhost.json'',
            ''contracts/deployments/sepolia.json'', ''../contracts/deployments/sepolia.json''])"

definition with_addresses :: "unicode \<Rightarrow> config_files \<Rightarrow> env \<Rightarrow> config \<Rightarrow> config" where
  "with_addresses U F e cfg =
     (if ContractAddress cfg = [] \<or> RegistryAddress cfg = [] \<or> EnableShowcase cfg then
        (let depPath = getEnv e ''DEPLOYMENTS'' (getEnv e ''DDNS_DEPLOYMENTS'' []);
             depPath = (if depPath = []
               then (case find (cf_exists F) (deployment_candidates U e (RPCURL cfg)) of Some c \<Rightarrow> c | None \<Rightarrow> [])
               else depPath);
             (ns, reg, resReg, resInc) = loadDeployments F depPath;
             cfg = (if ContractAddress cfg = [] then cfg\<lparr>ContractAddress := ns\<rparr> else cfg);
             cfg = (if RegistryAddress cfg = [] then cfg\<lparr>RegistryAddress := reg\<rparr> else cfg)
         in cfg\<lparr>ResolverRegistryAddress := resReg, ResolverIncentivesAddress := resInc\<rparr>)
      else cfg)"

definition FromEnv :: "unicode \<Rightarrow> config_files \<Rightarrow> env \<Rightarrow> env \<times> (config_error + config)" where
  "FromEnv U F e0 =
     (let e = loadDotEnv F e0;
          cfg = \<lparr>RPCURL = getEnv e ''RPC_URL'' ''http://127.0.0.1:8545'',
                 ContractAddress = Getenv e ''CONTRACT_ADDRESS'', RegistryAddress = Getenv e ''REGISTRY_ADDRESS'',
                 KeystorePath = getEnv e ''RESOLVER_KEYSTORE'' ''resolver.key'',
                 RESTPort = 0, UDPPort = 0, BTListenPort = 0, CacheSize = 0, RateRPS = 0, RateBurst = 0,
                 DataDir = getEnv e ''DATA_DIR'' ''./data'',
                 AllowPeerHints = getEnvBool U e ''ALLOW_PEER_HINTS'' False,
                 EnforceType = getEnvBool U e ''ENFORCE_CONTENT_TYPE'' False,
                 EnableShowcase = getEnvBool U e ''ENABLE_SHOWCASE'' False,
                 ResolverRegistryAddress = [], ResolverIncentivesAddress = []\<rparr>;
          cfg = with_addresses U F e cfg
      in (e,
          rbind (getEnvPort e ''REST_PORT'' 8080) (\<lambda>rest.
          rbind (getEnvPort e ''UDP_PORT'' 5354) (\<lambda>udp.
          rbind (getEnvInt e ''BT_LISTEN_PORT'' 42069) (\<lambda>bt.
            if bt < 0 \<or> bt > 65535 then Inl (ErrBTPort bt) else
          rbind (getEnvInt e ''CACHE_SIZE'' 4096) (\<lambda>cache.
            if cache \<le> 0 then Inl (ErrCacheSize cache) else
          rbind (getEnvInt e ''RATE_RPS'' 20) (\<lambda>rps.
          rbind (getEnvInt e ''RATE_BURST'' 40) (\<lambda>burst.
            if rps \<le> 0 \<or> burst \<le> 0 then Inl (ErrRates rps burst)
            else Inr (cfg\<lparr>RESTPort := rest, UDPPort := udp, BTListenPort := bt, CacheSize := cache,
                          RateRPS := rps, RateBurst := burst\<rparr>)))))))))"

definition config_valid :: "config \<Rightarrow> bool" where
  "config_valid cfg \<longleftrightarrow>
     1 \<le> RESTPort cfg \<and> RESTPort cfg \<le> 65535 \<and> 1 \<le> UDPPort cfg \<and> UDPPort cfg \<le> 65535 \<and>
     0 \<le> BTListenPort cfg \<and> BTListenPort cfg \<le> 65535 \<and> 0 < CacheSize cfg \<and> 0 < RateRPS cfg \<and> 0 < RateBurst cfg"

section \<open>Facts\<close>

lemma getEnvPort_Inr: "getEnvPort e key def = Inr n \<Longrightarrow> 1 \<le> n \<and> n \<le> 65535"
  by (auto simp: getEnvPort_def rbind_eq_Inr split: if_splits)

text \<open>The assignment a line of the file makes, if any, and the whole file as a map in which the first
  assignment of a key counts.\<close>

definition line_binding :: "string \<Rightarrow> (string \<times> string) option" where
  "line_binding text =
     (let line = TrimSpace text
      in if line = [] \<or> HasPrefix line ''#'' then None
         else case cut_at CHR ''='' (TrimPrefix line ''export '') of
                None \<Rightarrow> None
              | Some (k, v) \<Rightarrow>
                  (let k = TrimSpace k; v = trim_set {CHR 0x22, CHR 0x27} (TrimSpace v)
                   in if k = [] \<or> CHR ''='' \<in> set k \<or> CHR 0x00 \<in> set k \<or> CHR 0x00 \<in> set v then None else Some (k, v)))"

definition file_bindings :: "string \<Rightarrow> (string \<times> string) list" where
  "file_bindings data = List.map_filter line_binding (scan_lines data)"

lemma dotenv_line_binding:
  "dotenv_line l e = (case line_binding l of None \<Rightarrow> e | Some (k, v) \<Rightarrow> if e k = None then e(k \<mapsto> v) else e)"
  by (auto simp: dotenv_line_def line_binding_def Setenv_def Let_def split: option.splits)

lemma fold_dotenv: "fold dotenv_line ls e = map_of (List.map_filter line_binding ls) ++ e"
proof (induction ls arbitrary: e)
  case Nil
  show ?case by (simp add: List.map_filter_def)
next
  case (Cons l ls)
  show ?case
  proof (cases "line_binding l")
    case None
    then show ?thesis using Cons by (simp add: dotenv_line_binding List.map_filter_def)
  next
    case (Some p)
    obtain k v where p: "p = (k, v)" by fastforce
    have "map_of bs ++ (if e k = None then e(k \<mapsto> v) else e) = (map_of bs)(k \<mapsto> v) ++ e" for bs
      by (auto simp: fun_eq_iff map_add_def split: option.splits)
    then show ?thesis using Cons Some p by (simp add: dotenv_line_binding List.map_filter_def fun_upd_def)
  qed
qed

section \<open>Properties\<close>

text \<open>
  A configuration that \<open>FromEnv\<close> returns is in range: both listen ports in 1..65535, the BitTorrent port in
  0..65535, and a positive cache size, request rate and burst; anything else in the environment is an error.
\<close>

theorem FromEnv_valid:
  assumes "FromEnv U F e = (e', Inr cfg)"
  shows "config_valid cfg"
  using assms getEnvPort_Inr
  by (auto simp: FromEnv_def Let_def rbind_eq_Inr config_valid_def split: if_splits)

definition no_files :: config_files where
  "no_files = \<lparr>cf_dotenv = None, cf_exists = (\<lambda>_. False), cf_read = (\<lambda>_. None), cf_deployments = (\<lambda>_. None)\<rparr>"

theorem FromEnv_valid_witness:
  "\<exists>cfg. snd (FromEnv \<lparr>uni_lower = id, uni_upper = id\<rparr> no_files Map.empty) = Inr cfg \<and> config_valid cfg \<and> UDPPort cfg = 5354"
proof -
  let ?r = "FromEnv \<lparr>uni_lower = id, uni_upper = id\<rparr> no_files Map.empty"
  have e: "loadDotEnv no_files Map.empty = Map.empty" by (simp add: no_files_def loadDotEnv_def)
  have i: "getEnvInt Map.empty k d = Inr d" for k d by (simp add: getEnvInt_def Getenv_def)
  obtain cfg where c: "snd ?r = Inr cfg" "UDPPort cfg = 5354"
    by (simp add: FromEnv_def Let_def getEnvPort_def e i)
  then have "?r = (fst ?r, Inr cfg)" by (simp add: prod_eq_iff)
  from FromEnv_valid [OF this] c show ?thesis by blast
qed

text \<open>
  The .env file only fills gaps: the environment after loading is the process environment, completed for
  unset keys by the first assignment of the key in the file.
\<close>

theorem dotenv_precedence:
  "loadDotEnv F e = (case cf_dotenv F of None \<Rightarrow> e | Some data \<Rightarrow> map_of (file_bindings data) ++ e)"
  by (simp add: loadDotEnv_def fold_dotenv file_bindings_def split: option.split)

end
