(* ===== verification/Torrent_Engine.thy ===== *)
theory Torrent_Engine
  imports Go_Strings
begin

text \<open>
  The BitTorrent engine, src/resolver/internal/torrent: seeding files, fetching and verifying resources, and the
  bookkeeping of which torrents are kept.

  The engine's own state (behind its mutex) is the record \<open>engine\<close>; the client of anacrolix/torrent, the file
  system and the network are the record \<open>torrent_lib\<close>, functions on a state \<open>'w\<close>. The first part models the
  operations one after the other. The second part is a step relation in which any number of fetches and
  seedings interleave: the critical sections of the mutex are single steps, and the calls of \<open>Drop\<close>, which the
  code makes after unlocking, are steps of their own.
\<close>

section \<open>State and operations\<close>

type_synonym infohash = bytes

record engine =
  en_pinned :: "infohash set"
  en_retained :: "infohash list"
  en_inUse :: "infohash \<Rightarrow> nat"

record 'w torrent_lib =
  tl_FromHexString :: "string \<Rightarrow> infohash option"
  tl_Sum256 :: "bytes \<Rightarrow> bytes"
  tl_AddTorrentInfoHash :: "infohash \<Rightarrow> 'w \<Rightarrow> 'w"
  tl_AddTorrentOpt :: "infohash \<Rightarrow> bytes \<Rightarrow> string \<Rightarrow> 'w \<Rightarrow> 'w"
  tl_ResolvePeer :: "string \<Rightarrow> string option"
  tl_AddPeer :: "infohash \<Rightarrow> string \<Rightarrow> 'w \<Rightarrow> 'w"
  tl_GotInfo :: "infohash \<Rightarrow> 'w \<Rightarrow> 'w \<times> string option"
  tl_Length :: "infohash \<Rightarrow> 'w \<Rightarrow> int"
  tl_Download :: "infohash \<Rightarrow> 'w \<Rightarrow> 'w \<times> (string + bytes)"
  tl_Torrent :: "infohash \<Rightarrow> 'w \<Rightarrow> bool"
  tl_Drop :: "infohash \<Rightarrow> 'w \<Rightarrow> 'w"
  tl_ReadFile :: "string \<Rightarrow> 'w \<Rightarrow> string + bytes"
  tl_BuildInfo :: "string \<Rightarrow> 'w \<Rightarrow> string + bytes"
  tl_HashInfoBytes :: "bytes \<Rightarrow> infohash"

datatype torrent_error =
    ErrBadInfoHash string
  | ErrBadSHA string
  | ErrMetadata string string
  | ErrTooLarge int
  | ErrDownload string string
  | ErrHashMismatch
  | ErrOpen string
  | ErrBuild string

definition MaxFetchBytes :: int where "MaxFetchBytes = 256 * 2 ^ 20"

definition maxRetainedTorrents :: nat where "maxRetainedTorrents = 256"

definition engine_New :: engine where
  "engine_New = \<lparr>en_pinned = {}, en_retained = [], en_inUse = (\<lambda>_. 0)\<rparr>"

definition pin :: "infohash \<Rightarrow> engine \<Rightarrow> engine" where
  "pin ih e = e\<lparr>en_pinned := insert ih (en_pinned e)\<rparr>"

definition acquire :: "infohash \<Rightarrow> engine \<Rightarrow> engine" where
  "acquire ih e = e\<lparr>en_inUse := (en_inUse e)(ih := en_inUse e ih + 1)\<rparr>"

text \<open>The critical section of \<open>release\<close>: the new state and whether to drop.\<close>

definition release_locked :: "infohash \<Rightarrow> engine \<Rightarrow> engine \<times> bool" where
  "release_locked ih e =
     (let e = (if en_inUse e ih > 0 then e\<lparr>en_inUse := (en_inUse e)(ih := en_inUse e ih - 1)\<rparr> else e)
      in (e, en_inUse e ih = 0 \<and> ih \<notin> en_pinned e))"

definition drop_torrent :: "'w torrent_lib \<Rightarrow> infohash \<Rightarrow> 'w \<Rightarrow> 'w" where
  "drop_torrent T ih w = (if tl_Torrent T ih w then tl_Drop T ih w else w)"

definition release :: "'w torrent_lib \<Rightarrow> infohash \<Rightarrow> engine \<times> 'w \<Rightarrow> engine \<times> 'w" where
  "release T ih s =
     (let (e, dropit) = release_locked ih (fst s) in (e, if dropit then drop_torrent T ih (snd s) else snd s))"

text \<open>The eviction loop of \<open>retain\<close>, and its critical section.\<close>

fun evict_loop :: "infohash list \<Rightarrow> engine \<Rightarrow> infohash list \<Rightarrow> engine \<times> infohash list" where
  "evict_loop [] e toDrop = (e\<lparr>en_retained := []\<rparr>, toDrop)"
| "evict_loop (old # rest) e toDrop =
     (if length (old # rest) > maxRetainedTorrents
      then evict_loop rest (e\<lparr>en_pinned := en_pinned e - {old}\<rparr>)
             (if en_inUse e old = 0 then toDrop @ [old] else toDrop)
      else (e\<lparr>en_retained := old # rest\<rparr>, toDrop))"

definition retain_locked :: "infohash \<Rightarrow> engine \<Rightarrow> engine \<times> infohash list" where
  "retain_locked ih e =
     (let e = (if ih \<notin> en_pinned e
               then e\<lparr>en_pinned := insert ih (en_pinned e), en_retained := en_retained e @ [ih]\<rparr> else e)
      in evict_loop (en_retained e) e [])"

definition retain :: "'w torrent_lib \<Rightarrow> infohash \<Rightarrow> engine \<times> 'w \<Rightarrow> engine \<times> 'w" where
  "retain T ih s = (let (e, toDrop) = retain_locked ih (fst s) in (e, fold (drop_torrent T) toDrop (snd s)))"

definition add_peers :: "'w torrent_lib \<Rightarrow> infohash \<Rightarrow> string list \<Rightarrow> 'w \<Rightarrow> 'w" where
  "add_peers T ih peers w =
     fold (\<lambda>p w. case tl_ResolvePeer T p of None \<Rightarrow> w | Some a \<Rightarrow> tl_AddPeer T ih a w)
       (peers @ [''127.0.0.1:42069'']) w"

text \<open>\<open>Fetch\<close> between \<open>acquire\<close> and the deferred calls: the result.\<close>

definition fetch_body ::
  "'w torrent_lib \<Rightarrow> infohash \<Rightarrow> string \<Rightarrow> bytes \<Rightarrow> string list \<Rightarrow> 'w \<Rightarrow> 'w \<times> (torrent_error + bytes)" where
  "fetch_body T ih infoHashHex expected peers w =
     (let w = add_peers T ih peers w
      in case tl_GotInfo T ih w of
           (w, Some e) \<Rightarrow> (w, Inl (ErrMetadata infoHashHex e))
         | (w, None) \<Rightarrow>
             if tl_Length T ih w > MaxFetchBytes then (w, Inl (ErrTooLarge (tl_Length T ih w)))
             else
               (case tl_Download T ih w of
                  (w, Inl e) \<Rightarrow> (w, Inl (ErrDownload infoHashHex e))
                | (w, Inr buf) \<Rightarrow>
                    if tl_Sum256 T buf \<noteq> expected then (w, Inl ErrHashMismatch) else (w, Inr buf)))"

definition Fetch ::
  "'w torrent_lib \<Rightarrow> string \<Rightarrow> string \<Rightarrow> string list \<Rightarrow> engine \<times> 'w \<Rightarrow> (engine \<times> 'w) \<times> (torrent_error + bytes)" where
  "Fetch T infoHashHex expectedSHAHex peers s =
     (case tl_FromHexString T infoHashHex of
        None \<Rightarrow> (s, Inl (ErrBadInfoHash infoHashHex))
      | Some ih \<Rightarrow>
          (case hex_decode expectedSHAHex of
             None \<Rightarrow> (s, Inl (ErrBadSHA expectedSHAHex))
           | Some expected \<Rightarrow>
               if length expected \<noteq> 32 then (s, Inl (ErrBadSHA expectedSHAHex))
               else
                 (let w = tl_AddTorrentInfoHash T ih (snd s);
                      e = acquire ih (fst s);
                      (w, r) = fetch_body T ih infoHashHex expected peers w;
                      s = (if isOk r then retain T ih (e, w) else (e, w))
                  in (release T ih s, r))))"

definition SeedFile ::
  "'w torrent_lib \<Rightarrow> string \<Rightarrow> engine \<times> 'w \<Rightarrow> (engine \<times> 'w) \<times> (torrent_error + string \<times> string)" where
  "SeedFile T path s =
     (case tl_ReadFile T path (snd s) of
        Inl e \<Rightarrow> (s, Inl (ErrOpen e))
      | Inr data \<Rightarrow>
          (case tl_BuildInfo T path (snd s) of
             Inl e \<Rightarrow> (s, Inl (ErrBuild e))
           | Inr infoBytes \<Rightarrow>
               (let ih = tl_HashInfoBytes T infoBytes;
                    w = tl_AddTorrentOpt T ih infoBytes path (snd s)
                in case tl_GotInfo T ih w of
                     (w, Some e) \<Rightarrow> ((fst s, w), Inl (ErrMetadata (hex_encode ih) e))
                   | (w, None) \<Rightarrow> ((pin ih (fst s), w), Inr (hex_encode ih, hex_encode (tl_Sum256 T data))))))"

section \<open>The bookkeeping invariant\<close>

definition engine_ok :: "engine \<Rightarrow> bool" where
  "engine_ok e \<longleftrightarrow>
     distinct (en_retained e) \<and> set (en_retained e) \<subseteq> en_pinned e \<and> length (en_retained e) \<le> maxRetainedTorrents"

lemma engine_New_ok [simp]: "engine_ok engine_New"
  by (simp add: engine_ok_def engine_New_def)

lemma pin_ok: "engine_ok e \<Longrightarrow> engine_ok (pin ih e)"
  by (auto simp: engine_ok_def pin_def)

lemma acquire_ok [simp]: "engine_ok (acquire ih e) = engine_ok e"
  by (simp add: engine_ok_def acquire_def)

lemma release_locked_eq:
  "release_locked ih e =
     (e\<lparr>en_inUse := (en_inUse e)(ih := en_inUse e ih - 1)\<rparr>, en_inUse e ih \<le> 1 \<and> ih \<notin> en_pinned e)"
proof (cases "en_inUse e ih > 0")
  case True
  then have "en_inUse e ih - 1 = 0 \<longleftrightarrow> en_inUse e ih \<le> 1" by linarith
  then show ?thesis using True by (simp add: release_locked_def)
next
  case False
  then have "(en_inUse e)(ih := en_inUse e ih - 1) = en_inUse e" by (auto simp: fun_eq_iff)
  then show ?thesis using False by (simp add: release_locked_def)
qed

lemma release_locked_ok: "release_locked ih e = (e', d) \<Longrightarrow> engine_ok e' = engine_ok e"
  by (auto simp: engine_ok_def release_locked_eq)

lemma evict_loop_spec:
  assumes "evict_loop rs e ds = (e', ds')" "distinct rs" "set rs \<subseteq> en_pinned e" 
  shows "engine_ok e'" "en_inUse e' = en_inUse e" "\<exists>n. en_retained e' = drop n rs \<and> en_pinned e' = en_pinned e - set (take n rs) \<and>
    ds' = ds @ filter (\<lambda>h. en_inUse e h = 0) (take n rs) \<and> n = length rs - maxRetainedTorrents"
proof -
  have "engine_ok e' \<and> en_inUse e' = en_inUse e \<and> (\<exists>n. en_retained e' = drop n rs \<and> en_pinned e' = en_pinned e - set (take n rs) \<and>
    ds' = ds @ filter (\<lambda>h. en_inUse e h = 0) (take n rs) \<and> n = length rs - maxRetainedTorrents)"
    using assms
  proof (induction rs e ds rule: evict_loop.induct)
    case (1 e toDrop)
    then show ?case by (auto simp: engine_ok_def)
  next
    case (2 old rest e toDrop)
    show ?case
    proof (cases "length (old # rest) > maxRetainedTorrents")
      case False
      then show ?thesis using 2(2-4) by (intro conjI exI [of _ 0]) (auto simp: engine_ok_def)
    next
      case True
      let ?e = "e\<lparr>en_pinned := en_pinned e - {old}\<rparr>"
      let ?d = "if en_inUse e old = 0 then toDrop @ [old] else toDrop"
      have "evict_loop rest ?e ?d = (e', ds')" using 2(2) True by simp
      moreover have "distinct rest" "set rest \<subseteq> en_pinned ?e" using 2(3,4) by auto
      ultimately have ih: "engine_ok e' \<and> en_inUse e' = en_inUse ?e \<and> (\<exists>n. en_retained e' = drop n rest \<and>
          en_pinned e' = en_pinned ?e - set (take n rest) \<and>
          ds' = ?d @ filter (\<lambda>h. en_inUse ?e h = 0) (take n rest) \<and> n = length rest - maxRetainedTorrents)"
        by (rule 2(1) [OF True])
      then obtain n where n: "en_retained e' = drop n rest" "en_pinned e' = en_pinned ?e - set (take n rest)"
        "ds' = ?d @ filter (\<lambda>h. en_inUse ?e h = 0) (take n rest)" "n = length rest - maxRetainedTorrents" by blast
      have "en_retained e' = drop (Suc n) (old # rest)" using n(1) by simp
      moreover have "en_pinned e' = en_pinned e - set (take (Suc n) (old # rest))" using n(2) by auto
      moreover have "ds' = toDrop @ filter (\<lambda>h. en_inUse e h = 0) (take (Suc n) (old # rest))" using n(3) by simp
      moreover have "Suc n = length (old # rest) - maxRetainedTorrents" using True n(4) by simp
      moreover have "engine_ok e'" "en_inUse e' = en_inUse e" using ih by simp_all
      ultimately show ?thesis by (intro conjI exI [of _ "Suc n"])
    qed
  qed
  then show "engine_ok e'" "en_inUse e' = en_inUse e" "\<exists>n. en_retained e' = drop n rs \<and> en_pinned e' = en_pinned e - set (take n rs) \<and>
    ds' = ds @ filter (\<lambda>h. en_inUse e h = 0) (take n rs) \<and> n = length rs - maxRetainedTorrents"
    by blast+
qed

lemma retain_locked_spec:
  assumes ok: "engine_ok e" and r: "retain_locked ih e = (e', ds)"
  shows "engine_ok e'" "en_inUse e' = en_inUse e" "ih \<in> en_pinned e'" "list_all (\<lambda>h. en_inUse e h = 0 \<and> h \<notin> en_pinned e') ds"
    "en_pinned e' \<subseteq> insert ih (en_pinned e)"
proof -
  define f where "f = (if ih \<notin> en_pinned e
     then e\<lparr>en_pinned := insert ih (en_pinned e), en_retained := en_retained e @ [ih]\<rparr> else e)"
  have ev: "evict_loop (en_retained f) f [] = (e', ds)" using r by (simp only: retain_locked_def f_def Let_def)
  have d: "distinct (en_retained f)" "set (en_retained f) \<subseteq> en_pinned f"
    using ok by (auto simp: f_def engine_ok_def)
  have len: "length (en_retained f) \<le> Suc maxRetainedTorrents" and fu: "en_inUse f = en_inUse e"
    and fp: "en_pinned f = insert ih (en_pinned e)"
    using ok by (auto simp: f_def engine_ok_def)
  note sp = evict_loop_spec [OF ev d]
  show "engine_ok e'" "en_inUse e' = en_inUse e" using sp(1,2) fu by simp_all
  obtain n where n: "en_pinned e' = en_pinned f - set (take n (en_retained f))"
    "ds = filter (\<lambda>h. en_inUse f h = 0) (take n (en_retained f))" "n = length (en_retained f) - maxRetainedTorrents"
    using sp(3) by auto
  show "list_all (\<lambda>h. en_inUse e h = 0 \<and> h \<notin> en_pinned e') ds" using n fu by (auto simp: list_all_iff)
  show "en_pinned e' \<subseteq> insert ih (en_pinned e)" using n(1) fp by auto
  have "ih \<notin> set (take n (en_retained f))"
  proof (cases "ih \<in> en_pinned e")
    case True
    then have "n = 0" using n(3) ok by (simp add: f_def engine_ok_def)
    then show ?thesis by simp
  next
    case False
    have "n \<le> 1" using n(3) len by simp
    moreover have "en_retained f = en_retained e @ [ih]" using False by (simp add: f_def)
    moreover have "n = 0 \<or> en_retained e \<noteq> []"
      using n(3) calculation(2) by (cases "en_retained e") (simp_all add: maxRetainedTorrents_def)
    ultimately have "n \<le> length (en_retained e)" "en_retained f = en_retained e @ [ih]"
      by (auto simp: le_Suc_eq Suc_le_eq)
    then have "take n (en_retained f) = take n (en_retained e)" by simp
    moreover have "ih \<notin> set (en_retained e)" using False ok by (auto simp: engine_ok_def)
    ultimately show ?thesis by (metis in_set_takeD)
  qed
  then show "ih \<in> en_pinned e'" using n(1) fp by blast
qed

section \<open>Interleaved operations\<close>

text \<open>
  \<open>sy_added ih\<close> counts the fetches of \<open>ih\<close> that have added the torrent but not yet called \<open>acquire\<close>,
  \<open>sy_reading ih\<close> those between \<open>acquire\<close> and \<open>release\<close>, \<open>sy_seeding ih\<close> the seedings that have added the torrent and wait for
  its metadata (after which they pin it, or give up when their context is done), \<open>sy_drops\<close> are the calls of \<open>Drop\<close> decided under the
  lock and not yet made, \<open>sy_client\<close> the torrents the client has, \<open>sy_seeded\<close> those published by \<open>SeedFile\<close>.
\<close>

record sys =
  sy_engine :: engine
  sy_client :: "infohash set"
  sy_added :: "infohash \<Rightarrow> nat"
  sy_reading :: "infohash \<Rightarrow> nat"
  sy_seeding :: "infohash \<Rightarrow> nat"
  sy_drops :: "infohash list"
  sy_seeded :: "infohash set"

definition sys_initial :: sys where
  "sys_initial = \<lparr>sy_engine = engine_New, sy_client = {}, sy_added = (\<lambda>_. 0), sy_reading = (\<lambda>_. 0),
     sy_seeding = (\<lambda>_. 0), sy_drops = [], sy_seeded = {}\<rparr>"

datatype sys_event =
    EvAdd infohash | EvAcquire infohash | EvRetain infohash | EvRelease infohash | EvDrop infohash
  | EvSeedAdd infohash | EvSeedPin infohash | EvSeedFail infohash

fun sys_enabled :: "sys_event \<Rightarrow> sys \<Rightarrow> bool" where
  "sys_enabled (EvAdd ih) s = True"
| "sys_enabled (EvAcquire ih) s = (0 < sy_added s ih)"
| "sys_enabled (EvRetain ih) s = (0 < sy_reading s ih)"
| "sys_enabled (EvRelease ih) s = (0 < sy_reading s ih)"
| "sys_enabled (EvDrop ih) s = (ih \<in> set (sy_drops s))"
| "sys_enabled (EvSeedAdd ih) s = True"
| "sys_enabled (EvSeedPin ih) s = (0 < sy_seeding s ih)"
| "sys_enabled (EvSeedFail ih) s = (0 < sy_seeding s ih)"

fun sys_exec :: "sys_event \<Rightarrow> sys \<Rightarrow> sys" where
  "sys_exec (EvAdd ih) s =
     s\<lparr>sy_client := insert ih (sy_client s), sy_added := (sy_added s)(ih := sy_added s ih + 1)\<rparr>"
| "sys_exec (EvAcquire ih) s =
     s\<lparr>sy_added := (sy_added s)(ih := sy_added s ih - 1), sy_reading := (sy_reading s)(ih := sy_reading s ih + 1),
       sy_engine := acquire ih (sy_engine s)\<rparr>"
| "sys_exec (EvRetain ih) s =
     (let (e, ds) = retain_locked ih (sy_engine s) in s\<lparr>sy_engine := e, sy_drops := sy_drops s @ ds\<rparr>)"
| "sys_exec (EvRelease ih) s =
     (let (e, d) = release_locked ih (sy_engine s)
      in s\<lparr>sy_engine := e, sy_reading := (sy_reading s)(ih := sy_reading s ih - 1),
           sy_drops := (if d then sy_drops s @ [ih] else sy_drops s)\<rparr>)"
| "sys_exec (EvDrop ih) s = s\<lparr>sy_client := sy_client s - {ih}, sy_drops := remove1 ih (sy_drops s)\<rparr>"
| "sys_exec (EvSeedAdd ih) s =
     s\<lparr>sy_client := insert ih (sy_client s), sy_seeding := (sy_seeding s)(ih := sy_seeding s ih + 1)\<rparr>"
| "sys_exec (EvSeedPin ih) s =
     s\<lparr>sy_seeding := (sy_seeding s)(ih := sy_seeding s ih - 1), sy_engine := pin ih (sy_engine s),
       sy_seeded := insert ih (sy_seeded s)\<rparr>"
| "sys_exec (EvSeedFail ih) s = s\<lparr>sy_seeding := (sy_seeding s)(ih := sy_seeding s ih - 1)\<rparr>"

inductive sys_reachable :: "sys \<Rightarrow> bool" where
  initial: "sys_reachable sys_initial"
| step: "sys_reachable s \<Longrightarrow> sys_enabled ev s \<Longrightarrow> sys_reachable (sys_exec ev s)"

lemma sys_exec_ok:
  assumes "engine_ok (sy_engine s)" "en_inUse (sy_engine s) = sy_reading s"
  shows "engine_ok (sy_engine (sys_exec ev s)) \<and> en_inUse (sy_engine (sys_exec ev s)) = sy_reading (sys_exec ev s)"
proof (cases ev)
  case (EvRetain ih)
  then show ?thesis
    using assms retain_locked_spec(1,2) [OF assms(1)] by (auto simp: split: prod.split)
next
  case (EvRelease ih)
  then show ?thesis using assms by (simp add: release_locked_eq engine_ok_def)
qed (use assms in \<open>auto simp: pin_ok acquire_def pin_def engine_ok_def\<close>)

lemma sys_reachable_ok:
  "sys_reachable s \<Longrightarrow> engine_ok (sy_engine s) \<and> en_inUse (sy_engine s) = sy_reading s"
proof (induction rule: sys_reachable.induct)
  case initial
  show ?case by (simp add: sys_initial_def engine_New_def engine_ok_def)
next
  case (step s ev)
  then show ?case using sys_exec_ok by blast
qed

text \<open>A run of events, for reachability of concrete states.\<close>

fun sys_run :: "sys_event list \<Rightarrow> sys \<Rightarrow> sys option" where
  "sys_run [] s = Some s"
| "sys_run (ev # evs) s = (if sys_enabled ev s then sys_run evs (sys_exec ev s) else None)"

lemma sys_run_reachable: "sys_reachable s \<Longrightarrow> sys_run evs s = Some s' \<Longrightarrow> sys_reachable s'"
  by (induction evs arbitrary: s) (auto intro: sys_reachable.step split: if_splits)

lemma sys_run_append: "sys_run (as @ bs) s = Option.bind (sys_run as s) (sys_run bs)"
  by (induction as arbitrary: s) auto

lemma evict_loop_small: "length rs \<le> maxRetainedTorrents \<Longrightarrow> evict_loop rs e ds = (e\<lparr>en_retained := rs\<rparr>, ds)"
  by (cases rs) simp_all

lemma evict_loop_one:
  "length rest = maxRetainedTorrents \<Longrightarrow> en_inUse e old = 0 \<Longrightarrow>
   evict_loop (old # rest) e ds = (e\<lparr>en_pinned := en_pinned e - {old}, en_retained := rest\<rparr>, ds @ [old])"
  by (simp add: evict_loop_small)

text \<open>One complete successful fetch, and the state after fetching the resources \<open>hs\<close>.\<close>

definition fetch_cycle :: "infohash \<Rightarrow> sys_event list" where
  "fetch_cycle h = [EvAdd h, EvAcquire h, EvRetain h, EvRelease h]"

definition fetched :: "infohash list \<Rightarrow> sys" where
  "fetched hs = \<lparr>sy_engine = \<lparr>en_pinned = set hs, en_retained = hs, en_inUse = (\<lambda>_. 0)\<rparr>, sy_client = set hs,
     sy_added = (\<lambda>_. 0), sy_reading = (\<lambda>_. 0), sy_seeding = (\<lambda>_. 0), sy_drops = [], sy_seeded = {}\<rparr>"

lemma upd_zero: "(\<lambda>x. 0 :: nat)(a := 0) = (\<lambda>_. 0)"
  by auto

lemma fetched_cycle:
  assumes "h \<notin> set hs" "length hs < maxRetainedTorrents"
  shows "sys_run (fetch_cycle h) (fetched hs) = Some (fetched (hs @ [h]))"
  using assms
  by (simp add: fetch_cycle_def fetched_def acquire_def retain_locked_def evict_loop_small release_locked_eq upd_zero Let_def)

lemma fetched_reachable: "distinct hs \<Longrightarrow> length hs \<le> maxRetainedTorrents \<Longrightarrow> sys_reachable (fetched hs)"
proof (induction hs rule: rev_induct)
  case Nil
  then show ?case using initial by (simp add: sys_initial_def fetched_def engine_New_def)
next
  case (snoc h hs)
  then show ?case using fetched_cycle [of h hs] sys_run_reachable [of "fetched hs" "fetch_cycle h"] by simp
qed

lemma seeded_then_evicted:
  assumes "length rest = maxRetainedTorrents - 1" "distinct (old # rest @ [h])"
  shows "\<exists>s'. sys_run (EvSeedAdd old # EvSeedPin old # fetch_cycle h @ [EvDrop old]) (fetched (old # rest)) = Some s' \<and>
    old \<in> sy_seeded s' \<and> old \<notin> en_pinned (sy_engine s') \<and> old \<notin> sy_client s'"
proof -
  have "length (rest @ [h]) = maxRetainedTorrents" using assms(1) by (simp add: maxRetainedTorrents_def)
  then show ?thesis
    using assms(2)
    by (auto simp: fetched_def fetch_cycle_def pin_def acquire_def retain_locked_def evict_loop_one release_locked_eq
        insert_absorb Let_def simp del: evict_loop.simps)
qed

subsection \<open>Fetching\<close>

lemma Fetch_spec:
  assumes "engine_ok (fst s)" and "Fetch T infoHashHex shaHex peers s = (s', r)"
  shows "case r of
      Inr body \<Rightarrow> hex_decode shaHex = Some (tl_Sum256 T body) \<and> engine_ok (fst s') \<and>
        en_inUse (fst s') = en_inUse (fst s) \<and>
        (\<exists>ih. tl_FromHexString T infoHashHex = Some ih \<and> ih \<in> en_pinned (fst s'))
    | Inl err \<Rightarrow> fst s' = fst s"
proof (cases "tl_FromHexString T infoHashHex")
  case None
  then show ?thesis using assms(2) by (auto simp: Fetch_def)
next
  case (Some ih)
  show ?thesis
  proof (cases "\<exists>expected. hex_decode shaHex = Some expected \<and> length expected = 32")
    case False
    then have "r = Inl (ErrBadSHA shaHex) \<and> s' = s"
      using assms(2) Some by (auto simp: Fetch_def split: option.splits)
    then show ?thesis by simp
  next
    case True
    then obtain expected where ex: "hex_decode shaHex = Some expected" "length expected = 32" by blast
    obtain w x where b: "fetch_body T ih infoHashHex expected peers (tl_AddTorrentInfoHash T ih (snd s)) = (w, x)"
      by fastforce
    let ?e = "acquire ih (fst s)"
    have s': "s' = release T ih (if isOk x then retain T ih (?e, w) else (?e, w))" "r = x"
      using assms(2) Some ex b by (auto simp: Fetch_def Let_def)
    have bk: "(en_inUse ?e)(ih := en_inUse ?e ih - 1) = en_inUse (fst s)" by (auto simp: acquire_def)
    show ?thesis
    proof (cases x)
      case (Inl err)
      then have "fst s' = ?e\<lparr>en_inUse := (en_inUse ?e)(ih := en_inUse ?e ih - 1)\<rparr>"
        using s'(1) by (simp add: release_def release_locked_eq)
      also have "\<dots> = fst s" unfolding bk by (simp add: acquire_def)
      finally show ?thesis using Inl s'(2) by simp
    next
      case (Inr body)
      obtain e1 ds where r1: "retain_locked ih ?e = (e1, ds)" by fastforce
      have "engine_ok ?e" using assms(1) by simp
      note rt = retain_locked_spec [OF this r1]
      have "fst s' = e1\<lparr>en_inUse := (en_inUse e1)(ih := en_inUse e1 ih - 1)\<rparr>"
        using s'(1) Inr by (simp add: release_def release_locked_eq retain_def r1)
      then have "engine_ok (fst s')" "en_inUse (fst s') = en_inUse (fst s)" "ih \<in> en_pinned (fst s')"
        using rt bk by (simp_all add: engine_ok_def)
      moreover have "tl_Sum256 T body = expected"
        using b Inr by (auto simp: fetch_body_def Let_def split: prod.splits option.splits sum.splits if_splits)
      ultimately show ?thesis using Inr s'(2) ex Some by simp
    qed
  qed
qed

lemma Fetch_ok: "engine_ok (fst s) \<Longrightarrow> engine_ok (fst (fst (Fetch T ih sha peers s)))"
  using Fetch_spec [of s T ih sha peers] by (cases "Fetch T ih sha peers s") (fastforce split: sum.splits)

lemma SeedFile_ok: "engine_ok (fst s) \<Longrightarrow> engine_ok (fst (fst (SeedFile T path s)))"
  by (auto simp: SeedFile_def Let_def pin_ok split: sum.splits prod.splits option.splits)

section \<open>Properties\<close>

text \<open>
  C28: The engine's bookkeeping stays consistent under any interleaving of fetches, seedings and drops: a torrent's
  use count is the number of fetches reading it, at most 256 fetched torrents are retained, each once, and all
  retained torrents are pinned.
\<close>

theorem engine_bookkeeping:
  assumes "sys_reachable s"
  shows "en_inUse (sy_engine s) = sy_reading s \<and> length (en_retained (sy_engine s)) \<le> 256 \<and>
    distinct (en_retained (sy_engine s)) \<and> set (en_retained (sy_engine s)) \<subseteq> en_pinned (sy_engine s)"
  using sys_reachable_ok [OF assms] by (simp add: engine_ok_def maxRetainedTorrents_def)

theorem engine_bookkeeping_witness:
  "sy_reading (fetched [[1], [2]]) = en_inUse (sy_engine (fetched [[1], [2]])) \<and>
   set (en_retained (sy_engine (fetched [[1], [2]]))) \<subseteq> en_pinned (sy_engine (fetched [[1], [2]]))"
  using engine_bookkeeping [OF fetched_reachable [of "[[1], [2]]"]] by (simp add: maxRetainedTorrents_def)

text \<open>
  Tampered content is never returned: the body that \<open>Fetch\<close> returns has the SHA-256 that the caller expects;
  the torrent is then kept, and the use count is as before the call. When \<open>Fetch\<close> fails, the bookkeeping is
  exactly as before.
\<close>

theorem fetch_returns_verified_content:
  assumes "engine_ok (fst s)" and "Fetch T infoHashHex shaHex peers s = (s', r)"
  shows "case r of
      Inr body \<Rightarrow> hex_decode shaHex = Some (tl_Sum256 T body) \<and> engine_ok (fst s') \<and>
        en_inUse (fst s') = en_inUse (fst s) \<and>
        (\<exists>ih. tl_FromHexString T infoHashHex = Some ih \<and> ih \<in> en_pinned (fst s'))
    | Inl err \<Rightarrow> fst s' = fst s"
  by (rule Fetch_spec [OF assms])

text \<open>A client that delivers one byte.\<close>

definition toy_torrents :: "unit torrent_lib" where
  "toy_torrents = \<lparr>tl_FromHexString = hex_decode, tl_Sum256 = (\<lambda>b. take 32 (b @ replicate 32 0)),
     tl_AddTorrentInfoHash = (\<lambda>_ w. w), tl_AddTorrentOpt = (\<lambda>_ _ _ w. w), tl_ResolvePeer = (\<lambda>_. None),
     tl_AddPeer = (\<lambda>_ _ w. w), tl_GotInfo = (\<lambda>_ w. (w, None)), tl_Length = (\<lambda>_ _. 1),
     tl_Download = (\<lambda>_ w. (w, Inr [7])), tl_Torrent = (\<lambda>_ _. True), tl_Drop = (\<lambda>_ w. w),
     tl_ReadFile = (\<lambda>_ _. Inl ''no file''), tl_BuildInfo = (\<lambda>_ _. Inl ''no file''), tl_HashInfoBytes = id\<rparr>"

theorem fetch_returns_verified_content_witness:
  "[0xab] \<in> en_pinned (fst (fst (Fetch toy_torrents ''ab'' (hex_encode (7 # replicate 31 0)) [] (engine_New, ()))))"
proof -
  have len: "length (7 # replicate 31 (0 :: byte)) = 32" by simp
  have h: "hex_decode ''ab'' = Some [0xab]" by (simp add: hex_value_def Let_def)
  have sum: "tl_Sum256 toy_torrents [7] = 7 # replicate 31 0" by (simp add: toy_torrents_def)
  have "snd (Fetch toy_torrents ''ab'' (hex_encode (7 # replicate 31 0)) [] (engine_New, ())) = Inr [7]"
    unfolding Fetch_def using len h sum
    by (simp add: toy_torrents_def fetch_body_def add_peers_def MaxFetchBytes_def Let_def del: length_Cons hex_encode.simps)
  then have "Fetch toy_torrents ''ab'' (hex_encode (7 # replicate 31 0)) [] (engine_New, ()) =
      (fst (Fetch toy_torrents ''ab'' (hex_encode (7 # replicate 31 0)) [] (engine_New, ())), Inr [7])"
    by (simp add: prod_eq_iff)
  from fetch_returns_verified_content [OF _ this] h show ?thesis by (simp add: toy_torrents_def)
qed

text \<open>
  The reference count does not protect a reader from a drop that was already decided: a state is reachable in
  which a fetch is reading a torrent that the client no longer has. (A finished fetch decides to drop, unlocks, and
  a new fetch of the same infohash acquires the torrent before \<open>Drop\<close> runs.)
\<close>

theorem reader_can_lose_its_torrent:
  "\<exists>s ih. sys_reachable s \<and> 0 < sy_reading s ih \<and> 0 < en_inUse (sy_engine s) ih \<and> ih \<notin> sy_client s"
proof -
  obtain s where r: "sys_run [EvAdd [1], EvAcquire [1], EvRelease [1], EvAdd [1], EvAcquire [1], EvDrop [1]] sys_initial = Some s"
    and s: "0 < sy_reading s [1]" "0 < en_inUse (sy_engine s) [1]" "[1] \<notin> sy_client s"
    by (simp add: sys_initial_def engine_New_def acquire_def release_locked_eq)
  show ?thesis using sys_run_reachable [OF initial r] s by blast
qed

text \<open>
  A seeded file can be dropped: a resource that was fetched (and so is in the retention queue) and is then
  published with \<open>SeedFile\<close> loses its pin and is dropped when 256 further resources have been fetched.
\<close>

theorem seeded_torrent_can_be_dropped:
  "\<exists>s ih. sys_reachable s \<and> ih \<in> sy_seeded s \<and> ih \<notin> en_pinned (sy_engine s) \<and> ih \<notin> sy_client s"
proof -
  define hs :: "infohash list" where "hs = map (\<lambda>n. replicate n 0) [0..<257]"
  have d: "distinct hs" unfolding hs_def distinct_map by (auto intro!: inj_onI)
  have "length hs = 257" by (simp add: hs_def)
  then obtain old t where t: "hs = old # t" "length t = 256" by (cases hs) simp_all
  then obtain rest h where "t = rest @ [h]" "length rest = 255" by (cases t rule: rev_cases) simp_all
  with t have hs: "hs = old # rest @ [h]" and l: "length rest = 255" by simp_all
  have "length rest = maxRetainedTorrents - 1" using l by (simp add: maxRetainedTorrents_def)
  from seeded_then_evicted [OF this d [unfolded hs]] obtain s where
    r: "sys_run (EvSeedAdd old # EvSeedPin old # fetch_cycle h @ [EvDrop old]) (fetched (old # rest)) = Some s" and
    s: "old \<in> sy_seeded s" "old \<notin> en_pinned (sy_engine s)" "old \<notin> sy_client s" by blast
  have "sys_reachable (fetched (old # rest))"
    using d l by (intro fetched_reachable) (simp_all add: hs maxRetainedTorrents_def)
  from sys_run_reachable [OF this r] s show ?thesis by blast
qed

end
