(* ===== verification/Content_Type.thy ===== *)
theory Content_Type
  imports Go_Strings
begin

text \<open>
  Resource type validation, src/resolver/internal/contenttype: is the sniffed type of a body consistent with the
  media type declared on-chain? The sniffing table of net/http and the parser of package mime are the record
  \<open>sniff_lib\<close>; the decision on top of them is modelled.
\<close>

section \<open>Definitions\<close>

record sniff_lib =
  sn_unicode :: unicode
  DetectContentType :: "bytes \<Rightarrow> string"
  ParseMediaType :: "string \<Rightarrow> string option"

record ct_result =
  ctDeclared :: string
  ctDetected :: string
  ctOK :: bool
  ctReason :: string

definition baseType :: "sniff_lib \<Rightarrow> string \<Rightarrow> string" where
  "baseType S ct =
     (case ParseMediaType S ct of
        Some mt \<Rightarrow> mt
      | None \<Rightarrow>
          (let ct = (case cut_at CHR '';'' ct of Some (a, _) \<Rightarrow> a | None \<Rightarrow> ct)
           in ToLower (sn_unicode S) (TrimSpace ct)))"

definition isText :: "string \<Rightarrow> bool" where
  "isText base =
     (HasPrefix base ''text/'' \<or>
      base \<in> set [''application/javascript'', ''application/x-javascript'', ''application/ecmascript'',
        ''application/json'', ''application/ld+json'', ''application/xml'', ''application/xhtml+xml'', ''image/svg+xml''])"

definition ct_Validate :: "sniff_lib \<Rightarrow> string \<Rightarrow> bytes \<Rightarrow> ct_result" where
  "ct_Validate S declared body =
     (let detected = DetectContentType S body;
          res = \<lparr>ctDeclared = declared, ctDetected = detected, ctOK = False, ctReason = []\<rparr>;
          dDecl = baseType S declared; dDet = baseType S detected
      in if dDecl = [] \<or> dDecl = ''application/octet-stream''
         then res\<lparr>ctOK := True, ctReason := ''declared type is unspecified; not validated''\<rparr>
         else if dDecl = dDet then res\<lparr>ctOK := True, ctReason := ''exact media-type match''\<rparr>
         else if isText dDecl \<and> isText dDet
         then res\<lparr>ctOK := True, ctReason := ''textual content consistent with declared text type''\<rparr>
         else res\<lparr>ctOK := False, ctReason := ''declared '' @ dDecl @ '' but content sniffs as '' @ dDet\<rparr>)"

section \<open>Facts\<close>

lemma ct_Validate_ok:
  "ctOK (ct_Validate S declared body) \<longleftrightarrow>
     baseType S declared \<in> {[], ''application/octet-stream''} \<or>
     baseType S declared = baseType S (DetectContentType S body) \<or>
     isText (baseType S declared) \<and> isText (baseType S (DetectContentType S body))"
  by (auto simp: ct_Validate_def Let_def)

end
