(* ===== verification/Go_Web.thy ===== *)
theory Go_Web
  imports Go_Strings
begin

text \<open>
  What the servers and clients use of Go's packages net, net/url, strings and encoding/json: splitting host and
  port, parsing IP addresses, case folding, query escaping, and the encoding of JSON values (with the escaping
  of HTML characters that is Go's default).
\<close>

section \<open>Package net\<close>

text \<open>The string before and after the last occurrence of a character.\<close>

definition cut_last :: "char \<Rightarrow> string \<Rightarrow> (string \<times> string) option" where
  "cut_last c s = map_option (\<lambda>p. (rev (snd p), rev (fst p))) (cut_at c (rev s))"

definition SplitHostPort :: "string \<Rightarrow> (string \<times> string) option" where
  "SplitHostPort s =
     (case cut_last CHR '':'' s of
        None \<Rightarrow> None
      | Some (pre, port) \<Rightarrow>
          if hd s = CHR ''['' then
            (case cut_at CHR '']'' s of
               None \<Rightarrow> None
             | Some (a, b) \<Rightarrow>
                 if pre = a @ '']'' \<and> CHR ''['' \<notin> set (tl s) \<and> CHR '']'' \<notin> set b then Some (tl a, port) else None)
          else if CHR '':'' \<in> set pre \<or> CHR ''['' \<in> set s \<or> CHR '']'' \<in> set s then None
          else Some (pre, port))"

text \<open>\<open>netip.ParseAddr\<close>: four decimal octets without leading zeros, or eight groups of up to four hexadecimal
  digits with at most one \<open>::\<close> and possibly an IPv4 address at the end. An address with a zone is not accepted by
  \<open>net.ParseIP\<close>.\<close>

definition ip4_octet :: "string \<Rightarrow> nat option" where
  "ip4_octet p =
     (if p = [] \<or> \<not> list_all is_digit p \<or> (length p > 1 \<and> hd p = CHR ''0'') \<or> dec_val p > 255 then None
      else Some (dec_val p))"

definition parseIPv4 :: "string \<Rightarrow> nat list option" where
  "parseIPv4 s =
     (let os = map ip4_octet (split_on CHR ''.'' s)
      in if length os = 4 \<and> list_all (\<lambda>v. v \<noteq> None) os then Some (map the os) else None)"

definition hex_val :: "string \<Rightarrow> nat" where
  "hex_val ds = foldl (\<lambda>a c. a * 16 + the (hex_value c)) 0 ds"

definition ip6_finish :: "nat list \<Rightarrow> nat option \<Rightarrow> nat list option" where
  "ip6_finish acc ell =
     (if length acc < 16
      then (case ell of None \<Rightarrow> None | Some e \<Rightarrow> Some (take e acc @ replicate (16 - length acc) 0 @ drop e acc))
      else if ell \<noteq> None then None else Some acc)"

function ip6_loop :: "string \<Rightarrow> nat list \<Rightarrow> nat option \<Rightarrow> nat list option" where
  "ip6_loop s acc ell =
     (let ds = takeWhile (\<lambda>c. hex_value c \<noteq> None) s; rest = drop (length ds) s in
      if length ds = 0 \<or> length ds > 4 then None
      else if rest \<noteq> [] \<and> hd rest = CHR ''.'' then
        (if (ell = None \<and> length acc \<noteq> 12) \<or> length acc + 4 > 16 then None
         else case parseIPv4 s of None \<Rightarrow> None | Some b \<Rightarrow> ip6_finish (acc @ b) ell)
      else
        (let acc = acc @ [hex_val ds div 256, hex_val ds mod 256] in
         if rest = [] then ip6_finish acc ell
         else if hd rest \<noteq> CHR '':'' \<or> length rest = 1 then None
         else if rest ! 1 = CHR '':'' then
           (if ell \<noteq> None then None
            else if length rest = 2 then ip6_finish acc (Some (length acc))
            else if length acc < 16 then ip6_loop (drop 2 rest) acc (Some (length acc)) else None)
         else if length acc < 16 then ip6_loop (tl rest) acc ell else None))"
  by pat_completeness auto
termination
  by (relation "measure (\<lambda>(s, acc, ell). length s)") auto

definition parseIPv6 :: "string \<Rightarrow> nat list option" where
  "parseIPv6 s =
     (if CHR ''%'' \<in> set s then None
      else if HasPrefix s ''::''
      then (if length s = 2 then Some (replicate 16 0) else ip6_loop (drop 2 s) [] (Some 0))
      else ip6_loop s [] None)"

definition v4_prefix :: "nat list" where "v4_prefix = replicate 10 0 @ [255, 255]"

definition ParseIP :: "string \<Rightarrow> nat list option" where
  "ParseIP s =
     (case find (\<lambda>c. c = CHR ''.'' \<or> c = CHR '':'' \<or> c = CHR ''%'') s of
        None \<Rightarrow> None
      | Some c \<Rightarrow>
          if c = CHR ''.'' then map_option (\<lambda>b. v4_prefix @ b) (parseIPv4 s)
          else if c = CHR '':'' then parseIPv6 s else None)"

definition IsLoopback :: "nat list \<Rightarrow> bool" where
  "IsLoopback ip = (if take 12 ip = v4_prefix then ip ! 12 = 127 else ip = replicate 15 0 @ [1])"

definition IsUnspecified :: "nat list \<Rightarrow> bool" where
  "IsUnspecified ip = (ip = v4_prefix @ [0, 0, 0, 0] \<or> ip = replicate 16 0)"

definition JoinHostPort :: "string \<Rightarrow> string \<Rightarrow> string" where
  "JoinHostPort host port = (if CHR '':'' \<in> set host then ''['' @ host @ '']:'' @ port else host @ '':'' @ port)"

section \<open>Package strings and net/url\<close>

text \<open>\<open>strings.EqualFold\<close> against a string of ASCII letters: besides the other case, a long s folds to \<open>s\<close> and the
  Kelvin sign to \<open>k\<close>.\<close>

definition fold_ascii :: "nat \<Rightarrow> nat" where
  "fold_ascii r = (if 65 \<le> r \<and> r \<le> 90 then r + 32 else if r = 383 then 115 else if r = 8490 then 107 else r)"

definition EqualFold_ascii :: "string \<Rightarrow> string \<Rightarrow> bool" where
  "EqualFold_ascii s t = (map fold_ascii (runes s) = map fold_ascii (map of_char t))"

definition upper_hex :: "nat \<Rightarrow> char" where
  "upper_hex d = (if d < 10 then char_of (48 + d) else char_of (55 + d))"

definition query_escape_char :: "char \<Rightarrow> string" where
  "query_escape_char c =
     (if is_lower c \<or> is_upper c \<or> is_digit c \<or> c \<in> set ''-_.~'' then [c]
      else if c = CHR '' '' then ''+''
      else [CHR ''%'', upper_hex (of_char c div 16), upper_hex (of_char c mod 16)])"

definition QueryEscape :: "string \<Rightarrow> string" where
  "QueryEscape s = concat (map query_escape_char s)"

section \<open>Package encoding/json\<close>

datatype json =
    JStr string
  | JInt int
  | JBool bool
  | JRaw string
  | JArr "json list"
  | JObj "(string \<times> json) list"

text \<open>The text \<open>appendString\<close> writes between the quotes.\<close>

definition json_ascii :: "nat \<Rightarrow> string" where
  "json_ascii b =
     (if b = 92 then [CHR 0x5C, CHR 0x5C]
      else if b = 34 then [CHR 0x5C, CHR 0x22]
      else if b = 8 then CHR 0x5C # ''b''
      else if b = 12 then CHR 0x5C # ''f''
      else if b = 10 then CHR 0x5C # ''n''
      else if b = 13 then CHR 0x5C # ''r''
      else if b = 9 then CHR 0x5C # ''t''
      else if b < 32 \<or> b = 60 \<or> b = 62 \<or> b = 38
      then CHR 0x5C # ''u00'' @ [hex_digit (b div 16), hex_digit (b mod 16)]
      else [char_of b])"

fun json_escape :: "nat list \<Rightarrow> string" where
  "json_escape [] = []"
| "json_escape (b # r) =
     (if b < 128 then json_ascii b @ json_escape r
      else
        (let (c, w) = decode_rune b r in
         if c = rune_error \<and> w = 1 then (CHR 0x5C # ''ufffd'') @ json_escape r
         else if c = 8232 \<or> c = 8233
         then (CHR 0x5C # ''u202'') @ [hex_digit (c mod 16)] @ json_escape (drop (w - 1) r)
         else map char_of (b # take (w - 1) r) @ json_escape (drop (w - 1) r)))"

definition json_string :: "string \<Rightarrow> string" where
  "json_string s = CHR 0x22 # json_escape (map of_char s) @ [CHR 0x22]"

fun json_Marshal :: "json \<Rightarrow> string" where
  "json_Marshal (JStr s) = json_string s"
| "json_Marshal (JInt i) = Itoa i"
| "json_Marshal (JBool b) = (if b then ''true'' else ''false'')"
| "json_Marshal (JRaw s) = s"
| "json_Marshal (JArr js) = CHR ''['' # join_with CHR '','' (map json_Marshal js) @ '']''"
| "json_Marshal (JObj kvs) =
     CHR ''{'' # join_with CHR '','' (map (\<lambda>kv. json_string (fst kv) @ CHR '':'' # json_Marshal (snd kv)) kvs) @ ''}''"

section \<open>Facts\<close>

lemma SplitHostPort_examples:
  "SplitHostPort ''10.0.0.1:80'' = Some (''10.0.0.1'', ''80'')"
  "SplitHostPort ''[::1]:80'' = Some (''::1'', ''80'')"
  "SplitHostPort ''::1:80'' = None" "SplitHostPort ''host'' = None"
  by code_simp+


end
