(* ===== verification/Rest_Api.thy ===== *)
theory Rest_Api
  imports Query_Path Udp_Wire Rate_Limit Config_Env Torrent_Engine Content_Type Go_Web
begin

text \<open>
  The front ends of src/resolver/internal/server: the REST handlers (rest.go), the UDP listener (udp.go), the health
  and console endpoints (server.go, admin.go).

  The libraries, the configuration and the identity are the record \<open>server_env\<close>; the mutable state is the record
  \<open>server\<close>. A handler takes the clock readings it makes and the parsed request, and returns the new state and the
  response. Timeouts act through the chain endpoint, which fails when the context ends. The texts of errors are
  rendered as in the source, with \<open>se_Quote\<close> for the \<open>%q\<close> verb and \<open>se_TorrentErr\<close> for the errors of the torrent
  engine, whose texts contain those of the torrent client. \<open>se_listen\<close> are the listen addresses of that client,
  \<open>se_swarm\<close> the peers and bytes of its torrents, \<open>se_ReadDir\<close> the entries of a directory with their kind.
\<close>

section \<open>Environment, state, requests and responses\<close>

record ('s, 'w, 'l) server_env =
  se_resolver :: "('s, 'w) resolver_env"
  se_rate :: "'l rate_lib"
  se_torrent :: "'w torrent_lib"
  se_sniff :: sniff_lib
  se_unicode :: unicode
  se_Quote :: "string \<Rightarrow> string"
  se_Hex :: "address \<Rightarrow> string"
  se_cfg :: config
  se_identity :: bytes
  se_startTime :: int
  se_bt :: bool
  se_resource :: bool
  se_listen :: "'w \<Rightarrow> string list"
  se_swarm :: "'w \<Rightarrow> (int \<times> int) list"
  se_os :: "'w os_env"
  se_ReadDir :: "string \<Rightarrow> 'w \<Rightarrow> (string \<times> bool) list option"
  se_TorrentErr :: "torrent_error \<Rightarrow> string"

record ('s, 'w, 'l) server =
  sv_query :: "('s, 'w) qstate"
  sv_limiter :: "'l ipLimiter"
  sv_engine :: engine

record http_request =
  rq_params :: "string \<Rightarrow> string list"
  rq_name :: string
  rq_RemoteAddr :: string
  rq_Host :: string

record http_response =
  h_status :: nat
  h_headers :: "(string \<times> string) list"
  h_body :: bytes

text \<open>\<open>Values.Get\<close>: the first value of a parameter, or the empty string.\<close>

definition params_Get :: "http_request \<Rightarrow> string \<Rightarrow> string" where
  "params_Get r k = (case rq_params r k of [] \<Rightarrow> [] | v # _ \<Rightarrow> v)"

text \<open>\<open>Header.Set\<close> with keys in canonical form.\<close>

definition header_Set :: "string \<Rightarrow> string \<Rightarrow> (string \<times> string) list \<Rightarrow> (string \<times> string) list" where
  "header_Set k v hs = AList.update k v hs"

definition header_Get :: "(string \<times> string) list \<Rightarrow> string \<Rightarrow> string" where
  "header_Get hs k = (case map_of hs k of None \<Rightarrow> [] | Some v \<Rightarrow> v)"

definition se_crypto :: "('s, 'w, 'l) server_env \<Rightarrow> crypto_lib" where
  "se_crypto E = rv_crypto (se_resolver E)"

section \<open>Error texts\<close>

fun query_error_text :: "(string \<Rightarrow> string) \<Rightarrow> query_error \<Rightarrow> string" where
  "query_error_text Q (InvalidName s) = ''invalid name '' @ Q s @ '': want 1-63 chars of [a-z0-9-], no edge hyphen''"
| "query_error_text Q (InvalidType s) = ''invalid record type '' @ Q s @ '': want 1-32 chars of [A-Za-z0-9_-]''"
| "query_error_text Q (InvalidSelectorKey k) = ''invalid selector key '' @ Q k"
| "query_error_text Q (InvalidPort v) = ''invalid port '' @ Q v"
| "query_error_text Q (InvalidTransport v) = ''invalid transport '' @ Q v @ '': want UDP, TCP or QUIC''"
| "query_error_text Q (InvalidService v) = ''invalid service '' @ Q v @ '': want HTTP or SMTP''"
| "query_error_text Q (InvalidSelectorValue v k) = ''invalid selector value '' @ Q v @ '' for key '' @ Q k"
| "query_error_text Q (DuplicateSelectorKey k) = ''duplicate selector key '' @ Q k"
| "query_error_text Q (InvalidFragment p) = ''invalid selector fragment '' @ Q p @ '': want k=v''"

definition itoa_byte :: "byte \<Rightarrow> string" where "itoa_byte b = Itoa (uint b)"

fun udp_error_text :: "(string \<Rightarrow> string) \<Rightarrow> udp_error \<Rightarrow> string" where
  "udp_error_text Q PacketTooShort = ''packet too short''"
| "udp_error_text Q BadMagic = ''bad magic''"
| "udp_error_text Q (UnsupportedVersion b) = ''unsupported version '' @ itoa_byte b"
| "udp_error_text Q (UnsupportedFlags b) = ''unsupported flags '' @ itoa_byte b"
| "udp_error_text Q TruncatedTLVHeader = ''truncated TLV header''"
| "udp_error_text Q TruncatedTLVValue = ''truncated TLV value''"
| "udp_error_text Q (DuplicateTLV b) = ''duplicate TLV '' @ itoa_byte b"
| "udp_error_text Q (BadQuery e) = query_error_text Q e"

fun sig_error_text :: "(string \<Rightarrow> string) \<Rightarrow> sig_error \<Rightarrow> string" where
  "sig_error_text Q (ErrMarshal e) = e"
| "sig_error_text Q (ErrBadResolverKey k) = ''bad resolver key '' @ Q k"
| "sig_error_text Q (ErrBadSignatureEncoding s) = ''bad signature encoding '' @ Q s"
| "sig_error_text Q ErrSignatureInvalid = ''envelope signature invalid''"

datatype rest_error = RestQuery query_error | DupSelector string

fun rest_error_text :: "(string \<Rightarrow> string) \<Rightarrow> rest_error \<Rightarrow> string" where
  "rest_error_text Q (RestQuery e) = query_error_text Q e"
| "rest_error_text Q (DupSelector k) = ''selector key '' @ k @ '' given both in selector= and as a query param''"

section \<open>JSON bodies\<close>

record recordJSON =
  rjType :: string
  rjSelector :: string
  rjFieldNames :: "string list"
  rjFieldValues :: "string list"
  rjTTL :: "32 word"
  rjGeneration :: "64 word"
  rjOwnerSig :: string
  rjCommitment :: string

definition toRecordJSON :: "crypto_lib \<Rightarrow> chain_record \<Rightarrow> recordJSON" where
  "toRecordJSON C r =
     \<lparr>rjType = rType r, rjSelector = rSelector r, rjFieldNames = rFieldNames r, rjFieldValues = rFieldVals r,
      rjTTL = rTTL r, rjGeneration = rGeneration r, rjOwnerSig = hexutil_Encode C (rOwnerSig r),
      rjCommitment = hexutil_Encode C (rCommitment r)\<rparr>"

definition recordJSON_json :: "recordJSON \<Rightarrow> json" where
  "recordJSON_json r = JObj
     [(''type'', JStr (rjType r)), (''selector'', JStr (rjSelector r)),
      (''fieldNames'', JArr (map JStr (rjFieldNames r))), (''fieldValues'', JArr (map JStr (rjFieldValues r))),
      (''ttl'', JInt (uint (rjTTL r))), (''generation'', JInt (uint (rjGeneration r))),
      (''ownerSig'', JStr (rjOwnerSig r)), (''commitment'', JStr (rjCommitment r))]"

record resolve_response =
  rrQuery :: query
  rrFound :: bool
  rrError :: string
  rrRecord :: "recordJSON option"
  rrOwner :: string
  rrPubKey :: string
  rrOwnerSigVerified :: bool
  rrZKProof :: string
  rrCached :: bool

text \<open>A string field with \<open>omitempty\<close>.\<close>

definition omit_empty :: "string \<Rightarrow> string \<Rightarrow> (string \<times> json) list" where
  "omit_empty k v = (if v = [] then [] else [(k, JStr v)])"

definition query_json :: "query \<Rightarrow> json" where
  "query_json q = JObj [(''name'', JStr (qName q)), (''type'', JStr (qType q)), (''selector'', JStr (qSelector q))]"

definition response_json :: "resolve_response \<Rightarrow> json" where
  "response_json r = JObj
     ([(''query'', query_json (rrQuery r)), (''found'', JBool (rrFound r))] @ omit_empty ''error'' (rrError r) @
      (case rrRecord r of None \<Rightarrow> [] | Some rj \<Rightarrow> [(''record'', recordJSON_json rj)]) @
      omit_empty ''owner'' (rrOwner r) @ omit_empty ''pubKey'' (rrPubKey r) @
      [(''ownerSigVerified'', JBool (rrOwnerSigVerified r))] @ omit_empty ''zkProof'' (rrZKProof r) @
      [(''cached'', JBool (rrCached r))])"

definition envelope_json :: "envelope \<Rightarrow> json" where
  "envelope_json e = JObj [(''data'', JRaw (bytes_str (envData e))), (''resolver'', JStr (envResolver e)),
     (''signature'', JStr (envSignature e))]"

definition error_json :: "string \<Rightarrow> string \<Rightarrow> json" where
  "error_json code msg = JObj [(''error'', JStr code), (''message'', JStr msg)]"

definition marshal_bytes :: "json \<Rightarrow> string + bytes" where
  "marshal_bytes j = Inr (str_bytes (json_Marshal j))"

section \<open>Writing responses\<close>

definition writeJSON :: "nat \<Rightarrow> json \<Rightarrow> http_response" where
  "writeJSON status v =
     \<lparr>h_status = status, h_headers = [(''Content-Type'', ''application/json'')],
      h_body = str_bytes (json_Marshal v @ [CHR 0x0A])\<rparr>"

definition writeError :: "nat \<Rightarrow> string \<Rightarrow> string \<Rightarrow> http_response" where
  "writeError status code msg = writeJSON status (error_json code msg)"

definition writeSigned :: "('s, 'w, 'l) server_env \<Rightarrow> nat \<Rightarrow> json \<Rightarrow> http_response" where
  "writeSigned E status v =
     (case SealEnvelope (se_crypto E) marshal_bytes (se_identity E) v of
        Inl err \<Rightarrow> writeError 500 ''sign_error'' (sig_error_text (se_Quote E) err)
      | Inr env \<Rightarrow> writeJSON status (envelope_json env))"

type_synonym ('s, 'w, 'l) handler = "('s, 'w, 'l) server \<Rightarrow> ('s, 'w, 'l) server \<times> http_response"

definition remote_ip :: "string \<Rightarrow> string" where
  "remote_ip addr = (case SplitHostPort addr of Some (host, _) \<Rightarrow> host | None \<Rightarrow> addr)"

text \<open>The outcome of a handler that may dereference a nil pointer.\<close>

datatype handled = Responded http_response | Panicked

definition rateLimited ::
  "('s, 'w, 'l) server_env \<Rightarrow> int \<times> int \<times> int \<Rightarrow> http_request \<Rightarrow>
   (('s, 'w, 'l) server \<Rightarrow> ('s, 'w, 'l) server \<times> handled) \<Rightarrow> ('s, 'w, 'l) server \<Rightarrow> ('s, 'w, 'l) server \<times> handled" where
  "rateLimited E ts r next_h s =
     (case allow (se_rate E) ts (remote_ip (rq_RemoteAddr r)) (sv_limiter s) of
        (l, ok) \<Rightarrow>
          (let s = s\<lparr>sv_limiter := l\<rparr>
           in if \<not> ok then (s, Responded (writeError 429 ''rate_limited'' ''too many requests from this address''))
              else next_h s))"

section \<open>Resolving\<close>

text \<open>The loop over the explicit selector parameters.\<close>

fun merge_params ::
  "http_request \<Rightarrow> string list \<Rightarrow> (string \<times> string) list \<Rightarrow> rest_error + (string \<times> string) list" where
  "merge_params r [] pairs = Inr pairs"
| "merge_params r (k # ks) pairs =
     (let v = params_Get r k
      in if v \<noteq> [] then
           (if map_of pairs k \<noteq> None then Inl (DupSelector k) else merge_params r ks (pairs @ [(k, v)]))
         else merge_params r ks pairs)"

definition lift_rest :: "query_error + 'a \<Rightarrow> rest_error + 'a" where
  "lift_rest x = (case x of Inl e \<Rightarrow> Inl (RestQuery e) | Inr y \<Rightarrow> Inr y)"

definition parseResolveQuery :: "unicode \<Rightarrow> http_request \<Rightarrow> rest_error + query" where
  "parseResolveQuery U r =
     rbind (lift_rest (ParsePairs U (params_Get r ''selector''))) (\<lambda>pairs.
     rbind (merge_params r [''port'', ''transport'', ''service''] pairs) (\<lambda>pairs.
       lift_rest (New_query U (params_Get r ''name'') (params_Get r ''type'') pairs)))"

definition resolveResponse ::
  "('s, 'w, 'l) server_env \<Rightarrow> int \<times> int \<Rightarrow> query \<Rightarrow> ('s, 'w) qstate \<Rightarrow> ('s, 'w) qstate \<times> (string + resolve_response)" where
  "resolveResponse E ts q s =
     (case HandleQuery (se_resolver E) ts q s of
        (s, Inl err) \<Rightarrow> (s, Inl err)
      | (s, Inr res) \<Rightarrow>
          (let resp = \<lparr>rrQuery = q, rrFound = False, rrError = [], rrRecord = None, rrOwner = [], rrPubKey = [],
                       rrOwnerSigVerified = False, rrZKProof = [], rrCached = qrCached res\<rparr>
           in if \<not> Found res then (s, Inr (resp\<lparr>rrError := ''no_match''\<rparr>))
              else
                (let r = the (qrResult res)
                 in (s, Inr (resp\<lparr>rrFound := True, rrRecord := Some (toRecordJSON (se_crypto E) (resRecord r)),
                         rrOwner := se_Hex E (resOwner r), rrPubKey := hexutil_Encode (se_crypto E) (resPubKey r),
                         rrOwnerSigVerified := resOwnerSigValid r,
                         rrZKProof := (if length (resZKProof r) > 0
                            then hexutil_Encode (se_crypto E) (resZKProof r) else [])\<rparr>)))))"

definition handleResolve ::
  "('s, 'w, 'l) server_env \<Rightarrow> int \<times> int \<Rightarrow> http_request \<Rightarrow> ('s, 'w, 'l) handler" where
  "handleResolve E ts r s =
     (case parseResolveQuery (se_unicode E) r of
        Inl err \<Rightarrow> (s, writeError 400 ''invalid_query'' (rest_error_text (se_Quote E) err))
      | Inr q \<Rightarrow>
          (case resolveResponse E ts q (sv_query s) of
             (qs, Inl err) \<Rightarrow> (s\<lparr>sv_query := qs\<rparr>, writeError 502 ''chain_error'' err)
           | (qs, Inr resp) \<Rightarrow> (s\<lparr>sv_query := qs\<rparr>, writeSigned E 200 (response_json resp))))"

definition set_world :: "'w \<Rightarrow> ('s, 'w, 'l) server \<Rightarrow> ('s, 'w, 'l) server" where
  "set_world w s = s\<lparr>sv_query := (sv_query s)\<lparr>q_world := w\<rparr>\<rparr>"

definition get_world :: "('s, 'w, 'l) server \<Rightarrow> 'w" where
  "get_world s = q_world (sv_query s)"

definition se_api :: "('s, 'w, 'l) server_env \<Rightarrow> 'w rpc_api" where
  "se_api E = rv_api (se_resolver E)"

text \<open>\<open>handleDomain\<close>; \<open>now\<close> is \<open>time.Now().Unix()\<close>.\<close>

definition domain_json :: "('s, 'w, 'l) server_env \<Rightarrow> string \<Rightarrow> chain_domain \<Rightarrow> bool \<Rightarrow> chain_record list \<Rightarrow> json" where
  "domain_json E name domn active records = JObj
     [(''name'', JStr name), (''owner'', JStr (se_Hex E (dOwner domn))),
      (''pubKey'', JStr (hexutil_Encode (se_crypto E) (dPubKey domn))), (''expiry'', JInt (uint (dExpiry domn))),
      (''generation'', JInt (uint (dGeneration domn))), (''active'', JBool active),
      (''records'', JArr (map (\<lambda>r. recordJSON_json (toRecordJSON (se_crypto E) r)) records))]"

definition handleDomain ::
  "('s, 'w, 'l) server_env \<Rightarrow> int \<Rightarrow> http_request \<Rightarrow> ('s, 'w, 'l) handler" where
  "handleDomain E now r s =
     (let name = rq_name r
      in case ValidateName name of
           Inl err \<Rightarrow> (s, writeError 400 ''invalid_query'' (query_error_text (se_Quote E) err))
         | Inr _ \<Rightarrow>
             (case chain_GetDomain (se_api E) name (get_world s) of
                (w, Inl err) \<Rightarrow> (set_world w s, writeError 502 ''chain_error'' err)
              | (w, Inr domn) \<Rightarrow>
                  if dOwner domn = zero_address
                  then (set_world w s, writeError 404 ''not_registered'' ''domain is not registered'')
                  else
                    (let active = (dExpiry domn > (word_of_int now :: 64 word))
                     in if active
                        then (case chain_ListRecords (se_api E) name w of
                                (w, Inl err) \<Rightarrow> (set_world w s, writeError 502 ''chain_error'' err)
                              | (w, Inr records) \<Rightarrow>
                                  (set_world w s, writeSigned E 200 (domain_json E name domn active records)))
                        else (set_world w s, writeSigned E 200 (domain_json E name domn active [])))))"

definition handleTypes :: "('s, 'w, 'l) server_env \<Rightarrow> ('s, 'w, 'l) handler" where
  "handleTypes E s =
     (case chain_ListTypes (se_api E) (get_world s) of
        (w, Inl err) \<Rightarrow> (set_world w s, writeError 502 ''chain_error'' err)
      | (w, Inr types) \<Rightarrow> (set_world w s, writeSigned E 200 (JObj [(''types'', JArr (map JStr types))])))"

section \<open>Health and console\<close>

text \<open>The maps of \<open>handleHealthz\<close> are encoded with sorted keys.\<close>

definition handleHealthz :: "('s, 'w, 'l) server_env \<Rightarrow> ('s, 'w, 'l) handler" where
  "handleHealthz E s =
     (case ChainHead (se_api E) (get_world s) of
        (w, Inl err) \<Rightarrow>
          (set_world w s, writeJSON 503 (JObj [(''error'', JStr err), (''status'', JStr ''degraded'')]))
      | (w, Inr head) \<Rightarrow>
          (set_world w s, writeJSON 200 (JObj [(''chainHead'', JInt (uint head)), (''status'', JStr ''ok'')])))"

text \<open>\<open>Engine.Stats\<close> over the peers and bytes of each torrent.\<close>

record swarm_stats =
  swTorrents :: int
  swTotalPeers :: int
  swBytesShared :: int

definition engine_Stats :: "(int \<times> int) list \<Rightarrow> swarm_stats" where
  "engine_Stats ts =
     fold (\<lambda>t st. \<lparr>swTorrents = swTorrents st + 1, swTotalPeers = swTotalPeers st + fst t,
                   swBytesShared = swBytesShared st + snd t\<rparr>) ts
       \<lparr>swTorrents = 0, swTotalPeers = 0, swBytesShared = 0\<rparr>"

record admin_stats =
  asResolver :: string
  asUptimeSec :: int
  asChainHead :: "64 word"
  asChainOK :: bool
  asRESTPort :: int
  asUDPPort :: int
  asCache :: cache_stats
  asSwarm :: swarm_stats

definition gatherStats ::
  "('s, 'w, 'l) server_env \<Rightarrow> int \<Rightarrow> ('s, 'w, 'l) server \<Rightarrow> ('s, 'w, 'l) server \<times> admin_stats" where
  "gatherStats E now s =
     (let st = \<lparr>asResolver = PublicKeyHex (se_crypto E) (se_identity E),
                asUptimeSec = (now - se_startTime E) div 1000000000, asChainHead = 0, asChainOK = False,
                asRESTPort = RESTPort (se_cfg E), asUDPPort = UDPPort (se_cfg E),
                asCache = cache_Stats (rv_cache (se_resolver E)) (q_cache (sv_query s)), asSwarm = engine_Stats []\<rparr>;
          (w, head) = ChainHead (se_api E) (get_world s);
          st = (case head of Inr h \<Rightarrow> st\<lparr>asChainHead := h, asChainOK := True\<rparr> | Inl _ \<Rightarrow> st);
          s = set_world w s;
          st = (if se_bt E then st\<lparr>asSwarm := engine_Stats (se_swarm E w)\<rparr> else st)
      in (s, st))"

definition stats_json :: "admin_stats \<Rightarrow> json" where
  "stats_json st = JObj
     [(''resolver'', JStr (asResolver st)), (''uptimeSeconds'', JInt (asUptimeSec st)),
      (''chainHead'', JInt (uint (asChainHead st))), (''chainOk'', JBool (asChainOK st)),
      (''restPort'', JInt (asRESTPort st)), (''udpPort'', JInt (asUDPPort st)),
      (''cache'', JObj
        [(''hits'', JInt (uint (st_Hits (asCache st)))), (''misses'', JInt (uint (st_Misses (asCache st)))),
         (''evictions'', JInt (uint (st_Evictions (asCache st)))), (''entries'', JInt (int (st_Entries (asCache st)))),
         (''capacity'', JInt (st_Capacity (asCache st)))]),
      (''swarm'', JObj
        [(''torrents'', JInt (swTorrents (asSwarm st))), (''totalPeers'', JInt (swTotalPeers (asSwarm st))),
         (''bytesShared'', JInt (swBytesShared (asSwarm st)))])]"

definition handleAdminStats :: "('s, 'w, 'l) server_env \<Rightarrow> int \<Rightarrow> ('s, 'w, 'l) handler" where
  "handleAdminStats E now s = (let (s, st) = gatherStats E now s in (s, writeJSON 200 (stats_json st)))"

section \<open>The UDP front end\<close>

definition encodeUDPError :: "byte \<Rightarrow> string \<Rightarrow> string \<Rightarrow> bytes" where
  "encodeUDPError status code msg =
     encodeUDPResponse status [\<lparr>tlv_typ = udpTLVError, tlv_val = str_bytes (json_Marshal (error_json code msg))\<rparr>]"

definition handleUDPPacket ::
  "('s, 'w, 'l) server_env \<Rightarrow> int \<times> int \<Rightarrow> bytes \<Rightarrow> ('s, 'w, 'l) server \<Rightarrow> ('s, 'w, 'l) server \<times> bytes" where
  "handleUDPPacket E ts packet s =
     (case decodeUDPQuery (se_unicode E) packet of
        Inl err \<Rightarrow> (s, encodeUDPError udpStatusBadQuery ''invalid_query'' (udp_error_text (se_Quote E) err))
      | Inr q \<Rightarrow>
          (case resolveResponse E ts q (sv_query s) of
             (qs, Inl err) \<Rightarrow> (s\<lparr>sv_query := qs\<rparr>, encodeUDPError udpStatusChain ''chain_error'' err)
           | (qs, Inr resp) \<Rightarrow>
               (let s = s\<lparr>sv_query := qs\<rparr>
                in case SealEnvelope (se_crypto E) marshal_bytes (se_identity E) (response_json resp) of
                     Inl err \<Rightarrow> (s, encodeUDPError udpStatusInternal ''sign_error'' (sig_error_text (se_Quote E) err))
                   | Inr env \<Rightarrow>
                       (let data = str_bytes (json_Marshal (envelope_json env))
                        in if length data > udpMaxResp
                           then (s, encodeUDPError udpStatusTooLarge ''response_too_large''
                                   ''response exceeds UDP limit; retry over REST'')
                           else (s, encodeUDPResponse udpStatusOK [\<lparr>tlv_typ = udpTLVEnvelope, tlv_val = data\<rparr>])))))"

text \<open>
  The loop of \<open>serveUDP\<close>: a received datagram is answered at once (rate limit, or too many queries in flight) or
  starts a handler; \<open>UFinish i\<close> is the completion of the \<open>i\<close>-th handler in flight. The loop state has the queries in
  flight and the datagrams sent. (\<open>udpMaxInFlight\<close> is the capacity of the semaphore.)
\<close>

definition udpMaxInFlight :: nat where "udpMaxInFlight = 256"
definition udpMaxPacket :: nat where "udpMaxPacket = 8192"

definition udpHost :: "string \<Rightarrow> string" where
  "udpHost addr = (case SplitHostPort addr of Some (host, _) \<Rightarrow> host | None \<Rightarrow> addr)"

record ('s, 'w, 'l) udp_loop =
  ul_server :: "('s, 'w, 'l) server"
  ul_inFlight :: "(string \<times> bytes) list"
  ul_sent :: "(string \<times> bytes) list"

datatype udp_event =
    UReceive "int \<times> int \<times> int" string bytes
  | UFinish "int \<times> int" nat

fun udp_step :: "('s, 'w, 'l) server_env \<Rightarrow> udp_event \<Rightarrow> ('s, 'w, 'l) udp_loop \<Rightarrow> ('s, 'w, 'l) udp_loop" where
  "udp_step E (UReceive ts addr datagram) u =
     (let packet = take udpMaxPacket datagram;
          (l, ok) = allow (se_rate E) ts (udpHost addr) (sv_limiter (ul_server u));
          u = u\<lparr>ul_server := (ul_server u)\<lparr>sv_limiter := l\<rparr>\<rparr>
      in if \<not> ok
         then u\<lparr>ul_sent := ul_sent u @ [(addr, encodeUDPError udpStatusRateLimited ''rate_limited''
                  ''too many requests from this address'')]\<rparr>
         else if length (ul_inFlight u) \<ge> udpMaxInFlight
         then u\<lparr>ul_sent := ul_sent u @ [(addr, encodeUDPError udpStatusInternal ''busy'' ''resolver is busy, retry shortly'')]\<rparr>
         else u\<lparr>ul_inFlight := ul_inFlight u @ [(addr, packet)]\<rparr>)"
| "udp_step E (UFinish ts i) u =
     (if i < length (ul_inFlight u)
      then (let (addr, packet) = ul_inFlight u ! i;
                (s, resp) = handleUDPPacket E ts packet (ul_server u)
            in u\<lparr>ul_server := s, ul_inFlight := take i (ul_inFlight u) @ drop (Suc i) (ul_inFlight u),
                 ul_sent := ul_sent u @ [(addr, resp)]\<rparr>)
      else u)"

definition udp_run ::
  "('s, 'w, 'l) server_env \<Rightarrow> udp_event list \<Rightarrow> ('s, 'w, 'l) udp_loop \<Rightarrow> ('s, 'w, 'l) udp_loop" where
  "udp_run E evs u = fold (udp_step E) evs u"

section \<open>Facts\<close>

lemma tlv_values_single:
  "length v \<le> 65535 \<Longrightarrow> tlv_values [\<lparr>tlv_typ = t, tlv_val = v\<rparr>] ty = (if ty = t then Some [v] else None)"
  by (simp add: tlv_values_def)

lemma decode_encoded: "decodeUDPResponse (encodeUDPResponse st tlvs) = Inr (st, tlv_values tlvs)"
proof -
  have "(\<lambda>ty. case tlv_values tlvs ty of None \<Rightarrow> None
      | Some vs \<Rightarrow> Some ((case None of None \<Rightarrow> [] | Some us \<Rightarrow> us) @ vs)) = tlv_values tlvs"
    by (auto split: option.splits)
  then show ?thesis by (simp add: decodeUDPResponse_def response_values_encode)
qed

lemma error_has_no_envelope: "tlv_values [\<lparr>tlv_typ = udpTLVError, tlv_val = v\<rparr>] udpTLVEnvelope = None"
  by (simp add: tlv_values_def udpTLVError_def udpTLVEnvelope_def)

lemma length_encode_one: "length (encodeUDPResponse st [t]) \<le> 9 + 65535"
  by (simp add: encodeUDPResponse_def)

lemma SealEnvelope_Inr:
  "SealEnvelope C marshal_bytes priv v = Inr env \<Longrightarrow> envData env = str_bytes (json_Marshal v)"
  by (simp add: SealEnvelope_def marshal_bytes_def) auto

lemma SealEnvelope_total: "\<exists>env. SealEnvelope C marshal_bytes priv v = Inr env"
  by (simp add: SealEnvelope_def marshal_bytes_def)

fun received :: "udp_event \<Rightarrow> string list" where
  "received (UReceive ts addr d) = [addr]"
| "received (UFinish ts i) = []"

lemma udp_step_accounts:
  assumes "length (ul_inFlight u) \<le> udpMaxInFlight"
  shows "length (ul_inFlight (udp_step E ev u)) \<le> udpMaxInFlight \<and>
    mset (map fst (ul_sent (udp_step E ev u) @ ul_inFlight (udp_step E ev u))) =
    mset (map fst (ul_sent u @ ul_inFlight u)) + mset (received ev)"
proof (cases ev)
  case (UReceive ts addr d)
  obtain l ok where a: "allow (se_rate E) ts (udpHost addr) (sv_limiter (ul_server u)) = (l, ok)" by fastforce
  show ?thesis using assms by (simp add: UReceive a Let_def)
next
  case (UFinish ts i)
  show ?thesis
  proof (cases "i < length (ul_inFlight u)")
    case True
    obtain addr packet where p: "ul_inFlight u ! i = (addr, packet)" by fastforce
    obtain s resp where h: "handleUDPPacket E ts packet (ul_server u) = (s, resp)" by fastforce
    have split: "take i (ul_inFlight u) @ (addr, packet) # drop (Suc i) (ul_inFlight u) = ul_inFlight u"
      using id_take_nth_drop [OF True] p by simp
    have "mset (map fst (take i (ul_inFlight u) @ (addr, packet) # drop (Suc i) (ul_inFlight u))) =
        add_mset addr (mset (map fst (take i (ul_inFlight u) @ drop (Suc i) (ul_inFlight u))))"
      by simp
    then have "mset (map fst (ul_inFlight u)) =
        add_mset addr (mset (map fst (take i (ul_inFlight u) @ drop (Suc i) (ul_inFlight u))))"
      unfolding split .
    then show ?thesis using True assms by (simp add: UFinish p h)
  next
    case False
    then show ?thesis using assms by (simp add: UFinish)
  qed
qed

definition explicit_pairs :: "http_request \<Rightarrow> string list \<Rightarrow> (string \<times> string) list" where
  "explicit_pairs r ks = map (\<lambda>k. (k, params_Get r k)) (filter (\<lambda>k. params_Get r k \<noteq> []) ks)"

lemma merge_params_Inr:
  "merge_params r ks pairs = Inr ps \<Longrightarrow> distinct (map fst pairs) \<Longrightarrow>
   ps = pairs @ explicit_pairs r ks \<and> distinct (map fst ps)"
proof (induction r ks pairs rule: merge_params.induct)
  case (2 r k ks pairs)
  show ?case
  proof (cases "params_Get r k = []")
    case True
    then have e: "explicit_pairs r (k # ks) = explicit_pairs r ks" by (simp add: explicit_pairs_def)
    have "merge_params r ks pairs = Inr ps" using 2(3) True by simp
    from 2(2) [OF refl _ this 2(4)] True have "ps = pairs @ explicit_pairs r ks \<and> distinct (map fst ps)" by blast
    then show ?thesis unfolding e .
  next
    case False
    then have n: "map_of pairs k = None" and m: "merge_params r ks (pairs @ [(k, params_Get r k)]) = Inr ps"
      using 2(3) by (simp_all add: Let_def split: if_splits)
    have "k \<notin> fst ` set pairs" using n by (simp add: map_of_eq_None_iff)
    then have "distinct (map fst (pairs @ [(k, params_Get r k)]))" using 2(4) by simp
    from 2(1) [OF refl _ _ m this] have "ps = (pairs @ [(k, params_Get r k)]) @ explicit_pairs r ks \<and> distinct (map fst ps)"
      using False n by blast
    moreover have "explicit_pairs r (k # ks) = (k, params_Get r k) # explicit_pairs r ks"
      using False by (simp add: explicit_pairs_def)
    ultimately show ?thesis by (metis append.assoc append_Cons append_Nil)
  qed
qed (simp add: explicit_pairs_def)

lemma lift_rest_Inr [simp]: "lift_rest x = Inr y \<longleftrightarrow> x = Inr y"
  by (cases x) (simp_all add: lift_rest_def)

lemma parse_parts_distinct:
  "parse_parts U pairs ps = Inr qs \<Longrightarrow> distinct (map fst pairs) \<Longrightarrow> distinct (map fst qs)"
proof (induction U pairs ps rule: parse_parts.induct)
  case (2 U pairs part rest)
  obtain k v where c: "cut_at CHR ''='' part = Some (k, v)" "map_of pairs (ToLower U k) = None"
    "parse_parts U (pairs @ [(ToLower U k, v)]) rest = Inr qs"
    using 2(2) by (auto split: option.splits if_splits)
  have "ToLower U k \<notin> fst ` set pairs" using c(2) by (simp add: map_of_eq_None_iff)
  then show ?case using 2(1) [OF c(1) refl _ c(3)] c(2) 2(3) by simp
qed simp

lemma ParsePairs_distinct: "ParsePairs U raw = Inr ps \<Longrightarrow> distinct (map fst ps)"
  using parse_parts_distinct [of U "[]"] by (auto simp: ParsePairs_def split: if_splits)

section \<open>Properties\<close>

text \<open>
  A resolve request over HTTP means what its parameters say: the accepted query has the given name and type, and
  its selector is the canonical form of the pairs of \<open>selector=\<close> together with the explicit \<open>port\<close>, \<open>transport\<close> and
  \<open>service\<close> parameters, none of which was given twice.
\<close>

theorem parse_resolve_query_merges:
  assumes "parseResolveQuery U r = Inr q"
  shows "qName q = params_Get r ''name'' \<and> qType q = params_Get r ''type'' \<and>
    (\<exists>pairs. ParsePairs U (params_Get r ''selector'') = Inr pairs \<and>
       distinct (map fst (pairs @ explicit_pairs r [''port'', ''transport'', ''service''])) \<and>
       CanonicalSelector U (pairs @ explicit_pairs r [''port'', ''transport'', ''service'']) = Inr (qSelector q))"
proof -
  obtain pairs ps where p: "ParsePairs U (params_Get r ''selector'') = Inr pairs"
    and m: "merge_params r [''port'', ''transport'', ''service''] pairs = Inr ps"
    and n: "New_query U (params_Get r ''name'') (params_Get r ''type'') ps = Inr q"
    using assms by (auto simp: parseResolveQuery_def rbind_eq_Inr simp del: merge_params.simps)
  note ps = merge_params_Inr [OF m ParsePairs_distinct [OF p]]
  have q: "qName q = params_Get r ''name''" "qType q = params_Get r ''type''" "CanonicalSelector U ps = Inr (qSelector q)"
    using n by (auto simp: New_query_def rbind_eq_Inr)
  moreover from ps have "ps = pairs @ explicit_pairs r [''port'', ''transport'', ''service'']" "distinct (map fst ps)"
    by blast+
  ultimately show ?thesis using p by metis
qed

definition sample_request :: http_request where
  "sample_request = \<lparr>rq_params = (\<lambda>k. if k = ''name'' then [''example''] else if k = ''type'' then [''SVC'']
     else if k = ''port'' then [''025''] else if k = ''selector'' then [''transport=TCP''] else []),
     rq_name = [], rq_RemoteAddr = ''10.0.0.9:4711'', rq_Host = ''localhost:8080''\<rparr>"

theorem parse_resolve_query_merges_witness:
  "\<exists>q. parseResolveQuery ascii_only sample_request = Inr q \<and> qName q = ''example'' \<and>
     CanonicalSelector ascii_only [(''transport'', ''TCP''), (''port'', ''025'')] = Inr (qSelector q)"
proof -
  have g: "params_Get sample_request ''name'' = ''example''" "params_Get sample_request ''type'' = ''SVC''"
    "params_Get sample_request ''selector'' = ''transport=TCP''" "params_Get sample_request ''port'' = ''025''"
    "params_Get sample_request ''transport'' = []" "params_Get sample_request ''service'' = []"
    by (simp_all add: params_Get_def sample_request_def)
  have p: "ParsePairs ascii_only ''transport=TCP'' = Inr [(''transport'', ''TCP'')]"
    by (simp add: ParsePairs_def go_simps is_graph_def is_ascii_def is_upper_def is_lower_def in_range_def)
  obtain q where q: "parseResolveQuery ascii_only sample_request = Inr q"
    using sample_New_query by (simp add: parseResolveQuery_def g p lift_rest_def sample_pairs_def)
  have "explicit_pairs sample_request [''port'', ''transport'', ''service''] = [(''port'', ''025'')]"
    by (simp add: explicit_pairs_def g)
  with parse_resolve_query_merges [OF q] q show ?thesis by (auto simp: g p)
qed

text \<open>
  Every datagram is answered exactly once and the number of queries in flight stays bounded: at any time the
  addresses of the answers sent, together with those of the (at most 256) queries in flight, are the addresses of the
  datagrams received, each as often as it occurred.
\<close>

theorem udp_loop_answers_once:
  assumes "ul_inFlight u = []" and "ul_sent u = []"
  shows "length (ul_inFlight (udp_run E evs u)) \<le> 256 \<and>
    mset (map fst (ul_sent (udp_run E evs u) @ ul_inFlight (udp_run E evs u))) = mset (concat (map received evs))"
proof -
  have "length (ul_inFlight u) \<le> udpMaxInFlight \<Longrightarrow>
      length (ul_inFlight (udp_run E evs u)) \<le> udpMaxInFlight \<and>
      mset (map fst (ul_sent (udp_run E evs u) @ ul_inFlight (udp_run E evs u))) =
      mset (map fst (ul_sent u @ ul_inFlight u)) + mset (concat (map received evs))" for u :: "('a, 'b, 'c) udp_loop"
  proof (induction evs arbitrary: u)
    case (Cons ev evs)
    note st = udp_step_accounts [OF Cons.prems, of E ev]
    then show ?case using Cons.IH [of "udp_step E ev u"] by (simp add: udp_run_def add.assoc)
  qed (simp add: udp_run_def)
  from this [of u] assms show ?thesis by (simp add: udpMaxInFlight_def)
qed

text \<open>
  C27: The answer to a UDP query fits its encoding and can be trusted as far as its status says: every reply decodes;
  status 0 comes with exactly one envelope, signed by the resolver, whose content is the answer of the shared
  resolution path for the decoded query; any other status comes with no envelope. No reply exceeds 65544 bytes.
\<close>

theorem udp_reply_faithful:
  assumes "hexutil_ok (se_crypto E)" and "ed_ok (se_crypto E) (se_identity E)"
    and "handleUDPPacket E ts packet s = (s', reply)"
  shows "length reply \<le> 65544 \<and> (\<exists>st vals. decodeUDPResponse reply = Inr (st, vals) \<and>
    (if st = udpStatusOK
     then \<exists>q resp env. decodeUDPQuery (se_unicode E) packet = Inr q \<and>
       resolveResponse E ts q (sv_query s) = (sv_query s', Inr resp) \<and>
       vals udpTLVEnvelope = Some [str_bytes (json_Marshal (envelope_json env))] \<and>
       envData env = str_bytes (json_Marshal (response_json resp)) \<and> VerifyEnvelope (se_crypto E) env = Inr ()
     else vals udpTLVEnvelope = None))"
proof -
  have err: ?thesis if "reply = encodeUDPError st code msg" "st \<noteq> udpStatusOK" for st code msg
    using that length_encode_one by (auto simp: encodeUDPError_def decode_encoded error_has_no_envelope)
  have nz: "udpStatusBadQuery \<noteq> udpStatusOK" "udpStatusChain \<noteq> udpStatusOK" "udpStatusInternal \<noteq> udpStatusOK"
    "udpStatusTooLarge \<noteq> udpStatusOK"
    by (simp_all add: udpStatusBadQuery_def udpStatusChain_def udpStatusInternal_def udpStatusTooLarge_def udpStatusOK_def)
  show ?thesis
  proof (cases "decodeUDPQuery (se_unicode E) packet")
    case (Inl e)
    then show ?thesis using assms(3) nz by (intro err [where st = udpStatusBadQuery]) (auto simp: handleUDPPacket_def)
  next
    case (Inr q)
    obtain qs x where x: "resolveResponse E ts q (sv_query s) = (qs, x)" by fastforce
    show ?thesis
    proof (cases x)
      case (Inl e)
      then show ?thesis using assms(3) nz Inr x by (intro err [where st = udpStatusChain]) (auto simp: handleUDPPacket_def)
    next
      case r: (Inr resp)
      obtain env where env: "SealEnvelope (se_crypto E) marshal_bytes (se_identity E) (response_json resp) = Inr env"
        using SealEnvelope_total by blast
      let ?data = "str_bytes (json_Marshal (envelope_json env))"
      show ?thesis
      proof (cases "length ?data > udpMaxResp")
        case True
        then show ?thesis
          using assms(3) nz Inr x r env by (intro err [where st = udpStatusTooLarge]) (auto simp: handleUDPPacket_def Let_def)
      next
        case False
        then have rp: "reply = encodeUDPResponse udpStatusOK [\<lparr>tlv_typ = udpTLVEnvelope, tlv_val = ?data\<rparr>]" "sv_query s' = qs"
          using assms(3) Inr x r env by (auto simp: handleUDPPacket_def Let_def)
        have "length ?data \<le> 65535" using False by (simp add: udpMaxResp_def)
        note tv = tlv_values_single [OF this, of udpTLVEnvelope udpTLVEnvelope]
        have "VerifyEnvelope (se_crypto E) env = Inr ()" using SealEnvelope_verifies [OF assms(1,2) env] by blast
        then show ?thesis
          using rp tv Inr x r SealEnvelope_Inr [OF env] length_encode_one
          by (auto simp: decode_encoded intro!: exI [of _ udpStatusOK] exI [of _ env])
      qed
    qed
  qed
qed

text \<open>A resolver over the sample chain, for the witnesses; its bucket grants every request.\<close>

definition sample_server_env :: "((cache_key, resolve_result centry) lru_list, (string + 64 word) list \<times> int, unit) server_env" where
  "sample_server_env = \<lparr>se_resolver = sample_resolver,
     se_rate = \<lparr>rl_New = (\<lambda>_ _. ()), rl_Allow = (\<lambda>_ b. (b, True))\<rparr>,
     se_torrent = \<lparr>tl_FromHexString = hex_decode, tl_Sum256 = (\<lambda>b. take 32 (b @ replicate 32 0)),
       tl_AddTorrentInfoHash = (\<lambda>_ w. w), tl_AddTorrentOpt = (\<lambda>_ _ _ w. w), tl_ResolvePeer = (\<lambda>_. None),
       tl_AddPeer = (\<lambda>_ _ w. w), tl_GotInfo = (\<lambda>_ w. (w, None)), tl_Length = (\<lambda>_ _. 1),
       tl_Download = (\<lambda>_ w. (w, Inr [7])), tl_Torrent = (\<lambda>_ _. True), tl_Drop = (\<lambda>_ w. w),
       tl_ReadFile = (\<lambda>_ _. Inl ''no file''), tl_BuildInfo = (\<lambda>_ _. Inl ''no file''), tl_HashInfoBytes = id\<rparr>,
     se_sniff = \<lparr>sn_unicode = ascii_only, DetectContentType = (\<lambda>_. ''application/octet-stream''), ParseMediaType = Some\<rparr>,
     se_unicode = ascii_only, se_Quote = id, se_Hex = hexutil_Encode toy_crypto,
     se_cfg = \<lparr>RPCURL = [], ContractAddress = [], RegistryAddress = [], KeystorePath = [], RESTPort = 8080, UDPPort = 5354,
       BTListenPort = 42069, CacheSize = 2, RateRPS = 20, RateBurst = 40, DataDir = ''data'', AllowPeerHints = False,
       EnforceType = False, EnableShowcase = False, ResolverRegistryAddress = [], ResolverIncentivesAddress = []\<rparr>,
     se_identity = replicate 32 5, se_startTime = 0, se_bt = True, se_resource = True, se_listen = (\<lambda>_. []),
     se_swarm = (\<lambda>_. []),
     se_os = \<lparr>os_ReadFile = (\<lambda>_ _. FileNotExist), os_MkdirAll = (\<lambda>_ w. (w, None)), os_WriteFile = (\<lambda>_ _ w. (w, None)),
       rand_Read = (\<lambda>n w. (w, Inr (replicate n 9)))\<rparr>,
     se_ReadDir = (\<lambda>_ _. None), se_TorrentErr = (\<lambda>_. ''fetch failed'')\<rparr>"

definition sample_server :: "((cache_key, resolve_result centry) lru_list, (string + 64 word) list \<times> int, unit) server" where
  "sample_server = \<lparr>sv_query = \<lparr>q_cache = fresh_cache, q_zk = zk_initial, q_world = ([], 0)\<rparr>,
     sv_limiter = newIPLimiter 20 40, sv_engine = engine_New\<rparr>"

theorem udp_reply_faithful_witness:
  "\<exists>vals. decodeUDPResponse (snd (handleUDPPacket sample_server_env (0, 1) [1, 2, 3] sample_server)) =
     Inr (udpStatusBadQuery, vals) \<and> vals udpTLVEnvelope = None"
proof -
  have h: "hexutil_ok (se_crypto sample_server_env)" "ed_ok (se_crypto sample_server_env) (se_identity sample_server_env)"
    using toy_hexutil toy_ed [of "replicate 32 5"]
    by (simp_all add: se_crypto_def sample_server_env_def sample_resolver_def list_resolver_def)
  obtain s' reply where r: "handleUDPPacket sample_server_env (0, 1) [1, 2, 3] sample_server = (s', reply)" by fastforce
  have "decodeUDPQuery (se_unicode sample_server_env) [1, 2, 3] = Inl PacketTooShort" by (simp add: decodeUDPQuery_def)
  then have "\<exists>vals. decodeUDPResponse reply = Inr (udpStatusBadQuery, vals)"
    using r by (auto simp: handleUDPPacket_def encodeUDPError_def decode_encoded)
  with udp_reply_faithful [OF h r] show ?thesis
    using r by (auto simp: udpStatusBadQuery_def udpStatusOK_def)
qed

theorem udp_loop_answers_once_witness:
  "mset (map fst (ul_sent (udp_run sample_server_env [UReceive (0, 0, 0) ''10.0.0.1:99'' [1], UFinish (0, 1) 0]
       \<lparr>ul_server = sample_server, ul_inFlight = [], ul_sent = []\<rparr>) @
     ul_inFlight (udp_run sample_server_env [UReceive (0, 0, 0) ''10.0.0.1:99'' [1], UFinish (0, 1) 0]
       \<lparr>ul_server = sample_server, ul_inFlight = [], ul_sent = []\<rparr>))) = {#''10.0.0.1:99''#}"
  using udp_loop_answers_once [of "\<lparr>ul_server = sample_server, ul_inFlight = [], ul_sent = []\<rparr>" sample_server_env
      "[UReceive (0, 0, 0) ''10.0.0.1:99'' [1], UFinish (0, 1) 0]"] by (simp only: udp_loop.simps) simp

end
