(* ===== verification/Resource_Api.thy ===== *)
theory Resource_Api
  imports Rest_Api Query_Race "HOL-Library.Sublist"
begin

text \<open>
  Serving resources, src/resolver/internal/server: the verified fetch behind /resource and /web (resource.go,
  web.go), and the listen addresses of the torrent engine (torrent.go).

  The two ends of the \<open>select\<close> on the fetch semaphore are the argument \<open>slot\<close>: whether a slot was obtained before the
  context ended.
\<close>

section \<open>The verified fetch\<close>

definition webSandboxCSP :: string where
  "webSandboxCSP = ''sandbox allow-scripts allow-forms; base-uri '' @ [CHR 0x27] @ ''none'' @ [CHR 0x27]"

datatype resource_query_error = ResourceQuery query_error | NotResourceRef

fun resource_query_error_text :: "(string \<Rightarrow> string) \<Rightarrow> resource_query_error \<Rightarrow> string" where
  "resource_query_error_text Q (ResourceQuery e) = query_error_text Q e"
| "resource_query_error_text Q NotResourceRef = ''resource endpoint only resolves ResourceRef records''"

definition parseResourceQuery :: "unicode \<Rightarrow> http_request \<Rightarrow> resource_query_error + query" where
  "parseResourceQuery U r =
     (let recordType = params_Get r ''type'';
          recordType = (if recordType = [] then ''ResourceRef'' else recordType)
      in if recordType \<noteq> ''ResourceRef'' then Inl NotResourceRef
         else
           (case rbind (ParsePairs U (params_Get r ''selector'')) (New_query U (params_Get r ''name'') recordType) of
              Inl e \<Rightarrow> Inl (ResourceQuery e)
            | Inr q \<Rightarrow> Inr q))"

record verified_resource =
  vrBody :: bytes
  vrOwner :: string
  vrPubKeyHex :: string
  vrInfoHash :: string
  vrSha :: string
  vrContentType :: string
  vrZKHex :: string
  vrValidation :: ct_result
  vrTTL :: "32 word"

record resource_error =
  reStatus :: nat
  reCode :: string
  reMsg :: string

text \<open>The fields of a ResourceRef record that the fetch uses: infohash, digest and declared type.\<close>

definition field_or_blank :: "chain_record \<Rightarrow> string \<Rightarrow> string" where
  "field_or_blank rec n = (case Field rec n of Some v \<Rightarrow> if TrimSpace v = [] then [] else v | None \<Rightarrow> [])"

definition resource_fields :: "chain_record \<Rightarrow> resource_error + string \<times> string \<times> string" where
  "resource_fields rec =
     (let infoHash = field_or_blank rec ''infoHash''; sha = field_or_blank rec ''sha256'';
          ct = field_or_blank rec ''contentType'';
          ct = (if ct = [] then ''application/octet-stream'' else ct)
      in if infoHash = [] then Inl \<lparr>reStatus = 502, reCode = ''bad_resource_ref'', reMsg = ''ResourceRef is missing infoHash''\<rparr>
         else if sha = [] then Inl \<lparr>reStatus = 502, reCode = ''bad_resource_ref'', reMsg = ''ResourceRef is missing sha256''\<rparr>
         else if CHR 0x0D \<in> set ct \<or> CHR 0x0A \<in> set ct
         then Inl \<lparr>reStatus = 502, reCode = ''bad_resource_ref'', reMsg = ''ResourceRef contentType is invalid''\<rparr>
         else Inr (infoHash, sha, ct))"

text \<open>The classification of fetch errors; the two errors of a context are known by their texts.\<close>

definition is_ctx_err :: "string \<Rightarrow> bool" where
  "is_ctx_err e = (e = ''context deadline exceeded'' \<or> e = ''context canceled'')"

definition fetch_error :: "('s, 'w, 'l) server_env \<Rightarrow> torrent_error \<Rightarrow> resource_error" where
  "fetch_error E err =
     (case err of
        ErrHashMismatch \<Rightarrow> \<lparr>reStatus = 502, reCode = ''resource_hash_mismatch'',
                            reMsg = ''torrent payload did not match on-chain sha256''\<rparr>
      | ErrTooLarge n \<Rightarrow> \<lparr>reStatus = 502, reCode = ''resource_too_large'', reMsg = se_TorrentErr E err\<rparr>
      | ErrMetadata h e \<Rightarrow>
          (if is_ctx_err e then \<lparr>reStatus = 504, reCode = ''resource_timeout'', reMsg = se_TorrentErr E err\<rparr>
           else \<lparr>reStatus = 502, reCode = ''resource_fetch_failed'', reMsg = se_TorrentErr E err\<rparr>)
      | ErrDownload h e \<Rightarrow>
          (if is_ctx_err e then \<lparr>reStatus = 504, reCode = ''resource_timeout'', reMsg = se_TorrentErr E err\<rparr>
           else \<lparr>reStatus = 502, reCode = ''resource_fetch_failed'', reMsg = se_TorrentErr E err\<rparr>)
      | _ \<Rightarrow> \<lparr>reStatus = 502, reCode = ''resource_fetch_failed'', reMsg = se_TorrentErr E err\<rparr>)"

definition set_engine :: "engine \<times> 'w \<Rightarrow> ('s, 'w, 'l) server \<Rightarrow> ('s, 'w, 'l) server" where
  "set_engine ew s = set_world (snd ew) (s\<lparr>sv_engine := fst ew\<rparr>)"

definition fetchVerifiedResource ::
  "('s, 'w, 'l) server_env \<Rightarrow> int \<times> int \<Rightarrow> bool \<Rightarrow> query \<Rightarrow> string list \<Rightarrow> ('s, 'w, 'l) server \<Rightarrow>
   ('s, 'w, 'l) server \<times> (resource_error + verified_resource)" where
  "fetchVerifiedResource E ts slot q peers s =
     (if \<not> se_resource E
      then (s, Inl \<lparr>reStatus = 503, reCode = ''resource_engine_unavailable'', reMsg = ''resource fetching is not enabled''\<rparr>)
      else
        (case HandleQuery (se_resolver E) ts q (sv_query s) of
           (qs, Inl err) \<Rightarrow> (s\<lparr>sv_query := qs\<rparr>, Inl \<lparr>reStatus = 502, reCode = ''chain_error'', reMsg = err\<rparr>)
         | (qs, Inr res) \<Rightarrow>
             (let s = s\<lparr>sv_query := qs\<rparr>; result = the (qrResult res)
              in if \<not> Found res
                 then (s, Inl \<lparr>reStatus = 404, reCode = ''no_match'', reMsg = ''ResourceRef record was not found''\<rparr>)
                 else if \<not> resOwnerSigValid result
                 then (s, Inl \<lparr>reStatus = 502, reCode = ''owner_signature_invalid'',
                               reMsg = ''ResourceRef owner signature failed verification''\<rparr>)
                 else
                   (case resource_fields (resRecord result) of
                      Inl e \<Rightarrow> (s, Inl e)
                    | Inr (infoHash, sha, contentType) \<Rightarrow>
                        if \<not> slot
                        then (s, Inl \<lparr>reStatus = 503, reCode = ''resource_busy'',
                                      reMsg = ''resolver is busy serving resources; retry shortly''\<rparr>)
                        else
                          (case Fetch (se_torrent E) infoHash sha peers (sv_engine s, get_world s) of
                             (ew, Inl err) \<Rightarrow> (set_engine ew s, Inl (fetch_error E err))
                           | (ew, Inr body) \<Rightarrow>
                               (let s = set_engine ew s; v = ct_Validate (se_sniff E) contentType body
                                in if \<not> ctOK v \<and> EnforceType (se_cfg E)
                                   then (s, Inl \<lparr>reStatus = 422, reCode = ''content_type_mismatch'', reMsg = ctReason v\<rparr>)
                                   else
                                     (s, Inr \<lparr>vrBody = body, vrOwner = se_Hex E (resOwner result),
                                              vrPubKeyHex = hexutil_Encode (se_crypto E) (resPubKey result),
                                              vrInfoHash = infoHash, vrSha = sha, vrContentType = contentType,
                                              vrZKHex = (if length (resZKProof result) > 0
                                                 then hexutil_Encode (se_crypto E) (resZKProof result) else []),
                                              vrValidation = v, vrTTL = rTTL (resRecord result)\<rparr>)))))))"

section \<open>/resource\<close>

definition validationStatus :: "bool \<Rightarrow> string" where
  "validationStatus ok = (if ok then ''ok'' else ''mismatch'')"

definition isLoopbackHost :: "string \<Rightarrow> bool" where
  "isLoopbackHost host =
     ((case ParseIP host of Some ip \<Rightarrow> IsLoopback ip | None \<Rightarrow> False) \<or> EqualFold_ascii host ''localhost'')"

definition maxPeers :: nat where "maxPeers = 16"

fun peers_loop :: "bool \<Rightarrow> string list \<Rightarrow> string list \<Rightarrow> string list" where
  "peers_loop hints [] out = out"
| "peers_loop hints (p # ps) out =
     (case SplitHostPort p of
        None \<Rightarrow> peers_loop hints ps out
      | Some (host, _) \<Rightarrow>
          if \<not> hints \<and> \<not> isLoopbackHost host then peers_loop hints ps out
          else (let out = out @ [p] in if length out \<ge> maxPeers then out else peers_loop hints ps out))"

definition resourcePeers :: "('s, 'w, 'l) server_env \<Rightarrow> http_request \<Rightarrow> string list" where
  "resourcePeers E r = peers_loop (AllowPeerHints (se_cfg E)) (rq_params r ''peer'') []"

definition resource_provenance :: "verified_resource \<Rightarrow> provenance" where
  "resource_provenance vr =
     \<lparr>pvOwner = vrOwner vr, pvPubKeyHex = vrPubKeyHex vr, pvInfoHash = vrInfoHash vr, pvSha256Hex = vrSha vr,
      pvContentType = vrContentType vr, pvOwnerSigVerified = True, pvZKProofHex = vrZKHex vr\<rparr>"

definition resource_response :: "('s, 'w, 'l) server_env \<Rightarrow> verified_resource \<Rightarrow> http_response" where
  "resource_response E vr =
     (let sg = hexutil_Encode (se_crypto E)
                 (id_Sign (se_crypto E) (se_identity E) (ResourceManifest (se_crypto E) (resource_provenance vr) (vrBody vr)));
          hs = [(''Content-Type'', vrContentType vr), (''X-Content-Type-Options'', ''nosniff''),
                (''Content-Security-Policy'', webSandboxCSP),
                (''X-DDNS-Resolver'', PublicKeyHex (se_crypto E) (se_identity E)),
                (''X-DDNS-Sig-Scheme'', ''ddns-resource-v1''), (''X-DDNS-Signature'', sg), (''X-DDNS-Owner'', vrOwner vr),
                (''X-DDNS-PubKey'', vrPubKeyHex vr), (''X-DDNS-InfoHash'', vrInfoHash vr), (''X-DDNS-SHA256'', vrSha vr),
                (''X-DDNS-OwnerSig-Verified'', ''true''),
                (''X-DDNS-Content-Validation'', validationStatus (ctOK (vrValidation vr))),
                (''X-DDNS-Detected-Type'', ctDetected (vrValidation vr))] @
               (if vrZKHex vr \<noteq> [] then [(''X-DDNS-ZKProof'', vrZKHex vr)] else []) @
               (if vrTTL vr > 0 then [(''Cache-Control'', ''public, max-age='' @ Itoa (uint (vrTTL vr)))] else [])
      in \<lparr>h_status = 200, h_headers = hs, h_body = vrBody vr\<rparr>)"

definition handleResource ::
  "('s, 'w, 'l) server_env \<Rightarrow> int \<times> int \<Rightarrow> bool \<Rightarrow> http_request \<Rightarrow> ('s, 'w, 'l) handler" where
  "handleResource E ts slot r s =
     (case parseResourceQuery (se_unicode E) r of
        Inl err \<Rightarrow> (s, writeError 400 ''invalid_query'' (resource_query_error_text (se_Quote E) err))
      | Inr q \<Rightarrow>
          (case fetchVerifiedResource E ts slot q (resourcePeers E r) s of
             (s, Inl e) \<Rightarrow> (s, writeError (reStatus e) (reCode e) (reMsg e))
           | (s, Inr vr) \<Rightarrow> (s, resource_response E vr)))"

section \<open>/web\<close>

text \<open>\<open>ListenAddrs\<close> over the addresses the torrent client reports.\<close>

definition dialable :: "string \<times> string \<Rightarrow> string" where
  "dialable hp =
     (let host = (case ParseIP (fst hp) of
            None \<Rightarrow> ''127.0.0.1''
          | Some ip \<Rightarrow> if IsUnspecified ip then ''127.0.0.1'' else fst hp)
      in JoinHostPort host (snd hp))"

fun listen_loop :: "string list \<Rightarrow> string list \<Rightarrow> string list" where
  "listen_loop [] out = out"
| "listen_loop (a # as) out =
     (case SplitHostPort a of
        None \<Rightarrow> listen_loop as out
      | Some hp \<Rightarrow> (let d = dialable hp in listen_loop as (if d \<in> set out then out else out @ [d])))"

definition ListenAddrs :: "string list \<Rightarrow> string list" where
  "ListenAddrs addrs = listen_loop addrs []"

definition PublicOpenTrackers :: "string list list" where
  "PublicOpenTrackers =
     [[''udp://tracker.opentrackr.org:1337/announce''], [''udp://open.stealth.si:80/announce''],
      [''udp://tracker.torrent.eu.org:451/announce''], [''udp://tracker.moeking.me:6969/announce''],
      [''udp://explodie.org:6969/announce''], [''http://tracker.opentrackr.org:1337/announce'']]"

definition trackerParams :: string where
  "trackerParams =
     concat (map (\<lambda>tier. case tier of [] \<Rightarrow> [] | t # _ \<Rightarrow> ''&tr='' @ QueryEscape t) PublicOpenTrackers)"

definition peerParams :: "('s, 'w, 'l) server_env \<Rightarrow> http_request \<Rightarrow> 'w \<Rightarrow> string" where
  "peerParams E r w =
     (let btPort = (if BTListenPort (se_cfg E) = 0 then 42069 else BTListenPort (se_cfg E));
          host = remote_ip (rq_Host r);
          pp = (if host \<noteq> [] \<and> host \<noteq> ''localhost'' \<and> host \<noteq> ''127.0.0.1''
                then ''&x.pe='' @ host @ '':'' @ Itoa btPort else []);
          pp = (if se_bt E
                then fold (\<lambda>addr pp. if contains_sub pp addr then pp else pp @ ''&x.pe='' @ addr)
                       (ListenAddrs (se_listen E w)) pp
                else pp)
      in if contains_sub pp ''127.0.0.1'' then pp else pp @ ''&x.pe=127.0.0.1:'' @ Itoa btPort)"

definition magnetURI :: "string \<Rightarrow> string \<Rightarrow> string \<Rightarrow> string" where
  "magnetURI infoHash name pp = ''magnet:?xt=urn:btih:'' @ infoHash @ ''&dn='' @ name @ ''.html'' @ pp @ trackerParams"

text \<open>The loop over the selectors: \<open>got\<close> is the pair of \<open>vr\<close> and \<open>rerr\<close>, \<open>None\<close> while both are nil.\<close>

fun web_loop ::
  "('s, 'w, 'l) server_env \<Rightarrow> (nat \<Rightarrow> (int \<times> int) \<times> bool) \<Rightarrow> nat \<Rightarrow> http_request \<Rightarrow> string list \<Rightarrow>
   (resource_error + verified_resource) option \<Rightarrow> ('s, 'w, 'l) server \<Rightarrow>
   ('s, 'w, 'l) server \<times> (resource_error + verified_resource) option" where
  "web_loop E rounds i r [] got s = (s, got)"
| "web_loop E rounds i r (sel # sels) got s =
     (case rbind (ParsePairs (se_unicode E) sel) (New_query (se_unicode E) (rq_name r) ''ResourceRef'') of
        Inl err \<Rightarrow> web_loop E rounds (Suc i) r sels got s
      | Inr q \<Rightarrow>
          (case fetchVerifiedResource E (fst (rounds i)) (snd (rounds i)) q (resourcePeers E r) s of
             (s, Inr vr) \<Rightarrow> (s, Some (Inr vr))
           | (s, Inl e) \<Rightarrow>
               if reCode e \<noteq> ''no_match'' then (s, Some (Inl e))
               else web_loop E rounds (Suc i) r sels (Some (Inl e)) s))"

definition web_response ::
  "('s, 'w, 'l) server_env \<Rightarrow> http_request \<Rightarrow> ('s, 'w, 'l) server \<Rightarrow> verified_resource \<Rightarrow> http_response" where
  "web_response E r s vr =
     \<lparr>h_status = 200,
      h_headers = [(''Server'', ''Decentralized-DNS/2.0 (BitTorrent-P2P + Ethereum-Sepolia)''),
        (''Content-Type'', vrContentType vr), (''X-Content-Type-Options'', ''nosniff''),
        (''Content-Security-Policy'', webSandboxCSP), (''Cache-Control'', ''no-cache, must-revalidate''),
        (''X-DDNS-Storage-Protocol'', ''BitTorrent (BEP-05 Mainline DHT / P2P Swarm)''),
        (''X-DDNS-InfoHash'', vrInfoHash vr),
        (''X-DDNS-Magnet'', magnetURI (vrInfoHash vr) (rq_name r) (peerParams E r (get_world s))),
        (''X-DDNS-Owner'', vrOwner vr), (''X-DDNS-SHA256'', vrSha vr),
        (''X-DDNS-Integrity-Status'', ''SHA-256 matched on-chain ResourceRef digest''),
        (''X-DDNS-Content-Validation'', validationStatus (ctOK (vrValidation vr)))],
      h_body = vrBody vr\<rparr>"

definition selectorsToTry :: "http_request \<Rightarrow> string list" where
  "selectorsToTry r =
     (let selector = params_Get r ''selector'' in if selector \<noteq> [] then [selector] else [''service=HTTP'', []])"

definition handleWeb ::
  "('s, 'w, 'l) server_env \<Rightarrow> (nat \<Rightarrow> (int \<times> int) \<times> bool) \<Rightarrow> http_request \<Rightarrow> ('s, 'w, 'l) server \<Rightarrow>
   ('s, 'w, 'l) server \<times> handled" where
  "handleWeb E rounds r s =
     (case web_loop E rounds 0 r (selectorsToTry r) None s of
        (s, None) \<Rightarrow> (s, Panicked)
      | (s, Some (Inl e)) \<Rightarrow> (s, Responded (writeError (reStatus e) (reCode e) (reMsg e)))
      | (s, Some (Inr vr)) \<Rightarrow> (s, Responded (web_response E r s vr)))"

section \<open>Facts\<close>

lemma field_or_blank_Some: "field_or_blank rec n \<noteq> [] \<Longrightarrow> Field rec n = Some (field_or_blank rec n)"
  by (auto simp: field_or_blank_def split: option.splits if_splits)

lemma resource_fields_Inr:
  assumes "resource_fields rec = Inr (ih, sha, ct)"
  shows "Field rec ''infoHash'' = Some ih" "Field rec ''sha256'' = Some sha" "ct \<noteq> []"
  using assms field_or_blank_Some by (auto simp: resource_fields_def Let_def split: if_splits)

lemma fetch_content:
  assumes "Fetch T ihx shax peers s = (s', Inr body)"
  shows "hex_decode shax = Some (tl_Sum256 T body)" "\<exists>ih. tl_FromHexString T ihx = Some ih"
  using assms
  by (auto simp: Fetch_def fetch_body_def Let_def split: option.splits if_splits prod.splits sum.splits)

text \<open>The checks that every resource has passed that \<open>fetchVerifiedResource\<close> hands out.\<close>

lemma fetchVerifiedResource_Inr:
  assumes "fetchVerifiedResource E ts slot q peers s = (s', Inr vr)"
  obtains qs res where "HandleQuery (se_resolver E) ts q (sv_query s) = (qs, Inr res)" "Found res"
    "resOwnerSigValid (the (qrResult res))"
    "resource_fields (resRecord (the (qrResult res))) = Inr (vrInfoHash vr, vrSha vr, vrContentType vr)"
    "hex_decode (vrSha vr) = Some (tl_Sum256 (se_torrent E) (vrBody vr))"
    "vrValidation vr = ct_Validate (se_sniff E) (vrContentType vr) (vrBody vr)"
    "EnforceType (se_cfg E) \<longrightarrow> ctOK (vrValidation vr)"
    "vrOwner vr = se_Hex E (resOwner (the (qrResult res)))"
    "vrPubKeyHex vr = hexutil_Encode (se_crypto E) (resPubKey (the (qrResult res)))"
    "\<exists>ih. tl_FromHexString (se_torrent E) (vrInfoHash vr) = Some ih"
    "vrZKHex vr = (if length (resZKProof (the (qrResult res))) > 0 then hexutil_Encode (se_crypto E) (resZKProof (the (qrResult res))) else [])"
proof -
  have r: "se_resource E" using assms by (auto simp: fetchVerifiedResource_def split: if_splits)
  obtain qs x where h: "HandleQuery (se_resolver E) ts q (sv_query s) = (qs, x)" by fastforce
  obtain res where res: "x = Inr res" using assms r h by (cases x) (auto simp: fetchVerifiedResource_def)
  have f: "Found res" "resOwnerSigValid (the (qrResult res))"
    using assms r h res by (auto simp: fetchVerifiedResource_def Let_def split: if_splits)
  obtain y where y: "resource_fields (resRecord (the (qrResult res))) = y" by blast
  obtain ih sha ct where fl: "resource_fields (resRecord (the (qrResult res))) = Inr (ih, sha, ct)"
    using assms r h res f y by (cases y) (auto simp: fetchVerifiedResource_def Let_def)
  have sl: "slot" using assms r h res f fl by (auto simp: fetchVerifiedResource_def Let_def split: if_splits)
  obtain ew z where z: "Fetch (se_torrent E) ih sha peers (sv_engine (s\<lparr>sv_query := qs\<rparr>), get_world (s\<lparr>sv_query := qs\<rparr>)) = (ew, z)"
    by fastforce
  obtain body where b: "z = Inr body"
    using assms r h res f fl sl z by (cases z) (auto simp: fetchVerifiedResource_def Let_def)
  note fc = fetch_content [OF z [unfolded b]]
  show thesis
    using assms r h res f fl sl z b fc
    by (intro that [OF h [unfolded res]]) (auto simp: fetchVerifiedResource_def Let_def split: if_splits)
qed

lemma from_chain_verified:
  "from_chain R q res \<Longrightarrow> resOwnerSigValid res \<Longrightarrow>
   rExists (resRecord res) \<and> VerifyOwnerSig (rv_crypto R) (qName q) (resRecord res) (resOwner res) (resPubKey res) = Inr ()"
  by (simp add: from_chain_def)

lemma New_query_name: "New_query U n t ps = Inr q \<Longrightarrow> qName q = n"
  by (auto simp: New_query_def rbind_eq_Inr)

lemma parseResourceQuery_name: "parseResourceQuery U r = Inr q \<Longrightarrow> qName q = params_Get r ''name''"
  by (auto simp: parseResourceQuery_def Let_def rbind_eq_Inr New_query_name split: if_splits sum.splits)

lemma resource_response_headers:
  "header_Get (h_headers (resource_response E vr)) ''X-DDNS-SHA256'' = vrSha vr"
  "header_Get (h_headers (resource_response E vr)) ''Content-Type'' = vrContentType vr"
  "h_body (resource_response E vr) = vrBody vr" "h_status (resource_response E vr) = 200"
  by (simp_all add: header_Get_def resource_response_def Let_def)

text \<open>The provenance that the headers of a response state.\<close>

definition header_provenance :: "(string \<times> string) list \<Rightarrow> provenance" where
  "header_provenance hs =
     \<lparr>pvOwner = header_Get hs ''X-DDNS-Owner'', pvPubKeyHex = header_Get hs ''X-DDNS-PubKey'',
      pvInfoHash = header_Get hs ''X-DDNS-InfoHash'', pvSha256Hex = header_Get hs ''X-DDNS-SHA256'',
      pvContentType = header_Get hs ''Content-Type'',
      pvOwnerSigVerified = (header_Get hs ''X-DDNS-OwnerSig-Verified'' = ''true''),
      pvZKProofHex = header_Get hs ''X-DDNS-ZKProof''\<rparr>"

lemma resource_response_signed:
  fixes E :: "('s, 'w, 'l) server_env" and vr :: verified_resource
  defines "hs \<equiv> h_headers (resource_response E vr)"
  shows "header_provenance hs = resource_provenance vr" "header_Get hs ''X-DDNS-Resolver'' = PublicKeyHex (se_crypto E) (se_identity E)"
    "header_Get hs ''X-DDNS-Signature'' = hexutil_Encode (se_crypto E)
       (id_Sign (se_crypto E) (se_identity E) (ResourceManifest (se_crypto E) (resource_provenance vr) (vrBody vr)))"
    "header_Get hs ''X-DDNS-Owner'' = vrOwner vr" "header_Get hs ''X-DDNS-PubKey'' = vrPubKeyHex vr"
    "header_Get hs ''X-DDNS-OwnerSig-Verified'' = ''true''" "header_Get hs ''X-DDNS-InfoHash'' = vrInfoHash vr"
    "header_Get hs ''X-DDNS-ZKProof'' = vrZKHex vr"
  by (simp_all add: hs_def resource_response_def header_provenance_def resource_provenance_def header_Get_def Let_def)

lemma fetch_error_status: "reStatus (fetch_error E err) \<noteq> 200"
  by (simp add: fetch_error_def split: torrent_error.splits)

lemma fetchVerifiedResource_Inl:
  "fetchVerifiedResource E ts slot q peers s = (s', Inl e) \<Longrightarrow> reStatus e \<noteq> 200"
  using fetch_error_status [of E]
  by (auto simp: fetchVerifiedResource_def resource_fields_def Let_def split: if_splits prod.splits sum.splits)

lemma writeError_status [simp]: "h_status (writeError st code msg) = st"
  by (simp add: writeError_def writeJSON_def)

lemma is_error_response: "resp = writeError st code msg \<Longrightarrow> \<exists>code msg. resp = writeError (h_status resp) code msg"
  using writeError_status by metis

definition web_query :: "unicode \<Rightarrow> http_request \<Rightarrow> string \<Rightarrow> query_error + query" where
  "web_query U r sel = rbind (ParsePairs U sel) (New_query U (rq_name r) ''ResourceRef'')"

lemma web_loop_None:
  "snd (web_loop E rounds i r sels got s) = None \<longleftrightarrow>
   got = None \<and> list_all (\<lambda>sel. \<not> isOk (web_query (se_unicode E) r sel)) sels"
proof (induction E rounds i r sels got s rule: web_loop.induct)
  case (2 E rounds i r sel sels got s)
  show ?case
  proof (cases "web_query (se_unicode E) r sel")
    case (Inl err)
    then show ?thesis using 2(1) [of err] by (simp add: web_query_def)
  next
    case (Inr q)
    obtain s1 x where x: "fetchVerifiedResource E (fst (rounds i)) (snd (rounds i)) q (resourcePeers E r) s = (s1, x)"
      by fastforce
    show ?thesis
      using Inr x 2(2) [of q s1 _] by (cases x) (auto simp: web_query_def)
  qed
qed simp

lemma peers_loop_spec:
  assumes "length out < maxPeers"
  shows "length (peers_loop hints ps out) \<le> maxPeers \<and>
    (\<exists>qs. peers_loop hints ps out = out @ qs \<and> subseq qs ps \<and>
       list_all (\<lambda>p. \<exists>host port. SplitHostPort p = Some (host, port) \<and> (hints \<or> isLoopbackHost host)) qs)"
  using assms
proof (induction hints ps out rule: peers_loop.induct)
  case (2 hints p ps out)
  show ?case
  proof (cases "SplitHostPort p")
    case None
    then show ?thesis using 2(1) [OF None 2(4)] by (auto intro: list_emb_Cons)
  next
    case (Some hp)
    obtain host port where hp: "hp = (host, port)" by fastforce
    note Some = Some [unfolded hp]
    show ?thesis
    proof (cases "\<not> hints \<and> \<not> isLoopbackHost host")
      case True
      then show ?thesis using 2(2) [OF Some refl True 2(4)] Some by (auto intro: list_emb_Cons)
    next
      case ok: False
      show ?thesis
      proof (cases "length (out @ [p]) \<ge> maxPeers")
        case True
        then have "peers_loop hints (p # ps) out = out @ [p]" using Some ok by (auto simp: Let_def)
        moreover have "subseq [p] (p # ps)" by simp
        ultimately show ?thesis using 2(4) Some ok by auto
      next
        case False
        then have "peers_loop hints (p # ps) out = peers_loop hints ps (out @ [p])" using Some ok by (auto simp: Let_def)
        moreover have "length (out @ [p]) < maxPeers" using False by simp
        from 2(3) [OF Some refl ok refl False this] obtain qs where
          "length (peers_loop hints ps (out @ [p])) \<le> maxPeers" "peers_loop hints ps (out @ [p]) = (out @ [p]) @ qs"
          "subseq qs ps" "list_all (\<lambda>p. \<exists>host port. SplitHostPort p = Some (host, port) \<and> (hints \<or> isLoopbackHost host)) qs"
          by blast
        ultimately show ?thesis using Some ok by (intro conjI exI [of _ "p # qs"]) auto
      qed
    qed
  qed
qed simp

section \<open>Properties\<close>

text \<open>
  C21: What /resource serves is what the owner of the name published. In any state that a run of the server reaches, a
  response with status 200 goes back to a ResourceRef record that the contract returned for the requested name and whose
  owner signature verifies; the body has the SHA-256 of that record's sha256 field, which the response repeats; with
  ENFORCE_CONTENT_TYPE the declared type fits the content; and the X-DDNS-Signature header is the signature of the resolver's identity,
  whose key the response names, over the manifest of exactly this body and these headers. Every other response is an error without any
  content. (The state is one that queries, events and invalidations
  reach in any interleaving; the request itself runs without interruption.)
\<close>

theorem served_resource_verified:
  assumes "query_path (se_resolver E) contents cap linv N" and "cache_New (rv_cache (se_resolver E)) n = Inr c"
    and "\<Union> (flight_names ` set ops) \<subseteq> N" and "params_Get r ''name'' \<in> N"
    and "sv_query s = rc_state (fst (race_run (se_resolver E) ops (race_start c w, [])))"
    and "handleResource E ts slot r s = (s', resp)"
  shows "if h_status resp = 200
    then \<exists>q res. parseResourceQuery (se_unicode E) r = Inr q \<and> from_chain (se_resolver E) q res \<and>
      VerifyOwnerSig (se_crypto E) (qName q) (resRecord res) (resOwner res) (resPubKey res) = Inr () \<and>
      Field (resRecord res) ''sha256'' = Some (header_Get (h_headers resp) ''X-DDNS-SHA256'') \<and>
      hex_decode (header_Get (h_headers resp) ''X-DDNS-SHA256'') = Some (tl_Sum256 (se_torrent E) (h_body resp)) \<and>
      (EnforceType (se_cfg E) \<longrightarrow>
         ctOK (ct_Validate (se_sniff E) (header_Get (h_headers resp) ''Content-Type'') (h_body resp))) \<and>
      header_Get (h_headers resp) ''X-DDNS-Resolver'' = PublicKeyHex (se_crypto E) (se_identity E) \<and>
      header_Get (h_headers resp) ''X-DDNS-Owner'' = se_Hex E (resOwner res) \<and>
      header_Get (h_headers resp) ''X-DDNS-PubKey'' = hexutil_Encode (se_crypto E) (resPubKey res) \<and>
      header_Get (h_headers resp) ''X-DDNS-OwnerSig-Verified'' = ''true'' \<and>
      header_Get (h_headers resp) ''X-DDNS-Signature'' = hexutil_Encode (se_crypto E) (id_Sign (se_crypto E) (se_identity E)
        (ResourceManifest (se_crypto E) (header_provenance (h_headers resp)) (h_body resp)))
    else \<exists>code msg. resp = writeError (h_status resp) code msg"
proof (cases "parseResourceQuery (se_unicode E) r")
  case (Inl err)
  then have resp: "resp = writeError 400 ''invalid_query'' (resource_query_error_text (se_Quote E) err)"
    using assms(6) by (simp add: handleResource_def)
  then have "h_status resp \<noteq> 200" by simp
  with is_error_response [OF resp] show ?thesis by simp
next
  case (Inr q)
  obtain s1 x where x: "fetchVerifiedResource E ts slot q (resourcePeers E r) s = (s1, x)" by fastforce
  show ?thesis
  proof (cases x)
    case (Inl e)
    then have resp: "resp = writeError (reStatus e) (reCode e) (reMsg e)"
      using assms(6) Inr x by (simp add: handleResource_def)
    then have "h_status resp \<noteq> 200" using fetchVerifiedResource_Inl [OF x [unfolded Inl]] by simp
    with is_error_response [OF resp] show ?thesis by simp
  next
    case v: (Inr vr)
    then have resp: "resp = resource_response E vr" using assms(6) Inr x by (simp add: handleResource_def)
    from x [unfolded v] obtain qs qr where h: "HandleQuery (se_resolver E) ts q (sv_query s) = (qs, Inr qr)"
      and ok: "resOwnerSigValid (the (qrResult qr))"
        "resource_fields (resRecord (the (qrResult qr))) = Inr (vrInfoHash vr, vrSha vr, vrContentType vr)"
        "hex_decode (vrSha vr) = Some (tl_Sum256 (se_torrent E) (vrBody vr))"
        "vrValidation vr = ct_Validate (se_sniff E) (vrContentType vr) (vrBody vr)"
        "EnforceType (se_cfg E) \<longrightarrow> ctOK (vrValidation vr)"
      and vr: "vrOwner vr = se_Hex E (resOwner (the (qrResult qr)))"
        "vrPubKeyHex vr = hexutil_Encode (se_crypto E) (resPubKey (the (qrResult qr)))"
      by (rule fetchVerifiedResource_Inr)
    have "qName q \<in> N" using assms(4) parseResourceQuery_name [OF Inr] by simp
    from race_next_answer [OF assms(1-3) this h [unfolded assms(5)]]
    obtain res where res: "qrResult qr = Some res" "from_chain (se_resolver E) q res" by blast
    then show ?thesis
      using Inr ok from_chain_verified [OF res(2)] resource_fields_Inr(2) [OF ok(2)]
      by (auto simp: resp resource_response_headers resource_response_signed se_crypto_def vr intro!: exI [of _ res])
  qed
qed

text \<open>A server whose chain has one ResourceRef record, for the payload that the sample torrent client delivers.\<close>

definition resource_sha :: string where
  "resource_sha = hex_encode (7 # replicate 31 0)"

definition resource_record :: dapp_record where
  "resource_record = \<lparr>bRecordType = ''ResourceRef'', bSelector = [], bFieldNames = [''infoHash'', ''sha256''],
     bFieldValues = [''ab'', resource_sha], bTtl = 60, bGeneration = 1, bOwnerSig = replicate 65 0,
     bCommitment = replicate 32 0, bExists = True\<rparr>"

definition resource_chain :: "((string + 64 word) list \<times> int) rpc_api" where
  "resource_chain = flaky_api\<lparr>api_resolve := (\<lambda>n t sel w. (w, Inr (resource_record, [7], [])))\<rparr>"

definition resource_server_env ::
  "((cache_key, resolve_result centry) lru_list, (string + 64 word) list \<times> int, unit) server_env" where
  "resource_server_env = sample_server_env\<lparr>se_resolver := list_resolver toy_crypto small_zk resource_chain\<rparr>"

definition resource_request :: http_request where
  "resource_request = \<lparr>rq_params = (\<lambda>k. if k = ''name'' then [''example''] else if k = ''peer''
       then [''10.0.0.1:1'', ''127.0.0.1:6881''] else []),
     rq_name = ''example'', rq_RemoteAddr = ''10.0.0.9:4711'', rq_Host = ''localhost:8080''\<rparr>"

definition resource_answer :: resolve_result where
  "resource_answer = \<lparr>resRecord = fromBinding resource_record, resOwner = [7], resPubKey = [], resOwnerSigValid = True, resZKProof = []\<rparr>"

lemma resource_query: "parseResourceQuery ascii_only resource_request =
  Inr \<lparr>qName = ''example'', qType = ''ResourceRef'', qSelector = []\<rparr>"
proof -
  have "ValidateName ''example'' = Inr ()"
    by (simp add: ValidateName_def nameRe_def name_edge_def name_char_def is_lower_def in_range_def)
  moreover have "ValidateType ''ResourceRef'' = Inr ()"
    by (simp add: ValidateType_def typeRe_def type_char_def is_upper_def is_lower_def in_range_def)
  ultimately show ?thesis
    by (simp add: parseResourceQuery_def resource_request_def params_Get_def ParsePairs_def New_query_def CanonicalSelector_def)
qed

lemma resource_sig: "VerifyOwnerSig toy_crypto ''example'' (fromBinding resource_record) [7] [] = Inr ()"
proof -
  have rec: "length (rFieldNames (fromBinding resource_record)) = length (rFieldVals (fromBinding resource_record))"
    "rOwnerSig (fromBinding resource_record) = replicate 65 0"
    by (simp_all add: fromBinding_def resource_record_def)
  obtain m where m: "RecordMessage toy_crypto ''example'' (fromBinding resource_record) = Some m" "m \<noteq> []"
    using rec(1) by (simp add: RecordMessage_def field_pairs_def Let_def str_bytes_def)
  then show ?thesis
    using rec by (simp add: VerifyOwnerSig_def SignatureLength_def normalize_v_def)
      (simp add: toy_crypto_def isPlaceholderPubKey_def)
qed

lemma resource_chain_Resolve:
  "chain_Resolve resource_chain n t sel w = (w, Inr (resource_answer\<lparr>resOwnerSigValid := False\<rparr>))"
  by (simp add: chain_Resolve_def resource_chain_def retry_def retryAttempts_def numeral_3_eq_3 retry_wait_def
      flaky_api_def resource_answer_def)

lemma resource_HandleQuery:
  "snd (HandleQuery (se_resolver resource_server_env) (0, 1) \<lparr>qName = ''example'', qType = ''ResourceRef'', qSelector = []\<rparr>
     (sv_query sample_server)) = Inr \<lparr>qrResult = Some resource_answer, qrCached = False\<rparr>"
proof -
  let ?q = "\<lparr>qName = ''example'', qType = ''ResourceRef'', qSelector = []\<rparr>"
  let ?R = "list_resolver toy_crypto small_zk resource_chain"
  let ?r0 = "resource_answer\<lparr>resOwnerSigValid := False\<rparr>"
  have rec: "rCommitment (fromBinding resource_record) = zero_hash"
    "rExists (fromBinding resource_record)"
    by (simp_all add: fromBinding_def resource_record_def zero_hash_def)
  have "check_answer ?R ?q ?r0 zk_initial = (zk_initial, resource_answer)"
    using rec resource_sig by (simp add: check_answer_def proveRecord_def resource_answer_def list_resolver_def)
  moreover have "cache_Get list_env 0 (query_key ?q) fresh_cache = (fresh_cache\<lparr>c_misses := 1\<rparr>, None)"
    by (simp add: cache_Get_def list_env_def list_lru_def ll_Get_def fresh_cache_def)
  ultimately show ?thesis
    using rec(2)
    by (simp add: HandleQuery_def resource_server_env_def sample_server_def list_resolver_def resource_chain_Resolve)
      (simp add: resource_answer_def Let_def)
qed


lemma resource_sha_facts: "TrimSpace resource_sha \<noteq> []" "hex_decode resource_sha = Some (7 # replicate 31 0)"
proof -
  have "list_all is_graph resource_sha" unfolding resource_sha_def by (rule hex_encode_graph)
  moreover have "resource_sha \<noteq> []" by (simp add: resource_sha_def)
  ultimately show "TrimSpace resource_sha \<noteq> []"
    using TrimSpace_nonempty [of "hd resource_sha" resource_sha] by (simp add: list_all_iff)
  show "hex_decode resource_sha = Some (7 # replicate 31 0)" unfolding resource_sha_def by (rule hex_decode_encode)
qed

lemma sample_Fetch: "snd (Fetch (se_torrent sample_server_env) ''ab'' resource_sha peers s) = Inr [7]"
proof -
  have "hex_decode ''ab'' = Some [0xab]" by (simp add: hex_value_def Let_def)
  moreover have "fold (\<lambda>p w. case None of None \<Rightarrow> w | Some a \<Rightarrow> w) ps w = w" for ps :: "string list" and w :: 'w
    by (induction ps) simp_all
  ultimately show ?thesis
    by (simp add: Fetch_def resource_sha_facts sample_server_env_def fetch_body_def add_peers_def MaxFetchBytes_def Let_def)
qed

lemma resource_served:
  "\<exists>s' vr. handleResource resource_server_env (0, 1) True resource_request sample_server =
     (s', resource_response resource_server_env vr) \<and> vrSha vr = resource_sha \<and> vrBody vr = [7] \<and>
     vrContentType vr = ''application/octet-stream''"
proof -
  let ?E = resource_server_env
  obtain qs where h: "HandleQuery (se_resolver ?E) (0, 1) \<lparr>qName = ''example'', qType = ''ResourceRef'', qSelector = []\<rparr>
      (sv_query sample_server) = (qs, Inr \<lparr>qrResult = Some resource_answer, qrCached = False\<rparr>)"
    using resource_HandleQuery by (metis surjective_pairing)
  have "TrimSpace ''ab'' = ''ab''" by (simp add: go_simps is_graph_def)
  then have f: "resource_fields (resRecord resource_answer) = Inr (''ab'', resource_sha, ''application/octet-stream'')"
    using resource_sha_facts
    by (auto simp add: resource_fields_def field_or_blank_def resource_answer_def fromBinding_def resource_record_def Field_def Let_def)
  have t: "se_torrent ?E = se_torrent sample_server_env" "se_resource ?E" "\<not> EnforceType (se_cfg ?E)" "se_unicode ?E = ascii_only"
    by (simp_all add: resource_server_env_def sample_server_env_def)
  obtain ew where ft: "Fetch (se_torrent ?E) ''ab'' resource_sha (resourcePeers ?E resource_request)
      (sv_engine sample_server, get_world (sample_server\<lparr>sv_query := qs\<rparr>)) = (ew, Inr [7])"
    unfolding t(1) using sample_Fetch by (metis surjective_pairing)
  have "Found \<lparr>qrResult = Some resource_answer, qrCached = False\<rparr>" "resOwnerSigValid resource_answer"
    by (simp_all add: Found_def resource_answer_def fromBinding_def resource_record_def zero_address_def numeral_eq_Suc)
  then have "\<exists>s' vr. fetchVerifiedResource ?E (0, 1) True \<lparr>qName = ''example'', qType = ''ResourceRef'', qSelector = []\<rparr>
      (resourcePeers ?E resource_request) sample_server = (s', Inr vr) \<and> vrSha vr = resource_sha \<and> vrBody vr = [7] \<and>
      vrContentType vr = ''application/octet-stream''"
    using h f ft t by (simp add: fetchVerifiedResource_def Let_def)
  then show ?thesis
    using resource_query t(4) by (auto simp: handleResource_def)
qed

theorem served_resource_verified_witness:
  "\<exists>q res. from_chain (se_resolver resource_server_env) q res \<and> Field (resRecord res) ''sha256'' = Some resource_sha \<and>
     VerifyOwnerSig toy_crypto (qName q) (resRecord res) (resOwner res) (resPubKey res) = Inr ()"
proof -
  obtain s' vr where r: "handleResource resource_server_env (0, 1) True resource_request sample_server =
      (s', resource_response resource_server_env vr)" "vrSha vr = resource_sha"
    using resource_served by blast
  have c: "cache_New (rv_cache (se_resolver resource_server_env)) 2 = Inr fresh_cache"
    using fresh_New by (simp add: resource_server_env_def sample_resolver_def list_resolver_def)
  have qp: "query_path (se_resolver resource_server_env) ll_contents fst ll_inv UNIV"
    using qp.query_path_axioms by (simp add: resource_server_env_def)
  have s: "sv_query sample_server = rc_state (fst (race_run (se_resolver resource_server_env) [] (race_start fresh_cache ([], 0), [])))"
    by (simp add: sample_server_def race_start_def)
  have "se_crypto resource_server_env = toy_crypto" by (simp add: se_crypto_def resource_server_env_def list_resolver_def)
  with served_resource_verified [OF qp c _ UNIV_I s r(1)] show ?thesis
    by (auto simp: resource_response_headers r(2))
qed

text \<open>
  C38: A malformed name or selector makes the web gateway panic instead of answering 400: \<open>handleWeb\<close> skips selectors that do
  not parse, and dereferences a nil resource exactly when it has skipped all of them.
\<close>

theorem web_panics_iff_malformed:
  "snd (handleWeb E rounds r s) = Panicked \<longleftrightarrow>
   list_all (\<lambda>sel. \<not> isOk (web_query (se_unicode E) r sel)) (selectorsToTry r)"
proof -
  obtain s' x where x: "web_loop E rounds 0 r (selectorsToTry r) None s = (s', x)" by fastforce
  have "snd (handleWeb E rounds r s) = Panicked \<longleftrightarrow> x = None"
    using x by (auto simp: handleWeb_def split: option.splits sum.splits)
  also have "\<dots> \<longleftrightarrow> list_all (\<lambda>sel. \<not> isOk (web_query (se_unicode E) r sel)) (selectorsToTry r)"
    using web_loop_None [of E rounds 0 r "selectorsToTry r" None s] x by simp
  finally show ?thesis .
qed

text \<open>
  Peer hints of a request cannot direct the resolver at will: at most 16 of the request's \<open>peer\<close> values are used, in
  their order, and unless ALLOW_PEER_HINTS is set each of them is a loopback address or localhost.
\<close>

theorem resource_peers_confined:
  "length (resourcePeers E r) \<le> 16 \<and> subseq (resourcePeers E r) (rq_params r ''peer'') \<and>
   list_all (\<lambda>p. \<exists>host port. SplitHostPort p = Some (host, port) \<and> (AllowPeerHints (se_cfg E) \<or> isLoopbackHost host))
     (resourcePeers E r)"
  using peers_loop_spec [of "[]" "AllowPeerHints (se_cfg E)" "rq_params r ''peer''"]
  by (auto simp: resourcePeers_def maxPeers_def)

end
