(* ===== verification/Server_Boot.thy ===== *)
theory Server_Boot
  imports Resource_Api
begin

text \<open>
  The whole server of src/resolver/internal/server: the showcase endpoints (showcase.go), the route table, and the
  construction of the server with its subsystems (server.go).

  The inputs of one request that are not in its URL are the record \<open>request_inputs\<close>: the clock readings, the outcome
  of the \<open>select\<close> on the fetch semaphore, and the decoded JSON body (or the decoder's error). The page of the operator
  console and the static assets are arguments of \<open>serve\<close>. The locale \<open>handler_parts\<close> says of what operations on the shared state
  every handler is made; Server_Run interleaves these operations.
\<close>

section \<open>Showcase endpoints\<close>

definition handleShowcaseConfig :: "('s, 'w, 'l) server_env \<Rightarrow> http_response" where
  "handleShowcaseConfig E =
     (let cfg = se_cfg E
      in writeJSON 200 (JObj
          ([(''namespaceDApp'', JStr (ContractAddress cfg)), (''recordSchemaRegistry'', JStr (RegistryAddress cfg))] @
           omit_empty ''resolverRegistry'' (ResolverRegistryAddress cfg) @
           omit_empty ''resolverIncentives'' (ResolverIncentivesAddress cfg) @
           [(''rpcUrl'', JStr (RPCURL cfg)), (''restBase'', JStr [])])))"

record commit_request =
  cqName :: string
  cqType :: string
  cqSelector :: string
  cqTTL :: "32 word"
  cqGeneration :: "64 word"
  cqFieldNames :: "string list"
  cqFieldValues :: "string list"

definition commit_record :: "commit_request \<Rightarrow> chain_record" where
  "commit_record req =
     \<lparr>rType = cqType req, rSelector = cqSelector req, rFieldNames = cqFieldNames req, rFieldVals = cqFieldValues req,
      rTTL = cqTTL req, rGeneration = cqGeneration req, rOwnerSig = [], rCommitment = zero_hash, rExists = False\<rparr>"

fun zk_error_text :: "zk_error \<Rightarrow> string" where
  "zk_error_text (ErrPayloadTooLarge n) =
     ''record payload exceeds ZK commitment capacity: '' @ Itoa (int n) @ '' > '' @ Itoa (int MaxPayload) @ '' bytes''"
| "zk_error_text (ErrZk e) = e"

definition handleShowcaseCommit :: "('s, 'w, 'l) server_env \<Rightarrow> string + commit_request \<Rightarrow> handled" where
  "handleShowcaseCommit E body =
     (case body of
        Inl err \<Rightarrow> Responded (writeError 400 ''invalid_json'' err)
      | Inr req \<Rightarrow>
          if length (cqFieldNames req) \<noteq> length (cqFieldValues req)
          then Responded (writeError 400 ''field_mismatch'' ''fieldNames/fieldValues length mismatch'')
          else
            (case RecordMessage (se_crypto E) (cqName req) (commit_record req) of
               None \<Rightarrow> Panicked
             | Some msg \<Rightarrow>
                 (case Commitment (rv_zk (se_resolver E)) msg of
                    Inl err \<Rightarrow> Responded (writeError 400 ''commitment_error'' (zk_error_text err))
                  | Inr commitment \<Rightarrow>
                      Responded (writeJSON 200 (JObj [(''commitment'', JStr (''0x'' @ hex_encode commitment))])))))"

text \<open>\<open>showcaseUnsafeFilenameChars.ReplaceAllString\<close>: every code point outside the class becomes an underscore.\<close>

definition filename_rune :: "nat \<Rightarrow> bool" where
  "filename_rune r = (97 \<le> r \<and> r \<le> 122 \<or> 65 \<le> r \<and> r \<le> 90 \<or> 48 \<le> r \<and> r \<le> 57 \<or> r = 95 \<or> r = 45)"

definition safeName :: "string \<Rightarrow> string" where
  "safeName s = map (\<lambda>r. if filename_rune r then char_of r else CHR ''_'') (runes s)"

record publish_request =
  pqName :: string
  pqSelector :: string
  pqContentType :: string
  pqBody :: string

definition uploads_dir :: "config \<Rightarrow> string" where
  "uploads_dir cfg = path_Join [DataDir cfg, ''uploads'']"

definition upload_path :: "config \<Rightarrow> publish_request \<Rightarrow> int \<Rightarrow> string" where
  "upload_path cfg req now =
     path_Join [uploads_dir cfg, safeName (pqName req @ ''-'' @ pqSelector req) @ ''-'' @ Itoa now @ ''.html'']"

definition handleShowcasePublish ::
  "('s, 'w, 'l) server_env \<Rightarrow> int \<Rightarrow> string + publish_request \<Rightarrow> ('s, 'w, 'l) handler" where
  "handleShowcasePublish E now body s =
     (if \<not> se_bt E
      then (s, writeError 503 ''resource_engine_unavailable'' ''BitTorrent engine is not enabled'')
      else
        (case body of
           Inl err \<Rightarrow> (s, writeError 400 ''invalid_json'' err)
         | Inr req \<Rightarrow>
             if pqName req = [] \<or> pqBody req = []
             then (s, writeError 400 ''missing_fields'' ''name and body are required'')
             else
               (case os_MkdirAll (se_os E) (uploads_dir (se_cfg E)) (get_world s) of
                  (w, Some err) \<Rightarrow> (set_world w s, writeError 500 ''storage_error'' err)
                | (w, None) \<Rightarrow>
                    (let path = upload_path (se_cfg E) req now
                     in case os_WriteFile (se_os E) path (pqBody req) w of
                          (w, Some err) \<Rightarrow> (set_world w s, writeError 500 ''storage_error'' err)
                        | (w, None) \<Rightarrow>
                            (case SeedFile (se_torrent E) path (sv_engine s, w) of
                               (ew, Inl err) \<Rightarrow> (set_engine ew s, writeError 502 ''seed_failed'' (se_TorrentErr E err))
                             | (ew, Inr (infoHash, sha)) \<Rightarrow>
                                 (let s = set_engine ew s;
                                      c = InvalidateName (rv_cache (se_resolver E)) (pqName req) (q_cache (sv_query s))
                                  in (s\<lparr>sv_query := (sv_query s)\<lparr>q_cache := c\<rparr>\<rparr>,
                                      writeJSON 200 (JObj [(''infoHash'', JStr infoHash), (''sha256'', JStr sha)]))))))))"

definition handleShowcaseInvalidate :: "('s, 'w, 'l) server_env \<Rightarrow> http_request \<Rightarrow> ('s, 'w, 'l) handler" where
  "handleShowcaseInvalidate E r s =
     (let name = params_Get r ''name''; c = q_cache (sv_query s);
          c = (if name \<noteq> [] then InvalidateName (rv_cache (se_resolver E)) name c else Flush (rv_cache (se_resolver E)) c)
      in (s\<lparr>sv_query := (sv_query s)\<lparr>q_cache := c\<rparr>\<rparr>, writeJSON 200 (JObj [(''status'', JStr ''ok'')])))"

section \<open>Routes\<close>

datatype route =
    RHealthz | RResolve | RResource | RWeb | RDomain | RTypes | RAdmin | RAdminStats
  | RShowcase | RShowcaseAssets | RShowcaseConfig | RShowcaseCommit | RShowcasePublish | RShowcaseInvalidate | RFavicon

text \<open>Pattern, handler, and whether the handler is wrapped in the rate limiter.\<close>

definition registerShowcaseRoutes :: "(string \<times> route \<times> bool) list" where
  "registerShowcaseRoutes =
     [(''GET /showcase'', RShowcase, False), (''GET /showcase/'', RShowcaseAssets, False),
      (''GET /showcase/config'', RShowcaseConfig, False), (''POST /showcase/api/commit'', RShowcaseCommit, False),
      (''POST /showcase/api/publish'', RShowcasePublish, False), (''POST /showcase/api/invalidate'', RShowcaseInvalidate, False),
      (''GET /favicon.ico'', RFavicon, False)]"

definition registerRoutes :: "config \<Rightarrow> (string \<times> route \<times> bool) list" where
  "registerRoutes cfg =
     [(''GET /healthz'', RHealthz, False), (''GET /resolve'', RResolve, True), (''GET /resource'', RResource, True),
      (''GET /web/{name}'', RWeb, True), (''GET /domains/{name}'', RDomain, True), (''GET /types'', RTypes, True),
      (''GET /admin'', RAdmin, True), (''GET /admin/stats'', RAdminStats, True)] @
     (if EnableShowcase cfg then registerShowcaseRoutes else [])"

record request_inputs =
  ri_limiter :: "int \<times> int \<times> int"
  ri_query :: "int \<times> int"
  ri_rounds :: "nat \<Rightarrow> (int \<times> int) \<times> bool"
  ri_slot :: bool
  ri_now :: int
  ri_commit :: "string + commit_request"
  ri_publish :: "string + publish_request"

definition redirect_found :: "string \<Rightarrow> http_response" where
  "redirect_found url =
     \<lparr>h_status = 302, h_headers = [(''Location'', url), (''Content-Type'', ''text/html; charset=utf-8'')],
      h_body = str_bytes (''<a href='' @ [CHR 0x22] @ url @ [CHR 0x22] @ ''>Found</a>.'' @ [CHR 0x0A, CHR 0x0A])\<rparr>"

definition responds :: "('a \<times> http_response) \<Rightarrow> 'a \<times> handled" where
  "responds x = (fst x, Responded (snd x))"

definition handleAdmin ::
  "('s, 'w, 'l) server_env \<Rightarrow> (admin_stats \<Rightarrow> bytes) \<Rightarrow> int \<Rightarrow> ('s, 'w, 'l) handler" where
  "handleAdmin E page now s =
     (let (s, st) = gatherStats E now s
      in (s, \<lparr>h_status = 200, h_headers = [(''Content-Type'', ''text/html; charset=utf-8'')], h_body = page st\<rparr>))"

fun route_handler ::
  "('s, 'w, 'l) server_env \<Rightarrow> (admin_stats \<Rightarrow> bytes) \<Rightarrow> (http_request \<Rightarrow> http_response) \<Rightarrow> request_inputs \<Rightarrow>
   http_request \<Rightarrow> route \<Rightarrow> ('s, 'w, 'l) server \<Rightarrow> ('s, 'w, 'l) server \<times> handled" where
  "route_handler E page assets i r RHealthz s = responds (handleHealthz E s)"
| "route_handler E page assets i r RResolve s = responds (handleResolve E (ri_query i) r s)"
| "route_handler E page assets i r RResource s = responds (handleResource E (ri_query i) (ri_slot i) r s)"
| "route_handler E page assets i r RWeb s = handleWeb E (ri_rounds i) r s"
| "route_handler E page assets i r RDomain s = responds (handleDomain E (ri_now i) r s)"
| "route_handler E page assets i r RTypes s = responds (handleTypes E s)"
| "route_handler E page assets i r RAdmin s = responds (handleAdmin E page (ri_now i) s)"
| "route_handler E page assets i r RAdminStats s = responds (handleAdminStats E (ri_now i) s)"
| "route_handler E page assets i r RShowcase s = (s, Responded (redirect_found ''/showcase/''))"
| "route_handler E page assets i r RShowcaseAssets s = (s, Responded (assets r))"
| "route_handler E page assets i r RShowcaseConfig s = (s, Responded (handleShowcaseConfig E))"
| "route_handler E page assets i r RShowcaseCommit s = (s, handleShowcaseCommit E (ri_commit i))"
| "route_handler E page assets i r RShowcasePublish s = responds (handleShowcasePublish E (ri_now i) (ri_publish i) s)"
| "route_handler E page assets i r RShowcaseInvalidate s = responds (handleShowcaseInvalidate E r s)"
| "route_handler E page assets i r RFavicon s = (s, Responded \<lparr>h_status = 204, h_headers = [], h_body = []\<rparr>)"

definition serve ::
  "('s, 'w, 'l) server_env \<Rightarrow> (admin_stats \<Rightarrow> bytes) \<Rightarrow> (http_request \<Rightarrow> http_response) \<Rightarrow> request_inputs \<Rightarrow>
   http_request \<Rightarrow> route \<times> bool \<Rightarrow> ('s, 'w, 'l) server \<Rightarrow> ('s, 'w, 'l) server \<times> handled" where
  "serve E page assets i r rt s =
     (if snd rt then rateLimited E (ri_limiter i) r (route_handler E page assets i r (fst rt)) s
      else route_handler E page assets i r (fst rt) s)"

section \<open>Construction\<close>

definition autoSeedUploads :: "('s, 'w, 'l) server_env \<Rightarrow> engine \<times> 'w \<Rightarrow> engine \<times> 'w" where
  "autoSeedUploads E ew =
     (if \<not> se_bt E then ew
      else
        (let uploadsDir = uploads_dir (se_cfg E)
         in case se_ReadDir E uploadsDir (snd ew) of
              None \<Rightarrow> ew
            | Some entries \<Rightarrow>
                fold (\<lambda>(nm, isDir) ew. if isDir \<or> HasPrefix nm ''.'' then ew
                        else fst (SeedFile (se_torrent E) (path_Join [uploadsDir, nm]) ew)) entries ew))"

text \<open>What construction takes from go-ethereum and from the torrent client; \<open>None\<close> is success.\<close>

record 'w dial_lib =
  IsHexAddress :: "string \<Rightarrow> bool"
  HexToAddress :: "string \<Rightarrow> address"
  eth_DialContext :: "string \<Rightarrow> 'w \<Rightarrow> 'w \<times> string option"
  eth_Close :: "'w \<Rightarrow> 'w"
  NewNamespaceDApp :: "address \<Rightarrow> string option"
  NewRecordSchemaRegistry :: "address \<Rightarrow> string option"
  torrent_NewClient :: "string \<Rightarrow> int \<Rightarrow> 'w \<Rightarrow> 'w \<times> string option"

definition chain_Dial :: "'w dial_lib \<Rightarrow> string \<Rightarrow> address \<Rightarrow> address \<Rightarrow> 'w \<Rightarrow> 'w \<times> string option" where
  "chain_Dial D rpcURL dappAddr registryAddr w =
     (case eth_DialContext D rpcURL w of
        (w, Some err) \<Rightarrow> (w, Some (''dial rpc '' @ rpcURL @ '': '' @ err))
      | (w, None) \<Rightarrow>
          (case NewNamespaceDApp D dappAddr of
             Some err \<Rightarrow> (w, Some (''bind NamespaceDApp: '' @ err))
           | None \<Rightarrow>
               (case NewRecordSchemaRegistry D registryAddr of
                  Some err \<Rightarrow> (w, Some (''bind RecordSchemaRegistry: '' @ err))
                | None \<Rightarrow> (w, None))))"

definition torrent_New :: "'w dial_lib \<Rightarrow> 'w os_env \<Rightarrow> string \<Rightarrow> int \<Rightarrow> 'w \<Rightarrow> 'w \<times> (string + engine)" where
  "torrent_New D os dataDir listenPort w =
     (case os_MkdirAll os dataDir w of
        (w, Some err) \<Rightarrow> (w, Inl (''torrent: data dir: '' @ err))
      | (w, None) \<Rightarrow>
          (case torrent_NewClient D dataDir listenPort w of
             (w, Some err) \<Rightarrow> (w, Inl (''torrent: client: '' @ err))
           | (w, None) \<Rightarrow> (w, Inr engine_New)))"

datatype boot_error =
    BadContractAddress string
  | BadRegistryAddress string
  | BootDial string
  | BootCache string
  | BootIdentity keystore_error
  | BootTorrent string

definition server_New ::
  "('s, 'w, 'l) server_env \<Rightarrow> 'w dial_lib \<Rightarrow> int \<Rightarrow> 'w \<Rightarrow>
   'w \<times> (boot_error + ('s, 'w, 'l) server_env \<times> ('s, 'w, 'l) server)" where
  "server_New E D now w =
     (let cfg = se_cfg E
      in if \<not> IsHexAddress D (ContractAddress cfg) then (w, Inl (BadContractAddress (ContractAddress cfg)))
         else if \<not> IsHexAddress D (RegistryAddress cfg) then (w, Inl (BadRegistryAddress (RegistryAddress cfg)))
         else
           (case chain_Dial D (RPCURL cfg) (HexToAddress D (ContractAddress cfg)) (HexToAddress D (RegistryAddress cfg)) w of
              (w, Some err) \<Rightarrow> (w, Inl (BootDial err))
            | (w, None) \<Rightarrow>
                (case cache_New (rv_cache (se_resolver E)) (CacheSize cfg) of
                   Inl err \<Rightarrow> (w, Inl (BootCache err))
                 | Inr ttlCache \<Rightarrow>
                     (case LoadOrCreateIdentity (se_crypto E) (se_os E) (KeystorePath cfg) w of
                        (w, Inl err) \<Rightarrow> (w, Inl (BootIdentity err))
                      | (w, Inr identity) \<Rightarrow>
                          (case torrent_New D (se_os E) (path_Join [DataDir cfg, ''torrent'']) (BTListenPort cfg) w of
                             (w, Inl err) \<Rightarrow> (eth_Close D w, Inl (BootTorrent err))
                           | (w, Inr en) \<Rightarrow>
                               (let E = E\<lparr>se_identity := identity, se_startTime := now, se_bt := True, se_resource := True\<rparr>;
                                    (en, w) = autoSeedUploads E (en, w)
                                in (w, Inr (E, \<lparr>sv_query = \<lparr>q_cache = ttlCache, q_zk = zk_initial, q_world = w\<rparr>,
                                       sv_limiter = newIPLimiter (RateRPS cfg) (RateBurst cfg), sv_engine = en\<rparr>))))))))"

section \<open>Facts\<close>

definition valid_names :: "string set" where
  "valid_names = {n. ValidateName n = Inr ()}"

lemma New_query_valid: "New_query U n t ps = Inr q \<Longrightarrow> qName q \<in> valid_names"
  by (auto simp: New_query_def rbind_eq_Inr valid_names_def)

lemma lift_query_Inr [simp]: "lift_query x = Inr y \<longleftrightarrow> x = Inr y"
  by (cases x) (simp_all add: lift_query_def)

lemma parse_queries_valid:
  "parseResolveQuery U r = Inr q \<Longrightarrow> qName q \<in> valid_names"
  "parseResourceQuery U r = Inr q' \<Longrightarrow> qName q' \<in> valid_names"
  "decodeUDPQuery U p = Inr q'' \<Longrightarrow> qName q'' \<in> valid_names"
proof -
  show "parseResolveQuery U r = Inr q \<Longrightarrow> qName q \<in> valid_names"
    by (auto simp: parseResolveQuery_def rbind_eq_Inr New_query_valid)
  show "parseResourceQuery U r = Inr q' \<Longrightarrow> qName q' \<in> valid_names"
    by (auto simp: parseResourceQuery_def Let_def rbind_eq_Inr New_query_valid split: if_splits sum.splits)
  show "decodeUDPQuery U p = Inr q'' \<Longrightarrow> qName q'' \<in> valid_names"
    using New_query_valid by (auto simp: decodeUDPQuery_def Let_def rbind_eq_Inr split: if_splits sum.splits prod.splits option.splits)
qed

text \<open>
  A relation between states of the server that holds when nothing is done, can be chained, and holds for each operation on the shared state that a
  handler calls: then it holds for every handler.
\<close>

locale handler_parts =
  fixes E :: "('s, 'w, 'l) server_env" and rel :: "('s, 'w, 'l) server \<Rightarrow> ('s, 'w, 'l) server \<Rightarrow> bool"
  assumes rel_refl [simp]: "rel s s"
    and rel_trans: "rel s s' \<Longrightarrow> rel s' s'' \<Longrightarrow> rel s s''"
    and rel_world: "rel s (set_world w s)"
    and rel_limiter: "allow (se_rate E) t key (sv_limiter s) = (l, ok) \<Longrightarrow> rel s (s\<lparr>sv_limiter := l\<rparr>)"
    and rel_query: "HandleQuery (se_resolver E) ts q (sv_query s) = (qs, x) \<Longrightarrow> qName q \<in> valid_names \<Longrightarrow> rel s (s\<lparr>sv_query := qs\<rparr>)"
    and rel_invalidate: "rel s (s\<lparr>sv_query := (sv_query s)\<lparr>q_cache := InvalidateName (rv_cache (se_resolver E)) nm (q_cache (sv_query s))\<rparr>\<rparr>)"
    and rel_flush: "rel s (s\<lparr>sv_query := (sv_query s)\<lparr>q_cache := Flush (rv_cache (se_resolver E)) (q_cache (sv_query s))\<rparr>\<rparr>)"
    and rel_fetch: "rel s (set_engine (fst (Fetch (se_torrent E) ih sha peers (sv_engine s, w))) s)"
    and rel_seed: "rel s (set_engine (fst (SeedFile (se_torrent E) path (sv_engine s, w))) s)"
begin

lemma resolveResponse_rel:
  assumes "resolveResponse E ts q (sv_query s) = (qs, x)" "qName q \<in> valid_names"
  shows "rel s (s\<lparr>sv_query := qs\<rparr>)"
  using assms rel_query [of ts q s] by (auto simp: resolveResponse_def Let_def split: prod.splits sum.splits if_splits)

lemma fetchVerifiedResource_rel:
  assumes "qName q \<in> valid_names"
  shows "rel s (fst (fetchVerifiedResource E ts slot q peers s))"
proof -
  obtain qs x where h: "HandleQuery (se_resolver E) ts q (sv_query s) = (qs, x)" by fastforce
  let ?s = "s\<lparr>sv_query := qs\<rparr>"
  note k = rel_query [OF h assms]
  have "rel s (set_engine (fst (Fetch (se_torrent E) ih sha peers (sv_engine s, get_world ?s))) ?s)" for ih sha
    using rel_trans [OF k rel_fetch [of ?s]] by simp
  then show ?thesis
    using k h by (auto simp: fetchVerifiedResource_def Let_def split: prod.splits sum.splits) (metis fst_conv)+
qed

lemma web_loop_rel: "rel s (fst (web_loop E rounds i r sels got s))"
proof (induction sels arbitrary: i got s)
  case (Cons sel sels)
  show ?case
  proof (cases "web_query (se_unicode E) r sel")
    case (Inl err)
    then show ?thesis using Cons.IH by (simp add: web_query_def)
  next
    case (Inr q)
    obtain s1 x where x: "fetchVerifiedResource E (fst (rounds i)) (snd (rounds i)) q (resourcePeers E r) s = (s1, x)"
      by fastforce
    have "qName q \<in> valid_names" using Inr by (auto simp: web_query_def rbind_eq_Inr New_query_valid)
    from fetchVerifiedResource_rel [OF this, of s "fst (rounds i)" "snd (rounds i)" "resourcePeers E r"]
    have k: "rel s s1" by (simp add: x)
    show ?thesis
    proof (cases x)
      case (Inr vr)
      then show ?thesis using k x \<open>web_query (se_unicode E) r sel = Inr q\<close> by (simp add: web_query_def)
    next
      case (Inl e)
      then show ?thesis
        using k x \<open>web_query (se_unicode E) r sel = Inr q\<close> rel_trans [OF k Cons.IH]
        by (auto simp: web_query_def)
    qed
  qed
qed simp

lemma rateLimited_rel:
  assumes "\<And>s. rel s (fst (h s))"
  shows "rel s (fst (rateLimited E ts r h s))"
proof -
  obtain l ok where a: "allow (se_rate E) ts (remote_ip (rq_RemoteAddr r)) (sv_limiter s) = (l, ok)" by fastforce
  have k: "rel s (s\<lparr>sv_limiter := l\<rparr>)" by (rule rel_limiter [OF a])
  then show ?thesis using rel_trans [OF k assms] by (simp add: rateLimited_def a Let_def)
qed

lemma gatherStats_rel: "rel s (fst (gatherStats E now s))"
  using rel_world [of s] by (simp add: gatherStats_def Let_def case_prod_beta)

lemma chain_handlers_rel:
  "rel s (fst (handleHealthz E s))" "rel s (fst (handleTypes E s))" "rel s (fst (handleDomain E now r s))"
  "rel s (fst (handleAdmin E page now s))" "rel s (fst (handleAdminStats E now s))"
  using rel_world [of s] gatherStats_rel [of s now]
  by (auto simp: handleHealthz_def handleTypes_def handleDomain_def handleAdmin_def handleAdminStats_def Let_def
      split: prod.splits sum.splits)

lemma handleResolve_rel: "rel s (fst (handleResolve E ts r s))"
proof (cases "parseResolveQuery (se_unicode E) r")
  case (Inr q)
  obtain qs x where x: "resolveResponse E ts q (sv_query s) = (qs, x)" by fastforce
  from resolveResponse_rel [OF this parse_queries_valid(1) [OF Inr]] show ?thesis
    using Inr x by (auto simp: handleResolve_def split: sum.splits)
qed (simp add: handleResolve_def)

lemma handleResource_rel: "rel s (fst (handleResource E ts slot r s))"
proof (cases "parseResourceQuery (se_unicode E) r")
  case (Inr q)
  then show ?thesis
    using fetchVerifiedResource_rel [OF parse_queries_valid(2) [OF Inr], of s ts slot "resourcePeers E r"]
    by (auto simp: handleResource_def split: prod.splits sum.splits)
qed (simp add: handleResource_def)

lemma handleWeb_rel: "rel s (fst (handleWeb E rounds r s))"
  using web_loop_rel [of s rounds 0 r "selectorsToTry r" None]
  by (auto simp: handleWeb_def split: prod.splits option.splits sum.splits)

lemma handleUDPPacket_rel: "rel s (fst (handleUDPPacket E ts p s))"
proof (cases "decodeUDPQuery (se_unicode E) p")
  case (Inr q)
  obtain qs x where x: "resolveResponse E ts q (sv_query s) = (qs, x)" by fastforce
  from resolveResponse_rel [OF this parse_queries_valid(3) [OF Inr]] show ?thesis
    using Inr x by (auto simp: handleUDPPacket_def Let_def split: sum.splits)
qed (simp add: handleUDPPacket_def)

lemma handleShowcaseInvalidate_rel: "rel s (fst (handleShowcaseInvalidate E r s))"
  using rel_invalidate [of s] rel_flush [of s]
  by (auto simp: handleShowcaseInvalidate_def Let_def)

lemma handleShowcasePublish_rel: "rel s (fst (handleShowcasePublish E now body s))"
proof -
  have "rel s (let s' = set_engine ew s in s'\<lparr>sv_query := (sv_query s')\<lparr>q_cache :=
      InvalidateName (rv_cache (se_resolver E)) nm (q_cache (sv_query s'))\<rparr>\<rparr>)"
    if "fst (SeedFile (se_torrent E) path (sv_engine s, w)) = ew" for path w ew nm
    using rel_trans [OF rel_seed [of s path w] rel_invalidate] that by (simp add: Let_def)
  then show ?thesis
    using rel_seed [of s] rel_world [of s]
    by (auto simp: handleShowcasePublish_def Let_def split: sum.splits prod.splits option.splits) (metis fst_conv)+
qed

lemma route_handler_rel: "rel s (fst (route_handler E page assets i r rt s))"
  using chain_handlers_rel handleResolve_rel handleResource_rel handleWeb_rel handleShowcaseInvalidate_rel
    handleShowcasePublish_rel
  by (cases rt) (simp_all add: responds_def)

lemma serve_rel: "rel s (fst (serve E page assets i r rt s))"
  by (auto simp: serve_def intro!: rateLimited_rel route_handler_rel)

end

lemma SeedFile_inUse: "en_inUse (fst (fst (SeedFile T path s))) = en_inUse (fst s)"
  by (auto simp: SeedFile_def Let_def pin_def split: sum.splits prod.splits option.splits)

lemma autoSeedUploads_ok:
  "engine_ok (fst ew) \<Longrightarrow> engine_ok (fst (autoSeedUploads E ew))" "en_inUse (fst (autoSeedUploads E ew)) = en_inUse (fst ew)"
proof -
  have "en_inUse (fst (fold (\<lambda>(nm, isDir) ew. if isDir \<or> HasPrefix nm ''.'' then ew
        else fst (SeedFile (se_torrent E) (path_Join [d, nm]) ew)) es ew)) = en_inUse (fst ew)" for es d ew
    by (induction es arbitrary: ew) (simp_all add: case_prod_beta SeedFile_inUse)
  then show "en_inUse (fst (autoSeedUploads E ew)) = en_inUse (fst ew)"
    by (auto simp: autoSeedUploads_def Let_def split: option.splits)
  have "engine_ok (fst ew) \<Longrightarrow> engine_ok (fst (fold (\<lambda>(nm, isDir) ew. if isDir \<or> HasPrefix nm ''.'' then ew
        else fst (SeedFile (se_torrent E) (path_Join [d, nm]) ew)) es ew))" for es d ew
    by (induction es arbitrary: ew) (simp_all add: case_prod_beta SeedFile_ok)
  then show "engine_ok (fst ew) \<Longrightarrow> engine_ok (fst (autoSeedUploads E ew))"
    by (auto simp: autoSeedUploads_def Let_def split: option.splits)
qed

lemma server_New_Inr:
  assumes "server_New E0 D now w = (w', Inr (E, s0))"
  obtains c where "cache_New (rv_cache (se_resolver E)) (CacheSize (se_cfg E0)) = Inr c"
    "sv_query s0 = \<lparr>q_cache = c, q_zk = zk_initial, q_world = w'\<rparr>" "engine_ok (sv_engine s0)" "se_cfg E = se_cfg E0"
    "en_inUse (sv_engine s0) = (\<lambda>_. 0)" "se_bt E"
proof -
  let ?cfg = "se_cfg E0"
  obtain w1 d where d: "chain_Dial D (RPCURL ?cfg) (HexToAddress D (ContractAddress ?cfg)) (HexToAddress D (RegistryAddress ?cfg)) w =
      (w1, d)" by fastforce
  have [simp]: "IsHexAddress D (ContractAddress ?cfg)" "IsHexAddress D (RegistryAddress ?cfg)" "d = None"
    using assms d by (auto simp: server_New_def Let_def split: if_splits option.splits)
  obtain c where c: "cache_New (rv_cache (se_resolver E0)) (CacheSize ?cfg) = Inr c"
    using assms d by (cases "cache_New (rv_cache (se_resolver E0)) (CacheSize ?cfg)") (auto simp: server_New_def Let_def)
  obtain w2 x where x: "LoadOrCreateIdentity (se_crypto E0) (se_os E0) (KeystorePath ?cfg) w1 = (w2, x)" by fastforce
  obtain ident where ident: "x = Inr ident" using assms d c x by (cases x) (auto simp: server_New_def Let_def)
  obtain w3 y where y: "torrent_New D (se_os E0) (path_Join [DataDir ?cfg, ''torrent'']) (BTListenPort ?cfg) w2 = (w3, y)"
    by fastforce
  obtain e where e: "y = Inr e" using assms d c x ident y by (cases y) (auto simp: server_New_def Let_def)
  have e': "e = engine_New" using y e by (auto simp: torrent_New_def split: prod.splits option.splits)
  let ?F = "E0\<lparr>se_identity := ident, se_startTime := now, se_bt := True, se_resource := True\<rparr>"
  obtain en w4 where a: "autoSeedUploads ?F (engine_New, w3) = (en, w4)" by fastforce
  have "E = ?F" "s0 = \<lparr>sv_query = \<lparr>q_cache = c, q_zk = zk_initial, q_world = w4\<rparr>,
      sv_limiter = newIPLimiter (RateRPS ?cfg) (RateBurst ?cfg), sv_engine = en\<rparr>" "w' = w4"
    using assms d c x ident y e e' a by (auto simp: server_New_def Let_def)
  moreover have "engine_ok en" "en_inUse en = (\<lambda>_. 0)"
    using autoSeedUploads_ok [where E = ?F and ew = "(engine_New, w3)"] a by simp_all (simp add: engine_New_def)
  ultimately show thesis using c by (intro that [of c]) simp_all
qed

text \<open>The name of an uploaded file has no separator and does not start with a dot.\<close>

lemma safeName_chars: "set (safeName s) \<subseteq> {c. filename_rune (of_char c)}"
  by (auto simp: safeName_def filename_rune_def)

section \<open>Properties\<close>

text \<open>A server started on an empty disk.\<close>

definition sample_dial :: "'w dial_lib" where
  "sample_dial = \<lparr>IsHexAddress = (\<lambda>_. True), HexToAddress = (\<lambda>_. replicate 20 1), eth_DialContext = (\<lambda>_ w. (w, None)),
     eth_Close = id, NewNamespaceDApp = (\<lambda>_. None), NewRecordSchemaRegistry = (\<lambda>_. None),
     torrent_NewClient = (\<lambda>_ _ w. (w, None))\<rparr>"

lemma sample_dial_ok [simp]: "IsHexAddress sample_dial a" "chain_Dial sample_dial u b c w = (w, None)"
  by (simp_all add: chain_Dial_def sample_dial_def)

text \<open>
  C34: An upload through the showcase cannot leave the upload directory: whatever name and selector the request has, the
  file is written directly into \<open>uploads\<close> below the data directory, under a name without separators that ends in .html.
\<close>

theorem upload_stays_in_uploads:
  "\<exists>f. upload_path cfg req now = uploads_dir cfg @ ''/'' @ f @ ''.html'' \<and> CHR ''/'' \<notin> set f \<and> f \<noteq> []"
proof -
  let ?f = "safeName (pqName req @ ''-'' @ pqSelector req) @ ''-'' @ Itoa now"
  have no_slash: "CHR ''/'' \<notin> set (safeName s)" for s
    using safeName_chars [of s] by (auto simp: filename_rune_def)
  have "\<not> is_digit CHR ''/''" by (simp add: is_digit_def in_range_def)
  then have "CHR ''/'' \<notin> set (nat_dec n)" for n using nat_dec_digits [of n] by (auto simp: list_all_iff)
  then have "CHR ''/'' \<notin> set (Itoa now)" by (simp add: Itoa_def)
  then have f: "CHR ''/'' \<notin> set ?f" using no_slash by simp
  have long: "length (?f @ ''.html'') > 2" by simp
  then have "plain_element (?f @ ''.html'')" unfolding plain_element_def using f by auto
  moreover have "plain_element ''uploads''" by (simp add: plain_element_def)
  ultimately have "upload_path cfg req now = uploads_dir cfg @ ''/'' @ ?f @ ''.html''"
    using path_Join_below [OF uploads_dir_def, of "?f @ ''.html''" cfg] by (simp add: upload_path_def)
  then show ?thesis using f by (intro exI [of _ ?f]) simp
qed

end
