(* ===== verification/Client_Tools.thy ===== *)
theory Client_Tools
  imports Server_Boot
begin

text \<open>
  The verifying clients: src/resolver/cmd/ddns-lookup (resolve and check an answer), src/resolver/cmd/ddns-fetch
  (download and check a resource) and src/resolver/cmd/record-commit.

  A command is a function of its parsed flags and positional arguments on the state of the outside world; its
  result is an exit or what it found out. What the commands take from elsewhere is the record \<open>client_lib\<close>: the
  HTTP transport (status and body as they were sent, header values as \<open>over_http\<close> has them), the decoding of JSON, the contract
  bindings, files and environment. Output lines are not modelled, except that a record that is printed is returned.
\<close>

section \<open>Command lines\<close>

text \<open>\<open>strings.TrimLeft(a, "-")\<close> and the part before the first \<open>=\<close>.\<close>

definition flag_name :: "string \<Rightarrow> string" where
  "flag_name a =
     (let s = dropWhile (\<lambda>c. c = CHR ''-'') a in case cut_at CHR ''='' s of Some (n, _) \<Rightarrow> n | None \<Rightarrow> s)"

fun reorder_loop :: "string list \<Rightarrow> string list \<Rightarrow> string list \<times> string list \<Rightarrow> string list \<times> string list" where
  "reorder_loop bools [] acc = acc"
| "reorder_loop bools (a # as) (flags, pos) =
     (if a = ''--'' then (flags, pos @ as)
      else if length a > 1 \<and> hd a = CHR ''-'' then
        (if CHR ''='' \<notin> set a \<and> flag_name a \<notin> set bools \<and> as \<noteq> []
         then reorder_loop bools (tl as) (flags @ [a, hd as], pos)
         else reorder_loop bools as (flags @ [a], pos))
      else reorder_loop bools as (flags, pos @ [a]))"

definition reorder :: "string list \<Rightarrow> string list \<Rightarrow> string list" where
  "reorder bools args = (let (flags, pos) = reorder_loop bools args ([], []) in flags @ pos)"

definition envOr :: "env \<Rightarrow> string \<Rightarrow> string \<Rightarrow> string" where
  "envOr e key def = (let v = Getenv e key in if v \<noteq> [] then v else def)"

text \<open>\<open>url.Values.Encode\<close>: sorted by key.\<close>

definition values_Encode :: "(string \<times> string list) list \<Rightarrow> string" where
  "values_Encode ps =
     join_with CHR ''&'' (concat (map (\<lambda>p. map (\<lambda>v. QueryEscape (fst p) @ ''='' @ QueryEscape v) (snd p)) (sort_key fst ps)))"

section \<open>What the commands use\<close>

record client_response =
  crFound :: bool
  crError :: string
  crRecord :: "recordJSON option"
  crOwner :: string
  crPubKey :: string
  crOwnerSigVerified :: bool
  crZKProof :: string
  crCached :: bool

record 'w client_lib =
  cl_crypto :: crypto_lib
  cl_zk :: zk_lib
  cl_sniff :: sniff_lib
  cl_unicode :: unicode
  cl_dial :: "'w dial_lib"
  cl_api :: "address \<Rightarrow> 'w rpc_api"
  cl_ActiveResolvers :: "address \<Rightarrow> 'w \<Rightarrow> 'w \<times> (string + address list \<times> string list \<times> bytes list)"
  cl_NewResolverRegistry :: "address \<Rightarrow> string option"
  cl_Get :: "string \<Rightarrow> 'w \<Rightarrow> 'w \<times> (string + http_response)"
  cl_envelope :: "bytes \<Rightarrow> envelope option"
  cl_response :: "bytes \<Rightarrow> string + client_response"
  cl_ReadFile :: "string \<Rightarrow> 'w \<Rightarrow> string option"
  cl_WriteFile :: "string \<Rightarrow> bytes \<Rightarrow> 'w \<Rightarrow> 'w \<times> string option"
  cl_deployment :: "string \<Rightarrow> (string \<Rightarrow> string) option"
  cl_env :: env

text \<open>An address from a flag, the deployment file (whose \<open>contracts\<close> object is a map), or the environment.\<close>

definition contract_addr :: "'w client_lib \<Rightarrow> string \<Rightarrow> string \<Rightarrow> string \<Rightarrow> string \<Rightarrow> 'w \<Rightarrow> address" where
  "contract_addr L contract envKey deployments flagVal w =
     (let H = HexToAddress (cl_dial L);
          fromEnv = (let v = Getenv (cl_env L) envKey in if v \<noteq> [] then H v else zero_address)
      in if flagVal \<noteq> [] then H flagVal
         else if deployments = [] then fromEnv
         else
           (case cl_ReadFile L deployments w of
              None \<Rightarrow> fromEnv
            | Some data \<Rightarrow>
                (case cl_deployment L data of
                   None \<Rightarrow> fromEnv
                 | Some d \<Rightarrow> if d contract \<noteq> [] then H (d contract) else fromEnv)))"

definition resolverRegistryAddr :: "'w client_lib \<Rightarrow> string \<Rightarrow> string \<Rightarrow> 'w \<Rightarrow> address" where
  "resolverRegistryAddr L deployments flagVal w =
     contract_addr L ''ResolverRegistry'' ''RESOLVER_REGISTRY_ADDRESS'' deployments flagVal w"

definition namespaceAddr :: "'w client_lib \<Rightarrow> string \<Rightarrow> string \<Rightarrow> 'w \<Rightarrow> address" where
  "namespaceAddr L deployments flagVal w =
     contract_addr L ''NamespaceDApp'' ''CONTRACT_ADDRESS'' deployments flagVal w"

section \<open>ddns-lookup\<close>

datatype lookup_exit =
    Usage
  | Fatal string
  | OwnerSigInvalid
  | ChainMismatch string
  | ZKInvalid
  | LookupPanic

datatype lookup_answer = NoMatch | Verified chain_record bool

definition recordFromResponse :: "crypto_lib \<Rightarrow> recordJSON \<Rightarrow> string + chain_record" where
  "recordFromResponse C rj =
     (case hexutil_Decode C (rjOwnerSig rj) of
        None \<Rightarrow> Inl ''bad ownerSig encoding''
      | Some sg \<Rightarrow>
          (let rec = \<lparr>rType = rjType rj, rSelector = rjSelector rj, rFieldNames = rjFieldNames rj,
                      rFieldVals = rjFieldValues rj, rTTL = rjTTL rj, rGeneration = rjGeneration rj,
                      rOwnerSig = sg, rCommitment = zero_hash, rExists = False\<rparr>
           in if rjCommitment rj = [] then Inr rec
              else
                (case hexutil_Decode C (rjCommitment rj) of
                   None \<Rightarrow> Inl ''bad commitment encoding''
                 | Some cb \<Rightarrow> if length cb \<noteq> 32 then Inl ''bad commitment encoding'' else Inr (rec\<lparr>rCommitment := cb\<rparr>))))"

text \<open>
  The signature check; the record is given, since \<open>formatRecord\<close> has dereferenced it before. A record with different numbers of field
  names and values is an invalid signature: \<open>VerifyOwnerSig\<close> (internal/pki/owner.go) compares the lengths before it builds the message.
\<close>

definition verifyOwnerSig :: "'w client_lib \<Rightarrow> string \<Rightarrow> client_response \<Rightarrow> recordJSON \<Rightarrow> bool" where
  "verifyOwnerSig L name resp rj =
     (case hexutil_Decode (cl_crypto L) (crPubKey resp) of
        None \<Rightarrow> False
      | Some pubKey \<Rightarrow>
          (case recordFromResponse (cl_crypto L) rj of
             Inl err \<Rightarrow> False
           | Inr rec \<Rightarrow>
               isOk (VerifyOwnerSig (cl_crypto L) name rec (HexToAddress (cl_dial L) (crOwner resp)) pubKey)))"

definition verifyZK :: "'w client_lib \<Rightarrow> client_response \<Rightarrow> recordJSON \<Rightarrow> bool" where
  "verifyZK L resp rj =
     (case hexutil_Decode (cl_crypto L) (rjCommitment rj) of
        None \<Rightarrow> False
      | Some commitBytes \<Rightarrow>
          length commitBytes = 32 \<and>
          (case hexutil_Decode (cl_crypto L) (crZKProof resp) of
             None \<Rightarrow> False
           | Some calldata \<Rightarrow>
               (case ProofFromSolidityCalldata (cl_zk L) calldata of
                  Inl err \<Rightarrow> False
                | Inr pf \<Rightarrow> isOk (snd (Verify (cl_zk L) pf commitBytes zk_initial)))))"

text \<open>\<open>diffAgainstChain\<close>; the message of a record with fewer values than names is a panic.\<close>

definition diffAgainstChain ::
  "'w client_lib \<Rightarrow> resolve_result \<Rightarrow> query \<Rightarrow> client_response \<Rightarrow> lookup_exit + unit" where
  "diffAgainstChain L onchain q resp =
     (let C = cl_crypto L
      in if \<not> crFound resp
         then (if rExists (resRecord onchain)
               then Inl (ChainMismatch (''resolver returned NO MATCH but NamespaceDApp holds a live '' @ qType q @ '' record''))
               else Inr ())
         else if \<not> rExists (resRecord onchain)
         then Inl (ChainMismatch ''resolver returned a record that does not exist on-chain'')
         else
           (case crRecord resp of
              None \<Rightarrow> Inl LookupPanic
            | Some rj \<Rightarrow>
                (case recordFromResponse C rj of
                   Inl err \<Rightarrow> Inl (ChainMismatch err)
                 | Inr respRec \<Rightarrow>
                     if resOwner onchain \<noteq> HexToAddress (cl_dial L) (crOwner resp) then Inl (ChainMismatch ''owner mismatch'')
                     else
                       (case hexutil_Decode C (crPubKey resp) of
                          None \<Rightarrow> Inl (ChainMismatch ''bad pubKey encoding'')
                        | Some respPub \<Rightarrow>
                            if resPubKey onchain \<noteq> respPub then Inl (ChainMismatch ''pubKey mismatch between chain and resolver'')
                            else if rCommitment (resRecord onchain) \<noteq> rCommitment respRec
                            then Inl (ChainMismatch ''commitment mismatch'')
                            else if rOwnerSig (resRecord onchain) \<noteq> rOwnerSig respRec
                            then Inl (ChainMismatch ''ownerSig mismatch between chain and resolver'')
                            else
                              (case (RecordMessage C (qName q) (resRecord onchain), RecordMessage C (qName q) respRec) of
                                 (Some m, Some m') \<Rightarrow>
                                   if m \<noteq> m' then Inl (ChainMismatch ''record body mismatch between chain and resolver'') else Inr ()
                               | _ \<Rightarrow> Inl LookupPanic)))))"

definition compareOnChain ::
  "'w client_lib \<Rightarrow> string \<Rightarrow> string \<Rightarrow> string \<Rightarrow> query \<Rightarrow> client_response \<Rightarrow> 'w \<Rightarrow> 'w \<times> (lookup_exit + unit)" where
  "compareOnChain L rpc deployments nsFlag q resp w =
     (let ns = namespaceAddr L deployments nsFlag w
      in if ns = zero_address
         then (w, Inl (ChainMismatch ''set --namespace, --deployments, or CONTRACT_ADDRESS to enable the on-chain cross-check''))
         else
           (case chain_Dial (cl_dial L) rpc ns zero_address w of
              (w, Some err) \<Rightarrow> (w, Inl (ChainMismatch err))
            | (w, None) \<Rightarrow>
                (case chain_Resolve (cl_api L ns) (qName q) (qType q) (qSelector q) w of
                   (w, Inl err) \<Rightarrow> (eth_Close (cl_dial L) w, Inl (ChainMismatch err))
                 | (w, Inr onchain) \<Rightarrow> (eth_Close (cl_dial L) w, diffAgainstChain L onchain q resp))))"

definition discoverResolver :: "'w client_lib \<Rightarrow> string \<Rightarrow> string \<Rightarrow> string \<Rightarrow> 'w \<Rightarrow> 'w \<times> (lookup_exit + string \<times> string)" where
  "discoverResolver L rpc deployments registryFlag w =
     (let rr = resolverRegistryAddr L deployments registryFlag w
      in if rr = zero_address then (w, Inl (Fatal ''--discover needs the ResolverRegistry address''))
         else
           (case eth_DialContext (cl_dial L) rpc w of
              (w, Some err) \<Rightarrow> (w, Inl (Fatal err))
            | (w, None) \<Rightarrow>
                (case cl_NewResolverRegistry L rr of
                   Some err \<Rightarrow> (w, Inl (Fatal err))
                 | None \<Rightarrow>
                     (case cl_ActiveResolvers L rr w of
                        (w, Inl err) \<Rightarrow> (w, Inl (Fatal err))
                      | (w, Inr (operators, endpoints, pubKeys)) \<Rightarrow>
                          if operators = [] then (w, Inl (Fatal ''no resolvers announced in the registry yet''))
                          else if endpoints = [] \<or> pubKeys = [] then (w, Inl LookupPanic)
                          else (eth_Close (cl_dial L) w, Inr (hd endpoints, hexutil_Encode (cl_crypto L) (hd pubKeys)))))))"

record lookup_opts =
  lo_resolver :: string
  lo_selector :: string
  lo_discover :: bool
  lo_rpc :: string
  lo_deployments :: string
  lo_registry :: string
  lo_namespace :: string
  lo_args :: "string list"

text \<open>The steps of \<open>main\<close> after the response has been read.\<close>

definition open_envelope :: "'w client_lib \<Rightarrow> string \<Rightarrow> bytes \<Rightarrow> lookup_exit + client_response" where
  "open_envelope L pinnedKey raw =
     (case cl_envelope L raw of
        None \<Rightarrow> Inl (Fatal ''resolver returned a non-envelope response'')
      | Some env \<Rightarrow>
          (case VerifyEnvelope (cl_crypto L) env of
             Inl err \<Rightarrow> Inl (Fatal ''resolver envelope signature INVALID'')
           | Inr _ \<Rightarrow>
               if pinnedKey \<noteq> [] \<and> \<not> EqualFold_ascii (envResolver env) pinnedKey
               then Inl (Fatal ''resolver key MISMATCH'')
               else (case cl_response L (envData env) of Inl err \<Rightarrow> Inl (Fatal err) | Inr resp \<Rightarrow> Inr resp)))"

definition check_response ::
  "'w client_lib \<Rightarrow> lookup_opts \<Rightarrow> query \<Rightarrow> client_response \<Rightarrow> 'w \<Rightarrow> 'w \<times> (lookup_exit + lookup_answer)" where
  "check_response L o' q resp w =
     (let crossCheck = (\<lambda>w. if lo_discover o'
            then compareOnChain L (lo_rpc o') (lo_deployments o') (lo_namespace o') q resp w else (w, Inr ()))
      in if \<not> crFound resp
         then (case crossCheck w of (w, Inl e) \<Rightarrow> (w, Inl e) | (w, Inr _) \<Rightarrow> (w, Inr NoMatch))
         else
           (case crRecord resp of
              None \<Rightarrow> (w, Inl LookupPanic)
            | Some rj \<Rightarrow>
                if \<not> verifyOwnerSig L (qName q) resp rj then (w, Inl OwnerSigInvalid)
                else
                  (case crossCheck w of
                     (w, Inl e) \<Rightarrow> (w, Inl e)
                   | (w, Inr _) \<Rightarrow>
                       (case recordFromResponse (cl_crypto L) rj of
                          Inl err \<Rightarrow> (w, Inl OwnerSigInvalid)
                        | Inr rec \<Rightarrow>
                            if crZKProof resp = [] then (w, Inr (Verified rec False))
                            else if \<not> verifyZK L resp rj then (w, Inl ZKInvalid)
                            else (w, Inr (Verified rec True))))))"

definition maxLookupBytes :: nat where "maxLookupBytes = 8 * 2 ^ 20"

definition lookup_query :: "'w client_lib \<Rightarrow> lookup_opts \<Rightarrow> lookup_exit + query" where
  "lookup_query L o' =
     (case lo_args o' of
        [name, typ'] \<Rightarrow>
          (case rbind (ParsePairs (cl_unicode L) (lo_selector o')) (New_query (cl_unicode L) name typ') of
             Inl err \<Rightarrow> Inl (Fatal (query_error_text id err))
           | Inr q \<Rightarrow> Inr q)
      | _ \<Rightarrow> Inl Usage)"

definition lookup_main :: "'w client_lib \<Rightarrow> lookup_opts \<Rightarrow> 'w \<Rightarrow> 'w \<times> (lookup_exit + lookup_answer)" where
  "lookup_main L o' w =
     (case (if lo_discover o' then discoverResolver L (lo_rpc o') (lo_deployments o') (lo_registry o') w
            else (w, Inr (lo_resolver o', []))) of
        (w, Inl e) \<Rightarrow> (w, Inl e)
      | (w, Inr (resolver, pinnedKey)) \<Rightarrow>
          (case lookup_query L o' of
             Inl e \<Rightarrow> (w, Inl e)
           | Inr q \<Rightarrow>
               (let endpoint = resolver @ ''/resolve?'' @
                      values_Encode [(''name'', [qName q]), (''type'', [qType q]), (''selector'', [qSelector q])]
                in case cl_Get L endpoint w of
                     (w, Inl err) \<Rightarrow> (w, Inl (Fatal err))
                   | (w, Inr httpResp) \<Rightarrow>
                       (case open_envelope L pinnedKey (take maxLookupBytes (h_body httpResp)) of
                          Inl e \<Rightarrow> (w, Inl e)
                        | Inr resp \<Rightarrow> check_response L o' q resp w))))"

section \<open>ddns-fetch\<close>

datatype fetch_exit =
    FetchUsage
  | FetchFatal string
  | HttpStatus nat
  | ShaMismatch
  | ProvenanceInvalid sig_error
  | OwnerNotVerified

definition maxResourceBytes :: nat where "maxResourceBytes = 256 * 2 ^ 20"

record fetch_opts =
  fo_resolver :: string
  fo_selector :: string
  fo_out :: string
  fo_peers :: "string list"
  fo_args :: "string list"

text \<open>
  What package net/http makes of a response on its way to the client: line breaks in header values become blanks, and blanks
  around them are lost.
\<close>

definition wire_space :: "char \<Rightarrow> bool" where
  "wire_space c = (c = CHR '' '' \<or> c = CHR 0x09 \<or> c = CHR 0x0A \<or> c = CHR 0x0D)"

definition wire_value :: "string \<Rightarrow> string" where
  "wire_value v =
     (let v = map (\<lambda>c. if c = CHR 0x0A \<or> c = CHR 0x0D then CHR '' '' else c) v
      in rev (dropWhile wire_space (rev (dropWhile wire_space v))))"

definition over_http :: "http_response \<Rightarrow> http_response" where
  "over_http resp = resp\<lparr>h_headers := map (\<lambda>(k, v). (k, wire_value v)) (h_headers resp)\<rparr>"

text \<open>The checks of a response that has arrived: the verified bytes, and whether the content type was found to differ (a warning).\<close>

definition response_provenance :: "http_response \<Rightarrow> provenance" where
  "response_provenance resp =
     (let h = header_Get (h_headers resp)
      in \<lparr>pvOwner = h ''X-DDNS-Owner'', pvPubKeyHex = h ''X-DDNS-PubKey'', pvInfoHash = h ''X-DDNS-InfoHash'',
          pvSha256Hex = h ''X-DDNS-SHA256'', pvContentType = h ''Content-Type'',
          pvOwnerSigVerified = (h ''X-DDNS-OwnerSig-Verified'' = ''true''), pvZKProofHex = h ''X-DDNS-ZKProof''\<rparr>)"

definition fetch_checks :: "crypto_lib \<Rightarrow> sniff_lib \<Rightarrow> http_response \<Rightarrow> fetch_exit + bytes \<times> bool" where
  "fetch_checks C S resp =
     (let body = take maxResourceBytes (h_body resp); h = header_Get (h_headers resp); p = response_provenance resp
      in if h_status resp \<noteq> 200 then Inl (HttpStatus (h_status resp))
         else if hex_encode (Sum256 C body) \<noteq> h ''X-DDNS-SHA256'' then Inl ShaMismatch
         else
           (case VerifyResourceSignature C (h ''X-DDNS-Resolver'') (h ''X-DDNS-Signature'') p body of
              Inl err \<Rightarrow> Inl (ProvenanceInvalid err)
            | Inr _ \<Rightarrow>
                if \<not> pvOwnerSigVerified p then Inl OwnerNotVerified
                else Inr (body, \<not> ctOK (ct_Validate S (h ''Content-Type'') body))))"

text \<open>The verified bytes go to standard output (they are the result of the command) or to the file of \<^verbatim>\<open>-o\<close>.\<close>

definition write_out :: "'w client_lib \<Rightarrow> string \<Rightarrow> bytes \<Rightarrow> 'w \<Rightarrow> 'w \<times> (fetch_exit + unit)" where
  "write_out L out body w =
     (if out = [] \<or> out = ''-'' then (w, Inr ())
      else (case cl_WriteFile L out body w of (w, None) \<Rightarrow> (w, Inr ()) | (w, Some err) \<Rightarrow> (w, Inl (FetchFatal err))))"

definition fetch_main :: "'w client_lib \<Rightarrow> fetch_opts \<Rightarrow> 'w \<Rightarrow> 'w \<times> (fetch_exit + bytes \<times> bool)" where
  "fetch_main L o' w =
     (case fo_args o' of
        [name] \<Rightarrow>
          (case rbind (ParsePairs (cl_unicode L) (fo_selector o')) (New_query (cl_unicode L) name ''ResourceRef'') of
             Inl err \<Rightarrow> (w, Inl (FetchFatal (query_error_text id err)))
           | Inr q \<Rightarrow>
               (let endpoint = fo_resolver o' @ ''/resource?'' @
                      values_Encode ([(''name'', [qName q]), (''selector'', [qSelector q])] @
                        (if fo_peers o' = [] then [] else [(''peer'', fo_peers o')]))
                in case cl_Get L endpoint w of
                     (w, Inl err) \<Rightarrow> (w, Inl (FetchFatal err))
                   | (w, Inr resp) \<Rightarrow>
                       (case fetch_checks (cl_crypto L) (cl_sniff L) resp of
                          Inl e \<Rightarrow> (w, Inl e)
                        | Inr (body, warned) \<Rightarrow>
                            (case write_out L (fo_out o') body w of
                               (w, Inl e) \<Rightarrow> (w, Inl e)
                             | (w, Inr _) \<Rightarrow> (w, Inr (body, warned))))))
      | _ \<Rightarrow> (w, Inl FetchUsage))"

section \<open>record-commit\<close>

datatype commit_result = CommitPrints string | CommitError string | CommitPanic

definition record_commit :: "crypto_lib \<Rightarrow> zk_lib \<Rightarrow> string + commit_request \<Rightarrow> commit_result" where
  "record_commit C Z input =
     (case input of
        Inl err \<Rightarrow> CommitError (''bad input: '' @ err)
      | Inr inp \<Rightarrow>
          if length (cqFieldNames inp) \<noteq> length (cqFieldValues inp)
          then CommitError ''fieldNames/fieldValues length mismatch''
          else
            (case RecordMessage C (cqName inp) (commit_record inp) of
               None \<Rightarrow> CommitPanic
             | Some msg \<Rightarrow>
                 (case Commitment Z msg of
                    Inl (ErrPayloadTooLarge n) \<Rightarrow> CommitPrints (hexutil_Encode C (replicate 32 0))
                  | Inl err \<Rightarrow> CommitError (zk_error_text err)
                  | Inr com \<Rightarrow> CommitPrints (hexutil_Encode C com))))"

section \<open>Facts\<close>

text \<open>The client's view of a response of the server: what decoding its JSON yields.\<close>

definition client_view :: "resolve_response \<Rightarrow> client_response" where
  "client_view r =
     \<lparr>crFound = rrFound r, crError = rrError r, crRecord = rrRecord r, crOwner = rrOwner r, crPubKey = rrPubKey r,
      crOwnerSigVerified = rrOwnerSigVerified r, crZKProof = rrZKProof r, crCached = rrCached r\<rparr>"

lemma RecordMessage_rExists [simp]: "RecordMessage C name (r\<lparr>rExists := b\<rparr>) = RecordMessage C name r"
  by (simp add: RecordMessage_def field_pairs_def)

lemma VerifyOwnerSig_rExists: "VerifyOwnerSig C name (r\<lparr>rExists := b\<rparr>) owner pub = VerifyOwnerSig C name r owner pub"
  by (simp add: VerifyOwnerSig_def split: option.split)

lemma hexutil_facts:
  assumes "hexutil_ok C"
  shows "hexutil_Decode C (hexutil_Encode C b) = Some b" "hexutil_Encode C b \<noteq> []"
    "hexutil_Decode C (''0x'' @ hex_encode b) = Some b"
proof -
  show d: "hexutil_Decode C (hexutil_Encode C b) = Some b" using assms unfolding hexutil_ok_def by blast
  have e: "hexutil_Encode C b = ''0x'' @ hex_encode b" using assms unfolding hexutil_ok_def by blast
  show "hexutil_Encode C b \<noteq> []" by (simp add: e)
  show "hexutil_Decode C (''0x'' @ hex_encode b) = Some b" using d unfolding e .
qed

lemma recordFromResponse_toRecordJSON:
  assumes "hexutil_ok C" "length (rCommitment r) = 32"
  shows "recordFromResponse C (toRecordJSON C r) = Inr (r\<lparr>rExists := False\<rparr>)"
  using assms(2) hexutil_facts [OF assms(1)] by (cases r) (simp add: recordFromResponse_def toRecordJSON_def)

text \<open>What the cross-check against the chain establishes.\<close>

definition agrees_with_chain :: "crypto_lib \<Rightarrow> query \<Rightarrow> resolve_result \<Rightarrow> lookup_answer \<Rightarrow> bool" where
  "agrees_with_chain C q onchain ans \<longleftrightarrow>
     (case ans of
        NoMatch \<Rightarrow> \<not> rExists (resRecord onchain)
      | Verified rec zk \<Rightarrow>
          rExists (resRecord onchain) \<and>
          (\<exists>m. RecordMessage C (qName q) rec = Some m \<and> RecordMessage C (qName q) (resRecord onchain) = Some m) \<and>
          rOwnerSig rec = rOwnerSig (resRecord onchain) \<and> rCommitment rec = rCommitment (resRecord onchain) \<and>
          VerifyOwnerSig C (qName q) rec (resOwner onchain) (resPubKey onchain) = Inr ())"

lemma isOk_unit: "isOk (x :: 'e + unit) \<longleftrightarrow> x = Inr ()"
  by (cases x) simp_all

lemma compareOnChain_Inr:
  assumes "compareOnChain L rpc deployments nsFlag q resp w = (w', Inr u)"
  obtains ns w1 w2 onchain where "ns = namespaceAddr L deployments nsFlag w"
    "chain_Resolve (cl_api L ns) (qName q) (qType q) (qSelector q) w1 = (w2, Inr onchain)"
    "diffAgainstChain L onchain q resp = Inr ()"
  using assms by (auto simp: compareOnChain_def Let_def split: if_splits prod.splits option.splits sum.splits)

lemma diff_found:
  assumes "diffAgainstChain L onchain q resp = Inr ()" "crFound resp" "crRecord resp = Some rj"
    "recordFromResponse (cl_crypto L) rj = Inr rec" "verifyOwnerSig L (qName q) resp rj"
  shows "agrees_with_chain (cl_crypto L) q onchain (Verified rec z)"
  using assms
  by (auto simp: diffAgainstChain_def agrees_with_chain_def verifyOwnerSig_def isOk_unit Let_def
      split: if_splits option.splits sum.splits)

lemma diff_absent: "diffAgainstChain L onchain q resp = Inr () \<Longrightarrow> \<not> crFound resp \<Longrightarrow> agrees_with_chain C q onchain NoMatch"
  by (simp add: diffAgainstChain_def agrees_with_chain_def Let_def split: if_splits)

lemma check_response_discover:
  assumes "check_response L o' q resp w = (w', Inr ans)" "lo_discover o'"
  obtains ns w1 w2 onchain where "ns = namespaceAddr L (lo_deployments o') (lo_namespace o') w"
    "chain_Resolve (cl_api L ns) (qName q) (qType q) (qSelector q) w1 = (w2, Inr onchain)"
    "agrees_with_chain (cl_crypto L) q onchain ans"
proof -
  obtain u x where x: "compareOnChain L (lo_rpc o') (lo_deployments o') (lo_namespace o') q resp w = (u, x)" by fastforce
  have xr: "x = Inr ()"
    using assms x by (cases x) (auto simp: check_response_def Let_def split: if_splits option.splits)
  from x [unfolded xr] obtain ns w1 w2 onchain where c: "ns = namespaceAddr L (lo_deployments o') (lo_namespace o') w"
    "chain_Resolve (cl_api L ns) (qName q) (qType q) (qSelector q) w1 = (w2, Inr onchain)"
    and d: "diffAgainstChain L onchain q resp = Inr ()"
    by (rule compareOnChain_Inr)
  have "agrees_with_chain (cl_crypto L) q onchain ans"
  proof (cases "crFound resp")
    case False
    then have "ans = NoMatch" using assms x xr by (auto simp: check_response_def Let_def)
    then show ?thesis using diff_absent [OF d False] by simp
  next
    case True
    then obtain rj rec z where "crRecord resp = Some rj" "verifyOwnerSig L (qName q) resp rj"
      "recordFromResponse (cl_crypto L) rj = Inr rec" "ans = Verified rec z"
      using assms x xr by (auto simp: check_response_def Let_def split: if_splits option.splits sum.splits)
    then show ?thesis using diff_found [OF d True] by simp
  qed
  with c show thesis by (rule that)
qed

text \<open>What a verdict on a response rests on.\<close>

lemma verifyOwnerSig_iff:
  "verifyOwnerSig L name resp rj \<longleftrightarrow> (\<exists>rec pub. recordFromResponse (cl_crypto L) rj = Inr rec \<and> hexutil_Decode (cl_crypto L) (crPubKey resp) = Some pub \<and>
     VerifyOwnerSig (cl_crypto L) name rec (HexToAddress (cl_dial L) (crOwner resp)) pub = Inr ())"
  by (auto simp: verifyOwnerSig_def isOk_unit split: option.splits sum.splits)

lemma verifyZK_iff:
  "verifyZK L resp rj \<longleftrightarrow> (\<exists>com calldata pf. hexutil_Decode (cl_crypto L) (rjCommitment rj) = Some com \<and> length com = 32 \<and>
     hexutil_Decode (cl_crypto L) (crZKProof resp) = Some calldata \<and> ProofFromSolidityCalldata (cl_zk L) calldata = Inr pf \<and>
     isOk (snd (Verify (cl_zk L) pf com zk_initial)))"
  by (auto simp: verifyZK_def split: option.splits sum.splits)

lemma recordFromResponse_commitment:
  "recordFromResponse C rj = Inr rec \<Longrightarrow> rjCommitment rj \<noteq> [] \<Longrightarrow> hexutil_Decode C (rjCommitment rj) = Some com \<Longrightarrow> rCommitment rec = com"
  by (auto simp: recordFromResponse_def Let_def split: option.splits if_splits)

lemma check_response_verdict:
  assumes "check_response L o' q resp w = (w', Inr ans)"
  shows "case ans of
       NoMatch \<Rightarrow> \<not> crFound resp
     | Verified rec zk \<Rightarrow> crFound resp \<and>
         (\<exists>rj pub. crRecord resp = Some rj \<and> recordFromResponse (cl_crypto L) rj = Inr rec \<and>
            hexutil_Decode (cl_crypto L) (crPubKey resp) = Some pub \<and>
            VerifyOwnerSig (cl_crypto L) (qName q) rec (HexToAddress (cl_dial L) (crOwner resp)) pub = Inr () \<and>
            zk = (crZKProof resp \<noteq> []) \<and>
            (zk \<longrightarrow> (\<exists>com calldata pf. hexutil_Decode (cl_crypto L) (rjCommitment rj) = Some com \<and>
               (rjCommitment rj \<noteq> [] \<longrightarrow> rCommitment rec = com) \<and> hexutil_Decode (cl_crypto L) (crZKProof resp) = Some calldata \<and>
               ProofFromSolidityCalldata (cl_zk L) calldata = Inr pf \<and> isOk (snd (Verify (cl_zk L) pf com zk_initial)))))"
proof (cases "crFound resp")
  case False
  then have "ans = NoMatch" using assms by (auto simp: check_response_def Let_def split: prod.splits sum.splits)
  then show ?thesis using False by simp
next
  case True
  obtain rj rec where rj: "crRecord resp = Some rj" "verifyOwnerSig L (qName q) resp rj" "recordFromResponse (cl_crypto L) rj = Inr rec"
    and ans: "ans = Verified rec (crZKProof resp \<noteq> [])" "crZKProof resp \<noteq> [] \<Longrightarrow> verifyZK L resp rj"
    using assms True by (auto simp: check_response_def Let_def split: if_splits option.splits sum.splits prod.splits)
  obtain pub where pub: "hexutil_Decode (cl_crypto L) (crPubKey resp) = Some pub"
    "VerifyOwnerSig (cl_crypto L) (qName q) rec (HexToAddress (cl_dial L) (crOwner resp)) pub = Inr ()"
    using rj(2,3) by (auto simp: verifyOwnerSig_iff)
  have "\<exists>com calldata pf. hexutil_Decode (cl_crypto L) (rjCommitment rj) = Some com \<and>
      (rjCommitment rj \<noteq> [] \<longrightarrow> rCommitment rec = com) \<and> hexutil_Decode (cl_crypto L) (crZKProof resp) = Some calldata \<and>
      ProofFromSolidityCalldata (cl_zk L) calldata = Inr pf \<and> isOk (snd (Verify (cl_zk L) pf com zk_initial))" if "crZKProof resp \<noteq> []"
    using ans(2) [OF that] recordFromResponse_commitment [OF rj(3)] by (auto simp: verifyZK_iff)
  then show ?thesis using True rj(1,3) pub by (simp add: ans(1))
qed

text \<open>The answer that ddns-lookup should give for what the resolution path found.\<close>

definition expected_answer :: "query_result \<Rightarrow> resolve_result \<Rightarrow> lookup_exit + lookup_answer" where
  "expected_answer qr res =
     (if \<not> Found qr then Inr NoMatch
      else if resOwnerSigValid res then Inr (Verified ((resRecord res)\<lparr>rExists := False\<rparr>) (resZKProof res \<noteq> []))
      else Inl OwnerSigInvalid)"

lemma check_server_response:
  assumes C: "hexutil_ok (cl_crypto L)" "se_crypto E = cl_crypto L" "rv_zk (se_resolver E) = cl_zk L" "gnark_ok (cl_zk L) m"
    and "HandleQuery (se_resolver E) ts q qs = (qs', Inr qr)" "qrResult qr = Some res" "from_chain (se_resolver E) q res"
    and rr: "resolveResponse E ts q qs = (qs', Inr rr)"
    and addr: "HexToAddress (cl_dial L) (se_Hex E (resOwner res)) = resOwner res"
    and com: "length (rCommitment (resRecord res)) = 32" and d: "\<not> lo_discover o'"
  shows "check_response L o' q (client_view rr) w = (w, expected_answer qr res)"
proof (cases "Found qr")
  case False
  then have "crFound (client_view rr) = False" using rr assms(5) by (auto simp: resolveResponse_def client_view_def Let_def)
  then show ?thesis using False d by (simp add: check_response_def expected_answer_def)
next
  case True
  let ?C = "cl_crypto L" let ?rj = "toRecordJSON ?C (resRecord res)"
  note hx = hexutil_facts [OF C(1)]
  have v: "client_view rr = \<lparr>crFound = True, crError = [], crRecord = Some ?rj, crOwner = se_Hex E (resOwner res),
      crPubKey = hexutil_Encode ?C (resPubKey res), crOwnerSigVerified = resOwnerSigValid res,
      crZKProof = (if length (resZKProof res) > 0 then hexutil_Encode ?C (resZKProof res) else []), crCached = qrCached qr\<rparr>"
    using rr assms(5,6) True C(2) by (auto simp: resolveResponse_def client_view_def Let_def)
  note rj = recordFromResponse_toRecordJSON [OF C(1) com]
  have ex: "rExists (resRecord res)" using True assms(6) by (simp add: Found_def)
  have "resOwnerSigValid res \<longleftrightarrow> VerifyOwnerSig ?C (qName q) (resRecord res) (resOwner res) (resPubKey res) = Inr ()"
    using assms(7) ex C(2) by (auto simp: from_chain_def se_crypto_def)
  then have sig: "verifyOwnerSig L (qName q) (client_view rr) ?rj = resOwnerSigValid res"
    using rj hx addr by (simp add: v verifyOwnerSig_def VerifyOwnerSig_rExists isOk_unit)
  have zk: "verifyZK L (client_view rr) ?rj" if z: "resZKProof res \<noteq> []"
  proof -
    obtain msg pf where "Commitment (cl_zk L) msg = Inr (rCommitment (resRecord res))"
      "snd (Prove (cl_zk L) msg zk_initial) = Inr pf" "resZKProof res = SolidityCalldata (cl_zk L) pf"
      using assms(7) z C(3) unfolding from_chain_def by auto
    with proof_usable [OF C(4)] show ?thesis
      using hx z com by (simp add: v verifyZK_def toRecordJSON_def)
  qed
  have r: "crRecord (client_view rr) = Some ?rj" "crFound (client_view rr)"
    and p: "crZKProof (client_view rr) = [] \<longleftrightarrow> resZKProof res = []"
    using hx by (simp_all add: v)
  show ?thesis
    using True sig zk rj d r p by (simp add: check_response_def expected_answer_def)
qed

lemma hex_encode_lower: "list_all (\<lambda>c. \<not> is_upper c) (hex_encode b)"
proof -
  have "\<not> is_upper (hex_digit d)" if "d < 16" for d
    using that by (auto simp: hex_digit_def is_upper_def in_range_def)
  moreover have "unat x div 16 < 16" for x :: byte using byte_unat_less [of x] by simp
  ultimately show ?thesis by (induction b) simp_all
qed

lemma hex_value_lower: "hex_value c = Some d \<Longrightarrow> \<not> is_upper c \<Longrightarrow> hex_digit d = c \<and> d < 16"
proof -
  assume "hex_value c = Some d" "\<not> is_upper c"
  then have "(48 \<le> (of_char c :: nat) \<and> of_char c \<le> (57 :: nat) \<and> d = of_char c - 48) \<or>
      (97 \<le> (of_char c :: nat) \<and> of_char c \<le> (102 :: nat) \<and> d = of_char c - 87)"
    by (auto simp: hex_value_def is_upper_def in_range_def Let_def split: if_splits)
  then show ?thesis by (auto simp: hex_digit_def)
qed

text \<open>Of all strings that decode to given bytes, only the one in lower case is what \<open>EncodeToString\<close> yields.\<close>

lemma hex_decode_lower:
  "hex_decode s = Some b \<Longrightarrow> s = hex_encode b \<longleftrightarrow> list_all (\<lambda>c. \<not> is_upper c) s"
proof
  assume "hex_decode s = Some b" and l: "list_all (\<lambda>c. \<not> is_upper c) s"
  then show "s = hex_encode b"
  proof (induction s arbitrary: b rule: hex_decode.induct)
    case (3 c d s)
    then obtain x y bs where v: "hex_value c = Some x" "hex_value d = Some y" "hex_decode s = Some bs"
      "b = word_of_nat (x * 16 + y) # bs" by (auto split: option.splits)
    have cd: "hex_digit x = c \<and> x < 16" "hex_digit y = d \<and> y < 16" using v 3(3) hex_value_lower by auto
    then have "x * 16 + y < 256" by simp
    then have "unat (word_of_nat (x * 16 + y) :: byte) = x * 16 + y"
      by (simp only: unsigned_of_nat) (simp add: take_bit_eq_mod)
    then show ?case using v 3 cd by simp
  qed simp_all
qed (use hex_encode_lower in simp)

lemma hex_decode_graph: "hex_decode s = Some b \<Longrightarrow> list_all is_graph s"
proof (induction s arbitrary: b rule: hex_decode.induct)
  case (3 c d s)
  have "hex_value x = Some y \<Longrightarrow> is_graph x" for x y
    by (auto simp: hex_value_def is_graph_def Let_def split: if_splits)
  then show ?case using 3 by (auto split: option.splits)
qed simp_all

lemma hexutil_graph: "hexutil_ok C \<Longrightarrow> list_all is_graph (hexutil_Encode C b)"
  using hex_encode_graph [of b] by (simp add: hexutil_ok_def is_graph_def)

lemma PublicKeyHex_Encode: "hexutil_ok C \<Longrightarrow> PublicKeyHex C k = hexutil_Encode C (ed_Public C k)"
  by (simp add: hexutil_ok_def PublicKeyHex_def)

lemma resource_fields_no_breaks: "resource_fields rec = Inr (ih, sha, ct) \<Longrightarrow> CHR 0x0A \<notin> set ct \<and> CHR 0x0D \<notin> set ct"
  by (auto simp: resource_fields_def Let_def split: if_splits)

subsection \<open>Header values on the wire\<close>

lemma wire_value_Nil [simp]: "wire_value [] = []"
  by (simp add: wire_value_def)

lemma no_breaks_id:
  "CHR 0x0A \<notin> set v \<Longrightarrow> CHR 0x0D \<notin> set v \<Longrightarrow> map (\<lambda>c. if c = CHR 0x0A \<or> c = CHR 0x0D then CHR '' '' else c) v = v"
  by (rule map_idI) auto

lemma wire_value_graph:
  assumes "list_all is_graph v" shows "wire_value v = v"
proof -
  have g: "c \<in> set v \<Longrightarrow> is_graph c" for c using assms by (simp add: list_all_iff)
  have "\<not> is_graph CHR 0x0A" "\<not> is_graph CHR 0x0D" by (simp_all add: is_graph_def)
  then have b: "CHR 0x0A \<notin> set v" "CHR 0x0D \<notin> set v" using g by blast+
  have "\<not> wire_space c" if "c \<in> set v" for c using g [OF that] by (auto simp: wire_space_def is_graph_def)
  then have "dropWhile wire_space v = v" "dropWhile wire_space (rev v) = rev v"
    using hd_in_set [of v] hd_in_set [of "rev v"] by (auto simp: dropWhile_eq_self_iff)
  then show ?thesis by (simp add: wire_value_def no_breaks_id [OF b])
qed

lemma wire_true: "wire_value ''true'' = ''true''"
  by (rule wire_value_graph) (simp add: is_graph_def)

lemma wire_value_shorter:
  assumes "CHR 0x0A \<notin> set v" "CHR 0x0D \<notin> set v" "wire_value v \<noteq> v" shows "length (wire_value v) < length v"
proof -
  have d: "dropWhile wire_space x = x \<or> length (dropWhile wire_space x) < length x" for x
    by (cases x) (auto simp: le_imp_less_Suc length_dropWhile_le)
  have w: "wire_value v = rev (dropWhile wire_space (rev (dropWhile wire_space v)))"
    by (simp add: wire_value_def no_breaks_id [OF assms(1,2)])
  show ?thesis
    using d [of v] d [of "rev (dropWhile wire_space v)"] assms(3) unfolding w by auto
qed

lemma over_http_Get: "header_Get (h_headers (over_http resp)) k = wire_value (header_Get (h_headers resp) k)"
  by (simp add: header_Get_def over_http_def map_of_map split: option.split)

lemma handleResource_200:
  assumes "handleResource E ts slot r s = (s', resp)" "h_status resp = 200"
  obtains q vr where "fetchVerifiedResource E ts slot q (resourcePeers E r) s = (s', Inr vr)" "resp = resource_response E vr"
proof (cases "parseResourceQuery (se_unicode E) r")
  case (Inl err)
  then have "h_status resp = 400" using assms(1) by (auto simp: handleResource_def)
  then show thesis using assms(2) by simp
next
  case (Inr q)
  obtain s1 x where x: "fetchVerifiedResource E ts slot q (resourcePeers E r) s = (s1, x)" by fastforce
  show thesis
  proof (cases x)
    case (Inl e)
    then have "h_status resp = reStatus e" using assms(1) Inr x by (auto simp: handleResource_def)
    then show thesis using assms(2) fetchVerifiedResource_Inl [OF x [unfolded Inl]] by simp
  next
    case v: (Inr vr)
    show thesis using assms(1) Inr x v by (intro that [of q vr]) (simp_all add: handleResource_def)
  qed
qed

section \<open>Properties\<close>

text \<open>
  C14: With --discover, a verdict of ddns-lookup is anchored in the contract, not in what the resolver said: when the
  command reports a record, the contract holds a live record for exactly this query with the same signed message, owner
  signature and commitment, and the signature verifies against the owner and key that the contract reports; when
  it reports that there is no match, the contract has no live record.
\<close>

theorem discovered_answer_matches_chain:
  assumes "lo_discover o'" and "lookup_main L o' w = (w', Inr ans)"
  shows "\<exists>q ns w0 w1 w2 onchain. lookup_query L o' = Inr q \<and> ns = namespaceAddr L (lo_deployments o') (lo_namespace o') w0 \<and>
    chain_Resolve (cl_api L ns) (qName q) (qType q) (qSelector q) w1 = (w2, Inr onchain) \<and>
    agrees_with_chain (cl_crypto L) q onchain ans"
proof -
  from assms obtain q resp v where q: "lookup_query L o' = Inr q" and c: "check_response L o' q resp v = (w', Inr ans)"
    by (auto simp: lookup_main_def Let_def split: prod.splits sum.splits)
  from c assms(1) obtain ns w1 w2 onchain where "ns = namespaceAddr L (lo_deployments o') (lo_namespace o') v"
    "chain_Resolve (cl_api L ns) (qName q) (qType q) (qSelector q) w1 = (w2, Inr onchain)"
    "agrees_with_chain (cl_crypto L) q onchain ans"
    by (rule check_response_discover)
  with q show ?thesis by blast
qed

text \<open>
  C16: ddns-lookup accepts an honest resolver: when the server answers a request for the URL that the command builds from its name, type
  and selector with the signed REST response for this query, the command takes the envelope and reports exactly what the resolution
  path found \<midarrow> no match, the record (and that its proof verifies, if there is one), or an invalid owner signature.
\<close>

theorem client_confirms_honest_server:
  assumes "hexutil_ok (cl_crypto L)" and "se_crypto E = cl_crypto L" and "rv_zk (se_resolver E) = cl_zk L"
    and "gnark_ok (cl_zk L) m" and "ed_ok (cl_crypto L) (se_identity E)"
    and "HandleQuery (se_resolver E) ts q qs = (qs', Inr qr)" and "qrResult qr = Some res" and "from_chain (se_resolver E) q res"
    and "resolveResponse E ts q qs = (qs', Inr rr)"
    and "HexToAddress (cl_dial L) (se_Hex E (resOwner res)) = resOwner res" and "length (rCommitment (resRecord res)) = 32"
    and "\<not> lo_discover o'" and "lookup_query L o' = Inr q"
    and "cl_Get L (lo_resolver o' @ ''/resolve?'' @ values_Encode [(''name'', [qName q]), (''type'', [qType q]), (''selector'', [qSelector q])]) w =
      (w', Inr (over_http (writeSigned E 200 (response_json rr))))"
    and "SealEnvelope (se_crypto E) marshal_bytes (se_identity E) (response_json rr) = Inr env"
    and "cl_envelope L (take maxLookupBytes (h_body (writeSigned E 200 (response_json rr)))) = Some env"
    and "cl_response L (envData env) = Inr (client_view rr)"
  shows "lookup_main L o' w = (w', expected_answer qr res)"
proof -
  have "VerifyEnvelope (cl_crypto L) env = Inr ()"
    using SealEnvelope_verifies [OF assms(1,5) assms(15) [unfolded assms(2)]] by blast
  then have "open_envelope L [] (take maxLookupBytes (h_body (writeSigned E 200 (response_json rr)))) = Inr (client_view rr)"
    using assms(16,17) by (simp add: open_envelope_def)
  moreover have "check_response L o' q (client_view rr) w' = (w', expected_answer qr res)"
    by (rule check_server_response [OF assms(1-4,6-12)])
  moreover have "h_body (over_http (writeSigned E 200 (response_json rr))) = h_body (writeSigned E 200 (response_json rr))"
    by (simp add: over_http_def)
  ultimately show ?thesis using assms(12-14) by (simp add: lookup_main_def Let_def)
qed

text \<open>
  C15: What ddns-lookup reports it has checked itself, whatever server has answered. A report rests on the response to the URL built
  from the query, at the resolver given or discovered, in an envelope whose signature verifies; a record that is reported as verified is the record of that
  response, its owner signature has been recovered to the owner and key in the response for the requested name, and when the command reports a verified
  proof, the proof of the response decodes and verifies for the commitment of the record.
\<close>

theorem lookup_verdict_is_checked:
  assumes "lookup_main L o' w = (w', Inr ans)"
  shows "\<exists>q w1 base key w2 httpResp env resp. lookup_query L o' = Inr q \<and>
    (if lo_discover o' then discoverResolver L (lo_rpc o') (lo_deployments o') (lo_registry o') w = (w1, Inr (base, key))
     else w1 = w \<and> base = lo_resolver o') \<and>
    cl_Get L (base @ ''/resolve?'' @ values_Encode [(''name'', [qName q]), (''type'', [qType q]), (''selector'', [qSelector q])]) w1 =
      (w2, Inr httpResp) \<and>
    cl_envelope L (take maxLookupBytes (h_body httpResp)) = Some env \<and> VerifyEnvelope (cl_crypto L) env = Inr () \<and>
    cl_response L (envData env) = Inr resp \<and>
    (case ans of
       NoMatch \<Rightarrow> \<not> crFound resp
     | Verified rec zk \<Rightarrow> crFound resp \<and>
         (\<exists>rj pub. crRecord resp = Some rj \<and> recordFromResponse (cl_crypto L) rj = Inr rec \<and>
            hexutil_Decode (cl_crypto L) (crPubKey resp) = Some pub \<and>
            VerifyOwnerSig (cl_crypto L) (qName q) rec (HexToAddress (cl_dial L) (crOwner resp)) pub = Inr () \<and>
            zk = (crZKProof resp \<noteq> []) \<and>
            (zk \<longrightarrow> (\<exists>com calldata pf. hexutil_Decode (cl_crypto L) (rjCommitment rj) = Some com \<and>
               (rjCommitment rj \<noteq> [] \<longrightarrow> rCommitment rec = com) \<and> hexutil_Decode (cl_crypto L) (crZKProof resp) = Some calldata \<and>
               ProofFromSolidityCalldata (cl_zk L) calldata = Inr pf \<and> isOk (snd (Verify (cl_zk L) pf com zk_initial))))))"
proof -
  let ?url = "\<lambda>q. ''/resolve?'' @ values_Encode [(''name'', [qName q]), (''type'', [qType q]), (''selector'', [qSelector q])]"
  obtain q w1 base key w2 httpResp resp where q: "lookup_query L o' = Inr q"
    and d: "(if lo_discover o' then discoverResolver L (lo_rpc o') (lo_deployments o') (lo_registry o') w else (w, Inr (lo_resolver o', []))) =
      (w1, Inr (base, key))"
    and g: "cl_Get L (base @ ?url q) w1 = (w2, Inr httpResp)"
    and e: "open_envelope L key (take maxLookupBytes (h_body httpResp)) = Inr resp" and c: "check_response L o' q resp w2 = (w', Inr ans)"
    using assms by (auto simp: lookup_main_def Let_def split: prod.splits sum.splits)
  obtain env where env: "cl_envelope L (take maxLookupBytes (h_body httpResp)) = Some env" "VerifyEnvelope (cl_crypto L) env = Inr ()"
    "cl_response L (envData env) = Inr resp"
    using e by (auto simp: open_envelope_def split: option.splits sum.splits if_splits)
  have "if lo_discover o' then discoverResolver L (lo_rpc o') (lo_deployments o') (lo_registry o') w = (w1, Inr (base, key))
     else w1 = w \<and> base = lo_resolver o'" using d by (simp split: if_splits)
  with q g env check_response_verdict [OF c] show ?thesis by blast
qed



text \<open>A client of the sample server.\<close>

definition sample_response :: resolve_response where
  "sample_response = \<lparr>rrQuery = \<lparr>qName = ''example'', qType = ''ResourceRef'', qSelector = []\<rparr>, rrFound = True, rrError = [],
     rrRecord = Some (toRecordJSON toy_crypto (fromBinding resource_record)), rrOwner = ''0x07'', rrPubKey = ''0x'',
     rrOwnerSigVerified = True, rrZKProof = [], rrCached = False\<rparr>"

definition sample_envelope :: envelope where
  "sample_envelope = (case SealEnvelope toy_crypto marshal_bytes (replicate 32 5) (response_json sample_response) of Inr e \<Rightarrow> e)"

definition sample_client :: "((string + 64 word) list \<times> int) client_lib" where
  "sample_client = \<lparr>cl_crypto = toy_crypto, cl_zk = small_zk, cl_sniff = se_sniff resource_server_env, cl_unicode = ascii_only,
     cl_dial = sample_dial\<lparr>HexToAddress := (\<lambda>_. [7])\<rparr>, cl_api = (\<lambda>_. resource_chain),
     cl_ActiveResolvers = (\<lambda>_ w. (w, Inr ([[7]], [''http://r''], [replicate 32 5]))),
     cl_NewResolverRegistry = (\<lambda>_. None), cl_Get = (\<lambda>_ w. (w, Inr (over_http (writeSigned resource_server_env 200 (response_json sample_response))))),
     cl_envelope = (\<lambda>_. Some sample_envelope), cl_response = (\<lambda>_. Inr (client_view sample_response)),
     cl_ReadFile = (\<lambda>_ _. None), cl_WriteFile = (\<lambda>_ _ w. (w, None)), cl_deployment = (\<lambda>_. None), cl_env = Map.empty\<rparr>"

definition sample_opts :: "bool \<Rightarrow> lookup_opts" where
  "sample_opts disc = \<lparr>lo_resolver = ''http://r'', lo_selector = [], lo_discover = disc, lo_rpc = [], lo_deployments = [],
     lo_registry = ''0x1'', lo_namespace = ''0x2'', lo_args = [''example'', ''ResourceRef'']\<rparr>"

definition resource_q :: query where
  "resource_q = \<lparr>qName = ''example'', qType = ''ResourceRef'', qSelector = []\<rparr>"

lemma sample_lookup_query: "lookup_query sample_client (sample_opts d) = Inr resource_q"
  using resource_query
  by (auto simp: lookup_query_def sample_opts_def sample_client_def parseResourceQuery_def params_Get_def resource_request_def
      resource_q_def split: sum.splits)

lemma sample_sealed:
  "SealEnvelope (se_crypto resource_server_env) marshal_bytes (se_identity resource_server_env) (response_json sample_response) =
   Inr sample_envelope"
  by (simp add: sample_envelope_def SealEnvelope_def marshal_bytes_def se_crypto_def resource_server_env_def
      sample_server_env_def list_resolver_def)

lemma sample_resolveResponse:
  "\<exists>qs. HandleQuery (se_resolver resource_server_env) (0, 1) resource_q (sv_query sample_server) =
      (qs, Inr \<lparr>qrResult = Some resource_answer, qrCached = False\<rparr>) \<and>
    resolveResponse resource_server_env (0, 1) resource_q (sv_query sample_server) = (qs, Inr sample_response)"
proof -
  obtain qs where h: "HandleQuery (se_resolver resource_server_env) (0, 1) resource_q (sv_query sample_server) =
      (qs, Inr \<lparr>qrResult = Some resource_answer, qrCached = False\<rparr>)"
    using resource_HandleQuery unfolding resource_q_def by (metis surjective_pairing)
  have "Found \<lparr>qrResult = Some resource_answer, qrCached = False\<rparr>"
    by (simp add: Found_def resource_answer_def fromBinding_def resource_record_def zero_address_def numeral_eq_Suc)
  moreover have "hex_encode [7] = ''07''" by (simp add: hex_digit_def char_of_eq_iff take_bit_eq_mod)
  ultimately show ?thesis
    using h by (simp add: resolveResponse_def sample_response_def resource_answer_def resource_q_def se_crypto_def
        resource_server_env_def sample_server_env_def list_resolver_def)
      (simp add: toy_crypto_def)
qed

lemma resource_from_chain: "from_chain (se_resolver resource_server_env) resource_q resource_answer"
proof -
  have c: "cache_New (rv_cache (se_resolver resource_server_env)) 2 = Inr fresh_cache"
    using fresh_New by (simp add: resource_server_env_def sample_resolver_def list_resolver_def)
  have qp: "query_path (se_resolver resource_server_env) ll_contents fst ll_inv UNIV"
    using qp.query_path_axioms by (simp add: resource_server_env_def)
  obtain qs where h: "HandleQuery (se_resolver resource_server_env) (0, 1) resource_q (sv_query sample_server) =
      (qs, Inr \<lparr>qrResult = Some resource_answer, qrCached = False\<rparr>)"
    using sample_resolveResponse by blast
  then have "HandleQuery (se_resolver resource_server_env) (0, 1) resource_q (fst (srv_run (se_resolver resource_server_env) []
      (\<lparr>q_cache = fresh_cache, q_zk = zk_initial, q_world = ([], 0)\<rparr>, []))) =
      (qs, Inr \<lparr>qrResult = Some resource_answer, qrCached = False\<rparr>)"
    by (simp add: sample_server_def)
  from query_path.next_answer [OF qp c _ UNIV_I this] show ?thesis by simp
qed

theorem client_confirms_honest_server_witness:
  "lookup_main sample_client (sample_opts False) ([], 0) =
     (([], 0), Inr (Verified ((fromBinding resource_record)\<lparr>rExists := False\<rparr>) False))"
proof -
  obtain qs where h: "HandleQuery (se_resolver resource_server_env) (0, 1) resource_q (sv_query sample_server) =
      (qs, Inr \<lparr>qrResult = Some resource_answer, qrCached = False\<rparr>)"
    and r: "resolveResponse resource_server_env (0, 1) resource_q (sv_query sample_server) = (qs, Inr sample_response)"
    using sample_resolveResponse by blast
  have "lookup_main sample_client (sample_opts False) ([], 0) =
      (([], 0), expected_answer \<lparr>qrResult = Some resource_answer, qrCached = False\<rparr> resource_answer)"
  proof (rule client_confirms_honest_server [OF _ _ _ _ _ h _ resource_from_chain r _ _ _ sample_lookup_query _ sample_sealed])
    show "hexutil_ok (cl_crypto sample_client)" using toy_hexutil by (simp add: sample_client_def)
    show "ed_ok (cl_crypto sample_client) (se_identity resource_server_env)"
      using toy_ed [of "replicate 32 5"] by (simp add: sample_client_def resource_server_env_def sample_server_env_def)
    show "gnark_ok (cl_zk sample_client) (2 ^ 256)" using small_gnark by (simp add: sample_client_def)
  qed (simp_all add: sample_client_def se_crypto_def resource_server_env_def list_resolver_def resource_answer_def
      sample_opts_def fromBinding_def resource_record_def)
  moreover have "Found \<lparr>qrResult = Some resource_answer, qrCached = False\<rparr>"
    by (simp add: Found_def resource_answer_def fromBinding_def resource_record_def zero_address_def numeral_eq_Suc)
  ultimately show ?thesis by (simp add: expected_answer_def resource_answer_def)
qed

lemma sample_EqualFold: "EqualFold_ascii (envResolver sample_envelope) (hexutil_Encode toy_crypto (replicate 32 5))"
proof -
  have "envResolver sample_envelope = ''0x'' @ hex_encode (replicate 32 5)"
    by (simp add: sample_envelope_def SealEnvelope_def marshal_bytes_def PublicKeyHex_def toy_crypto_def)
  moreover have "hexutil_Encode toy_crypto (replicate 32 5) = ''0x'' @ hex_encode (replicate 32 5)" by (simp add: toy_crypto_def)
  moreover have "list_all is_ascii (''0x'' @ hex_encode (replicate 32 5))"
    using hex_encode_graph [of "replicate 32 5"] by (auto simp: list_all_iff is_graph_def is_ascii_def)
  ultimately show ?thesis by (simp only: EqualFold_ascii_def runes_ascii)
qed

lemma sample_discover:
  "lookup_main sample_client (sample_opts True) ([], 0) = (([], 0), Inr (Verified ((fromBinding resource_record)\<lparr>rExists := False\<rparr>) False))"
proof -
  let ?L = sample_client let ?o = "sample_opts True" let ?rj = "toRecordJSON toy_crypto (fromBinding resource_record)"
  let ?rec = "(fromBinding resource_record)\<lparr>rExists := False\<rparr>"
  have len: "length (rCommitment (fromBinding resource_record)) = 32" by (simp add: fromBinding_def resource_record_def)
  note rj = recordFromResponse_toRecordJSON [OF toy_hexutil len]
  note hx = hexutil_facts [OF toy_hexutil]
  have za: "[7] \<noteq> zero_address" by (simp add: zero_address_def numeral_eq_Suc)
  have pk: "hexutil_Decode toy_crypto ''0x'' = Some []" using hx(3) [of "[]"] by simp
  have sig: "verifyOwnerSig ?L ''example'' (client_view sample_response) ?rj"
    using rj pk resource_sig
    by (simp add: verifyOwnerSig_def sample_client_def client_view_def sample_response_def VerifyOwnerSig_rExists isOk_unit)
  obtain m where m: "RecordMessage toy_crypto ''example'' (fromBinding resource_record) = Some m"
    by (simp add: RecordMessage_def field_pairs_def fromBinding_def resource_record_def)
  have diff: "diffAgainstChain ?L (resource_answer\<lparr>resOwnerSigValid := False\<rparr>) resource_q (client_view sample_response) = Inr ()"
    using rj pk m
    by (simp add: diffAgainstChain_def sample_client_def client_view_def sample_response_def resource_answer_def resource_q_def)
      (simp add: fromBinding_def resource_record_def)
  have "compareOnChain ?L (lo_rpc ?o) (lo_deployments ?o) (lo_namespace ?o) resource_q (client_view sample_response) w =
      (w, Inr ())" for w
    using diff za
    by (simp add: compareOnChain_def namespaceAddr_def contract_addr_def sample_opts_def)
      (simp add: sample_client_def resource_chain_Resolve chain_Dial_def sample_dial_def)
  then have chk: "check_response ?L ?o resource_q (client_view sample_response) w = (w, Inr (Verified ?rec False))" for w
    using sig rj
    by (simp add: check_response_def resource_q_def)
      (simp add: sample_opts_def client_view_def sample_response_def sample_client_def)
  have "discoverResolver ?L (lo_rpc ?o) (lo_deployments ?o) (lo_registry ?o) w =
      (w, Inr (''http://r'', hexutil_Encode toy_crypto (replicate 32 5)))" for w
    using za by (simp add: discoverResolver_def resolverRegistryAddr_def contract_addr_def sample_opts_def sample_client_def sample_dial_def)
  moreover have "VerifyEnvelope toy_crypto sample_envelope = Inr ()"
    using SealEnvelope_verifies [OF toy_hexutil toy_ed, of "replicate 32 5" marshal_bytes "response_json sample_response"]
      sample_sealed
    by (simp add: se_crypto_def resource_server_env_def sample_server_env_def list_resolver_def)
  ultimately show ?thesis
    using sample_lookup_query [of True] sample_EqualFold chk
    by (simp add: lookup_main_def open_envelope_def) (simp add: sample_opts_def sample_client_def)
qed

theorem lookup_verdict_is_checked_witness:
  "\<exists>env. cl_envelope sample_client (take maxLookupBytes (h_body (over_http (writeSigned resource_server_env 200 (response_json sample_response))))) = Some env \<and>
     VerifyEnvelope toy_crypto env = Inr () \<and>
     VerifyOwnerSig toy_crypto ''example'' ((fromBinding resource_record)\<lparr>rExists := False\<rparr>) [7] [] = Inr ()"
proof -
  let ?L = sample_client
  have pk: "hexutil_Decode toy_crypto ''0x'' = Some []" using hexutil_facts(3) [OF toy_hexutil, of "[]"] by simp
  have q: "qName q = ''example''" if "lookup_query ?L (sample_opts True) = Inr q" for q
    using that sample_lookup_query [of True] by (auto simp: resource_q_def)
  from lookup_verdict_is_checked [OF sample_discover] show ?thesis
    using q pk by (auto simp: sample_client_def client_view_def sample_response_def)
qed

theorem discovered_answer_matches_chain_witness:
  "\<exists>onchain. chain_Resolve resource_chain ''example'' ''ResourceRef'' [] ([], 0) = (([], 0), Inr onchain) \<and>
     agrees_with_chain toy_crypto resource_q onchain (Verified ((fromBinding resource_record)\<lparr>rExists := False\<rparr>) False)"
proof -
  let ?L = sample_client let ?o = "sample_opts True" let ?rec = "(fromBinding resource_record)\<lparr>rExists := False\<rparr>"
  from discovered_answer_matches_chain [OF _ sample_discover] obtain q ns w1 w2 onchain where
    "lookup_query ?L ?o = Inr q" "chain_Resolve (cl_api ?L ns) (qName q) (qType q) (qSelector q) w1 = (w2, Inr onchain)"
    "agrees_with_chain (cl_crypto ?L) q onchain (Verified ?rec False)"
    by (auto simp: sample_opts_def)
  then have "agrees_with_chain toy_crypto resource_q (resource_answer\<lparr>resOwnerSigValid := False\<rparr>) (Verified ?rec False)"
    using sample_lookup_query [of True] by (simp add: sample_client_def resource_chain_Resolve)
  then show ?thesis by (simp add: resource_chain_Resolve)
qed

text \<open>
  Without --discover, ddns-lookup does not notice that it was given a different record of the same name: its verdict on a
  response depends on the name only, so a resolver that answers every query for a name with the same signed record is
  always believed, whatever type and selector were asked for.
\<close>

theorem lookup_ignores_type_and_selector:
  assumes "\<not> lo_discover o1" and "\<not> lo_discover o2"
    and "lookup_query L o1 = Inr q1" and "lookup_query L o2 = Inr q2" and "qName q1 = qName q2"
    and "\<And>url. cl_Get L url w = (w', Inr resp)"
  shows "lookup_main L o1 w = lookup_main L o2 w"
proof -
  have "check_response L o1 q1 r v = check_response L o2 q2 r v" for r v
    using assms(1,2,5) by (simp add: check_response_def split: option.split)
  then show ?thesis using assms by (simp add: lookup_main_def Let_def split: sum.splits)
qed

theorem lookup_ignores_type_and_selector_witness:
  "lookup_main sample_client ((sample_opts False)\<lparr>lo_args := [''example'', ''A'']\<rparr>) ([], 0) =
   lookup_main sample_client (sample_opts False) ([], 0)"
proof (rule lookup_ignores_type_and_selector [where ?q1.0 = "\<lparr>qName = ''example'', qType = ''A'', qSelector = []\<rparr>" and
      ?q2.0 = resource_q and resp = "over_http (writeSigned resource_server_env 200 (response_json sample_response))"])
  have "ValidateName ''example'' = Inr ()"
    by (simp add: ValidateName_def nameRe_def name_edge_def name_char_def is_lower_def in_range_def)
  moreover have "ValidateType ''A'' = Inr ()"
    by (simp add: ValidateType_def typeRe_def type_char_def is_upper_def in_range_def)
  ultimately show "lookup_query sample_client ((sample_opts False)\<lparr>lo_args := [''example'', ''A'']\<rparr>) =
      Inr \<lparr>qName = ''example'', qType = ''A'', qSelector = []\<rparr>"
    by (simp add: lookup_query_def sample_opts_def ParsePairs_def New_query_def CanonicalSelector_def)
  show "lookup_query sample_client (sample_opts False) = Inr resource_q" by (rule sample_lookup_query)
qed (simp_all add: sample_opts_def sample_client_def resource_q_def)

end
