(* ===== verification/Pay_Voucher.thy ===== *)
theory Pay_Voucher
  imports Pki
begin

text \<open>
  The micropayment vouchers of src/resolver/internal/pay: the digest a client signs to pay a resolver, and
  the recovery of the signer with the low-s rule of the contract.

  Beside \<open>crypto_lib\<close>, keccak256, \<open>common.LeftPadBytes\<close> and the order of secp256k1 are parameters. An amount
  is a \<open>big.Int\<close>; its bytes are those of its absolute value.
\<close>

section \<open>Definitions\<close>

record pay_lib =
  py_crypto :: crypto_lib
  py_Keccak256 :: "bytes \<Rightarrow> bytes"
  py_LeftPad :: "bytes \<Rightarrow> nat \<Rightarrow> bytes"
  py_N :: nat

datatype pay_error = ErrVoucherLength | ErrHighS | ErrVoucherRecover string | ErrVoucherSign string | ErrVoucherPanic

definition halfN :: "pay_lib \<Rightarrow> nat" where "halfN P = py_N P div 2"

definition innerHash :: "pay_lib \<Rightarrow> address \<Rightarrow> hash32 \<Rightarrow> int \<Rightarrow> bytes" where
  "innerHash P contract chid cumulative =
     py_Keccak256 P (py_LeftPad P contract 32 @ chid @ py_LeftPad P (big_Bytes (nat \<bar>cumulative\<bar>)) 32)"

definition Digest :: "pay_lib \<Rightarrow> address \<Rightarrow> hash32 \<Rightarrow> int \<Rightarrow> bytes" where
  "Digest P contract chid cumulative = TextHash (py_crypto P) (innerHash P contract chid cumulative)"

definition SignVoucher :: "pay_lib \<Rightarrow> bytes \<Rightarrow> address \<Rightarrow> hash32 \<Rightarrow> int \<Rightarrow> pay_error + bytes" where
  "SignVoucher P key contract chid cumulative =
     (case ecdsa_Sign (py_crypto P) (Digest P contract chid cumulative) key of
        Inl e \<Rightarrow> Inl (ErrVoucherSign e)
      | Inr sg \<Rightarrow> if length sg \<le> 64 then Inl ErrVoucherPanic else Inr (sg[64 := sg ! 64 + 27]))"

definition RecoverVoucher ::
  "pay_lib \<Rightarrow> address \<Rightarrow> hash32 \<Rightarrow> int \<Rightarrow> bytes \<Rightarrow> pay_error + address" where
  "RecoverVoucher P contract chid cumulative sg =
     (if length sg \<noteq> 65 then Inl ErrVoucherLength
      else if be_nat (take 32 (drop 32 sg)) > halfN P then Inl ErrHighS
      else case SigToPub (py_crypto P) (Digest P contract chid cumulative) (normalize_v sg) of
             Inl e \<Rightarrow> Inl (ErrVoucherRecover e)
           | Inr pub \<Rightarrow> Inr (PubkeyToAddress (py_crypto P) pub))"

section \<open>Facts\<close>

text \<open>\<open>LeftPadBytes\<close> prepends zeros up to the wanted length.\<close>

definition left_pad_ok :: "pay_lib \<Rightarrow> bool" where
  "left_pad_ok P \<longleftrightarrow> (\<forall>b n. length b \<le> n \<longrightarrow> py_LeftPad P b n = replicate (n - length b) 0 @ b)"

lemma be_nat_replicate_zero [simp]: "be_nat (replicate n 0 @ b) = be_nat b"
proof (induction b rule: rev_induct)
  case Nil
  have "replicate (Suc n) (0 :: byte) = replicate n 0 @ [0]" for n by (simp add: replicate_append_same)
  then show ?case by (induction n) (simp_all del: replicate_Suc)
next
  case (snoc x xs)
  have "be_nat (replicate n 0 @ xs @ [x]) = be_nat ((replicate n 0 @ xs) @ [x])" by simp
  then show ?case by (simp only: be_nat_snoc snoc)
qed

lemma left_pad_facts:
  assumes "left_pad_ok P" "length b \<le> n"
  shows "length (py_LeftPad P b n) = n" "be_nat (py_LeftPad P b n) = be_nat b"
  using assms by (simp_all add: left_pad_ok_def)

text \<open>The 96 bytes that are hashed determine contract, channel and amount.\<close>

lemma voucher_bytes_inject:
  assumes P: "left_pad_ok P" and c: "length c = 20" "length c' = 20" and i: "length i = 32" "length i' = 32"
    and a: "0 \<le> a" "a < 2 ^ 256" "0 \<le> a'" "a' < 2 ^ 256"
    and eq: "py_LeftPad P c 32 @ i @ py_LeftPad P (big_Bytes (nat \<bar>a\<bar>)) 32 =
      py_LeftPad P c' 32 @ i' @ py_LeftPad P (big_Bytes (nat \<bar>a'\<bar>)) 32"
  shows "c = c' \<and> i = i' \<and> a = a'"
proof -
  have "nat \<bar>a\<bar> < 256 ^ 32" "nat \<bar>a'\<bar> < 256 ^ 32" using a by (simp_all add: nat_less_iff)
  then have l: "length (big_Bytes (nat \<bar>a\<bar>)) \<le> 32" "length (big_Bytes (nat \<bar>a'\<bar>)) \<le> 32"
    by (simp_all add: length_big_Bytes_le)
  have pc: "length (py_LeftPad P c 32) = 32" "length (py_LeftPad P c' 32) = 32"
    using left_pad_facts(1) [OF P] c by simp_all
  have e: "py_LeftPad P c 32 = py_LeftPad P c' 32 \<and> i = i' \<and>
      py_LeftPad P (big_Bytes (nat \<bar>a\<bar>)) 32 = py_LeftPad P (big_Bytes (nat \<bar>a'\<bar>)) 32"
    using eq pc i by (simp add: append_eq_same_length)
  have "be_nat c = be_nat c'" using e left_pad_facts(2) [OF P, of c 32] left_pad_facts(2) [OF P, of c' 32] c by simp
  then have cc: "c = c'" using c by (intro be_nat_inject) simp_all
  have "nat \<bar>a\<bar> = nat \<bar>a'\<bar>"
  proof -
    have "be_nat (py_LeftPad P (big_Bytes (nat \<bar>a\<bar>)) 32) = be_nat (py_LeftPad P (big_Bytes (nat \<bar>a'\<bar>)) 32)"
      using e by (elim conjE) (rule arg_cong)
    then show ?thesis by (simp only: left_pad_facts(2) [OF P l(1)] left_pad_facts(2) [OF P l(2)] be_nat_big_Bytes)
  qed
  then have "a = a'" using a by linarith
  moreover have "i = i'" using e by (elim conjE)
  ultimately show ?thesis using cc by (intro conjI)
qed

lemma SignVoucher_recovers:
  assumes "\<And>d sg. ecdsa_Sign (py_crypto P) d key = Inr sg \<Longrightarrow>
      length sg = 65 \<and> sg ! 64 < 27 \<and> be_nat (take 32 (drop 32 sg)) \<le> py_N P div 2 \<and> SigToPub (py_crypto P) d sg = Inr pub"
    and "SignVoucher P key contract chid cumulative = Inr sg"
  shows "RecoverVoucher P contract chid cumulative sg = Inr (PubkeyToAddress (py_crypto P) pub) \<and>
    (\<forall>sg'. length sg' = 65 \<and> py_N P div 2 < be_nat (take 32 (drop 32 sg')) \<longrightarrow>
       RecoverVoucher P contract chid cumulative sg' = Inl ErrHighS)"
proof -
  obtain raw where r: "ecdsa_Sign (py_crypto P) (Digest P contract chid cumulative) key = Inr raw"
    and sg: "sg = raw[64 := raw ! 64 + 27]"
    using assms(2) by (auto simp: SignVoucher_def split: sum.splits if_splits)
  note raw = assms(1) [OF r]
  have "take 32 (drop 32 sg) = take 32 (drop 32 raw)" by (simp add: sg drop_update_swap)
  then show ?thesis
    using raw normalize_shifted(1) [of raw] sg by (simp add: RecoverVoucher_def halfN_def)
qed

section \<open>Properties\<close>

text \<open>
  A voucher cannot be used elsewhere: if the client's address is recovered only from digests of vouchers the
  client signed, and neither keccak256 nor the EIP-191 hash collides on the inputs concerned, then a voucher that
  \<open>RecoverVoucher\<close> attributes to the client names the contract, channel and cumulative amount the client signed.
\<close>

theorem voucher_binds_payment:
  assumes "left_pad_ok P"
    and "\<And>d sg pub. SigToPub (py_crypto P) d sg = Inr pub \<Longrightarrow> PubkeyToAddress (py_crypto P) pub = client \<Longrightarrow>
           \<exists>c' i' a'. (c', i', a') \<in> S \<and> d = Digest P c' i' a'"
    and "inj_on (py_Keccak256 P) {b. length b = 96}" and "inj_on (TextHash (py_crypto P)) (range (py_Keccak256 P))"
    and "\<And>c' i' a'. (c', i', a') \<in> insert (c, i, a) S \<Longrightarrow> length c' = 20 \<and> length i' = 32 \<and> 0 \<le> a' \<and> a' < 2 ^ 256"
    and "RecoverVoucher P c i a sg = Inr client"
  shows "(c, i, a) \<in> S"
proof -
  obtain pub where p: "SigToPub (py_crypto P) (Digest P c i a) (normalize_v sg) = Inr pub"
    "PubkeyToAddress (py_crypto P) pub = client"
    using assms(6) by (auto simp: RecoverVoucher_def split: if_splits sum.splits)
  from assms(2) [OF p] obtain c' i' a' where s: "(c', i', a') \<in> S" "Digest P c i a = Digest P c' i' a'" by blast
  have w: "length c = 20 \<and> length i = 32 \<and> 0 \<le> a \<and> a < 2 ^ 256"
    "length c' = 20 \<and> length i' = 32 \<and> 0 \<le> a' \<and> a' < 2 ^ 256"
    using assms(5) s(1) by blast+
  have lb: "length (big_Bytes (nat \<bar>x\<bar>)) \<le> 32" if "0 \<le> x" "x < 2 ^ 256" for x :: int
    using that by (intro length_big_Bytes_le) (simp add: nat_less_iff)
  have l96: "length (py_LeftPad P x 32 @ y @ py_LeftPad P (big_Bytes (nat \<bar>z\<bar>)) 32) = 96"
    if "length x = 20 \<and> length y = 32 \<and> 0 \<le> z \<and> z < 2 ^ 256" for x y z
    using that left_pad_facts(1) [OF assms(1), of x 32]
      left_pad_facts(1) [OF assms(1) lb, of z] by simp
  have "innerHash P c i a = innerHash P c' i' a'"
    using s(2) assms(4) by (simp add: Digest_def innerHash_def inj_on_def)
  then have "py_LeftPad P c 32 @ i @ py_LeftPad P (big_Bytes (nat \<bar>a\<bar>)) 32 =
      py_LeftPad P c' 32 @ i' @ py_LeftPad P (big_Bytes (nat \<bar>a'\<bar>)) 32"
    unfolding innerHash_def by (rule inj_onD [OF assms(3)]) (use l96 w in blast)+
  then have "c = c' \<and> i = i' \<and> a = a'"
    using w by (intro voucher_bytes_inject [OF assms(1)]) blast+
  then show ?thesis using s(1) by blast
qed

text \<open>A library in which one voucher has been signed, by the key \<open>[7]\<close>.\<close>

definition toy_pay :: pay_lib where
  "toy_pay = \<lparr>py_crypto = toy_crypto\<lparr>SigToPub := (\<lambda>d sg. if d = replicate 95 0 @ [5] then Inr [7] else Inl ''recovery failed'')\<rparr>,
     py_Keccak256 = id, py_LeftPad = (\<lambda>b n. replicate (n - length b) 0 @ b), py_N = 2 ^ 256\<rparr>"

lemma toy_pay_pad: "left_pad_ok toy_pay"
  by (simp add: left_pad_ok_def toy_pay_def)

lemma toy_pay_digest: "Digest toy_pay (replicate 20 0) (replicate 32 0) 5 = replicate 95 0 @ [5]"
  by (simp add: Digest_def innerHash_def toy_pay_def toy_crypto_def big_Bytes.simps [of 5] big_Bytes.simps [of 0]
      replicate_add [symmetric] append_assoc [symmetric] del: append_assoc)

lemma toy_pay_recover: "RecoverVoucher toy_pay (replicate 20 0) (replicate 32 0) 5 (replicate 65 0) = Inr [7]"
proof -
  have "be_nat (take 32 (drop 32 (replicate 65 0))) = 0" using be_nat_replicate_zero [of 32 "[]"] by simp
  then show ?thesis
    by (simp add: RecoverVoucher_def toy_pay_digest normalize_v_def nth_replicate)
      (simp add: toy_pay_def toy_crypto_def)
qed

theorem voucher_binds_payment_witness:
  "RecoverVoucher toy_pay (replicate 20 0) (replicate 32 0) 5 (replicate 65 0) = Inr [7] \<and>
   (replicate 20 0, replicate 32 0, 5) \<in> {(replicate 20 (0 :: byte), replicate 32 (0 :: byte), 5 :: int)}"
proof -
  define S where "S = {(replicate 20 (0 :: byte), replicate 32 (0 :: byte), 5 :: int)}"
  have 1: "\<exists>c' i' a'. (c', i', a') \<in> S \<and> d = Digest toy_pay c' i' a'"
    if "SigToPub (py_crypto toy_pay) d sg = Inr pub" for d sg pub
    using that toy_pay_digest by (auto simp: toy_pay_def S_def split: if_splits)
  have 2: "inj_on (py_Keccak256 toy_pay) {b. length b = 96}"
    "inj_on (TextHash (py_crypto toy_pay)) (range (py_Keccak256 toy_pay))"
    by (simp_all add: toy_pay_def toy_crypto_def)
  have 3: "length c' = 20 \<and> length i' = 32 \<and> 0 \<le> a' \<and> a' < 2 ^ 256"
    if "(c', i', a') \<in> insert (replicate 20 0, replicate 32 0, 5) S" for c' i' a'
    using that by (auto simp: S_def)
  have "(replicate 20 0, replicate 32 0, 5) \<in> S"
    by (rule voucher_binds_payment [OF toy_pay_pad 1 2 3 toy_pay_recover])
  then show ?thesis using toy_pay_recover unfolding S_def by blast
qed

text \<open>
  Vouchers a client signs are recovered to the client: with a signer that produces low-s signatures,
  \<open>RecoverVoucher\<close> returns the signer's address; with s above half the group order it refuses the signature.
\<close>

theorem sign_recover_voucher:
  assumes "\<And>d sg. ecdsa_Sign (py_crypto P) d key = Inr sg \<Longrightarrow>
      length sg = 65 \<and> sg ! 64 < 27 \<and> be_nat (take 32 (drop 32 sg)) \<le> py_N P div 2 \<and> SigToPub (py_crypto P) d sg = Inr pub"
    and "SignVoucher P key contract chid cumulative = Inr sg"
  shows "RecoverVoucher P contract chid cumulative sg = Inr (PubkeyToAddress (py_crypto P) pub) \<and>
    (\<forall>sg'. length sg' = 65 \<and> py_N P div 2 < be_nat (take 32 (drop 32 sg')) \<longrightarrow>
       RecoverVoucher P contract chid cumulative sg' = Inl ErrHighS)"
  by (rule SignVoucher_recovers [OF assms])

theorem sign_recover_voucher_witness:
  "let P = toy_pay\<lparr>py_crypto := toy_crypto\<rparr>
   in RecoverVoucher P (replicate 20 0) (replicate 32 0) 5 (replicate 64 0 @ [27]) = Inr [7]"
proof -
  define P where "P = toy_pay\<lparr>py_crypto := toy_crypto\<rparr>"
  have d: "Digest P (replicate 20 0) (replicate 32 0) 5 = replicate 95 0 @ [5]"
    using toy_pay_digest by (simp add: Digest_def innerHash_def P_def toy_pay_def)
  have z: "be_nat (replicate 32 0) = 0" using be_nat_replicate_zero [of 32 "[]"] by simp
  have "replicate (Suc 64) (0 :: byte) = replicate 64 0 @ [0]" by (simp only: replicate_Suc replicate_append_same)
  then have "replicate 65 (0 :: byte) = replicate 64 0 @ [0]" by (simp only: Suc_numeral semiring_norm)
  then have "SignVoucher P [7] (replicate 20 0) (replicate 32 0) 5 = Inr (replicate 64 0 @ [27])"
    by (simp add: SignVoucher_def d) (simp add: P_def toy_crypto_def nth_append list_update_append)
  moreover have "length sg = 65 \<and> sg ! 64 < 27 \<and> be_nat (take 32 (drop 32 sg)) \<le> py_N P div 2 \<and> SigToPub (py_crypto P) d sg = Inr [7]"
    if "ecdsa_Sign (py_crypto P) d [7] = Inr sg" for d sg
    using that z by (auto simp: P_def toy_crypto_def nth_replicate split: if_splits)
  ultimately have "RecoverVoucher P (replicate 20 0) (replicate 32 0) 5 (replicate 64 0 @ [27]) =
      Inr (PubkeyToAddress (py_crypto P) [7])"
    using sign_recover_voucher [of P "[7]" "[7]"] by blast
  then show ?thesis by (simp add: P_def toy_crypto_def)
qed

end
