(* ===== verification/Owner_Cli.thy ===== *)
theory Owner_Cli
  imports Client_Tools Pay_Voucher
begin

text \<open>
  The owner's command line tool, src/resolver/cmd/ddns/main.go: connecting with the owner's key, signing records and
  submitting transactions.

  A command is a function of its parsed flags and positional arguments on the state \<open>cli\<close>, which has the
  state of the outside world and the log of what the command did that others can see: transactions submitted, seconds
  slept and URLs fetched, in order. Commands end in a value or an exit; \<open>cbind\<close> sequences them, so that an
  exit (\<open>fatal\<close>, \<open>os.Exit\<close>) ends the command. The contract bindings, the key library and the file tools are the record
  \<open>owner_lib\<close>; the addresses given to its functions are those of the contracts. Lines that are printed are not modelled.
\<close>

section \<open>Commands\<close>

datatype tx =
    TxCommit hash32
  | TxRegister string bytes bytes
  | TxSetRecord string string string "string list" "string list" "32 word" bytes hash32
  | TxRemoveRecord string string string
  | TxTransfer string address bytes
  | TxRenew string
  | TxDeclareType string "string list" "string list"
  | TxWithdraw address
  | TxAnnounce bytes string
  | TxOpenChannel address "64 word"
  | TxClaim hash32 int bytes
  | TxCloseChannel hash32

datatype cli_event = Sent address address int tx | Slept nat | Fetched string

record 'w cli =
  cw_world :: 'w
  cw_log :: "cli_event list"

datatype cli_exit = MissingArg string | CliFatal string | CliPanic

type_synonym ('w, 'a) command = "'w cli \<Rightarrow> 'w cli \<times> (cli_exit + 'a)"

definition cbind :: "('w, 'a) command \<Rightarrow> ('a \<Rightarrow> ('w, 'b) command) \<Rightarrow> ('w, 'b) command" where
  "cbind m f s = (case m s of (s, Inl e) \<Rightarrow> (s, Inl e) | (s, Inr x) \<Rightarrow> f x s)"

definition creturn :: "'a \<Rightarrow> ('w, 'a) command" where "creturn x s = (s, Inr x)"
definition cfatal :: "string \<Rightarrow> ('w, 'a) command" where "cfatal e s = (s, Inl (CliFatal e))"

text \<open>A result that is already there, an outside call, and a visible action.\<close>

definition cresult :: "cli_exit + 'a \<Rightarrow> ('w, 'a) command" where "cresult r s = (s, r)"

definition ccall :: "('w \<Rightarrow> 'w \<times> (string + 'a)) \<Rightarrow> ('w, 'a) command" where
  "ccall f s =
     (case f (cw_world s) of
        (w, Inl e) \<Rightarrow> (s\<lparr>cw_world := w\<rparr>, Inl (CliFatal e))
      | (w, Inr x) \<Rightarrow> (s\<lparr>cw_world := w\<rparr>, Inr x))"

definition cerr :: "string option \<Rightarrow> ('w, unit) command" where
  "cerr e s = (case e of None \<Rightarrow> (s, Inr ()) | Some e \<Rightarrow> (s, Inl (CliFatal e)))"

definition cread :: "('w \<Rightarrow> 'a) \<Rightarrow> ('w, 'a) command" where "cread f s = (s, Inr (f (cw_world s)))"

definition clog :: "cli_event \<Rightarrow> ('w, unit) command" where
  "clog e s = (s\<lparr>cw_log := cw_log s @ [e]\<rparr>, Inr ())"

record 'w owner_lib =
  ol_client :: "'w client_lib"
  ol_torrent :: "'w torrent_lib"
  ol_os :: "'w os_env"
  ol_listen :: "'w \<Rightarrow> string list"
  HexToECDSA :: "string \<Rightarrow> string + bytes"
  ec_Public :: "bytes \<Rightarrow> bytes"
  FromHex :: "string \<Rightarrow> bytes"
  eth_ChainID :: "'w \<Rightarrow> 'w \<times> (string + int)"
  NewKeyedTransactor :: "bytes \<Rightarrow> int \<Rightarrow> string option"
  dapp_GetDomain :: "address \<Rightarrow> string \<Rightarrow> 'w \<Rightarrow> 'w \<times> (string + chain_domain)"
  dapp_PriceOf :: "address \<Rightarrow> string \<Rightarrow> 'w \<Rightarrow> 'w \<times> (string + int)"
  dapp_MakeCommitment :: "address \<Rightarrow> string \<Rightarrow> address \<Rightarrow> bytes \<Rightarrow> bytes \<Rightarrow> 'w \<Rightarrow> 'w \<times> (string + hash32)"
  dapp_MinCommitmentAge :: "address \<Rightarrow> 'w \<Rightarrow> 'w \<times> (string + int)"
  eth_Submit :: "address \<Rightarrow> address \<Rightarrow> int \<Rightarrow> tx \<Rightarrow> 'w \<Rightarrow> 'w \<times> (string + bytes)"
  eth_WaitMined :: "bytes \<Rightarrow> 'w \<Rightarrow> 'w \<times> (string + bool \<times> bytes list)"
  cli_Sleep :: "'w \<Rightarrow> 'w"
  MkdirTemp :: "'w \<Rightarrow> 'w \<times> (string + string)"
  TypeByExtension :: "string \<Rightarrow> string"
  stats_resolver :: "bytes \<Rightarrow> string + string"
  NewResolverIncentives :: "address \<Rightarrow> string option"
  ParseChannelOpened :: "bytes \<Rightarrow> hash32 option"

definition ol_crypto :: "'w owner_lib \<Rightarrow> crypto_lib" where "ol_crypto L = cl_crypto (ol_client L)"
definition ol_dial :: "'w owner_lib \<Rightarrow> 'w dial_lib" where "ol_dial L = cl_dial (ol_client L)"

section \<open>Small utilities\<close>

fun parsePairs_loop :: "string list \<Rightarrow> cli_exit + string list \<times> string list" where
  "parsePairs_loop [] = Inr ([], [])"
| "parsePairs_loop (a # as) =
     (case cut_at CHR ''='' a of
        None \<Rightarrow> Inl (CliFatal (''field '' @ a @ '' must be key=value''))
      | Some (k, v) \<Rightarrow> rbind (parsePairs_loop as) (\<lambda>(ks, vs). Inr (k # ks, v # vs)))"

definition canonical :: "unicode \<Rightarrow> string \<Rightarrow> cli_exit + string" where
  "canonical U selector =
     (case ParseSelectorString U selector of Inl e \<Rightarrow> Inl (CliFatal (query_error_text id e)) | Inr sel \<Rightarrow> Inr sel)"

definition splitCSV :: "string \<Rightarrow> string list" where
  "splitCSV s = (if TrimSpace s = [] then [] else filter (\<lambda>p. p \<noteq> []) (map TrimSpace (split_on CHR '','' s)))"

text \<open>\<open>filepath.Ext\<close>\<close>

definition path_Ext :: "string \<Rightarrow> string" where
  "path_Ext p =
     (let r = takeWhile (\<lambda>c. c \<noteq> CHR ''/'') (rev p)
      in if CHR ''.'' \<in> set r then CHR ''.'' # rev (takeWhile (\<lambda>c. c \<noteq> CHR ''.'') r) else [])"

definition detectContentType :: "'w owner_lib \<Rightarrow> string \<Rightarrow> 'w \<Rightarrow> string" where
  "detectContentType L path w =
     (let ct = TypeByExtension L (path_Ext path)
      in if ct \<noteq> [] then ct
         else
           (case tl_ReadFile (ol_torrent L) path w of
              Inr data \<Rightarrow> DetectContentType (cl_sniff (ol_client L)) (take 512 data)
            | Inl err \<Rightarrow> ''application/octet-stream''))"

definition needArg :: "string list \<Rightarrow> nat \<Rightarrow> string \<Rightarrow> cli_exit + string" where
  "needArg args i label = (if i \<ge> length args then Inl (MissingArg label) else Inr (args ! i))"

section \<open>Connecting\<close>

record commonOpts =
  co_rpc :: string
  co_key :: string
  co_deployments :: string
  co_namespace :: string
  co_registry :: string

record conn =
  cn_dapp :: address
  cn_reg :: "address option"
  cn_key :: bytes
  cn_from :: address

definition loadKey :: "'w owner_lib \<Rightarrow> string \<Rightarrow> cli_exit + bytes" where
  "loadKey L flagVal =
     (let raw = (if flagVal = [] then Getenv (cl_env (ol_client L)) ''DDNS_PRIVATE_KEY'' else flagVal)
      in if raw = [] then Inl (CliFatal ''no owner key: set --key or DDNS_PRIVATE_KEY'')
         else
           (case HexToECDSA L (TrimPrefix (TrimSpace raw) ''0x'') of
              Inl e \<Rightarrow> Inl (CliFatal e)
            | Inr key \<Rightarrow> Inr key))"

definition key_address :: "'w owner_lib \<Rightarrow> bytes \<Rightarrow> address" where
  "key_address L key = PubkeyToAddress (ol_crypto L) (ec_Public L key)"

definition resolveAddrs :: "'w owner_lib \<Rightarrow> string \<Rightarrow> string \<Rightarrow> string \<Rightarrow> 'w \<Rightarrow> address \<times> address" where
  "resolveAddrs L deployments nsFlag regFlag w =
     (let H = HexToAddress (ol_dial L); e = cl_env (ol_client L);
          ns = (if nsFlag \<noteq> [] then H nsFlag else zero_address);
          reg = (if regFlag \<noteq> [] then H regFlag else zero_address);
          d = (if (ns = zero_address \<or> reg = zero_address) \<and> deployments \<noteq> []
               then Option.bind (cl_ReadFile (ol_client L) deployments w) (cl_deployment (ol_client L)) else None);
          pick = (\<lambda>a contract. case d of None \<Rightarrow> a
             | Some d \<Rightarrow> if a = zero_address \<and> d contract \<noteq> [] then H (d contract) else a);
          env_pick = (\<lambda>a key. if a = zero_address then (let v = Getenv e key in if v \<noteq> [] then H v else a) else a)
      in (env_pick (pick ns ''NamespaceDApp'') ''CONTRACT_ADDRESS'',
          env_pick (pick reg ''RecordSchemaRegistry'') ''REGISTRY_ADDRESS''))"

text \<open>The part of dialling that all commands share: the connection and a transactor for the key.\<close>

definition dial_key :: "'w owner_lib \<Rightarrow> string \<Rightarrow> bytes \<Rightarrow> ('w, unit) command" where
  "dial_key L rpc key =
     cbind (ccall (\<lambda>w. case eth_DialContext (ol_dial L) rpc w of (w, Some e) \<Rightarrow> (w, Inl e) | (w, None) \<Rightarrow> (w, Inr ()))) (\<lambda>_.
     cbind (ccall (eth_ChainID L)) (\<lambda>chainID.
       cerr (NewKeyedTransactor L key chainID)))"

definition dial :: "'w owner_lib \<Rightarrow> commonOpts \<Rightarrow> bool \<Rightarrow> ('w, conn) command" where
  "dial L co needRegistry =
     cbind (cresult (loadKey L (co_key co))) (\<lambda>key.
     cbind (cread (resolveAddrs L (co_deployments co) (co_namespace co) (co_registry co))) (\<lambda>(ns, reg).
       if ns = zero_address
       then cfatal ''NamespaceDApp address unknown: set --deployments, --namespace, or CONTRACT_ADDRESS''
       else if needRegistry \<and> reg = zero_address
       then cfatal ''RecordSchemaRegistry address unknown: set --deployments, --registry, or REGISTRY_ADDRESS''
       else
         cbind (dial_key L (co_rpc co) key) (\<lambda>_.
         cbind (cerr (NewNamespaceDApp (ol_dial L) ns)) (\<lambda>_.
         cbind (cerr (if reg = zero_address then None else NewRecordSchemaRegistry (ol_dial L) reg)) (\<lambda>_.
           creturn \<lparr>cn_dapp = ns, cn_reg = (if reg = zero_address then None else Some reg), cn_key = key,
                    cn_from = key_address L key\<rparr>)))))"

definition generationOf :: "'w owner_lib \<Rightarrow> conn \<Rightarrow> string \<Rightarrow> ('w, 64 word) command" where
  "generationOf L c name =
     cbind (ccall (dapp_GetDomain L (cn_dapp c) name)) (\<lambda>domn.
       if dOwner domn = zero_address then cfatal (''domain '' @ name @ '' is not registered'')
       else creturn (dGeneration domn))"

text \<open>\<open>send\<close>: submit, wait for the receipt, fail when it was reverted. The result are the logs of the receipt.\<close>

definition send_logs :: "'w owner_lib \<Rightarrow> address \<Rightarrow> address \<Rightarrow> int \<Rightarrow> string \<Rightarrow> tx \<Rightarrow> ('w, bytes list) command" where
  "send_logs L from contract value' label t =
     cbind (ccall (eth_Submit L from contract value' t)) (\<lambda>h.
     cbind (clog (Sent from contract value' t)) (\<lambda>_.
     cbind (ccall (eth_WaitMined L h)) (\<lambda>(ok, logs).
       if \<not> ok then cfatal (label @ '' reverted'') else creturn logs)))"

definition send :: "'w owner_lib \<Rightarrow> address \<Rightarrow> address \<Rightarrow> int \<Rightarrow> string \<Rightarrow> tx \<Rightarrow> ('w, unit) command" where
  "send L from contract value' label t = cbind (send_logs L from contract value' label t) (\<lambda>_. creturn ())"

section \<open>Subcommands\<close>

text \<open>The countdown of \<open>cmdRegister\<close>: \<open>int(minAge.Int64()) + 15\<close> sleeps of one second (64-bit arithmetic).\<close>

definition waitSecs :: "int \<Rightarrow> int" where
  "waitSecs minAge = sint ((word_of_int minAge :: 64 word) + 15)"

primrec csleep :: "'w owner_lib \<Rightarrow> nat \<Rightarrow> ('w, unit) command" where
  "csleep L 0 = creturn ()"
| "csleep L (Suc n) =
     cbind (ccall (\<lambda>w. (cli_Sleep L w, Inr ()))) (\<lambda>_. cbind (clog (Slept 1)) (\<lambda>_. csleep L n))"

definition cmdRegister :: "'w owner_lib \<Rightarrow> commonOpts \<Rightarrow> string list \<Rightarrow> ('w, unit) command" where
  "cmdRegister L co args =
     cbind (cresult (needArg args 0 ''name'')) (\<lambda>name.
     cbind (dial L co False) (\<lambda>c.
       let pubKey = FromECDSAPub (ol_crypto L) (ec_Public L (cn_key c)) in
     cbind (ccall (dapp_PriceOf L (cn_dapp c) name)) (\<lambda>price.
     cbind (ccall (rand_Read (ol_os L) 32)) (\<lambda>secret.
     cbind (ccall (dapp_MakeCommitment L (cn_dapp c) name (cn_from c) pubKey secret)) (\<lambda>commitment.
     cbind (send L (cn_from c) (cn_dapp c) 0 ''commit'' (TxCommit commitment)) (\<lambda>_.
     cbind (ccall (dapp_MinCommitmentAge L (cn_dapp c))) (\<lambda>minAge.
     cbind (csleep L (nat (waitSecs minAge))) (\<lambda>_.
       send L (cn_from c) (cn_dapp c) price ''register'' (TxRegister name pubKey secret)))))))))"

text \<open>Signing and anchoring a record, the common end of \<open>cmdSet\<close> and \<open>cmdPublishResource\<close>.\<close>

definition sign_and_set :: "'w owner_lib \<Rightarrow> conn \<Rightarrow> string \<Rightarrow> string \<Rightarrow> chain_record \<Rightarrow> ('w, unit) command" where
  "sign_and_set L c label name rec =
     cbind (cresult (case SignRecord (ol_crypto L) name rec (cn_key c) of
              Inl ErrPanic \<Rightarrow> Inl CliPanic
            | Inl e \<Rightarrow> Inl (CliFatal ''sign'')
            | Inr sg \<Rightarrow> Inr sg)) (\<lambda>sg.
     cbind (cresult (case RecordMessage (ol_crypto L) name rec of
              None \<Rightarrow> Inl CliPanic
            | Some msg \<Rightarrow>
                (case Commitment (cl_zk (ol_client L)) msg of
                   Inl e \<Rightarrow> Inl (CliFatal (zk_error_text e))
                 | Inr com \<Rightarrow> Inr com))) (\<lambda>commitment.
       send L (cn_from c) (cn_dapp c) 0 label
         (TxSetRecord name (rType rec) (rSelector rec) (rFieldNames rec) (rFieldVals rec) (rTTL rec) sg commitment)))"

definition new_record :: "string \<Rightarrow> string \<Rightarrow> string list \<Rightarrow> string list \<Rightarrow> 32 word \<Rightarrow> 64 word \<Rightarrow> chain_record" where
  "new_record t sel names vals ttl gen =
     \<lparr>rType = t, rSelector = sel, rFieldNames = names, rFieldVals = vals, rTTL = ttl, rGeneration = gen,
      rOwnerSig = [], rCommitment = zero_hash, rExists = False\<rparr>"

definition cmdSet :: "'w owner_lib \<Rightarrow> commonOpts \<Rightarrow> string \<Rightarrow> 64 word \<Rightarrow> string list \<Rightarrow> ('w, unit) command" where
  "cmdSet L co selector ttl args =
     cbind (cresult (needArg args 0 ''name'')) (\<lambda>name.
     cbind (cresult (needArg args 1 ''type'')) (\<lambda>recordType.
     cbind (cresult (parsePairs_loop (drop 2 args))) (\<lambda>(fieldNames, fieldValues).
     cbind (cresult (canonical (cl_unicode (ol_client L)) selector)) (\<lambda>sel.
     cbind (dial L co False) (\<lambda>c.
     cbind (generationOf L c name) (\<lambda>gen.
       sign_and_set L c ''setRecord'' name (new_record recordType sel fieldNames fieldValues (ucast ttl) gen)))))))"

definition cmdRemove :: "'w owner_lib \<Rightarrow> commonOpts \<Rightarrow> string \<Rightarrow> string list \<Rightarrow> ('w, unit) command" where
  "cmdRemove L co selector args =
     cbind (cresult (needArg args 0 ''name'')) (\<lambda>name.
     cbind (cresult (needArg args 1 ''type'')) (\<lambda>recordType.
     cbind (cresult (canonical (cl_unicode (ol_client L)) selector)) (\<lambda>sel.
     cbind (dial L co False) (\<lambda>c.
       send L (cn_from c) (cn_dapp c) 0 ''removeRecord'' (TxRemoveRecord name recordType sel)))))"

definition cmdTransfer :: "'w owner_lib \<Rightarrow> commonOpts \<Rightarrow> string \<Rightarrow> string list \<Rightarrow> ('w, unit) command" where
  "cmdTransfer L co pubkey args =
     cbind (cresult (needArg args 0 ''name'')) (\<lambda>name.
     cbind (cresult (needArg args 1 ''newOwner'')) (\<lambda>newOwner.
       if \<not> IsHexAddress (ol_dial L) newOwner then cfatal ''invalid new owner address''
       else if pubkey = [] then cfatal ''--pubkey is required''
       else
         (let newPub = FromHex L pubkey
          in if length newPub = 0 \<or> length newPub > 128 then cfatal ''invalid --pubkey length''
             else
               cbind (dial L co False) (\<lambda>c.
                 send L (cn_from c) (cn_dapp c) 0 ''transfer'' (TxTransfer name (HexToAddress (ol_dial L) newOwner) newPub)))))"

definition cmdRenew :: "'w owner_lib \<Rightarrow> commonOpts \<Rightarrow> string list \<Rightarrow> ('w, unit) command" where
  "cmdRenew L co args =
     cbind (cresult (needArg args 0 ''name'')) (\<lambda>name.
     cbind (dial L co False) (\<lambda>c.
     cbind (ccall (dapp_PriceOf L (cn_dapp c) name)) (\<lambda>price.
       send L (cn_from c) (cn_dapp c) price ''renew'' (TxRenew name))))"

definition cmdDeclareType :: "'w owner_lib \<Rightarrow> commonOpts \<Rightarrow> string \<Rightarrow> string \<Rightarrow> string list \<Rightarrow> ('w, unit) command" where
  "cmdDeclareType L co mandatory optional args =
     cbind (cresult (needArg args 0 ''name'')) (\<lambda>name.
     cbind (dial L co True) (\<lambda>c.
       case cn_reg c of
         None \<Rightarrow> cresult (Inl CliPanic)
       | Some reg \<Rightarrow>
           send L (cn_from c) reg 0 ''declareType'' (TxDeclareType name (splitCSV mandatory) (splitCSV optional))))"

text \<open>Starting an engine on the given or a temporary directory and seeding the file.\<close>

definition seed_file :: "'w owner_lib \<Rightarrow> string \<Rightarrow> int \<Rightarrow> string \<Rightarrow> ('w, string \<times> string) command" where
  "seed_file L dataDir btPort file =
     cbind (if dataDir = [] then ccall (MkdirTemp L) else creturn dataDir) (\<lambda>dir.
     cbind (ccall (torrent_New (ol_dial L) (ol_os L) dir btPort)) (\<lambda>en.
       ccall (\<lambda>w. case SeedFile (ol_torrent L) file (en, w) of
                 (ew, Inl e) \<Rightarrow> (snd ew, Inl ''seed'')
               | (ew, Inr r) \<Rightarrow> (snd ew, Inr r))))"

text \<open>\<open>strings.TrimRight(s, "/")\<close>\<close>

definition trim_slashes :: "string \<Rightarrow> string" where
  "trim_slashes s = rev (dropWhile (\<lambda>c. c = CHR ''/'') (rev s))"

definition sync_url :: "string \<Rightarrow> string \<Rightarrow> string \<Rightarrow> string \<Rightarrow> string" where
  "sync_url resolverBase name sel addr =
     trim_slashes resolverBase @ ''/resource?name='' @ name @ ''&selector='' @ sel @ ''&peer='' @ addr"

definition cmdPublishResource ::
  "'w owner_lib \<Rightarrow> commonOpts \<Rightarrow> string \<Rightarrow> 64 word \<Rightarrow> string \<Rightarrow> string \<Rightarrow> int \<Rightarrow> bool \<Rightarrow> string list \<Rightarrow> ('w, unit) command" where
  "cmdPublishResource L co selector ttl contentType dataDir btPort anchorOnly args =
     cbind (cresult (needArg args 0 ''name'')) (\<lambda>name.
     cbind (cresult (needArg args 1 ''file'')) (\<lambda>file.
     cbind (cresult (canonical (cl_unicode (ol_client L)) selector)) (\<lambda>sel.
     cbind (cread (\<lambda>w. if contentType = [] then detectContentType L file w else contentType)) (\<lambda>ct.
     cbind (seed_file L dataDir btPort file) (\<lambda>(infoHash, sha).
     cbind (dial L co False) (\<lambda>c.
     cbind (generationOf L c name) (\<lambda>gen.
     cbind (sign_and_set L c ''setRecord(ResourceRef)'' name
              (new_record ''ResourceRef'' sel [''infoHash'', ''sha256'', ''contentType''] [infoHash, sha, ct] (ucast ttl) gen)) (\<lambda>_.
       if anchorOnly then creturn ()
       else
         cbind (cread (\<lambda>w. ListenAddrs (ol_listen L w))) (\<lambda>addrs.
           let resolverBase = envOr (cl_env (ol_client L)) ''DDNS_RESOLVER'' ''http://127.0.0.1:8080''
           in case addrs of
                [] \<Rightarrow> creturn ()
              | addr # _ \<Rightarrow>
                  (let u = sync_url resolverBase name sel addr
                   in cbind (ccall (\<lambda>w. (fst (cl_Get (ol_client L) u w), Inr ()))) (\<lambda>_. clog (Fetched u))))))))))))"

definition cmdSeed :: "'w owner_lib \<Rightarrow> string \<Rightarrow> int \<Rightarrow> string list \<Rightarrow> ('w, string \<times> string) command" where
  "cmdSeed L dataDir btPort args =
     cbind (cresult (needArg args 0 ''file'')) (\<lambda>file. seed_file L dataDir btPort file)"

definition cmdWithdraw :: "'w owner_lib \<Rightarrow> commonOpts \<Rightarrow> string \<Rightarrow> ('w, unit) command" where
  "cmdWithdraw L co to' =
     cbind (dial L co False) (\<lambda>c.
       if to' \<noteq> [] \<and> \<not> IsHexAddress (ol_dial L) to' then cfatal ''invalid --to address''
       else
         (let dest = (if to' \<noteq> [] then HexToAddress (ol_dial L) to' else cn_from c)
          in send L (cn_from c) (cn_dapp c) 0 ''withdraw'' (TxWithdraw dest)))"

definition fetchResolverPubKey :: "'w owner_lib \<Rightarrow> string \<Rightarrow> ('w, string) command" where
  "fetchResolverPubKey L endpoint =
     (let url = trim_slashes endpoint @ ''/admin/stats'' in
     cbind (ccall (cl_Get (ol_client L) url)) (\<lambda>resp.
     cbind (cresult (case stats_resolver L (h_body resp) of Inl e \<Rightarrow> Inl (CliFatal e) | Inr k \<Rightarrow> Inr k)) (\<lambda>k.
       if k = [] then cfatal (''could not read resolver pubkey from '' @ url) else creturn k)))"

definition cmdAnnounceResolver :: "'w owner_lib \<Rightarrow> commonOpts \<Rightarrow> string \<Rightarrow> string \<Rightarrow> string \<Rightarrow> ('w, unit) command" where
  "cmdAnnounceResolver L co endpoint pubFlag rrFlag =
     (if endpoint = [] then cfatal ''announce-resolver: --endpoint is required''
      else
        cbind (if pubFlag = [] then fetchResolverPubKey L endpoint else creturn pubFlag) (\<lambda>pubHex.
          case hexutil_Decode (ol_crypto L) pubHex of
            None \<Rightarrow> cfatal ''bad pubkey''
          | Some pk \<Rightarrow>
              if length pk \<noteq> 32 then cfatal ''resolver pubkey must be 32 bytes''
              else
                cbind (cread (resolverRegistryAddr (ol_client L) (co_deployments co) rrFlag)) (\<lambda>rr.
                  if rr = zero_address then cfatal ''ResolverRegistry address unknown''
                  else
                    cbind (cresult (loadKey L (co_key co))) (\<lambda>key.
                    cbind (dial_key L (co_rpc co) key) (\<lambda>_.
                    cbind (cerr (cl_NewResolverRegistry (ol_client L) rr)) (\<lambda>_.
                      send L (key_address L key) rr 0 ''announce-resolver'' (TxAnnounce pk endpoint)))))))"

text \<open>The list that \<open>cmdResolvers\<close> prints; the three arrays of the answer are indexed by the operators.\<close>

definition cmdResolvers :: "'w owner_lib \<Rightarrow> commonOpts \<Rightarrow> string \<Rightarrow> ('w, (string \<times> string \<times> address) list) command" where
  "cmdResolvers L co rrFlag =
     cbind (cread (resolverRegistryAddr (ol_client L) (co_deployments co) rrFlag)) (\<lambda>rr.
       if rr = zero_address then cfatal ''ResolverRegistry address unknown''
       else
         cbind (ccall (\<lambda>w. case eth_DialContext (ol_dial L) (co_rpc co) w of (w, Some e) \<Rightarrow> (w, Inl e) | (w, None) \<Rightarrow> (w, Inr ()))) (\<lambda>_.
         cbind (cerr (cl_NewResolverRegistry (ol_client L) rr)) (\<lambda>_.
         cbind (ccall (cl_ActiveResolvers (ol_client L) rr)) (\<lambda>(operators, endpoints, pubKeys).
           if length endpoints < length operators \<or> length pubKeys < length operators then cresult (Inl CliPanic)
           else creturn (map (\<lambda>i. (endpoints ! i, hexutil_Encode (ol_crypto L) (pubKeys ! i), operators ! i))
                          [0..<length operators])))))"

section \<open>Facts\<close>

lemma cbind_Inr:
  "cbind m f s = (s', Inr y) \<longleftrightarrow> (\<exists>s1 x. m s = (s1, Inr x) \<and> f x s1 = (s', Inr y))"
  by (auto simp: cbind_def split: prod.splits sum.splits)

text \<open>Commands that leave no trace.\<close>

definition quiet :: "('w, 'a) command \<Rightarrow> bool" where
  "quiet m \<longleftrightarrow> (\<forall>s. cw_log (fst (m s)) = cw_log s)"

lemma quietD: "quiet m \<Longrightarrow> m s = (s', r) \<Longrightarrow> cw_log s' = cw_log s"
  unfolding quiet_def by (metis fst_conv)

lemma quiet_base [simp]:
  "quiet (creturn x)" "quiet (cfatal e)" "quiet (cresult r)" "quiet (cread g)" "quiet (ccall h)" "quiet (cerr o')"
  by (simp_all add: quiet_def creturn_def cfatal_def cresult_def cread_def ccall_def cerr_def split: prod.splits sum.splits option.splits)

lemma quiet_cbind: "quiet m \<Longrightarrow> (\<And>x. quiet (f x)) \<Longrightarrow> quiet (cbind m f)"
  unfolding quiet_def by (simp add: cbind_def split: prod.splits sum.splits) (metis fst_conv)

lemma quiet_dial_key [simp]: "quiet (dial_key L rpc key)"
  unfolding dial_key_def by (intro quiet_cbind quiet_base)

lemma quiet_dial [simp]: "quiet (dial L co b)"
  unfolding dial_def by (auto intro!: quiet_cbind split: prod.splits)

lemma quiet_generationOf [simp]: "quiet (generationOf L c name)"
  unfolding generationOf_def by (auto intro!: quiet_cbind)

lemma quiet_seed_file [simp]: "quiet (seed_file L dataDir btPort file)"
  unfolding seed_file_def by (auto intro!: quiet_cbind)

lemma cresult_Inr [simp]: "cresult r s = (s', Inr x) \<longleftrightarrow> s' = s \<and> r = Inr x"
  by (auto simp: cresult_def)

lemma creturn_Inr [simp]: "creturn y s = (s', Inr x) \<longleftrightarrow> s' = s \<and> y = x"
  by (auto simp: creturn_def)

lemma cfatal_Inr [simp]: "cfatal e s \<noteq> (s', Inr x)"
  by (simp add: cfatal_def)

lemma ccall_Inr: "ccall g s = (s', Inr x) \<longleftrightarrow> (\<exists>w. g (cw_world s) = (w, Inr x) \<and> s' = s\<lparr>cw_world := w\<rparr>)"
  by (auto simp: ccall_def split: prod.splits sum.splits)

lemma send_Inr:
  assumes "send L from contract v label t s = (s', Inr x)"
  shows "cw_log s' = cw_log s @ [Sent from contract v t]"
  using assms by (auto simp: send_def send_logs_def cbind_Inr ccall_Inr clog_def split: if_splits)

lemma dial_Inr:
  assumes "dial L co b s = (s', Inr c)"
  shows "cn_from c = key_address L (cn_key c)" "cw_log s' = cw_log s" "loadKey L (co_key co) = Inr (cn_key c)"
proof -
  show "cw_log s' = cw_log s" by (rule quietD [OF quiet_dial assms])
  show "cn_from c = key_address L (cn_key c)" "loadKey L (co_key co) = Inr (cn_key c)"
    using assms by (auto simp: dial_def cbind_Inr split: prod.splits if_splits)
qed

lemma generationOf_Inr:
  assumes "generationOf L c name s = (s', Inr g)"
  shows "\<exists>w w' domn. dapp_GetDomain L (cn_dapp c) name w = (w', Inr domn) \<and> dOwner domn \<noteq> zero_address \<and> dGeneration domn = g"
    "cw_log s' = cw_log s"
proof -
  show "cw_log s' = cw_log s" by (rule quietD [OF quiet_generationOf assms])
  show "\<exists>w w' domn. dapp_GetDomain L (cn_dapp c) name w = (w', Inr domn) \<and> dOwner domn \<noteq> zero_address \<and> dGeneration domn = g"
    using assms by (auto simp: generationOf_def cbind_Inr ccall_Inr split: if_splits)
qed

text \<open>The record that the contract stores for a \<open>setRecord\<close> transaction, stamped with the generation.\<close>

definition stored_record :: "chain_record \<Rightarrow> bytes \<Rightarrow> hash32 \<Rightarrow> chain_record" where
  "stored_record rec sg com = rec\<lparr>rOwnerSig := sg, rCommitment := com, rExists := True\<rparr>"

lemma VerifyOwnerSig_stored:
  "VerifyOwnerSig C name (stored_record rec sg com) owner pub = VerifyOwnerSig C name (rec\<lparr>rOwnerSig := sg\<rparr>) owner pub"
  "RecordMessage C name (stored_record rec sg com) = RecordMessage C name rec"
proof -
  have "RecordMessage C name (stored_record rec sg com) = RecordMessage C name (rec\<lparr>rOwnerSig := sg\<rparr>)"
    by (simp add: stored_record_def RecordMessage_def field_pairs_def)
  then show "VerifyOwnerSig C name (stored_record rec sg com) owner pub = VerifyOwnerSig C name (rec\<lparr>rOwnerSig := sg\<rparr>) owner pub"
    by (simp add: VerifyOwnerSig_def) (simp add: stored_record_def split: option.split)
  show "RecordMessage C name (stored_record rec sg com) = RecordMessage C name rec"
    by (simp add: stored_record_def RecordMessage_def field_pairs_def)
qed

text \<open>What a signed record promises: its owner signature verifies and its commitment opens to its message.\<close>

definition record_accepted :: "'w owner_lib \<Rightarrow> bytes \<Rightarrow> string \<Rightarrow> chain_record \<Rightarrow> bool" where
  "record_accepted L key name rec \<longleftrightarrow>
     VerifyOwnerSig (ol_crypto L) name rec (key_address L key) (FromECDSAPub (ol_crypto L) (ec_Public L key)) = Inr () \<and>
     (\<exists>msg. RecordMessage (ol_crypto L) name rec = Some msg \<and> Commitment (cl_zk (ol_client L)) msg = Inr (rCommitment rec))"

lemma sign_and_set_Inr:
  assumes "sign_and_set L c label name rec s = (s', Inr u)" and "ecdsa_ok (ol_crypto L) (cn_key c) (ec_Public L (cn_key c))"
    and "length (rFieldNames rec) = length (rFieldVals rec)"
  obtains sg com where
    "cw_log s' = cw_log s @ [Sent (cn_from c) (cn_dapp c) 0
       (TxSetRecord name (rType rec) (rSelector rec) (rFieldNames rec) (rFieldVals rec) (rTTL rec) sg com)]"
    "record_accepted L (cn_key c) name (stored_record rec sg com)"
proof -
  let ?C = "ol_crypto L"
  obtain sg msg com where sg: "SignRecord ?C name rec (cn_key c) = Inr sg" and msg: "RecordMessage ?C name rec = Some msg"
    and com: "Commitment (cl_zk (ol_client L)) msg = Inr com"
    and sd: "send L (cn_from c) (cn_dapp c) 0 label
      (TxSetRecord name (rType rec) (rSelector rec) (rFieldNames rec) (rFieldVals rec) (rTTL rec) sg com) s = (s', Inr u)"
    using assms(1) by (auto simp: sign_and_set_def cbind_Inr split: sum.splits pki_error.splits option.splits)
  have "VerifyOwnerSig ?C name (rec\<lparr>rOwnerSig := sg\<rparr>) (PubkeyToAddress ?C (ec_Public L (cn_key c)))
      (FromECDSAPub ?C (ec_Public L (cn_key c))) = Inr ()"
    using SignRecord_verifies [OF assms(2,3) sg] by blast
  then have "record_accepted L (cn_key c) name (stored_record rec sg com)"
    using msg com by (simp add: record_accepted_def VerifyOwnerSig_stored key_address_def) (simp add: stored_record_def)
  with send_Inr [OF sd] show thesis by (rule that)
qed

lemma parsePairs_lengths: "parsePairs_loop as = Inr (ks, vs) \<Longrightarrow> length ks = length as \<and> length vs = length as"
  by (induction as arbitrary: ks vs) (auto simp: rbind_eq_Inr split: option.splits)

lemma csleep_Inr: "csleep L n s = (s', Inr x) \<Longrightarrow> cw_log s' = cw_log s @ replicate n (Slept 1)"
  by (induction n arbitrary: s) (auto simp: cbind_Inr ccall_Inr clog_def)

text \<open>
  What a successful \<open>ddns set\<close> has done: it submitted exactly one transaction, with the type, canonical selector and
  fields of the command line, and the record that the contract stores for it under the generation that was read is
  accepted for the owner's key.
\<close>

lemma cmdSet_Inr:
  assumes "cmdSet L co selector ttl args s = (s', Inr ())" and "loadKey L (co_key co) = Inr key"
    and "ecdsa_ok (ol_crypto L) key (ec_Public L key)"
  obtains sel names vals dapp gen sg com where "canonical (cl_unicode (ol_client L)) selector = Inr sel"
    "parsePairs_loop (drop 2 args) = Inr (names, vals)"
    "\<exists>w w' domn. dapp_GetDomain L dapp (args ! 0) w = (w', Inr domn) \<and> dGeneration domn = gen"
    "cw_log s' = cw_log s @ [Sent (key_address L key) dapp 0 (TxSetRecord (args ! 0) (args ! 1) sel names vals (ucast ttl) sg com)]"
    "record_accepted L key (args ! 0) (stored_record (new_record (args ! 1) sel names vals (ucast ttl) gen) sg com)"
proof -
  obtain names vals sel c gen s1 s2 where
    p: "parsePairs_loop (drop 2 args) = Inr (names, vals)" "canonical (cl_unicode (ol_client L)) selector = Inr sel"
    and d: "dial L co False s = (s1, Inr c)" and g: "generationOf L c (args ! 0) s1 = (s2, Inr gen)"
    and st: "sign_and_set L c ''setRecord'' (args ! 0) (new_record (args ! 1) sel names vals (ucast ttl) gen) s2 = (s', Inr ())"
    using assms(1) by (auto simp: cmdSet_def cbind_Inr needArg_def split: if_splits)
  have k: "cn_key c = key" using dial_Inr(3) [OF d] assms(2) by simp
  have "length (rFieldNames (new_record (args ! 1) sel names vals (ucast ttl) gen)) =
      length (rFieldVals (new_record (args ! 1) sel names vals (ucast ttl) gen))"
    using parsePairs_lengths [OF p(1)] by (simp add: new_record_def)
  with st assms(3) [folded k] obtain sg com where
    lg: "cw_log s' = cw_log s2 @ [Sent (cn_from c) (cn_dapp c) 0 (TxSetRecord (args ! 0) (args ! 1) sel names vals (ucast ttl) sg com)]"
    and acc: "record_accepted L (cn_key c) (args ! 0) (stored_record (new_record (args ! 1) sel names vals (ucast ttl) gen) sg com)"
    by (rule sign_and_set_Inr) (simp add: new_record_def)
  have "cw_log s2 = cw_log s" "cn_from c = key_address L key" using dial_Inr(1,2) [OF d] generationOf_Inr(2) [OF g] k by simp_all
  note lg = lg [unfolded this]
  have gd: "\<exists>w w' domn. dapp_GetDomain L (cn_dapp c) (args ! 0) w = (w', Inr domn) \<and> dGeneration domn = gen"
    using generationOf_Inr(1) [OF g] by blast
  show thesis by (rule that [OF p(2,1) gd lg acc [unfolded k]])
qed

section \<open>Properties\<close>

text \<open>
  Registration is commit and reveal: a successful \<open>ddns register\<close> has sent the commitment first (without a fee), then
  waited, second by second, 15 seconds longer than the contract's minimum age (which is not negative and has no more
  than 62 bits), and only then revealed the same name, key and secret together with the fee.
\<close>

theorem register_commits_then_reveals:
  assumes "cmdRegister L co args s = (s', Inr ())"
    and "\<And>a w w' m. dapp_MinCommitmentAge L a w = (w', Inr m) \<Longrightarrow> 0 \<le> m \<and> m < 2 ^ 62"
  shows "\<exists>(c :: conn) secret commitment price minAge. loadKey L (co_key co) = Inr (cn_key c) \<and> cn_from c = key_address L (cn_key c) \<and>
    (\<exists>w w'. dapp_MakeCommitment L (cn_dapp c) (args ! 0) (cn_from c) (FromECDSAPub (ol_crypto L) (ec_Public L (cn_key c))) secret w =
       (w', Inr commitment)) \<and>
    (\<exists>w w'. dapp_MinCommitmentAge L (cn_dapp c) w = (w', Inr minAge)) \<and>
    (\<exists>w w'. dapp_PriceOf L (cn_dapp c) (args ! 0) w = (w', Inr price)) \<and>
    cw_log s' = cw_log s @ Sent (cn_from c) (cn_dapp c) 0 (TxCommit commitment) # replicate (nat minAge + 15) (Slept 1) @
      [Sent (cn_from c) (cn_dapp c) price (TxRegister (args ! 0) (FromECDSAPub (ol_crypto L) (ec_Public L (cn_key c))) secret)]"
proof -
  obtain c price secret commitment minAge s1 s2 s3 s4 s5 s6 s7 where
    d: "dial L co False s = (s1, Inr c)"
    and pr: "ccall (dapp_PriceOf L (cn_dapp c) (args ! 0)) s1 = (s2, Inr price)"
    and rd: "ccall (rand_Read (ol_os L) 32) s2 = (s3, Inr secret)"
    and mk: "ccall (dapp_MakeCommitment L (cn_dapp c) (args ! 0) (cn_from c)
      (FromECDSAPub (ol_crypto L) (ec_Public L (cn_key c))) secret) s3 = (s4, Inr commitment)"
    and cm: "send L (cn_from c) (cn_dapp c) 0 ''commit'' (TxCommit commitment) s4 = (s5, Inr ())"
    and ag: "ccall (dapp_MinCommitmentAge L (cn_dapp c)) s5 = (s6, Inr minAge)"
    and sl: "csleep L (nat (waitSecs minAge)) s6 = (s7, Inr ())"
    and rg: "send L (cn_from c) (cn_dapp c) price ''register''
      (TxRegister (args ! 0) (FromECDSAPub (ol_crypto L) (ec_Public L (cn_key c))) secret) s7 = (s', Inr ())"
    using assms(1) by (auto simp: cmdRegister_def cbind_Inr needArg_def Let_def split: if_splits)
  have a: "0 \<le> minAge \<and> minAge < 2 ^ 62" using ag assms(2) by (auto simp: ccall_Inr)
  have "waitSecs minAge = minAge + 15"
  proof -
    have "sint ((word_of_int minAge :: 64 word) + 15) = sint (word_of_int (minAge + 15) :: 64 word)" by simp
    also have "\<dots> = signed_take_bit 63 (minAge + 15)" by (simp only: signed_of_int) simp
    also have "\<dots> = minAge + 15" using a by (intro signed_take_bit_int_eq_self) simp_all
    finally show ?thesis by (simp add: waitSecs_def)
  qed
  then have n: "nat (waitSecs minAge) = nat minAge + 15" using a by (simp add: nat_add_distrib)
  note quiet = dial_Inr [OF d] quietD [OF quiet_base(5) pr] quietD [OF quiet_base(5) rd] quietD [OF quiet_base(5) mk]
    quietD [OF quiet_base(5) ag]
  have "cw_log s' = cw_log s @ Sent (cn_from c) (cn_dapp c) 0 (TxCommit commitment) # replicate (nat minAge + 15) (Slept 1) @
      [Sent (cn_from c) (cn_dapp c) price (TxRegister (args ! 0) (FromECDSAPub (ol_crypto L) (ec_Public L (cn_key c))) secret)]"
    using send_Inr [OF cm] send_Inr [OF rg] csleep_Inr [OF sl] quiet n by simp
  moreover have "\<exists>w w'. dapp_PriceOf L (cn_dapp c) (args ! 0) w = (w', Inr price)"
    "\<exists>w w'. dapp_MinCommitmentAge L (cn_dapp c) w = (w', Inr minAge)"
    "\<exists>w w'. dapp_MakeCommitment L (cn_dapp c) (args ! 0) (cn_from c) (FromECDSAPub (ol_crypto L) (ec_Public L (cn_key c))) secret w =
       (w', Inr commitment)"
    using pr ag mk by (auto simp: ccall_Inr)
  ultimately show ?thesis using quiet(1,3) by blast
qed

text \<open>An owner with the key of the sample records and a contract that knows every name.\<close>

definition sample_owner :: "((string + 64 word) list \<times> int) owner_lib" where
  "sample_owner = \<lparr>ol_client = sample_client, ol_torrent = se_torrent sample_server_env, ol_os = se_os sample_server_env,
     ol_listen = (\<lambda>_. []), HexToECDSA = (\<lambda>_. Inr [7]), ec_Public = id, FromHex = str_bytes, eth_ChainID = (\<lambda>w. (w, Inr 1)),
     NewKeyedTransactor = (\<lambda>_ _. None),
     dapp_GetDomain = (\<lambda>_ _ w. (w, Inr \<lparr>dOwner = [7], dPubKey = [7], dExpiry = 99, dGeneration = 3\<rparr>)),
     dapp_PriceOf = (\<lambda>_ _ w. (w, Inr 5)), dapp_MakeCommitment = (\<lambda>_ _ _ _ secret w. (w, Inr secret)),
     dapp_MinCommitmentAge = (\<lambda>_ w. (w, Inr 60)), eth_Submit = (\<lambda>_ _ _ _ w. (w, Inr [])),
     eth_WaitMined = (\<lambda>_ w. (w, Inr (True, []))), cli_Sleep = id, MkdirTemp = (\<lambda>w. (w, Inr ''/tmp'')),
     TypeByExtension = (\<lambda>_. []), stats_resolver = (\<lambda>_. Inr []), NewResolverIncentives = (\<lambda>_. None),
     ParseChannelOpened = (\<lambda>_. None)\<rparr>"

definition sample_common :: commonOpts where
  "sample_common = \<lparr>co_rpc = [], co_key = ''07'', co_deployments = [], co_namespace = ''0x1'', co_registry = []\<rparr>"

definition sample_cli :: "((string + 64 word) list \<times> int) cli" where
  "sample_cli = \<lparr>cw_world = ([], 0), cw_log = []\<rparr>"

lemma sample_libs:
  "ol_crypto sample_owner = toy_crypto" "ec_Public sample_owner = id" "cl_unicode (ol_client sample_owner) = ascii_only"
  "HexToECDSA sample_owner x = Inr [7]" "eth_ChainID sample_owner w = (w, Inr 1)" "NewKeyedTransactor sample_owner k i = None"
  "ol_dial sample_owner = sample_dial\<lparr>HexToAddress := (\<lambda>_. [7])\<rparr>" "cl_env (ol_client sample_owner) = Map.empty"
  "rand_Read (ol_os sample_owner) n w = (w, Inr (replicate n 9))" "cl_zk (ol_client sample_owner) = small_zk"
  "dapp_MinCommitmentAge sample_owner a w = (w, Inr 60)" "dapp_PriceOf sample_owner a nm w = (w, Inr 5)"
  "dapp_MakeCommitment sample_owner a nm o' p sec w = (w, Inr sec)"
  "dapp_GetDomain sample_owner a nm w = (w, Inr \<lparr>dOwner = [7], dPubKey = [7], dExpiry = 99, dGeneration = 3\<rparr>)"
  by (simp_all add: ol_crypto_def ol_dial_def sample_owner_def sample_client_def sample_server_env_def)

lemma sample_ecdsa: "ecdsa_ok (ol_crypto sample_owner) key (ec_Public sample_owner key)"
  by (simp add: sample_libs ecdsa_ok_def) (simp add: toy_crypto_def nth_replicate)

lemma sample_dialled:
  "dial sample_owner sample_common False s =
     (s, Inr \<lparr>cn_dapp = [7], cn_reg = None, cn_key = [7], cn_from = [7]\<rparr>)"
proof -
  have "[7] \<noteq> zero_address" by (simp add: zero_address_def numeral_eq_Suc)
  then show ?thesis
    by (simp add: dial_def dial_key_def cbind_def cresult_def loadKey_def sample_common_def cread_def resolveAddrs_def
        ccall_def cerr_def creturn_def key_address_def sample_libs sample_dial_def Getenv_def Let_def)
      (simp add: toy_crypto_def)
qed

lemma sample_send:
  "send sample_owner from contract v label t s = (s\<lparr>cw_log := cw_log s @ [Sent from contract v t]\<rparr>, Inr ())"
  by (simp add: send_def send_logs_def cbind_def ccall_def creturn_def)
    (simp add: sample_owner_def cbind_def ccall_def clog_def creturn_def)

lemma sample_sleep: "csleep sample_owner n s = (s\<lparr>cw_log := cw_log s @ replicate n (Slept 1)\<rparr>, Inr ())"
proof (induction n arbitrary: s)
  case (Suc n)
  have "csleep sample_owner (Suc n) s = csleep sample_owner n (s\<lparr>cw_log := cw_log s @ [Slept 1]\<rparr>)"
    by (simp add: cbind_def ccall_def clog_def) (simp add: sample_owner_def)
  then show ?case using Suc by (simp add: replicate_app_Cons_same)
qed (simp add: creturn_def)

theorem register_commits_then_reveals_witness:
  "\<exists>s' (c :: conn) secret. cmdRegister sample_owner sample_common [''example''] sample_cli = (s', Inr ()) \<and>
     cw_log s' = Sent (cn_from c) (cn_dapp c) 0 (TxCommit secret) # replicate 75 (Slept 1) @
       [Sent (cn_from c) (cn_dapp c) 5 (TxRegister ''example'' (FromECDSAPub toy_crypto (cn_key c)) secret)]"
proof -
  have "\<exists>s'. cmdRegister sample_owner sample_common [''example''] sample_cli = (s', Inr ())"
    by (simp add: cmdRegister_def cbind_def needArg_def cresult_def sample_dialled sample_send sample_sleep Let_def ccall_def
        sample_libs)
  then obtain s' where s': "cmdRegister sample_owner sample_common [''example''] sample_cli = (s', Inr ())" by blast
  from register_commits_then_reveals [OF s'] obtain c :: conn and secret where
    "cw_log s' = cw_log sample_cli @ Sent (cn_from c) (cn_dapp c) 0 (TxCommit secret) # replicate (nat 60 + 15) (Slept 1) @
      [Sent (cn_from c) (cn_dapp c) 5 (TxRegister ''example'' (FromECDSAPub toy_crypto (cn_key c)) secret)]"
    by (auto simp: sample_libs)
  then have "cw_log s' = Sent (cn_from c) (cn_dapp c) 0 (TxCommit secret) # replicate 75 (Slept 1) @
      [Sent (cn_from c) (cn_dapp c) 5 (TxRegister ''example'' (FromECDSAPub toy_crypto (cn_key c)) secret)]"
    by (simp only: sample_cli_def cli.simps append_Nil) simp
  with s' show ?thesis by blast
qed

lemma sample_set:
  "\<exists>s'. cmdSet sample_owner sample_common [] 60 [''example'', ''A'', ''ip=1.2.3.4''] sample_cli = (s', Inr ())"
proof -
  let ?args = "[''example'', ''A'', ''ip=1.2.3.4'']" let ?rec = "new_record ''A'' [] [''ip''] [''1.2.3.4''] 60 3"
  have p: "parsePairs_loop [''ip=1.2.3.4''] = Inr ([''ip''], [''1.2.3.4''])" by simp
  have c: "canonical ascii_only [] = Inr []" by (simp add: canonical_def ParseSelectorString_def ParsePairs_def CanonicalSelector_def)
  have g: "generationOf sample_owner k nm s = (s, Inr 3)" for k nm s
    by (simp add: generationOf_def cbind_def ccall_def sample_libs creturn_def zero_address_def numeral_eq_Suc)
  obtain m where m: "RecordMessage toy_crypto ''example'' ?rec = Some m" "length m \<le> 496" "m \<noteq> []"
    by (simp add: RecordMessage_def field_pairs_def new_record_def toy_crypto_def writeStr16_def str_bytes_def)
  obtain sg where sg: "SignRecord toy_crypto ''example'' ?rec [7] = Inr sg"
    using m by (simp add: SignRecord_def) (simp add: toy_crypto_def)
  obtain es where "PackMessage m = Inr es" using m(2) by (simp add: PackMessage_def MaxPayload_def ChunkSize_def MaxChunks_def)
  then have cm: "Commitment small_zk m = Inr (replicate 32 1)" by (simp add: Commitment_def small_zk_def lift_zk_def)
  have "\<exists>s'. sign_and_set sample_owner \<lparr>cn_dapp = [7], cn_reg = None, cn_key = [7], cn_from = [7]\<rparr> ''setRecord'' ''example'' ?rec s =
      (s', Inr ())" for s
    by (simp add: sign_and_set_def cbind_def cresult_def sample_libs sg m cm sample_send)
  then show ?thesis
    by (simp add: cmdSet_def cbind_def cresult_def needArg_def p c sample_libs sample_dialled g)
qed

end
