(* ===== verification/Channel_Cli.thy ===== *)
theory Channel_Cli
  imports Owner_Cli Complex_Main
begin

text \<open>
  The payment-channel commands of the owner's tool, src/resolver/cmd/ddns/channels.go: amounts in ETH, channel ids,
  opening a channel, signing a voucher, claiming and closing.

  The lifetime of a channel is given in whole seconds, for which \<open>uint64(duration.Seconds())\<close> is exact.
\<close>

section \<open>Amounts and ids\<close>

text \<open>The pattern \<open>\<^verbatim>\<open>^\d+(\.\d+)?$\<close>\<close>: integral part and, after a dot, fraction.\<close>

definition decimalEth :: "string \<Rightarrow> (string \<times> string) option" where
  "decimalEth s =
     (let digits = (\<lambda>p. p \<noteq> [] \<and> list_all is_digit p)
      in case cut_at CHR ''.'' s of
           None \<Rightarrow> if digits s then Some (s, []) else None
         | Some (a, b) \<Rightarrow> if digits a \<and> digits b then Some (a, b) else None)"

text \<open>The decimal as a fraction, scaled by \<open>10^18\<close>, and the quotient of numerator and denominator.\<close>

definition mustEth :: "string \<Rightarrow> cli_exit + int" where
  "mustEth s0 =
     (let s = TrimSpace s0
      in if s = [] then Inl (CliFatal ''--amount is required (ETH, e.g. 0.05)'')
         else
           (case decimalEth s of
              None \<Rightarrow> Inl (CliFatal (''invalid --amount '' @ s))
            | Some (a, b) \<Rightarrow>
                (let wei = (int (dec_val (a @ b)) * 10 ^ 18) div 10 ^ length b
                 in if wei = 0 then Inl (CliFatal (''--amount '' @ s @ '' is below 1 wei'')) else Inr wei)))"

definition mustChannelID :: "crypto_lib \<Rightarrow> string \<Rightarrow> cli_exit + hash32" where
  "mustChannelID C s =
     (case hexutil_Decode C s of
        None \<Rightarrow> Inl (CliFatal (''invalid --channel id '' @ s))
      | Some b \<Rightarrow> if length b \<noteq> 32 then Inl (CliFatal (''invalid --channel id '' @ s)) else Inr b)"

section \<open>Commands\<close>

definition incentivesAddr :: "'w owner_lib \<Rightarrow> string \<Rightarrow> string \<Rightarrow> 'w \<Rightarrow> address" where
  "incentivesAddr L deployments flagVal w =
     contract_addr (ol_client L) ''ResolverIncentives'' ''RESOLVER_INCENTIVES_ADDRESS'' deployments flagVal w"

definition dialIncentives :: "'w owner_lib \<Rightarrow> commonOpts \<Rightarrow> string \<Rightarrow> ('w, address \<times> address) command" where
  "dialIncentives L co incFlag =
     cbind (cread (incentivesAddr L (co_deployments co) incFlag)) (\<lambda>inc.
       if inc = zero_address then cfatal ''ResolverIncentives address unknown''
       else
         cbind (cresult (loadKey L (co_key co))) (\<lambda>key.
         cbind (dial_key L (co_rpc co) key) (\<lambda>_.
         cbind (cerr (NewResolverIncentives L inc)) (\<lambda>_.
           creturn (key_address L key, inc)))))"

definition first_channel :: "'w owner_lib \<Rightarrow> bytes list \<Rightarrow> hash32" where
  "first_channel L logs =
     (case find (\<lambda>lg. ParseChannelOpened L lg \<noteq> None) logs of
        None \<Rightarrow> zero_hash
      | Some lg \<Rightarrow> the (ParseChannelOpened L lg))"

definition cmdChannelOpen :: "'w owner_lib \<Rightarrow> commonOpts \<Rightarrow> string \<Rightarrow> string \<Rightarrow> int \<Rightarrow> string \<Rightarrow> ('w, hash32) command" where
  "cmdChannelOpen L co resolverOp amount durationSecs incFlag =
     (if \<not> IsHexAddress (ol_dial L) resolverOp then cfatal ''channel-open: --resolver-operator ADDR is required''
      else
        cbind (cresult (mustEth amount)) (\<lambda>wei.
        cbind (dialIncentives L co incFlag) (\<lambda>(from, inc).
        cbind (send_logs L from inc wei ''channel-open''
                 (TxOpenChannel (HexToAddress (ol_dial L) resolverOp) (word_of_int durationSecs))) (\<lambda>logs.
          creturn (first_channel L logs)))))"

definition cmdVoucher :: "'w owner_lib \<Rightarrow> pay_lib \<Rightarrow> commonOpts \<Rightarrow> string \<Rightarrow> string \<Rightarrow> string \<Rightarrow> ('w, string) command" where
  "cmdVoucher L P co channel amount incFlag =
     cbind (cresult (mustChannelID (ol_crypto L) channel)) (\<lambda>chid.
     cbind (cresult (mustEth amount)) (\<lambda>wei.
     cbind (cread (incentivesAddr L (co_deployments co) incFlag)) (\<lambda>inc.
       if inc = zero_address then cfatal ''ResolverIncentives address unknown''
       else
         cbind (cresult (loadKey L (co_key co))) (\<lambda>key.
         cbind (cresult (case SignVoucher P key inc chid wei of
                  Inl ErrVoucherPanic \<Rightarrow> Inl CliPanic
                | Inl e \<Rightarrow> Inl (CliFatal ''sign'')
                | Inr sg \<Rightarrow> Inr sg)) (\<lambda>sg.
           creturn (hexutil_Encode (ol_crypto L) sg))))))"

definition cmdChannelClaim ::
  "'w owner_lib \<Rightarrow> commonOpts \<Rightarrow> string \<Rightarrow> string \<Rightarrow> string \<Rightarrow> string \<Rightarrow> ('w, unit) command" where
  "cmdChannelClaim L co channel amount voucher incFlag =
     cbind (cresult (mustChannelID (ol_crypto L) channel)) (\<lambda>chid.
     cbind (cresult (mustEth amount)) (\<lambda>wei.
       case hexutil_Decode (ol_crypto L) voucher of
         None \<Rightarrow> cfatal ''bad voucher''
       | Some sg \<Rightarrow>
           cbind (dialIncentives L co incFlag) (\<lambda>(from, inc).
             send L from inc 0 ''channel-claim'' (TxClaim chid wei sg))))"

definition cmdChannelClose :: "'w owner_lib \<Rightarrow> commonOpts \<Rightarrow> string \<Rightarrow> string \<Rightarrow> ('w, unit) command" where
  "cmdChannelClose L co channel incFlag =
     cbind (cresult (mustChannelID (ol_crypto L) channel)) (\<lambda>chid.
     cbind (dialIncentives L co incFlag) (\<lambda>(from, inc).
       send L from inc 0 ''channel-close'' (TxCloseChannel chid)))"

section \<open>Facts\<close>

text \<open>The amount that a decimal denotes.\<close>

definition eth_value :: "string \<Rightarrow> string \<Rightarrow> real" where
  "eth_value a b = real (dec_val a) + real (dec_val b) / 10 ^ length b"

lemma dec_val_append: "dec_val (a @ b) = dec_val a * 10 ^ length b + dec_val b"
proof (induction b rule: rev_induct)
  case (snoc x b)
  have "dec_val (a @ b @ [x]) = dec_val (a @ b) * 10 + digit_val x" for a b
    by (simp add: dec_val_def)
  from this [of a b] this [of "[]" b] snoc show ?case by (simp add: algebra_simps)
qed (simp add: dec_val_def)

lemma wei_floor:
  "int (dec_val (a @ b)) * 10 ^ 18 div 10 ^ length b = \<lfloor>eth_value a b * 10 ^ 18\<rfloor>"
proof -
  have "eth_value a b * 10 ^ 18 = real (dec_val (a @ b)) * 10 ^ 18 / 10 ^ length b"
    by (simp add: eth_value_def dec_val_append field_simps)
  also have "\<dots> = real_of_int (int (dec_val (a @ b)) * 10 ^ 18) / real_of_int (10 ^ length b)" by simp
  finally show ?thesis by (simp only: floor_divide_of_int_eq)
qed

lemma sign_result_Inr:
  "(case r of Inl ErrVoucherPanic \<Rightarrow> Inl CliPanic | Inl e \<Rightarrow> Inl (CliFatal x) | Inr sg \<Rightarrow> Inr sg) = Inr y \<longleftrightarrow> r = Inr y"
  by (cases r) (auto split: pay_error.splits)

section \<open>Properties\<close>

text \<open>
  Amounts are exact: \<open>mustEth\<close> accepts exactly the decimals (digits, possibly with a fraction, surrounded by white
  space) that are at least one wei, and yields the number of whole wei in them, rounded down, for any number of
  digits.
\<close>

theorem mustEth_exact:
  "mustEth s = Inr wei \<longleftrightarrow>
     (\<exists>a b. decimalEth (TrimSpace s) = Some (a, b) \<and> wei = \<lfloor>eth_value a b * 10 ^ 18\<rfloor> \<and> 1 \<le> wei)"
proof (cases "decimalEth (TrimSpace s)")
  case None
  then show ?thesis by (simp add: mustEth_def Let_def)
next
  case (Some p)
  obtain a b where p: "p = (a, b)" by fastforce
  have ne: "TrimSpace s \<noteq> []" using Some by (auto simp: decimalEth_def Let_def)
  define w where "w = \<lfloor>eth_value a b * 10 ^ 18\<rfloor>"
  have "0 \<le> eth_value a b * 10 ^ 18" by (simp add: eth_value_def)
  then have "0 \<le> w" by (simp add: w_def)
  moreover have "mustEth s = (if w = 0 then Inl (CliFatal (''--amount '' @ TrimSpace s @ '' is below 1 wei'')) else Inr w)"
    unfolding mustEth_def Let_def w_def wei_floor [symmetric] using Some p ne by simp
  moreover have "(\<exists>a b. decimalEth (TrimSpace s) = Some (a, b) \<and> wei = \<lfloor>eth_value a b * 10 ^ 18\<rfloor> \<and> 1 \<le> wei) \<longleftrightarrow> wei = w \<and> 1 \<le> wei"
    unfolding w_def using Some p by auto
  ultimately show ?thesis by auto
qed

text \<open>
  A voucher that the client's tool prints can be redeemed: the resolver's tool, given the same channel and amount, submits the
  signature that the client made, over the contract's address, from its own account to that contract, and it recovers to the client's address.
\<close>

lemma claim_submits_voucher:
  assumes "cmdVoucher L P co channel amount incFlag s = (s', Inr voucher)"
    and "cmdChannelClaim R co' channel amount voucher incFlag' t = (t', Inr ())"
    and "hexutil_ok (ol_crypto L)" and "ol_crypto R = ol_crypto L" and "py_crypto P = ol_crypto L"
    and "\<And>d key sg. ecdsa_Sign (ol_crypto L) d key = Inr sg \<Longrightarrow> length sg = 65 \<and> sg ! 64 \<in> {0, 1} \<and>
      be_nat (take 32 (drop 32 sg)) \<le> py_N P div 2 \<and> SigToPub (ol_crypto L) d sg = Inr (ec_Public L key)"
    and "loadKey L (co_key co) = Inr key" and "incentivesAddr L (co_deployments co) incFlag (cw_world s) = self"
    and "loadKey R (co_key co') = Inr rkey" and "incentivesAddr R (co_deployments co') incFlag' (cw_world t) = self"
  obtains chid wei sg where "mustChannelID (ol_crypto L) channel = Inr chid" "mustEth amount = Inr wei"
    "cw_log t' = cw_log t @ [Sent (key_address R rkey) self 0 (TxClaim chid wei sg)]" "RecoverVoucher P self chid wei sg = Inr (key_address L key)"
    "sg ! 64 \<in> {27, 28}"
proof -
  obtain chid wei sg where id: "mustChannelID (ol_crypto L) channel = Inr chid" and wei: "mustEth amount = Inr wei"
    and sg: "SignVoucher P key self chid wei = Inr sg" and v: "voucher = hexutil_Encode (ol_crypto L) sg"
    using assms(1,7,8) by (auto simp: cmdVoucher_def cbind_Inr cread_def sign_result_Inr split: if_splits)
  have "hexutil_Decode (ol_crypto R) voucher = Some sg" using hexutil_facts(1) [OF assms(3)] by (simp add: v assms(4))
  then obtain u frm inc' where d: "dialIncentives R co' incFlag' t = (u, Inr (frm, inc'))"
    and sd: "send R frm inc' 0 ''channel-claim'' (TxClaim chid wei sg) u = (t', Inr ())"
    using assms(2,4) id wei by (auto simp: cmdChannelClaim_def cbind_Inr split: prod.splits)
  have fi: "frm = key_address R rkey" "inc' = self"
    using d assms(9,10) by (auto simp: dialIncentives_def cbind_Inr cread_def split: if_splits)
  have "quiet (dialIncentives R co' incFlag')" unfolding dialIncentives_def by (auto intro!: quiet_cbind)
  from quietD [OF this d] send_Inr [OF sd] have lg: "cw_log t' = cw_log t @ [Sent (key_address R rkey) self 0 (TxClaim chid wei sg)]"
    by (simp add: fi)
  have rc: "RecoverVoucher P self chid wei sg = Inr (key_address L key)"
    using SignVoucher_recovers [OF _ sg, of "ec_Public L key"] assms(5,6) by (fastforce simp: key_address_def)
  obtain raw where "ecdsa_Sign (ol_crypto L) (Digest P self chid wei) key = Inr raw" "sg = raw[64 := raw ! 64 + 27]"
    using sg assms(5) by (auto simp: SignVoucher_def split: sum.splits if_splits)
  with assms(6) [OF this(1)] have "sg ! 64 \<in> {27, 28}" by auto
  with id wei lg rc show thesis by (rule that)
qed

lemma sample_wei: "mustEth ''0.05'' = Inr 50000000000000000"
proof -
  have "TrimSpace ''0.05'' = ''0.05''" by (simp add: go_simps is_graph_def)
  moreover have "decimalEth ''0.05'' = Some (''0'', ''05'')"
    by (simp add: decimalEth_def is_digit_def in_range_def)
  moreover have "dec_val ''005'' = 5" by (simp add: dec_val_def digit_val_def)
  ultimately show ?thesis by (simp add: mustEth_def)
qed

end
