(* ===== verification/Contract_Chain.thy ===== *)
theory Contract_Chain
  imports Namespace_Laws Channel_Cli
begin

text \<open>
  The owner's tool against the namespace contract. The locale \<open>deployed_chain\<close> is what the tool relies on of an Ethereum endpoint: the
  chain moves on while calls are made, a read returns what the contract's view returns, and a transaction whose receipt reports success has
  been executed by the contract at some moment in between. The locale \<open>registering_chain\<close> is what \<open>ddns register\<close> needs in order to
  succeed: an endpoint that answers, transactions that are mined, a clock that blocks follow. \<open>sim_owner\<close> is a chain on which both
  are interpreted; it serves the witnesses only.
\<close>

section \<open>Definitions\<close>

definition tx_call :: "tx \<Rightarrow> dapp_call option" where
  "tx_call t =
     (case t of
        TxCommit h \<Rightarrow> Some (CallCommit h)
      | TxRegister n k x \<Rightarrow> Some (CallRegister n k x)
      | TxSetRecord n ty sel ns vs ttl sg com \<Rightarrow> Some (CallSetRecord n ty sel ns vs ttl sg com)
      | TxRemoveRecord n ty sel \<Rightarrow> Some (CallRemoveRecord n ty sel)
      | TxTransfer n a k \<Rightarrow> Some (CallTransfer n a k)
      | TxRenew n \<Rightarrow> Some (CallRenew n)
      | TxWithdraw a \<Rightarrow> Some (CallWithdraw a)
      | _ \<Rightarrow> None)"

definition domain_view :: "address \<times> bytes \<times> 64 word \<times> 64 word \<Rightarrow> chain_domain" where
  "domain_view v = (case v of (a, k, e, g) \<Rightarrow> \<lparr>dOwner = a, dPubKey = k, dExpiry = e, dGeneration = g\<rparr>)"

section \<open>Histories\<close>

lemma history_trans: "dapp_history L E A t1 s1 t2 s2 \<Longrightarrow> dapp_history L E A t s t1 s1 \<Longrightarrow> dapp_history L E A t s t2 s2"
  by (induction rule: dapp_history.induct) (auto intro: history_block)

text \<open>Stretches of history without a log of the name keep its owner, key, generation and records.\<close>

lemma history_silent:
  assumes "dapp_history L E A t s t' s'" "nd_logs s' = nd_logs s @ new" "filter (\<lambda>l. log_name l = Some h) new = []"
  shows "t \<le> t'" "quiet_since t (nd_domains s h) (nd_domains s' h)" "nd_records s' h = nd_records s h"
  using history_quiet [OF assms(1)] assms(2,3) by (auto simp: filter_empty_conv)

lemma quiet_since_fields:
  "quiet_since t d d' \<Longrightarrow> dm_owner d' = dm_owner d \<and> dm_pubKey d' = dm_pubKey d \<and> dm_generation d' = dm_generation d"
  by (auto simp: quiet_since_def)

text \<open>
  A history that sets one record and otherwise logs nothing for the name: the record is stamped with the generation the name had at the start,
  and at the end the name resolves to it or has expired.
\<close>

lemma history_one_set:
  assumes h1: "dapp_history L E A t s (block_timestamp m) x"
    and ex: "dapp_exec L E reg callee m (CallSetRecord name ty sel ns vs ttl sg com) x = Inr x'"
    and h2: "dapp_history L E A (block_timestamp m) x' t' s'"
    and logs: "nd_logs s' = nd_logs s @ new" and alone: "length (filter (\<lambda>l. log_name l = Some (name_hash L name)) new) = 1"
  defines "d \<equiv> nd_domains s (name_hash L name)"
  shows "msg_sender m = dm_owner d"
    "ownerOf L t' s' name = zero_address \<or>
     resolve L t' s' name ty sel = (record_of ty sel ns vs ttl (dm_generation d) sg com, dm_owner d, dm_pubKey d)"
    "\<And>r y b. nd_logs x = nd_logs y @ b \<Longrightarrow> dapp_history L E A t s r y \<Longrightarrow> dm_generation (nd_domains y (name_hash L name)) = dm_generation d"
proof -
  let ?h = "name_hash L name" let ?f = "filter (\<lambda>l. log_name l = Some ?h)"
  have set: "setRecord L reg m name ty sel ns vs ttl sg com (x\<lparr>nd_balance := nd_balance x + msg_value m\<rparr>) = Inr x'"
    using ex by (simp add: dapp_exec_def Let_def split: if_splits)
  note sx = setRecord_Inr [OF set]
  obtain n1 n2 where n: "nd_logs x = nd_logs s @ n1" "nd_logs s' = nd_logs x' @ n2"
    using history_quiet [OF h1] history_quiet [OF h2] by blast
  have "?f new = ?f n1 @ [RecordSet ?h name (recordKeyOf L ty sel) ty sel ttl] @ ?f n2"
    using logs n sx(4) by (auto simp: log_name_def)
  with alone have e: "?f n1 = []" "?f n2 = []" by auto
  note q1 = history_silent [OF h1 n(1) e(1), folded d_def] and q2 = history_silent [OF h2 n(2) e(2)]
  note fd = quiet_since_fields [OF q1(2)]
  have act: "\<not> inactive (block_timestamp m) (nd_domains x ?h)" using sx(1) by simp
  show "msg_sender m = dm_owner d" using sx(2) fd by simp
  have "resolve L (block_timestamp m) x' name ty sel = (record_of ty sel ns vs ttl (dm_generation d) sg com, dm_owner d, dm_pubKey d)"
    using act fd by (simp add: sx(4) resolve_def lookup_record_def Let_def)
  with resolve_quiet [OF q2(2,3,1) refl, of ty sel]
  show "ownerOf L t' s' name = zero_address \<or>
     resolve L t' s' name ty sel = (record_of ty sel ns vs ttl (dm_generation d) sg com, dm_owner d, dm_pubKey d)"
    by (auto simp: ownerOf_def Let_def)
  fix r y b assume y: "nd_logs x = nd_logs y @ b" "dapp_history L E A t s r y"
  obtain n0 where n0: "nd_logs y = nd_logs s @ n0" using history_quiet [OF y(2)] by blast
  have "?f n0 = []" using e(1) n(1) y(1) n0 by auto
  from quiet_since_fields [OF history_silent(2) [OF y(2) n0 this]]
  show "dm_generation (nd_domains y ?h) = dm_generation d" by (simp add: d_def)
qed

section \<open>An endpoint of the deployed contract\<close>

lemma cerr_Inr: "cerr r s = (s', Inr u) \<longleftrightarrow> r = None \<and> s' = s"
  by (auto simp: cerr_def split: option.splits)

lemma cread_Inr: "cread g s = (s', Inr x) \<longleftrightarrow> s' = s \<and> x = g (cw_world s)"
  by (auto simp: cread_def)

lemma dial_steps:
  assumes "dial L co b s = (s', Inr c)"
  shows "\<exists>key u. dial_key L (co_rpc co) key s = (s', Inr u)"
    "cn_dapp c = fst (resolveAddrs L (co_deployments co) (co_namespace co) (co_registry co) (cw_world s))"
proof -
  obtain ns reg where a: "resolveAddrs L (co_deployments co) (co_namespace co) (co_registry co) (cw_world s) = (ns, reg)" by fastforce
  obtain key s1 where "dial_key L (co_rpc co) key s = (s1, Inr ())" "s' = s1" "cn_dapp c = ns"
    using assms unfolding dial_def cbind_Inr cresult_Inr cread_Inr cerr_Inr creturn_Inr
    by (auto simp: a cbind_Inr cerr_Inr split: if_splits)
  then show "\<exists>key u. dial_key L (co_rpc co) key s = (s', Inr u)"
    "cn_dapp c = fst (resolveAddrs L (co_deployments co) (co_namespace co) (co_registry co) (cw_world s))"
    using a by auto
qed

lemma sign_and_set_sends:
  assumes "sign_and_set L c label name rec s = (s', Inr u)" and "ecdsa_ok (ol_crypto L) (cn_key c) (ec_Public L (cn_key c))"
    and "length (rFieldNames rec) = length (rFieldVals rec)"
  obtains sg com where
    "send L (cn_from c) (cn_dapp c) 0 label
      (TxSetRecord name (rType rec) (rSelector rec) (rFieldNames rec) (rFieldVals rec) (rTTL rec) sg com) s = (s', Inr u)"
    "record_accepted L (cn_key c) name (stored_record rec sg com)"
proof -
  obtain sg com where sd: "send L (cn_from c) (cn_dapp c) 0 label
      (TxSetRecord name (rType rec) (rSelector rec) (rFieldNames rec) (rFieldVals rec) (rTTL rec) sg com) s = (s', Inr u)"
    using assms(1) by (auto simp: sign_and_set_def cbind_Inr split: sum.splits pki_error.splits option.splits)
  obtain sg' com' where a: "cw_log s' = cw_log s @ [Sent (cn_from c) (cn_dapp c) 0
       (TxSetRecord name (rType rec) (rSelector rec) (rFieldNames rec) (rFieldVals rec) (rTTL rec) sg' com')]"
    "record_accepted L (cn_key c) name (stored_record rec sg' com')"
    by (rule sign_and_set_Inr [OF assms])
  then show thesis using that [OF sd] send_Inr [OF sd] by simp
qed

locale deployed_chain =
  fixes L :: "'w owner_lib" and S :: sol_lib and E :: dapp_env and dapp_addr :: address
    and now :: "'w \<Rightarrow> nat" and dapp_of :: "'w \<Rightarrow> dapp"
  assumes dial_later: "eth_DialContext (ol_dial L) rpc w = (w', r) \<Longrightarrow> dapp_history S E UNIV (now w) (dapp_of w) (now w') (dapp_of w')"
    and chainID_later: "eth_ChainID L w = (w', r') \<Longrightarrow> dapp_history S E UNIV (now w) (dapp_of w) (now w') (dapp_of w')"
    and domain_later: "dapp_GetDomain L dapp_addr name w = (w', Inr d) \<Longrightarrow>
      dapp_history S E UNIV (now w) (dapp_of w) (now w') (dapp_of w') \<and> d = domain_view (getDomain S (dapp_of w') name)"
    and executed: "eth_Submit L from dapp_addr v t w = (w1, Inr h) \<Longrightarrow> eth_WaitMined L h w1 = (w2, Inr (True, logs)) \<Longrightarrow> tx_call t = Some c \<Longrightarrow>
      \<exists>m reg callee s s'. msg_sender m = from \<and> int (msg_value m) = v \<and> dapp_history S E UNIV (now w) (dapp_of w) (block_timestamp m) s \<and>
        dapp_exec S E reg callee m c s = Inr s' \<and> dapp_history S E UNIV (block_timestamp m) s' (now w2) (dapp_of w2)"
begin

definition later :: "'w cli \<Rightarrow> 'w cli \<Rightarrow> bool" where
  "later s s' \<longleftrightarrow>
     dapp_history S E UNIV (now (cw_world s)) (dapp_of (cw_world s)) (now (cw_world s')) (dapp_of (cw_world s'))"

lemma later_refl: "later s s"
  by (simp add: later_def history_refl)

lemma later_trans: "later s s1 \<Longrightarrow> later s1 s2 \<Longrightarrow> later s s2"
  unfolding later_def by (rule history_trans)

lemma dial_is_later:
  assumes "dial L co b s = (s', Inr c)" shows "later s s'" "cn_dapp c = fst (resolveAddrs L (co_deployments co) (co_namespace co) (co_registry co) (cw_world s))"
proof -
  have dk: "later s1 s2" if k: "dial_key L rpc key s1 = (s2, Inr u)" for s1 s2 rpc key u
  proof -
    obtain w r w2 cid where d: "eth_DialContext (ol_dial L) rpc (cw_world s1) = (w, r)" and i: "eth_ChainID L w = (w2, Inr cid)"
      and s2: "cw_world s2 = w2"
      using k by (auto simp: dial_key_def cbind_Inr ccall_Inr cerr_def split: prod.splits option.splits)
    show ?thesis unfolding later_def s2 by (rule history_trans [OF chainID_later [OF i] dial_later [OF d]])
  qed
  show "later s s'" "cn_dapp c = fst (resolveAddrs L (co_deployments co) (co_namespace co) (co_registry co) (cw_world s))"
    using dial_steps [OF assms] dk by blast+
qed

lemma generation_is_read:
  assumes "generationOf L c name s = (s', Inr g)" "cn_dapp c = dapp_addr"
  shows "later s s'" "g = dm_generation (nd_domains (dapp_of (cw_world s')) (name_hash S name))"
proof -
  obtain w d where r: "dapp_GetDomain L dapp_addr name (cw_world s) = (w, Inr d)" "g = dGeneration d" "cw_world s' = w"
    using assms by (auto simp: generationOf_def cbind_Inr ccall_Inr split: if_splits)
  show "later s s'" "g = dm_generation (nd_domains (dapp_of (cw_world s')) (name_hash S name))"
    using domain_later [OF r(1)] r(2,3) by (simp_all add: later_def domain_view_def getDomain_def Let_def)
qed

lemma send_executes:
  assumes "send L from dapp_addr v label t s = (s', Inr u)" "tx_call t = Some c"
  obtains m reg callee x x' where "msg_sender m = from" "int (msg_value m) = v"
    "dapp_history S E UNIV (now (cw_world s)) (dapp_of (cw_world s)) (block_timestamp m) x"
    "dapp_exec S E reg callee m c x = Inr x'"
    "dapp_history S E UNIV (block_timestamp m) x' (now (cw_world s')) (dapp_of (cw_world s'))"
proof -
  obtain w1 h w2 logs where "eth_Submit L from dapp_addr v t (cw_world s) = (w1, Inr h)" "eth_WaitMined L h w1 = (w2, Inr (True, logs))"
    "cw_world s' = w2"
    using assms(1) by (auto simp: send_def send_logs_def cbind_Inr ccall_Inr clog_def split: if_splits)
  with executed [OF this(1,2) assms(2)] show thesis using that by metis
qed

text \<open>
  A successful \<open>ddns set\<close> during which nothing else was logged for the name leaves the name, type and selector resolving to the
  signed record, unless the name has expired by then.
\<close>

lemma set_through_chain:
  assumes run: "cmdSet L co selector ttl args s = (s', Inr ())" and key: "loadKey L (co_key co) = Inr key"
    and ec: "ecdsa_ok (ol_crypto L) key (ec_Public L key)" and can: "canonical (cl_unicode (ol_client L)) selector = Inr sel"
    and addr: "fst (resolveAddrs L (co_deployments co) (co_namespace co) (co_registry co) (cw_world s)) = dapp_addr"
    and logs: "nd_logs (dapp_of (cw_world s')) = nd_logs (dapp_of (cw_world s)) @ new"
    and alone: "length (filter (\<lambda>l. log_name l = Some (name_hash S (args ! 0))) new) = 1"
    and dom: "getDomain S (dapp_of (cw_world s)) (args ! 0) = (a, pub, e, gen)"
  shows "\<exists>names vals sg com b. parsePairs_loop (drop 2 args) = Inr (names, vals) \<and>
    record_accepted L key (args ! 0) (stored_record (new_record (args ! 1) sel names vals (ucast ttl) gen) sg com) \<and>
    fromBinding b = stored_record (new_record (args ! 1) sel names vals (ucast ttl) gen) sg com \<and>
    (ownerOf S (now (cw_world s')) (dapp_of (cw_world s')) (args ! 0) = zero_address \<or>
     resolve S (now (cw_world s')) (dapp_of (cw_world s')) (args ! 0) (args ! 1) sel = (b, key_address L key, pub))"
proof -
  obtain names vals c g s1 s2 where p: "parsePairs_loop (drop 2 args) = Inr (names, vals)"
    and d: "dial L co False s = (s1, Inr c)" and gn: "generationOf L c (args ! 0) s1 = (s2, Inr g)"
    and st: "sign_and_set L c ''setRecord'' (args ! 0) (new_record (args ! 1) sel names vals (ucast ttl) g) s2 = (s', Inr ())"
    using run can by (auto simp: cmdSet_def cbind_Inr needArg_def split: if_splits)
  have ck: "cn_key c = key" "cn_from c = key_address L key" using dial_Inr [OF d] key by simp_all
  have ca: "cn_dapp c = dapp_addr" using dial_is_later(2) [OF d] addr by simp
  obtain sg com where sd: "send L (cn_from c) dapp_addr 0 ''setRecord''
      (TxSetRecord (args ! 0) (args ! 1) sel names vals (ucast ttl) sg com) s2 = (s', Inr ())"
    and acc: "record_accepted L key (args ! 0) (stored_record (new_record (args ! 1) sel names vals (ucast ttl) g) sg com)"
    by (rule sign_and_set_sends [OF st])
      (use ec ck ca parsePairs_lengths [OF p] in \<open>auto simp: new_record_def\<close>)
  obtain m reg callee x x' where m: "msg_sender m = cn_from c" and h1: "dapp_history S E UNIV (now (cw_world s2)) (dapp_of (cw_world s2)) (block_timestamp m) x"
    and ex: "dapp_exec S E reg callee m (CallSetRecord (args ! 0) (args ! 1) sel names vals (ucast ttl) sg com) x = Inr x'"
    and h2: "dapp_history S E UNIV (block_timestamp m) x' (now (cw_world s')) (dapp_of (cw_world s'))"
    by (rule send_executes [OF sd]) (auto simp: tx_call_def)
  have l2: "later s s2" using later_trans [OF dial_is_later(1) [OF d] generation_is_read(1) [OF gn ca]] .
  note one = history_one_set [OF history_trans [OF h1 l2 [unfolded later_def]] ex h2 logs alone]
  obtain b where b: "nd_logs x = nd_logs (dapp_of (cw_world s2)) @ b" using history_quiet [OF h1] by blast
  have dm: "dm_owner (nd_domains (dapp_of (cw_world s)) (name_hash S (args ! 0))) = a"
    "dm_pubKey (nd_domains (dapp_of (cw_world s)) (name_hash S (args ! 0))) = pub"
    "dm_generation (nd_domains (dapp_of (cw_world s)) (name_hash S (args ! 0))) = gen"
    using dom by (simp_all add: getDomain_def Let_def)
  have g: "g = gen" using one(3) [OF b l2 [unfolded later_def]] generation_is_read(2) [OF gn ca] dm by simp
  have "a = key_address L key" using one(1) m ck dm by simp
  then show ?thesis
    using p acc one(2) unfolding dm g
    by (intro exI [of _ names] exI [of _ vals] exI [of _ sg] exI [of _ com]
        exI [of _ "record_of (args ! 1) sel names vals (ucast ttl) gen sg com"])
      (auto simp: fromBinding_def record_of_def stored_record_def new_record_def)
qed

end

section \<open>Registering\<close>

text \<open>The tool can connect: it has a key and the address of the contract, and the bindings can be made.\<close>

definition connects :: "'w owner_lib \<Rightarrow> commonOpts \<Rightarrow> bytes \<Rightarrow> address \<Rightarrow> 'w \<Rightarrow> bool" where
  "connects L co key a w \<longleftrightarrow>
     loadKey L (co_key co) = Inr key \<and> a \<noteq> zero_address \<and> (\<forall>chainID. NewKeyedTransactor L key chainID = None) \<and>
     fst (resolveAddrs L (co_deployments co) (co_namespace co) (co_registry co) w) = a \<and>
     (\<forall>x. NewNamespaceDApp (ol_dial L) x = None \<and> NewRecordSchemaRegistry (ol_dial L) x = None)"

text \<open>The name with hash \<open>h\<close> and the commitment \<open>c\<close> are as they were; everything else of the contract may have changed.\<close>

definition undisturbed :: "hash32 \<Rightarrow> hash32 \<Rightarrow> dapp \<Rightarrow> dapp \<Rightarrow> bool" where
  "undisturbed h c d d' \<longleftrightarrow> nd_domains d' h = nd_domains d h \<and> nd_commitments d' c = nd_commitments d c"

lemma undisturbed_refl: "undisturbed h c d d"
  by (simp add: undisturbed_def)

lemma undisturbed_trans: "undisturbed h c d d1 \<Longrightarrow> undisturbed h c d1 d2 \<Longrightarrow> undisturbed h c d d2"
  by (simp add: undisturbed_def)

lemma wait_of_contract: "waitSecs (int MIN_COMMITMENT_AGE) = 45"
  by (simp add: waitSecs_def MIN_COMMITMENT_AGE_def)

text \<open>A reveal with the exact price, inside the window of the commitment, is accepted; with nothing to refund, no callee runs.\<close>

lemma reveal_accepted:
  assumes "contract_validateName name" "0 < length pubKey" "length pubKey \<le> 128" "priceOf E name = Inr (msg_value m)"
    "nd_commitments s (makeCommitment S name (msg_sender m) pubKey secret) = t" "0 < t" "t + 30 \<le> block_timestamp m" "block_timestamp m \<le> t + 86400"
    "block_timestamp m < 2 ^ 63" "inactive (block_timestamp m) (nd_domains s (name_hash S name))"
  shows "\<exists>s'. dapp_exec S E reg callee m (CallRegister name pubKey secret) s = Inr s' \<and>
    nd_domains s' (name_hash S name) = \<lparr>dm_owner = msg_sender m, dm_pubKey = pubKey, dm_expiry = word_of_nat (block_timestamp m + REGISTRATION_PERIOD),
      dm_generation = dm_generation (nd_domains s (name_hash S name)) + 1\<rparr>"
  using assms
  by (auto simp: dapp_exec_def payable_def register_def register_update_def Let_def check_commitment_def u256_add_def
      MIN_COMMITMENT_AGE_def MAX_COMMITMENT_AGE_def REGISTRATION_PERIOD_def refundExcess_def u256_sub_def inactive_def)

text \<open>
  What \<open>ddns register\<close> relies on, for a name, a commitment and the secret that it draws. The endpoint answers, and every call and every sleep of
  a second takes at most ten minutes; a sleep takes at least its second. The sender can pay, so that every transaction is mined; the block it is in is
  stamped by the same clock: not later than the receipt is there, and at most fifteen seconds before the transaction was sent (a block carries the
  time at which its slot began). Meanwhile nobody else touches the name or the commitment.
\<close>

locale registering_chain =
  fixes L :: "'w owner_lib" and S :: sol_lib and E :: dapp_env and dapp_addr :: address
    and clock :: "'w \<Rightarrow> nat" and dapp_of :: "'w \<Rightarrow> dapp" and h c secret :: hash32
  assumes dial_answers: "\<exists>w'. eth_DialContext (ol_dial L) rpc w = (w', None) \<and> undisturbed h c (dapp_of w) (dapp_of w') \<and>
      clock w \<le> clock w' \<and> clock w' \<le> clock w + 600"
    and chainID_answers: "\<exists>w' i. eth_ChainID L w = (w', Inr i) \<and> undisturbed h c (dapp_of w) (dapp_of w') \<and>
      clock w \<le> clock w' \<and> clock w' \<le> clock w + 600"
    and price_answers: "priceOf E name = Inr p \<Longrightarrow> \<exists>w'. dapp_PriceOf L dapp_addr name w = (w', Inr (int p)) \<and> undisturbed h c (dapp_of w) (dapp_of w') \<and>
      clock w \<le> clock w' \<and> clock w' \<le> clock w + 600"
    and rand_answers: "\<exists>w'. rand_Read (ol_os L) 32 w = (w', Inr secret) \<and> undisturbed h c (dapp_of w) (dapp_of w') \<and>
      clock w \<le> clock w' \<and> clock w' \<le> clock w + 600"
    and commitment_answers: "\<exists>w'. dapp_MakeCommitment L dapp_addr name owner pubKey x w = (w', Inr (makeCommitment S name owner pubKey x)) \<and>
      undisturbed h c (dapp_of w) (dapp_of w') \<and> clock w \<le> clock w' \<and> clock w' \<le> clock w + 600"
    and age_answers: "\<exists>w'. dapp_MinCommitmentAge L dapp_addr w = (w', Inr (int MIN_COMMITMENT_AGE)) \<and> undisturbed h c (dapp_of w) (dapp_of w') \<and>
      clock w \<le> clock w' \<and> clock w' \<le> clock w + 600"
    and sleeps: "undisturbed h c (dapp_of w) (dapp_of (cli_Sleep L w)) \<and> clock w + 1 \<le> clock (cli_Sleep L w) \<and> clock (cli_Sleep L w) \<le> clock w + 600"
    and mined: "tx_call t = Some call \<Longrightarrow> 0 \<le> v \<Longrightarrow> \<exists>w1 hsh w2 logs m reg callee x.
      eth_Submit L from dapp_addr v t w = (w1, Inr hsh) \<and>
      eth_WaitMined L hsh w1 = (w2, Inr (isOk (dapp_exec S E reg callee m call x), logs)) \<and>
      msg_sender m = from \<and> int (msg_value m) = v \<and> undisturbed h c (dapp_of w) x \<and>
      undisturbed h c (case dapp_exec S E reg callee m call x of Inl _ \<Rightarrow> x | Inr x' \<Rightarrow> x') (dapp_of w2) \<and>
      clock w \<le> block_timestamp m + 15 \<and> block_timestamp m \<le> clock w2 \<and> clock w \<le> clock w2 \<and> clock w2 \<le> clock w + 600"
begin

text \<open>A later moment, at most \<open>n\<close> calls away, with the name and the commitment as they were.\<close>

definition calm :: "nat \<Rightarrow> 'w cli \<Rightarrow> 'w cli \<Rightarrow> bool" where
  "calm n s s' \<longleftrightarrow> undisturbed h c (dapp_of (cw_world s)) (dapp_of (cw_world s')) \<and>
     clock (cw_world s) \<le> clock (cw_world s') \<and> clock (cw_world s') \<le> clock (cw_world s) + n * 600"

lemma calm_trans: "calm n s s1 \<Longrightarrow> calm k s1 s2 \<Longrightarrow> calm (n + k) s s2"
  unfolding calm_def by (auto intro: undisturbed_trans simp: add_mult_distrib)

lemma ccall_calm:
  assumes "\<exists>w'. f (cw_world s) = (w', Inr x) \<and> undisturbed h c (dapp_of (cw_world s)) (dapp_of w') \<and>
    clock (cw_world s) \<le> clock w' \<and> clock w' \<le> clock (cw_world s) + 600"
  obtains s' where "ccall f s = (s', Inr x)" "calm 1 s s'"
proof -
  obtain w' where w: "f (cw_world s) = (w', Inr x)" "undisturbed h c (dapp_of (cw_world s)) (dapp_of w')"
    "clock (cw_world s) \<le> clock w'" "clock w' \<le> clock (cw_world s) + 600" using assms by blast
  show thesis by (rule that [of "s\<lparr>cw_world := w'\<rparr>"]) (use w in \<open>simp_all add: ccall_def calm_def\<close>)
qed

lemma dial_calm:
  assumes "connects L co key dapp_addr (cw_world s)"
  obtains s' r where "dial L co False s = (s', Inr \<lparr>cn_dapp = dapp_addr, cn_reg = r, cn_key = key, cn_from = key_address L key\<rparr>)" "calm 2 s s'"
proof -
  obtain r where r: "resolveAddrs L (co_deployments co) (co_namespace co) (co_registry co) (cw_world s) = (dapp_addr, r)"
    using assms unfolding connects_def by (metis prod.collapse)
  let ?f = "\<lambda>w. case eth_DialContext (ol_dial L) (co_rpc co) w of (w, Some e) \<Rightarrow> (w, Inl e) | (w, None) \<Rightarrow> (w, Inr ())"
  obtain s1 where s1: "ccall ?f s = (s1, Inr ())" "calm 1 s s1"
    by (rule ccall_calm [of ?f s "()"]) (use dial_answers [of "co_rpc co" "cw_world s"] in auto)
  obtain i where "\<exists>w'. eth_ChainID L (cw_world s1) = (w', Inr i) \<and> undisturbed h c (dapp_of (cw_world s1)) (dapp_of w') \<and>
      clock (cw_world s1) \<le> clock w' \<and> clock w' \<le> clock (cw_world s1) + 600" using chainID_answers by metis
  from ccall_calm [of "eth_ChainID L" s1 i, OF this] obtain s2 where s2: "ccall (eth_ChainID L) s1 = (s2, Inr i)" "calm 1 s1 s2" by blast
  have "dial_key L (co_rpc co) key s = (s2, Inr ())"
    using assms s1 s2 by (simp add: dial_key_def cbind_def cerr_def connects_def)
  then have "\<exists>r'. dial L co False s = (s2, Inr \<lparr>cn_dapp = dapp_addr, cn_reg = r', cn_key = key, cn_from = key_address L key\<rparr>)"
    using assms r by (simp add: dial_def cbind_def cresult_def cread_def cerr_def creturn_def connects_def)
  moreover have "calm 2 s s2" using calm_trans [OF s1(2) s2(2)] by (simp add: numeral_2_eq_2)
  ultimately show thesis using that by blast
qed

lemma csleep_calm: "\<exists>s'. csleep L n s = (s', Inr ()) \<and> calm n s s' \<and> clock (cw_world s) + n \<le> clock (cw_world s')"
proof (induction n arbitrary: s)
  case 0
  then show ?case by (simp add: creturn_def calm_def undisturbed_refl)
next
  case (Suc n)
  define s1 where "s1 = s\<lparr>cw_world := cli_Sleep L (cw_world s), cw_log := cw_log s @ [Slept 1]\<rparr>"
  have 1: "calm 1 s s1" "clock (cw_world s) + 1 \<le> clock (cw_world s1)" using sleeps [of "cw_world s"] by (auto simp: calm_def s1_def)
  obtain s' where s': "csleep L n s1 = (s', Inr ())" "calm n s1 s'" "clock (cw_world s1) + n \<le> clock (cw_world s')" using Suc by blast
  have "csleep L (Suc n) s = (s', Inr ())" using s'(1) by (simp add: cbind_def ccall_def clog_def s1_def)
  moreover have "calm (Suc n) s s'" using calm_trans [OF 1(1) s'(2)] by simp
  ultimately show ?case using 1(2) s'(3) by auto
qed

lemma send_mined:
  assumes "tx_call t = Some call" "0 \<le> v"
  obtains m reg callee x s' where "msg_sender m = from" "int (msg_value m) = v" "undisturbed h c (dapp_of (cw_world s)) x"
    "clock (cw_world s) \<le> block_timestamp m + 15" "block_timestamp m \<le> clock (cw_world s')" "clock (cw_world s) \<le> clock (cw_world s')"
    "clock (cw_world s') \<le> clock (cw_world s) + 600"
    "\<And>x'. dapp_exec S E reg callee m call x = Inr x' \<Longrightarrow> send L from dapp_addr v label t s = (s', Inr ()) \<and> undisturbed h c x' (dapp_of (cw_world s'))"
proof -
  obtain w1 hsh w2 logs m reg callee x where
    e: "eth_Submit L from dapp_addr v t (cw_world s) = (w1, Inr hsh)"
      "eth_WaitMined L hsh w1 = (w2, Inr (isOk (dapp_exec S E reg callee m call x), logs))"
      "undisturbed h c (case dapp_exec S E reg callee m call x of Inl _ \<Rightarrow> x | Inr x' \<Rightarrow> x') (dapp_of w2)"
    and f: "msg_sender m = from" "int (msg_value m) = v" "undisturbed h c (dapp_of (cw_world s)) x"
      "clock (cw_world s) \<le> block_timestamp m + 15" "block_timestamp m \<le> clock w2" "clock (cw_world s) \<le> clock w2" "clock w2 \<le> clock (cw_world s) + 600"
    using mined [OF assms, of "from" "cw_world s"] by blast
  define s' where "s' = s\<lparr>cw_world := w2, cw_log := cw_log s @ [Sent from dapp_addr v t]\<rparr>"
  have w: "cw_world s' = w2" by (simp add: s'_def)
  have "send L from dapp_addr v label t s = (s', Inr ()) \<and> undisturbed h c x' (dapp_of (cw_world s'))"
    if "dapp_exec S E reg callee m call x = Inr x'" for x'
    using e that by (simp add: send_def send_logs_def cbind_def ccall_def clog_def creturn_def s'_def)
  with that f w show thesis by metis
qed

lemma commit_mined:
  assumes "15 < clock (cw_world s)"
  obtains s' ts where "send L from dapp_addr 0 label (TxCommit c) s = (s', Inr ())" "0 < ts" "nd_commitments (dapp_of (cw_world s')) c = ts"
    "nd_domains (dapp_of (cw_world s')) h = nd_domains (dapp_of (cw_world s)) h" "clock (cw_world s) \<le> ts + 15" "ts \<le> clock (cw_world s')"
    "clock (cw_world s) \<le> clock (cw_world s')" "clock (cw_world s') \<le> clock (cw_world s) + 600"
proof (rule send_mined [of "TxCommit c" "CallCommit c" 0 "from" s label])
  fix m reg callee x s'
  assume m: "int (msg_value m) = 0" "undisturbed h c (dapp_of (cw_world s)) x" "clock (cw_world s) \<le> block_timestamp m + 15" "block_timestamp m \<le> clock (cw_world s')"
      "clock (cw_world s) \<le> clock (cw_world s')" "clock (cw_world s') \<le> clock (cw_world s) + 600"
    and sent: "\<And>x'. dapp_exec S E reg callee m (CallCommit c) x = Inr x' \<Longrightarrow>
      send L from dapp_addr 0 label (TxCommit c) s = (s', Inr ()) \<and> undisturbed h c x' (dapp_of (cw_world s'))"
  obtain x' where x': "dapp_exec S E reg callee m (CallCommit c) x = Inr x'" "nd_commitments x' c = block_timestamp m" "nd_domains x' = nd_domains x"
    using m(1) by (simp add: dapp_exec_def commit_def)
  show thesis
    by (rule that [of s' "block_timestamp m"]) (use sent [OF x'(1)] x' m assms in \<open>simp_all add: undisturbed_def\<close>)
qed (simp_all add: tx_call_def)

lemma register_mined:
  assumes "contract_validateName name" "0 < length pub" "length pub \<le> 128" "priceOf E name = Inr price"
    and "h = name_hash S name" "c = makeCommitment S name from pub secret"
    and "nd_commitments (dapp_of (cw_world s)) c = ts" "0 < ts" "ts + 45 \<le> clock (cw_world s)" "clock (cw_world s) \<le> ts + 80000" "clock (cw_world s) < 2 ^ 62"
    and "inactive (clock (cw_world s) - 15) (nd_domains (dapp_of (cw_world s)) h)"
  obtains s' t where "send L from dapp_addr (int price) label (TxRegister name pub secret) s = (s', Inr ())"
    "dm_owner (nd_domains (dapp_of (cw_world s')) h) = from" "dm_pubKey (nd_domains (dapp_of (cw_world s')) h) = pub"
    "dm_expiry (nd_domains (dapp_of (cw_world s')) h) = word_of_nat (t + REGISTRATION_PERIOD)" "clock (cw_world s') \<le> t + 615" "t < 2 ^ 63"
proof (rule send_mined [of "TxRegister name pub secret" "CallRegister name pub secret" "int price" "from" s label])
  fix m reg callee x s'
  assume m: "msg_sender m = from" "int (msg_value m) = int price" "undisturbed h c (dapp_of (cw_world s)) x" "clock (cw_world s) \<le> block_timestamp m + 15"
      "block_timestamp m \<le> clock (cw_world s')" "clock (cw_world s') \<le> clock (cw_world s) + 600"
    and sent: "\<And>x'. dapp_exec S E reg callee m (CallRegister name pub secret) x = Inr x' \<Longrightarrow>
      send L from dapp_addr (int price) label (TxRegister name pub secret) s = (s', Inr ()) \<and> undisturbed h c x' (dapp_of (cw_world s'))"
  have "inactive (block_timestamp m) (nd_domains x (name_hash S name))"
    using inactive_mono [OF assms(12), of "block_timestamp m"] m(3,4) assms(5) by (simp add: undisturbed_def)
  then obtain x' where x': "dapp_exec S E reg callee m (CallRegister name pub secret) x = Inr x'"
    "nd_domains x' h = \<lparr>dm_owner = from, dm_pubKey = pub, dm_expiry = word_of_nat (block_timestamp m + REGISTRATION_PERIOD),
      dm_generation = dm_generation (nd_domains x (name_hash S name)) + 1\<rparr>"
    using reveal_accepted [of name pub E m x S secret ts reg callee] assms m by (auto simp: undisturbed_def)
  show thesis
    by (rule that [of s' "block_timestamp m"]) (use sent [OF x'(1)] x'(2) m assms(11) in \<open>simp_all add: undisturbed_def\<close>)
qed (simp_all add: tx_call_def)

lemma register_completes:
  assumes "connects L co key dapp_addr (cw_world s)" and "contract_validateName name" and "priceOf E name = Inr price"
    and "FromECDSAPub (ol_crypto L) (ec_Public L key) = pub" and "0 < length pub" "length pub \<le> 128" and "key_address L key \<noteq> zero_address"
    and "h = name_hash S name" "c = makeCommitment S name (key_address L key) pub secret"
    and "available S (clock (cw_world s)) (dapp_of (cw_world s)) name" "15 < clock (cw_world s)" "clock (cw_world s) < 2 ^ 61"
  shows "\<exists>s'. cmdRegister L co (name # rest) s = (s', Inr ()) \<and>
    ownerOf S (clock (cw_world s')) (dapp_of (cw_world s')) name = key_address L key \<and> fst (snd (getDomain S (dapp_of (cw_world s')) name)) = pub"
proof -
  let ?from = "key_address L key"
  obtain s1 r where d: "dial L co False s = (s1, Inr \<lparr>cn_dapp = dapp_addr, cn_reg = r, cn_key = key, cn_from = ?from\<rparr>)" and c1: "calm 2 s s1"
    by (rule dial_calm [OF assms(1)])
  obtain s2 where p: "ccall (dapp_PriceOf L dapp_addr name) s1 = (s2, Inr (int price))" and c2: "calm 1 s1 s2"
    by (rule ccall_calm [of "dapp_PriceOf L dapp_addr name" s1 "int price", OF price_answers [OF assms(3)]])
  obtain s3 where rd: "ccall (rand_Read (ol_os L) 32) s2 = (s3, Inr secret)" and c3: "calm 1 s2 s3"
    by (rule ccall_calm [of "rand_Read (ol_os L) 32" s2 secret, OF rand_answers])
  obtain s4 where mk: "ccall (dapp_MakeCommitment L dapp_addr name ?from pub secret) s3 = (s4, Inr c)" and c4: "calm 1 s3 s4"
    by (rule ccall_calm [of "dapp_MakeCommitment L dapp_addr name ?from pub secret" s3 c])
      (use commitment_answers [of name ?from pub secret "cw_world s3"] assms(9) in simp_all)
  have c14: "calm (2 + 1 + 1 + 1) s s4" by (rule calm_trans [OF calm_trans [OF calm_trans [OF c1 c2] c3] c4])
  obtain s5 ts where cm: "send L ?from dapp_addr 0 ''commit'' (TxCommit c) s4 = (s5, Inr ())" and ts: "0 < ts" "nd_commitments (dapp_of (cw_world s5)) c = ts"
    "nd_domains (dapp_of (cw_world s5)) h = nd_domains (dapp_of (cw_world s4)) h" "clock (cw_world s4) \<le> ts + 15" "ts \<le> clock (cw_world s5)"
    "clock (cw_world s4) \<le> clock (cw_world s5)" "clock (cw_world s5) \<le> clock (cw_world s4) + 600"
    by (rule commit_mined [of s4 ?from "''commit''"]) (use assms(11) c14 in \<open>auto simp: calm_def\<close>)
  obtain s6 where ag: "ccall (dapp_MinCommitmentAge L dapp_addr) s5 = (s6, Inr (int MIN_COMMITMENT_AGE))" and c6: "calm 1 s5 s6"
    by (rule ccall_calm [of "dapp_MinCommitmentAge L dapp_addr" s5 "int MIN_COMMITMENT_AGE", OF age_answers])
  obtain s7 where sl: "csleep L (nat (waitSecs (int MIN_COMMITMENT_AGE))) s6 = (s7, Inr ())" and c7: "calm (nat (waitSecs (int MIN_COMMITMENT_AGE))) s6 s7"
    and wt: "clock (cw_world s6) + nat (waitSecs (int MIN_COMMITMENT_AGE)) \<le> clock (cw_world s7)"
    using csleep_calm by blast
  note cl = c14 [unfolded calm_def undisturbed_def] c6 [unfolded calm_def undisturbed_def] c7 [unfolded calm_def undisturbed_def wait_of_contract]
    wt [unfolded wait_of_contract]
  have free: "inactive (clock (cw_world s7) - 15) (nd_domains (dapp_of (cw_world s7)) h)"
    by (rule inactive_mono [of "clock (cw_world s)"]) (use assms(8,10) cl ts in \<open>auto simp: available_def\<close>)
  have win: "nd_commitments (dapp_of (cw_world s7)) c = ts" "ts + 45 \<le> clock (cw_world s7)" "clock (cw_world s7) \<le> ts + 80000"
    "clock (cw_world s7) < 2 ^ 62"
    using cl ts assms(12) by auto
  obtain s8 t where rg: "send L ?from dapp_addr (int price) ''register'' (TxRegister name pub secret) s7 = (s8, Inr ())"
    and dm: "dm_owner (nd_domains (dapp_of (cw_world s8)) h) = ?from" "dm_pubKey (nd_domains (dapp_of (cw_world s8)) h) = pub"
      "dm_expiry (nd_domains (dapp_of (cw_world s8)) h) = word_of_nat (t + REGISTRATION_PERIOD)" "clock (cw_world s8) \<le> t + 615" "t < 2 ^ 63"
    by (rule register_mined [OF assms(2,5,6,3,8,9) win(1) ts(1) win(2-4) free])
  have "cmdRegister L co (name # rest) s = (s8, Inr ())"
    unfolding cmdRegister_def by (simp add: needArg_def cbind_def cresult_def d p rd mk cm ag sl rg assms(4) Let_def)
  moreover have "\<not> inactive (clock (cw_world s8)) (nd_domains (dapp_of (cw_world s8)) h)"
    using dm assms(7) by (simp add: inactive_def REGISTRATION_PERIOD_def unat_word_ariths unat_of_nat)
  ultimately show ?thesis using dm assms(8) by (auto simp: ownerOf_def getDomain_def Let_def)
qed

end

section \<open>A simulated chain\<close>

record sim_world =
  sw_now :: nat
  sw_dapp :: dapp
  sw_registry :: registry
  sw_receipts :: "bool list"

text \<open>A transaction is executed in a block of its own, twelve seconds later; its hash is its position among the receipts.\<close>

definition sim_submit ::
  "sol_lib \<Rightarrow> dapp_env \<Rightarrow> address \<Rightarrow> address \<Rightarrow> address \<Rightarrow> int \<Rightarrow> tx \<Rightarrow> sim_world \<Rightarrow> sim_world \<times> (string + bytes)" where
  "sim_submit S E dapp_addr from a v t w =
     (case tx_call t of
        None \<Rightarrow> (w, Inl ''unknown method'')
      | Some c \<Rightarrow>
          if a \<noteq> dapp_addr \<or> v < 0 then (w, Inl ''no contract code at given address'')
          else
            (let m = \<lparr>msg_sender = from, msg_value = nat v, block_timestamp = sw_now w + 12\<rparr>;
                 r = dapp_exec S E (sw_registry w) plain_account m c (sw_dapp w)
             in (w\<lparr>sw_now := sw_now w + 12, sw_dapp := (case r of Inl _ \<Rightarrow> sw_dapp w | Inr d \<Rightarrow> d),
                   sw_receipts := sw_receipts w @ [isOk r]\<rparr>, Inr (big_Bytes (length (sw_receipts w))))))"

definition sim_owner :: "sol_lib \<Rightarrow> dapp_env \<Rightarrow> address \<Rightarrow> sim_world owner_lib \<Rightarrow> sim_world owner_lib" where
  "sim_owner S E dapp_addr B = B\<lparr>
     ol_client := (ol_client B)\<lparr>cl_dial := (cl_dial (ol_client B))\<lparr>eth_DialContext := (\<lambda>_ w. (w, None))\<rparr>\<rparr>,
     eth_ChainID := (\<lambda>w. (w, Inr 31337)),
     dapp_GetDomain := (\<lambda>_ name w. (w, Inr (domain_view (getDomain S (sw_dapp w) name)))),
     dapp_PriceOf := (\<lambda>_ name w. (w, case priceOf E name of Inl _ \<Rightarrow> Inl ''execution reverted'' | Inr p \<Rightarrow> Inr (int p))),
     dapp_MakeCommitment := (\<lambda>_ name owner pubKey secret w. (w, Inr (makeCommitment S name owner pubKey secret))),
     dapp_MinCommitmentAge := (\<lambda>_ w. (w, Inr (int MIN_COMMITMENT_AGE))),
     eth_Submit := sim_submit S E dapp_addr,
     eth_WaitMined := (\<lambda>h w. (w, Inr (be_nat h < length (sw_receipts w) \<and> sw_receipts w ! be_nat h, []))),
     cli_Sleep := (\<lambda>w. w\<lparr>sw_now := sw_now w + 1\<rparr>)\<rparr>"

lemma plain_exec_runs:
  assumes "dapp_exec S E reg plain_account m c s = Inr s'" and "msg_sender m \<in> A"
  shows "dapp_runs S E A (block_timestamp m) s s'"
  by (rule runs_call [OF runs_refl refl assms(2,1)]) (auto simp: plain_account_def intro: runs_refl)

lemma sim_submit_Inr:
  assumes "sim_submit S E a from b v t w = (w1, Inr h)"
  obtains c where "tx_call t = Some c" "h = big_Bytes (length (sw_receipts w))" "sw_now w1 = sw_now w + 12" "0 \<le> v" "b = a"
    "sw_receipts w1 = sw_receipts w @ [isOk (dapp_exec S E (sw_registry w) plain_account
       \<lparr>msg_sender = from, msg_value = nat v, block_timestamp = sw_now w + 12\<rparr> c (sw_dapp w))]"
    "sw_dapp w1 = (case dapp_exec S E (sw_registry w) plain_account \<lparr>msg_sender = from, msg_value = nat v, block_timestamp = sw_now w + 12\<rparr> c (sw_dapp w) of
       Inl _ \<Rightarrow> sw_dapp w | Inr d \<Rightarrow> d)"
  using assms by (auto simp: sim_submit_def Let_def split: option.splits if_splits)

interpretation sim: deployed_chain "sim_owner S E a B" S E a sw_now sw_dapp for S E a B
proof
  fix "from" v t w w1 h w2 logs c
  assume s: "eth_Submit (sim_owner S E a B) from a v t w = (w1, Inr h)"
    and m: "eth_WaitMined (sim_owner S E a B) h w1 = (w2, Inr (True, logs))" and t: "tx_call t = Some c"
  let ?m = "\<lparr>msg_sender = from, msg_value = nat v, block_timestamp = sw_now w + 12\<rparr>"
  let ?r = "dapp_exec S E (sw_registry w) plain_account ?m c (sw_dapp w)"
  have s': "sim_submit S E a from a v t w = (w1, Inr h)" using s by (simp add: sim_owner_def)
  show "\<exists>m reg callee s s'. msg_sender m = from \<and> int (msg_value m) = v \<and> dapp_history S E UNIV (sw_now w) (sw_dapp w) (block_timestamp m) s \<and>
        dapp_exec S E reg callee m c s = Inr s' \<and> dapp_history S E UNIV (block_timestamp m) s' (sw_now w2) (sw_dapp w2)"
  proof (rule sim_submit_Inr [OF s'])
    fix c' assume f: "tx_call t = Some c'" "h = big_Bytes (length (sw_receipts w))" "sw_now w1 = sw_now w + 12" "0 \<le> v"
      "sw_receipts w1 = sw_receipts w @ [isOk (dapp_exec S E (sw_registry w) plain_account ?m c' (sw_dapp w))]"
      "sw_dapp w1 = (case dapp_exec S E (sw_registry w) plain_account ?m c' (sw_dapp w) of Inl _ \<Rightarrow> sw_dapp w | Inr d \<Rightarrow> d)"
    have w: "w2 = w1" "isOk ?r" using m f t by (auto simp: sim_owner_def nth_append)
    then obtain d where d: "?r = Inr d" by (auto simp: isOk_iff)
    have "dapp_history S E UNIV (sw_now w) (sw_dapp w) (sw_now w + 12) (sw_dapp w)"
      by (rule history_block [OF history_refl]) (simp_all add: runs_refl)
    moreover have "dapp_history S E UNIV (sw_now w + 12) d (sw_now w2) (sw_dapp w2)"
      using f t d w(1) history_refl [of S E UNIV "sw_now w + 12" d] by simp
    ultimately show ?thesis using d f(4) by (intro exI [of _ ?m] exI) auto
  qed
qed (auto simp: sim_owner_def ol_dial_def intro: history_refl)

lemma sim_owner_simps [simp]:
  "eth_DialContext (ol_dial (sim_owner S E a B)) = (\<lambda>_ w. (w, None))" "eth_ChainID (sim_owner S E a B) = (\<lambda>w. (w, Inr 31337))"
  "dapp_MakeCommitment (sim_owner S E a B) = (\<lambda>_ name owner pubKey secret w. (w, Inr (makeCommitment S name owner pubKey secret)))"
  "dapp_MinCommitmentAge (sim_owner S E a B) = (\<lambda>_ w. (w, Inr (int MIN_COMMITMENT_AGE)))"
  "dapp_PriceOf (sim_owner S E a B) = (\<lambda>_ name w. (w, case priceOf E name of Inl _ \<Rightarrow> Inl ''execution reverted'' | Inr p \<Rightarrow> Inr (int p)))"
  "ol_os (sim_owner S E a B) = ol_os B" "ec_Public (sim_owner S E a B) = ec_Public B" "ol_crypto (sim_owner S E a B) = ol_crypto B"
  "dapp_GetDomain (sim_owner S E a B) = (\<lambda>_ name w. (w, Inr (domain_view (getDomain S (sw_dapp w) name))))"
  "key_address (sim_owner S E a B) key = key_address B key" "loadKey (sim_owner S E a B) k = loadKey B k"
  "cl_unicode (ol_client (sim_owner S E a B)) = cl_unicode (ol_client B)" "cl_zk (ol_client (sim_owner S E a B)) = cl_zk (ol_client B)"
  by (simp_all add: sim_owner_def ol_dial_def ol_crypto_def key_address_def loadKey_def Let_def)

lemma sim_dial:
  assumes "connects (sim_owner S E a B) co key a (cw_world s)"
  shows "\<exists>r. dial (sim_owner S E a B) co False s = (s, Inr \<lparr>cn_dapp = a, cn_reg = r, cn_key = key, cn_from = key_address B key\<rparr>)"
proof -
  obtain r where r: "resolveAddrs (sim_owner S E a B) (co_deployments co) (co_namespace co) (co_registry co) (cw_world s) = (a, r)"
    using assms unfolding connects_def by (metis prod.collapse)
  have "dial_key (sim_owner S E a B) rpc key s = (s, Inr ())" for rpc
    using assms by (simp add: dial_key_def cbind_def ccall_def cerr_def connects_def)
  then show ?thesis using assms r by (simp add: dial_def cbind_def cresult_def cread_def cerr_def creturn_def connects_def)
qed

lemma sim_send:
  assumes "tx_call t = Some c" "0 \<le> v" "dapp_exec S E (sw_registry (cw_world s)) plain_account
      \<lparr>msg_sender = from, msg_value = nat v, block_timestamp = sw_now (cw_world s) + 12\<rparr> c (sw_dapp (cw_world s)) = Inr d"
  shows "send (sim_owner S E a B) from a v label t s =
    (s\<lparr>cw_world := (cw_world s)\<lparr>sw_now := sw_now (cw_world s) + 12, sw_dapp := d, sw_receipts := sw_receipts (cw_world s) @ [True]\<rparr>,
       cw_log := cw_log s @ [Sent from a v t]\<rparr>, Inr ())"
  using assms by (simp add: send_def send_logs_def cbind_def ccall_def clog_def creturn_def)
    (simp add: sim_owner_def sim_submit_def Let_def cbind_def ccall_def clog_def creturn_def)

text \<open>Reading the simulated chain; it keeps no block numbers of logs and has no filters.\<close>

definition sim_api :: "sol_lib \<Rightarrow> sim_world rpc_api" where
  "sim_api S = \<lparr>
     api_blockNumber = (\<lambda>w. (w, Inr (word_of_nat (length (sw_receipts w))))),
     api_resolve = (\<lambda>name ty sel w. (w, Inr (resolve S (sw_now w) (sw_dapp w) name ty sel))),
     api_getDomain = (\<lambda>name w. (w, Inr (getDomain S (sw_dapp w) name))),
     api_listRecords = (\<lambda>name w. (w, Inr (listRecords S (sw_now w) (sw_dapp w) name))),
     api_listTypes = (\<lambda>w. (w, Inr (listTypes (sw_registry w)))),
     api_filter = (\<lambda>_ _ _ w. (w, Inl ''not supported'')),
     api_sleep = (\<lambda>_ w. (w, None)), api_tick = (\<lambda>w. (w, None)), api_ctxErr = (\<lambda>_. None)\<rparr>"

definition sim_base :: "sim_world owner_lib" where
  "sim_base = \<lparr>
     ol_client = \<lparr>cl_crypto = toy_crypto, cl_zk = small_zk, cl_sniff = se_sniff resource_server_env, cl_unicode = ascii_only,
       cl_dial = sample_dial\<lparr>HexToAddress := (\<lambda>_. [1])\<rparr>, cl_api = (\<lambda>_. sim_api sample_sol), cl_ActiveResolvers = (\<lambda>_ w. (w, Inl ''eof'')),
       cl_NewResolverRegistry = (\<lambda>_. None), cl_Get = (\<lambda>_ w. (w, Inl ''eof'')), cl_envelope = (\<lambda>_. None), cl_response = (\<lambda>_. Inl ''eof''),
       cl_ReadFile = (\<lambda>_ _. None), cl_WriteFile = (\<lambda>_ _ w. (w, None)), cl_deployment = (\<lambda>_. None), cl_env = Map.empty\<rparr>,
     ol_torrent = \<lparr>tl_FromHexString = (\<lambda>_. None), tl_Sum256 = id, tl_AddTorrentInfoHash = (\<lambda>_ w. w), tl_AddTorrentOpt = (\<lambda>_ _ _ w. w),
       tl_ResolvePeer = (\<lambda>_. None), tl_AddPeer = (\<lambda>_ _ w. w), tl_GotInfo = (\<lambda>_ w. (w, None)), tl_Length = (\<lambda>_ _. 0),
       tl_Download = (\<lambda>_ w. (w, Inl ''eof'')), tl_Torrent = (\<lambda>_ _. False), tl_Drop = (\<lambda>_ w. w), tl_ReadFile = (\<lambda>_ _. Inl ''eof''),
       tl_BuildInfo = (\<lambda>_ _. Inl ''eof''), tl_HashInfoBytes = id\<rparr>,
     ol_os = \<lparr>os_ReadFile = (\<lambda>_ _. FileNotExist), os_MkdirAll = (\<lambda>_ w. (w, None)), os_WriteFile = (\<lambda>_ _ w. (w, None)),
       rand_Read = (\<lambda>n w. (w, Inr (replicate n 9)))\<rparr>,
     ol_listen = (\<lambda>_. []), HexToECDSA = (\<lambda>_. Inr [7]), ec_Public = id, FromHex = str_bytes, eth_ChainID = (\<lambda>w. (w, Inr 1)),
     NewKeyedTransactor = (\<lambda>_ _. None), dapp_GetDomain = (\<lambda>_ _ w. (w, Inl ''eof'')), dapp_PriceOf = (\<lambda>_ _ w. (w, Inl ''eof'')),
     dapp_MakeCommitment = (\<lambda>_ _ _ _ _ w. (w, Inl ''eof'')), dapp_MinCommitmentAge = (\<lambda>_ w. (w, Inl ''eof'')),
     eth_Submit = (\<lambda>_ _ _ _ w. (w, Inl ''eof'')), eth_WaitMined = (\<lambda>_ w. (w, Inl ''eof'')), cli_Sleep = id,
     MkdirTemp = (\<lambda>w. (w, Inl ''eof'')), TypeByExtension = (\<lambda>_. []), stats_resolver = (\<lambda>_. Inl ''eof''),
     NewResolverIncentives = (\<lambda>_. None), ParseChannelOpened = (\<lambda>_. None)\<rparr>"

definition sim_start :: "sim_world cli" where
  "sim_start = \<lparr>cw_world = \<lparr>sw_now = 1000, sw_dapp = snd (dapp_constructor 10 [1]), sw_registry = sample_registry, sw_receipts = []\<rparr>, cw_log = []\<rparr>"

abbreviation sim_tool :: "sim_world owner_lib" where "sim_tool \<equiv> sim_owner sample_sol sample_env [1] sim_base"

lemma short_address: "length b \<noteq> 20 \<Longrightarrow> b \<noteq> zero_address"
  by (auto simp: zero_address_def)

lemma sim_base_simps:
  "ol_crypto sim_base = toy_crypto" "ec_Public sim_base = id" "rand_Read (ol_os sim_base) n w = (w, Inr (replicate n 9))"
  "cl_unicode (ol_client sim_base) = ascii_only" "loadKey sim_base ''07'' = Inr [7]" "key_address sim_base [7] = [7]"
  by (simp_all add: sim_base_def ol_crypto_def loadKey_def Let_def key_address_def toy_crypto_def)

lemma sim_connects: "connects sim_tool sample_common [7] [1] w"
  by (simp add: connects_def sim_base_simps(5) sample_common_def short_address)
    (simp add: resolveAddrs_def sim_owner_def ol_dial_def sim_base_def sample_dial_def Let_def short_address)

interpretation sim_reg: registering_chain sim_tool sample_sol sample_env "[1]" sw_now sw_dapp h c "replicate 32 9" for h c
proof
  fix t call and v :: int and "from" :: address and w :: sim_world
  assume t: "tx_call t = Some call" "0 \<le> v"
  let ?m = "\<lparr>msg_sender = from, msg_value = nat v, block_timestamp = sw_now w + 12\<rparr>"
  let ?r = "dapp_exec sample_sol sample_env (sw_registry w) plain_account ?m call (sw_dapp w)"
  define w1 where "w1 = w\<lparr>sw_now := sw_now w + 12, sw_dapp := (case ?r of Inl _ \<Rightarrow> sw_dapp w | Inr d \<Rightarrow> d), sw_receipts := sw_receipts w @ [isOk ?r]\<rparr>"
  have s: "eth_Submit sim_tool from [1] v t w = (w1, Inr (big_Bytes (length (sw_receipts w))))"
    using t by (simp add: sim_owner_def sim_submit_def Let_def w1_def)
  have m: "eth_WaitMined sim_tool (big_Bytes (length (sw_receipts w))) w1 = (w1, Inr (isOk ?r, []))"
    by (simp add: sim_owner_def w1_def nth_append)
  show "\<exists>w1 hsh w2 logs m reg callee x. eth_Submit sim_tool from [1] v t w = (w1, Inr hsh) \<and>
      eth_WaitMined sim_tool hsh w1 = (w2, Inr (isOk (dapp_exec sample_sol sample_env reg callee m call x), logs)) \<and>
      msg_sender m = from \<and> int (msg_value m) = v \<and> undisturbed h c (sw_dapp w) x \<and>
      undisturbed h c (case dapp_exec sample_sol sample_env reg callee m call x of Inl _ \<Rightarrow> x | Inr x' \<Rightarrow> x') (sw_dapp w2) \<and>
      sw_now w \<le> block_timestamp m + 15 \<and> block_timestamp m \<le> sw_now w2 \<and> sw_now w \<le> sw_now w2 \<and> sw_now w2 \<le> sw_now w + 600"
    by (intro exI conjI, rule s, rule m) (use t in \<open>simp_all add: w1_def undisturbed_refl\<close>)
next
  show "undisturbed h c (sw_dapp w) (sw_dapp (cli_Sleep sim_tool w)) \<and> sw_now w + 1 \<le> sw_now (cli_Sleep sim_tool w) \<and>
      sw_now (cli_Sleep sim_tool w) \<le> sw_now w + 600" for w
    by (simp add: sim_owner_def undisturbed_refl)
qed (simp_all add: undisturbed_refl sim_base_simps)

section \<open>Properties\<close>

text \<open>
  C22: \<open>ddns register\<close> works against the contract: for a valid name that is free and a key with an address, the tool's wait is long enough and
  its commitment, key and fee are what the contract wants, so that the command succeeds and the name then belongs to the key, with the
  key's public key. The wait covers the minimum age of the commitment although a block may be stamped up to fifteen seconds before the
  transaction in it was sent. (The endpoint answers within ten minutes each time, transactions are mined, and nobody else touches the name or the
  commitment in between; clock times have 61 bits.)
\<close>

theorem register_succeeds_on_chain:
  assumes "registering_chain L S E dapp_addr clock dapp_of (name_hash S name) (makeCommitment S name (key_address L key) pub secret) secret"
    and "connects L co key dapp_addr (cw_world s)" and "contract_validateName name" and "priceOf E name = Inr price"
    and "FromECDSAPub (ol_crypto L) (ec_Public L key) = pub" and "0 < length pub" and "length pub \<le> 128" and "key_address L key \<noteq> zero_address"
    and "available S (clock (cw_world s)) (dapp_of (cw_world s)) name" and "15 < clock (cw_world s)" and "clock (cw_world s) < 2 ^ 61"
  shows "\<exists>s'. cmdRegister L co (name # rest) s = (s', Inr ()) \<and>
    ownerOf S (clock (cw_world s')) (dapp_of (cw_world s')) name = key_address L key \<and>
    fst (snd (getDomain S (dapp_of (cw_world s')) name)) = pub"
  by (rule registering_chain.register_completes [OF assms(1-8) refl refl assms(9-11)])

theorem register_succeeds_on_chain_witness:
  "\<exists>s'. cmdRegister sim_tool sample_common [''example''] sim_start = (s', Inr ()) \<and>
     ownerOf sample_sol (sw_now (cw_world s')) (sw_dapp (cw_world s')) ''example'' = [7]"
proof -
  have "\<exists>s'. cmdRegister sim_tool sample_common [''example''] sim_start = (s', Inr ()) \<and>
    ownerOf sample_sol (sw_now (cw_world s')) (sw_dapp (cw_world s')) ''example'' = key_address sim_tool [7] \<and>
    fst (snd (getDomain sample_sol (sw_dapp (cw_world s')) ''example'')) = [7]"
    by (rule register_succeeds_on_chain [where price = 10, OF sim_reg.registering_chain_axioms sim_connects])
      (simp_all add: sim_base_simps sim_start_def contract_validateName_def le_char_iff available_def inactive_def dapp_constructor_def
        zero_domain_def priceOf_def sample_env_def short_address toy_crypto_def)
  then show ?thesis by (auto simp: sim_base_simps)
qed

text \<open>The world in which the key \<open>[7]\<close> owns the name, for the properties about records.\<close>

definition sim_dapp :: dapp where
  "sim_dapp = projr (dapp_sample
     [(sample_msg [7] 0 100, CallCommit (makeCommitment sample_sol ''example'' [7] [7] sample_secret)),
      (sample_msg [7] 10 200, CallRegister ''example'' [7] sample_secret)] (snd (dapp_constructor 10 [1])))"

definition sim_owned :: "sim_world cli" where
  "sim_owned = \<lparr>cw_world = \<lparr>sw_now = 300, sw_dapp = sim_dapp, sw_registry = sample_registry, sw_receipts = []\<rparr>, cw_log = []\<rparr>"

lemma sim_dapp_domain:
  "nd_domains sim_dapp (name_hash sample_sol ''example'') = \<lparr>dm_owner = [7], dm_pubKey = [7], dm_expiry = 31536200, dm_generation = 1\<rparr>"
  by (simp add: sim_dapp_def sample_eval short_address Let_def)

lemma sim_set_executes:
  "\<exists>d. dapp_exec sample_sol sample_env sample_registry plain_account \<lparr>msg_sender = [7], msg_value = 0, block_timestamp = 312\<rparr>
     (CallSetRecord ''example'' ''A'' [] [''address''] [''1.2.3.4''] 60 sg com) sim_dapp = Inr d \<and>
     nd_logs d = nd_logs sim_dapp @ [RecordSet (name_hash sample_sol ''example'') ''example'' (recordKeyOf sample_sol ''A'' []) ''A'' [] 60] \<and>
     \<not> inactive 312 (nd_domains d (name_hash sample_sol ''example''))"
  by (simp add: dapp_exec_def setRecord_def require_owner_def sim_dapp_domain check_record_def checkMandatoryFields_def sample_registry_A
      MAX_RECORD_FIELDS_def MAX_SELECTOR_LENGTH_def MAX_FIELD_NAME_LENGTH_def MAX_FIELD_VALUE_LENGTH_def Let_def inactive_def short_address)

lemma sim_set:
  "\<exists>s'. cmdSet sim_tool sample_common [] 60 [''example'', ''A'', ''address=1.2.3.4''] sim_owned = (s', Inr ()) \<and>
     sw_now (cw_world s') = 312 \<and> \<not> inactive 312 (nd_domains (sw_dapp (cw_world s')) (name_hash sample_sol ''example'')) \<and>
     nd_logs (sw_dapp (cw_world s')) = nd_logs (sw_dapp (cw_world sim_owned)) @
       [RecordSet (name_hash sample_sol ''example'') ''example'' (recordKeyOf sample_sol ''A'' []) ''A'' [] 60]"
proof -
  let ?rec = "new_record ''A'' [] [''address''] [''1.2.3.4''] 60 1"
  have p: "parsePairs_loop [''address=1.2.3.4''] = Inr ([''address''], [''1.2.3.4''])" by simp
  have cn: "canonical ascii_only [] = Inr []" by (simp add: canonical_def ParseSelectorString_def ParsePairs_def CanonicalSelector_def)
  obtain r where d: "dial sim_tool sample_common False sim_owned = (sim_owned, Inr \<lparr>cn_dapp = [1], cn_reg = r, cn_key = [7], cn_from = [7]\<rparr>)"
    using sim_dial [OF sim_connects] by (auto simp: sim_base_simps)
  have g: "generationOf sim_tool \<lparr>cn_dapp = [1], cn_reg = r, cn_key = [7], cn_from = [7]\<rparr> ''example'' sim_owned = (sim_owned, Inr 1)"
    by (simp add: generationOf_def cbind_def ccall_def creturn_def domain_view_def getDomain_def sim_owned_def sim_dapp_domain short_address Let_def)
  obtain m where m: "RecordMessage toy_crypto ''example'' ?rec = Some m" "length m \<le> 496" "m \<noteq> []"
    by (simp add: RecordMessage_def field_pairs_def new_record_def toy_crypto_def writeStr16_def str_bytes_def)
  obtain sg where sg: "SignRecord toy_crypto ''example'' ?rec [7] = Inr sg"
    using m by (simp add: SignRecord_def) (simp add: toy_crypto_def)
  obtain es where "PackMessage m = Inr es" using m(2) by (simp add: PackMessage_def MaxPayload_def ChunkSize_def MaxChunks_def)
  then have cm: "Commitment (cl_zk (ol_client sim_base)) m = Inr (replicate 32 1)"
    by (simp add: sim_base_def Commitment_def small_zk_def lift_zk_def)
  obtain dd where ex: "dapp_exec sample_sol sample_env sample_registry plain_account \<lparr>msg_sender = [7], msg_value = 0, block_timestamp = 312\<rparr>
      (CallSetRecord ''example'' ''A'' [] [''address''] [''1.2.3.4''] 60 sg (replicate 32 1)) sim_dapp = Inr dd"
    and l: "nd_logs dd = nd_logs sim_dapp @ [RecordSet (name_hash sample_sol ''example'') ''example'' (recordKeyOf sample_sol ''A'' []) ''A'' [] 60]"
      "\<not> inactive 312 (nd_domains dd (name_hash sample_sol ''example''))"
    using sim_set_executes by blast
  have "\<exists>s'. send sim_tool [7] [1] 0 ''setRecord'' (TxSetRecord ''example'' ''A'' [] [''address''] [''1.2.3.4''] 60 sg (replicate 32 1)) sim_owned =
      (s', Inr ()) \<and> sw_now (cw_world s') = 312 \<and> sw_dapp (cw_world s') = dd"
    using sim_send [of _ "CallSetRecord ''example'' ''A'' [] [''address''] [''1.2.3.4''] 60 sg (replicate 32 1)" 0 sample_sol sample_env sim_owned "[7]" dd "[1]" sim_base] ex
    by (simp add: tx_call_def sim_owned_def)
  moreover have rf: "rType ?rec = ''A''" "rSelector ?rec = []" "rFieldNames ?rec = [''address'']" "rFieldVals ?rec = [''1.2.3.4'']" "rTTL ?rec = 60"
    by (simp_all add: new_record_def)
  ultimately show ?thesis
    by (simp add: cmdSet_def cbind_def cresult_def needArg_def p cn d g sign_and_set_def sim_base_simps sg m cm rf)
      (use l in \<open>auto simp: sim_owned_def\<close>)
qed

end
