(* ===== verification/Log_Iterator.thy ===== *)
theory Log_Iterator
  imports Ddns_Prelude "HOL-Library.Sublist"
begin

text \<open>
  The log iterators of the generated bindings, src/resolver/internal/chain/bindings: \<open>FilterXxx\<close> returns an iterator over a channel, which a
  goroutine of the filter library fills while the caller takes events out of it with \<open>Next\<close>. All iterators of the bindings have the same
  code; it is modelled once, for any type of logs and events. \<open>it_Next\<close> is a relation, since a \<open>select\<close> may take any case that is ready.

  The goroutine is not part of the program. \<open>feed_step\<close> is what its documentation says: it sends the logs it found in order, as long as the
  channel has room, then reports success on the subscription; or it reports an error, at any time.
\<close>

section \<open>Definitions\<close>

record 'l log_feed =
  lf_logs :: "'l list"
  lf_pending :: "'l list"
  lf_err :: "string option option"

definition feed_of :: "'l list \<Rightarrow> 'l log_feed" where
  "feed_of ls = \<lparr>lf_logs = [], lf_pending = ls, lf_err = None\<rparr>"

inductive feed_step :: "nat \<Rightarrow> 'l log_feed \<Rightarrow> 'l log_feed \<Rightarrow> bool" for cap where
  feed_send: "lf_err f = None \<Longrightarrow> lf_pending f = l # ls \<Longrightarrow> length (lf_logs f) < cap \<Longrightarrow>
    feed_step cap f (f\<lparr>lf_logs := lf_logs f @ [l], lf_pending := ls\<rparr>)"
| feed_end: "lf_err f = None \<Longrightarrow> lf_pending f = [] \<Longrightarrow> feed_step cap f (f\<lparr>lf_err := Some None\<rparr>)"
| feed_fail: "lf_err f = None \<Longrightarrow> feed_step cap f (f\<lparr>lf_err := Some (Some e)\<rparr>)"

record 'e log_iterator =
  it_Event :: "'e option"
  it_event :: string
  it_done :: bool
  it_fail :: "string option"

definition new_iterator :: "string \<Rightarrow> 'e log_iterator" where
  "new_iterator ev = \<lparr>it_Event = None, it_event = ev, it_done = False, it_fail = None\<rparr>"

text \<open>The common body of the cases that receive a log: unpack it into a new event, or fail.\<close>

definition it_take :: "(string \<Rightarrow> 'l \<Rightarrow> string + 'e) \<Rightarrow> 'e log_iterator \<Rightarrow> 'l \<Rightarrow> bool \<times> 'e log_iterator" where
  "it_take unpack it l =
     (case unpack (it_event it) l of
        Inl err \<Rightarrow> (False, it\<lparr>it_Event := None, it_fail := Some err\<rparr>)
      | Inr e \<Rightarrow> (True, it\<lparr>it_Event := Some e\<rparr>))"

inductive it_Next ::
  "nat \<Rightarrow> (string \<Rightarrow> 'l \<Rightarrow> string + 'e) \<Rightarrow> 'e log_iterator \<times> 'l log_feed \<Rightarrow> bool \<Rightarrow> 'e log_iterator \<times> 'l log_feed \<Rightarrow> bool"
  for cap unpack where
  next_failed: "it_fail it \<noteq> None \<Longrightarrow> it_Next cap unpack (it, f) False (it, f)"
| next_log: "it_fail it = None \<Longrightarrow> lf_logs f = l # ls \<Longrightarrow> it_take unpack it l = (b, it') \<Longrightarrow>
    it_Next cap unpack (it, f) b (it', f\<lparr>lf_logs := ls\<rparr>)"
| next_empty: "it_fail it = None \<Longrightarrow> it_done it \<Longrightarrow> lf_logs f = [] \<Longrightarrow> it_Next cap unpack (it, f) False (it, f)"
| next_sub: "it_fail it = None \<Longrightarrow> \<not> it_done it \<Longrightarrow> lf_err f = Some err \<Longrightarrow>
    it_Next cap unpack (it\<lparr>it_done := True, it_fail := err\<rparr>, f) b s \<Longrightarrow> it_Next cap unpack (it, f) b s"
| next_wait: "it_fail it = None \<Longrightarrow> feed_step cap f f' \<Longrightarrow> it_Next cap unpack (it, f') b s \<Longrightarrow> it_Next cap unpack (it, f) b s"

text \<open>\<open>for it.Next() { handle(it.Event) }\<close>: the events that the body of the loop sees.\<close>

inductive it_drain ::
  "nat \<Rightarrow> (string \<Rightarrow> 'l \<Rightarrow> string + 'e) \<Rightarrow> 'e log_iterator \<times> 'l log_feed \<Rightarrow> 'e list \<Rightarrow> 'e log_iterator \<times> 'l log_feed \<Rightarrow> bool"
  for cap unpack where
  drain_stop: "it_Next cap unpack s False s' \<Longrightarrow> it_drain cap unpack s [] s'"
| drain_event: "it_Next cap unpack s True s1 \<Longrightarrow> it_Event (fst s1) = Some e \<Longrightarrow> it_drain cap unpack s1 es s2 \<Longrightarrow>
    it_drain cap unpack s (e # es) s2"

section \<open>The invariant\<close>

text \<open>\<open>got\<close> are the logs that have been taken out: they, the channel and what is still to be sent are all the logs.\<close>

definition it_inv :: "string \<Rightarrow> 'l list \<Rightarrow> 'l list \<Rightarrow> 'e log_iterator \<times> 'l log_feed \<Rightarrow> bool" where
  "it_inv ev ls got s \<longleftrightarrow>
     (case s of (it, f) \<Rightarrow>
        it_event it = ev \<and> ls = got @ lf_logs f @ lf_pending f \<and> (lf_err f = Some None \<longrightarrow> lf_pending f = []) \<and>
        (it_done it \<longrightarrow> it_fail it = None \<longrightarrow> lf_err f = Some None))"

lemma it_inv_new: "it_inv ev ls [] (new_iterator ev, feed_of ls)"
  by (simp add: it_inv_def new_iterator_def feed_of_def)

lemma feed_step_inv: "feed_step cap f f' \<Longrightarrow> it_inv ev ls got (it, f) \<Longrightarrow> it_inv ev ls got (it, f')"
  by (erule feed_step.cases) (auto simp: it_inv_def)

lemma it_take_True: "it_take unpack it l = (True, it') \<longleftrightarrow> (\<exists>e. unpack (it_event it) l = Inr e \<and> it' = it\<lparr>it_Event := Some e\<rparr>)"
  by (auto simp: it_take_def split: sum.splits)

lemma it_take_False:
  "it_take unpack it l = (False, it') \<longleftrightarrow>
   (\<exists>err. unpack (it_event it) l = Inl err \<and> it' = it\<lparr>it_Event := None, it_fail := Some err\<rparr>)"
  by (auto simp: it_take_def split: sum.splits)

lemma it_Next_True:
  assumes "it_Next cap unpack s b s'" and "it_inv ev ls got s" and b
  shows "\<exists>l e. unpack ev l = Inr e \<and> it_Event (fst s') = Some e \<and> it_fail (fst s') = None \<and> it_inv ev ls (got @ [l]) s'"
  using assms
proof (induction rule: it_Next.induct)
  case (next_log it f l ls' b it')
  then show ?case by (auto simp: it_take_True it_inv_def)
next
  case (next_sub it f err b s)
  then show ?case by (auto simp: it_inv_def)
next
  case (next_wait it f f' b s)
  then show ?case using feed_step_inv by blast
qed simp_all

lemma it_Next_False:
  assumes "it_Next cap unpack s b s'" and "it_inv ev ls got s" and "\<not> b" and "it_fail (fst s') = None"
  shows "got = ls"
  using assms
proof (induction rule: it_Next.induct)
  case (next_log it f l ls' b it')
  then show ?case by (auto simp: it_take_False)
next
  case (next_sub it f err b s)
  then show ?case by (auto simp: it_inv_def)
next
  case (next_wait it f f' b s)
  then show ?case using feed_step_inv by blast
qed (auto simp: it_inv_def)

text \<open>What stopped the iterator, when it failed.\<close>

lemma it_Next_fail:
  assumes "it_Next cap unpack s b s'" and "it_inv ev ls got s" and "\<not> b" and "it_fail (fst s) = None" and "it_fail (fst s') = Some err"
  shows "lf_err (snd s') = Some (Some err) \<or> (\<exists>l rest. ls = got @ l # rest \<and> unpack ev l = Inl err)"
  using assms
proof (induction rule: it_Next.induct)
  case (next_log it f l ls' b it')
  then show ?case by (auto simp: it_take_False it_inv_def)
next
  case (next_sub it f e b s)
  then show ?case
  proof (cases e)
    case (Some x)
    with next_sub.hyps(4) have "s = (it\<lparr>it_done := True, it_fail := e\<rparr>, f)" by (auto elim: it_Next.cases)
    then show ?thesis using next_sub.hyps(3) next_sub.prems(4) Some by simp
  qed (auto simp: it_inv_def)
next
  case (next_wait it f f' b s)
  then show ?case using feed_step_inv [OF next_wait.hyps(2) next_wait.prems(1)] by simp
qed simp_all

section \<open>Draining\<close>

lemma drain_from:
  assumes "it_drain cap unpack s es s'" and "it_inv ev ls got s"
  shows "\<exists>new. map (unpack ev) new = map Inr es \<and> prefix (got @ new) ls \<and> (it_fail (fst s') = None \<longrightarrow> got @ new = ls) \<and>
    (\<forall>err. it_fail (fst s) = None \<longrightarrow> it_fail (fst s') = Some err \<longrightarrow>
       lf_err (snd s') = Some (Some err) \<or> (\<exists>l rest. ls = got @ new @ l # rest \<and> unpack ev l = Inl err))"
  using assms
proof (induction arbitrary: got rule: it_drain.induct)
  case (drain_stop s s')
  have "prefix got ls" using drain_stop.prems by (auto simp: it_inv_def)
  then show ?case
    using it_Next_False [OF drain_stop.hyps drain_stop.prems] it_Next_fail [OF drain_stop.hyps drain_stop.prems]
    by (intro exI [of _ "[]"]) auto
next
  case (drain_event s s1 e es s2)
  obtain l e' where l: "unpack ev l = Inr e'" "it_Event (fst s1) = Some e'" "it_fail (fst s1) = None" "it_inv ev ls (got @ [l]) s1"
    using it_Next_True [OF drain_event.hyps(1) drain_event.prems] by auto
  from drain_event.IH [OF l(4)] obtain new where new: "map (unpack ev) new = map Inr es" "prefix ((got @ [l]) @ new) ls"
    "it_fail (fst s2) = None \<longrightarrow> (got @ [l]) @ new = ls"
    "\<forall>err. it_fail (fst s2) = Some err \<longrightarrow> lf_err (snd s2) = Some (Some err) \<or> (\<exists>k rest. ls = (got @ [l]) @ new @ k # rest \<and> unpack ev k = Inl err)"
    using l(3) by auto
  show ?case using new l(1,2) drain_event.hyps(2) by (intro exI [of _ "l # new"]) auto
qed

text \<open>\<open>Next\<close> is never stuck: the goroutine can always make it return.\<close>

lemma it_Next_ready:
  assumes "it_fail it \<noteq> None \<or> lf_logs f \<noteq> [] \<or> it_done it"
  shows "\<exists>b s'. it_Next cap unpack (it, f) b s'"
proof (cases "it_fail it = None")
  case True
  show ?thesis
  proof (cases "lf_logs f")
    case Nil
    then show ?thesis using True assms next_empty [of it f cap unpack] by blast
  next
    case (Cons l ls)
    obtain b it' where "it_take unpack it l = (b, it')" by fastforce
    then show ?thesis using next_log [OF True Cons] by blast
  qed
next
  case False
  then show ?thesis using next_failed [of it cap unpack f] by blast
qed

lemma it_Next_total:
  assumes "0 < cap"
  shows "\<exists>b s'. it_Next cap unpack (it, f) b s'"
proof (cases "it_fail it \<noteq> None \<or> lf_logs f \<noteq> [] \<or> it_done it")
  case False
  have ended: "\<exists>b s'. it_Next cap unpack (it, g) b s'" if "lf_err g = Some err" for g err
  proof -
    obtain b s' where "it_Next cap unpack (it\<lparr>it_done := True, it_fail := err\<rparr>, g) b s'"
      using it_Next_ready [of "it\<lparr>it_done := True, it_fail := err\<rparr>" g cap unpack] by auto
    with next_sub [OF _ _ that] False show ?thesis by blast
  qed
  show ?thesis
  proof (cases "lf_err f")
    case None
    show ?thesis
    proof (cases "lf_pending f")
      case Nil
      have "\<exists>b s'. it_Next cap unpack (it, f\<lparr>lf_err := Some None\<rparr>) b s'" by (rule ended) simp
      then show ?thesis using next_wait [OF _ feed_end [OF None Nil], of it] False by blast
    next
      case (Cons l ls)
      have "length (lf_logs f) < cap" using False assms by simp
      note step = feed_send [OF None Cons this]
      have "\<exists>b s'. it_Next cap unpack (it, f\<lparr>lf_logs := lf_logs f @ [l], lf_pending := ls\<rparr>) b s'" by (rule it_Next_ready) simp
      then show ?thesis using next_wait [OF _ step, of it] False by blast
    qed
  qed (rule ended)
qed (rule it_Next_ready)

lemma drain_total:
  assumes "it_inv ev ls got s" and "0 < cap"
  shows "\<exists>es s'. it_drain cap unpack s es s'"
  using assms(1)
proof (induction "length ls - length got" arbitrary: s got rule: less_induct)
  case less
  obtain b s' where n: "it_Next cap unpack s b s'" using it_Next_total [OF assms(2), of unpack "fst s" "snd s"] by auto
  show ?case
  proof (cases b)
    case True
    obtain l e where l: "it_Event (fst s') = Some e" "it_inv ev ls (got @ [l]) s'" using it_Next_True [OF n less.prems True] by blast
    have "length ls - length (got @ [l]) < length ls - length got" using l(2) by (cases s') (auto simp: it_inv_def)
    from less.hyps [OF this l(2)] obtain es s2 where "it_drain cap unpack s' es s2" by blast
    with drain_event [of cap unpack s s' e es s2] n True l(1) have "it_drain cap unpack s (e # es) s2" by simp
    then show ?thesis by blast
  next
    case False
    then show ?thesis using drain_stop n by fastforce
  qed
qed

section \<open>Properties\<close>

text \<open>
  C23: Iterating over a filter loses no log. However the caller and the goroutine that fills the channel are scheduled, the loop over the iterator
  can end, and when it has ended its body has seen the events of the logs found, in order: of all of them if \<open>Error\<close> is nil, and otherwise
  of those before the failure, which is the error of the subscription or that of unpacking the next log.
\<close>

theorem iterator_loses_no_log:
  assumes "0 < cap"
  shows "(\<exists>es s. it_drain cap unpack (new_iterator ev, feed_of ls) es s) \<and>
    (\<forall>es it f. it_drain cap unpack (new_iterator ev, feed_of ls) es (it, f) \<longrightarrow>
       (\<exists>n \<le> length ls. map (unpack ev) (take n ls) = map Inr es \<and> (it_fail it = None \<longrightarrow> n = length ls) \<and>
          (\<forall>err. it_fail it = Some err \<longrightarrow> lf_err f = Some (Some err) \<or> n < length ls \<and> unpack ev (ls ! n) = Inl err)))"
proof (intro conjI allI impI)
  show "\<exists>es s. it_drain cap unpack (new_iterator ev, feed_of ls) es s" by (rule drain_total [OF it_inv_new assms])
  fix es it f assume d: "it_drain cap unpack (new_iterator ev, feed_of ls) es (it, f)"
  obtain new where new: "map (unpack ev) new = map Inr es" "prefix new ls" "it_fail it = None \<longrightarrow> new = ls"
    "\<forall>err. it_fail it = Some err \<longrightarrow> lf_err f = Some (Some err) \<or> (\<exists>l rest. ls = new @ l # rest \<and> unpack ev l = Inl err)"
    using drain_from [OF d it_inv_new] by (auto simp: new_iterator_def)
  have n: "length new \<le> length ls" "take (length new) ls = new" using new(2) by (auto simp: prefix_def)
  have "n < length ls \<and> unpack ev (ls ! n) = Inl err" if "ls = new @ l # rest" "unpack ev l = Inl err" "n = length new" for l rest err n
    using that by simp
  with new n show "\<exists>n \<le> length ls. map (unpack ev) (take n ls) = map Inr es \<and> (it_fail it = None \<longrightarrow> n = length ls) \<and>
      (\<forall>err. it_fail it = Some err \<longrightarrow> lf_err f = Some (Some err) \<or> n < length ls \<and> unpack ev (ls ! n) = Inl err)"
    by (intro exI [of _ "length new"]) auto
qed

theorem iterator_loses_no_log_witness:
  "\<exists>es it f. it_drain 1 (\<lambda>ev l. Inr l) (new_iterator ''RecordSet'', feed_of [4, 5 :: nat]) es (it, f) \<and> (it_fail it = None \<longrightarrow> es = [4, 5])"
proof -
  note t = iterator_loses_no_log [of 1 "\<lambda>ev l. Inr l" "''RecordSet''" "[4, 5 :: nat]"]
  obtain es it f where d: "it_drain 1 (\<lambda>ev l. Inr l) (new_iterator ''RecordSet'', feed_of [4, 5 :: nat]) es (it, f)" using t by fastforce
  then have "it_fail it = None \<longrightarrow> map Inr [4, 5 :: nat] = map (Inr :: nat \<Rightarrow> string + nat) es" using t by fastforce
  with d show ?thesis by (intro exI [of _ es] exI [of _ it] exI [of _ f]) auto
qed

end
