(* ===== verification/Contract_Bindings.thy ===== *)
theory Contract_Bindings
  imports Chain_Client Schema_Registry Log_Iterator
begin

text \<open>
  The contract bindings that abigen generated, src/resolver/internal/chain/bindings: the read methods (callers), the transactions (transactors)
  and the log filters and parsers that the program uses.

  The record \<open>bound_contract\<close> is the library they call, \<open>bind.BoundContract\<close> of go-ethereum: its operations take the name of a method or event
  and a slice of values of any type, which is the type \<open>abi_value\<close> here. A method of the binding converts each result to the type it
  declares, and panics when the value has another type or is missing.
\<close>

section \<open>The library\<close>

datatype abi_value =
    AString string | ABytes bytes | ABytes32 hash32 | AAddress address | ABool bool | ABig int | AUint64 "64 word" | AUint32 "32 word"
  | AStrings "string list" | AAddresses "address list" | AHashes "hash32 list" | ARecord dapp_record | ARecords "dapp_record list"
  | AFieldSpecs "FieldSpec list"

definition as_String :: "abi_value \<Rightarrow> string option" where "as_String v = (case v of AString x \<Rightarrow> Some x | _ \<Rightarrow> None)"
definition as_Bytes :: "abi_value \<Rightarrow> bytes option" where "as_Bytes v = (case v of ABytes x \<Rightarrow> Some x | _ \<Rightarrow> None)"
definition as_Bytes32 :: "abi_value \<Rightarrow> hash32 option" where "as_Bytes32 v = (case v of ABytes32 x \<Rightarrow> Some x | _ \<Rightarrow> None)"
definition as_Address :: "abi_value \<Rightarrow> address option" where "as_Address v = (case v of AAddress x \<Rightarrow> Some x | _ \<Rightarrow> None)"
definition as_Bool :: "abi_value \<Rightarrow> bool option" where "as_Bool v = (case v of ABool x \<Rightarrow> Some x | _ \<Rightarrow> None)"
definition as_Big :: "abi_value \<Rightarrow> int option" where "as_Big v = (case v of ABig x \<Rightarrow> Some x | _ \<Rightarrow> None)"
definition as_Uint64 :: "abi_value \<Rightarrow> 64 word option" where "as_Uint64 v = (case v of AUint64 x \<Rightarrow> Some x | _ \<Rightarrow> None)"
definition as_Uint32 :: "abi_value \<Rightarrow> 32 word option" where "as_Uint32 v = (case v of AUint32 x \<Rightarrow> Some x | _ \<Rightarrow> None)"
definition as_Strings :: "abi_value \<Rightarrow> string list option" where "as_Strings v = (case v of AStrings x \<Rightarrow> Some x | _ \<Rightarrow> None)"
definition as_Addresses :: "abi_value \<Rightarrow> address list option" where "as_Addresses v = (case v of AAddresses x \<Rightarrow> Some x | _ \<Rightarrow> None)"
definition as_Hashes :: "abi_value \<Rightarrow> hash32 list option" where "as_Hashes v = (case v of AHashes x \<Rightarrow> Some x | _ \<Rightarrow> None)"
definition as_Record :: "abi_value \<Rightarrow> dapp_record option" where "as_Record v = (case v of ARecord x \<Rightarrow> Some x | _ \<Rightarrow> None)"
definition as_Records :: "abi_value \<Rightarrow> dapp_record list option" where "as_Records v = (case v of ARecords x \<Rightarrow> Some x | _ \<Rightarrow> None)"
definition as_FieldSpecs :: "abi_value \<Rightarrow> FieldSpec list option" where "as_FieldSpecs v = (case v of AFieldSpecs x \<Rightarrow> Some x | _ \<Rightarrow> None)"

lemmas abi_conversions = as_String_def as_Bytes_def as_Bytes32_def as_Address_def as_Bool_def as_Big_def as_Uint64_def as_Uint32_def
  as_Strings_def as_Addresses_def as_Hashes_def as_Record_def as_Records_def as_FieldSpecs_def

record transact_opts =
  to_From :: address
  to_Value :: int

record 'l eth_log =
  lg_BlockNumber :: "64 word"
  lg_body :: 'l

record ('w, 'l) bound_contract =
  bc_Call :: "string \<Rightarrow> abi_value list \<Rightarrow> 'w \<Rightarrow> 'w \<times> (string + abi_value list)"
  bc_Transact :: "transact_opts \<Rightarrow> string \<Rightarrow> abi_value list \<Rightarrow> 'w \<Rightarrow> 'w \<times> (string + bytes)"
  bc_FilterLogs :: "64 word \<Rightarrow> 64 word \<Rightarrow> string \<Rightarrow> abi_value list list \<Rightarrow> 'w \<Rightarrow> 'w \<times> (string + 'l eth_log log_feed)"
  bc_UnpackLog :: "string \<Rightarrow> 'l eth_log \<Rightarrow> string + abi_value list"

datatype bind_exit = BindErr string | BindPanic

text \<open>\<open>*abi.ConvertType(out[i], new(T)).(*T)\<close>\<close>

definition out_at :: "(abi_value \<Rightarrow> 'a option) \<Rightarrow> nat \<Rightarrow> abi_value list \<Rightarrow> bind_exit + 'a" where
  "out_at conv i out =
     (if i < length out then (case conv (out ! i) of None \<Rightarrow> Inl BindPanic | Some x \<Rightarrow> Inr x) else Inl BindPanic)"

text \<open>The frame of every read method: call, return the error, convert the results.\<close>

definition call_out ::
  "('w, 'l) bound_contract \<Rightarrow> string \<Rightarrow> abi_value list \<Rightarrow> (abi_value list \<Rightarrow> bind_exit + 'a) \<Rightarrow> 'w \<Rightarrow> 'w \<times> (bind_exit + 'a)" where
  "call_out C method params conv w =
     (case bc_Call C method params w of
        (w, Inl err) \<Rightarrow> (w, Inl (BindErr err))
      | (w, Inr out) \<Rightarrow> (w, conv out))"

section \<open>NamespaceDApp\<close>

definition NamespaceDApp_MAXCOMMITMENTAGE :: "('w, 'l) bound_contract \<Rightarrow> 'w \<Rightarrow> 'w \<times> (bind_exit + int)" where
  "NamespaceDApp_MAXCOMMITMENTAGE C = call_out C ''MAX_COMMITMENT_AGE'' [] (out_at as_Big 0)"

definition NamespaceDApp_MAXFIELDNAMELENGTH :: "('w, 'l) bound_contract \<Rightarrow> 'w \<Rightarrow> 'w \<times> (bind_exit + int)" where
  "NamespaceDApp_MAXFIELDNAMELENGTH C = call_out C ''MAX_FIELD_NAME_LENGTH'' [] (out_at as_Big 0)"

definition NamespaceDApp_MAXFIELDVALUELENGTH :: "('w, 'l) bound_contract \<Rightarrow> 'w \<Rightarrow> 'w \<times> (bind_exit + int)" where
  "NamespaceDApp_MAXFIELDVALUELENGTH C = call_out C ''MAX_FIELD_VALUE_LENGTH'' [] (out_at as_Big 0)"

definition NamespaceDApp_MAXRECORDFIELDS :: "('w, 'l) bound_contract \<Rightarrow> 'w \<Rightarrow> 'w \<times> (bind_exit + int)" where
  "NamespaceDApp_MAXRECORDFIELDS C = call_out C ''MAX_RECORD_FIELDS'' [] (out_at as_Big 0)"

definition NamespaceDApp_MAXSELECTORLENGTH :: "('w, 'l) bound_contract \<Rightarrow> 'w \<Rightarrow> 'w \<times> (bind_exit + int)" where
  "NamespaceDApp_MAXSELECTORLENGTH C = call_out C ''MAX_SELECTOR_LENGTH'' [] (out_at as_Big 0)"

definition NamespaceDApp_MINCOMMITMENTAGE :: "('w, 'l) bound_contract \<Rightarrow> 'w \<Rightarrow> 'w \<times> (bind_exit + int)" where
  "NamespaceDApp_MINCOMMITMENTAGE C = call_out C ''MIN_COMMITMENT_AGE'' [] (out_at as_Big 0)"

definition NamespaceDApp_REGISTRATIONPERIOD :: "('w, 'l) bound_contract \<Rightarrow> 'w \<Rightarrow> 'w \<times> (bind_exit + int)" where
  "NamespaceDApp_REGISTRATIONPERIOD C = call_out C ''REGISTRATION_PERIOD'' [] (out_at as_Big 0)"

definition NamespaceDApp_Available ::
  "('w, 'l) bound_contract \<Rightarrow> string \<Rightarrow> 'w \<Rightarrow> 'w \<times> (bind_exit + bool)" where
  "NamespaceDApp_Available C name = call_out C ''available'' [AString name] (out_at as_Bool 0)"

definition NamespaceDApp_BasePrice :: "('w, 'l) bound_contract \<Rightarrow> 'w \<Rightarrow> 'w \<times> (bind_exit + int)" where
  "NamespaceDApp_BasePrice C = call_out C ''basePrice'' [] (out_at as_Big 0)"

definition NamespaceDApp_Commitments ::
  "('w, 'l) bound_contract \<Rightarrow> hash32 \<Rightarrow> 'w \<Rightarrow> 'w \<times> (bind_exit + int)" where
  "NamespaceDApp_Commitments C arg = call_out C ''commitments'' [ABytes32 arg] (out_at as_Big 0)"

definition NamespaceDApp_GetDomain ::
  "('w, 'l) bound_contract \<Rightarrow> string \<Rightarrow> 'w \<Rightarrow> 'w \<times> (bind_exit + address \<times> bytes \<times> 64 word \<times> 64 word)" where
  "NamespaceDApp_GetDomain C name = call_out C ''getDomain'' [AString name]
       (\<lambda>out. rbind (out_at as_Address 0 out) (\<lambda>owner.
        rbind (out_at as_Bytes 1 out) (\<lambda>pubKey.
        rbind (out_at as_Uint64 2 out) (\<lambda>expiry.
        rbind (out_at as_Uint64 3 out) (\<lambda>generation.
        Inr (owner, pubKey, expiry, generation))))))"

definition NamespaceDApp_ListRecords ::
  "('w, 'l) bound_contract \<Rightarrow> string \<Rightarrow> 'w \<Rightarrow> 'w \<times> (bind_exit + dapp_record list)" where
  "NamespaceDApp_ListRecords C name = call_out C ''listRecords'' [AString name] (out_at as_Records 0)"

definition NamespaceDApp_Lookup ::
  "('w, 'l) bound_contract \<Rightarrow> string \<Rightarrow> string \<Rightarrow> string \<Rightarrow> 'w \<Rightarrow> 'w \<times> (bind_exit + dapp_record)" where
  "NamespaceDApp_Lookup C name recordType selector = call_out C ''lookup'' [AString name, AString recordType, AString selector] (out_at as_Record 0)"

definition NamespaceDApp_MakeCommitment ::
  "('w, 'l) bound_contract \<Rightarrow> string \<Rightarrow> address \<Rightarrow> bytes \<Rightarrow> hash32 \<Rightarrow> 'w \<Rightarrow> 'w \<times> (bind_exit + hash32)" where
  "NamespaceDApp_MakeCommitment C name owner pubKey secret =
     call_out C ''makeCommitment'' [AString name, AAddress owner, ABytes pubKey, ABytes32 secret] (out_at as_Bytes32 0)"

definition NamespaceDApp_OwnerOf ::
  "('w, 'l) bound_contract \<Rightarrow> string \<Rightarrow> 'w \<Rightarrow> 'w \<times> (bind_exit + address)" where
  "NamespaceDApp_OwnerOf C name = call_out C ''ownerOf'' [AString name] (out_at as_Address 0)"

definition NamespaceDApp_PriceOf :: "('w, 'l) bound_contract \<Rightarrow> string \<Rightarrow> 'w \<Rightarrow> 'w \<times> (bind_exit + int)" where
  "NamespaceDApp_PriceOf C name = call_out C ''priceOf'' [AString name] (out_at as_Big 0)"

definition NamespaceDApp_RecordKeyOf ::
  "('w, 'l) bound_contract \<Rightarrow> string \<Rightarrow> string \<Rightarrow> 'w \<Rightarrow> 'w \<times> (bind_exit + hash32)" where
  "NamespaceDApp_RecordKeyOf C recordType selector = call_out C ''recordKeyOf'' [AString recordType, AString selector] (out_at as_Bytes32 0)"

definition NamespaceDApp_Registry :: "('w, 'l) bound_contract \<Rightarrow> 'w \<Rightarrow> 'w \<times> (bind_exit + address)" where
  "NamespaceDApp_Registry C = call_out C ''registry'' [] (out_at as_Address 0)"

definition NamespaceDApp_Resolve ::
  "('w, 'l) bound_contract \<Rightarrow> string \<Rightarrow> string \<Rightarrow> string \<Rightarrow> 'w \<Rightarrow> 'w \<times> (bind_exit + dapp_record \<times> address \<times> bytes)" where
  "NamespaceDApp_Resolve C name recordType selector = call_out C ''resolve'' [AString name, AString recordType, AString selector]
       (\<lambda>out. rbind (out_at as_Record 0 out) (\<lambda>record1.
        rbind (out_at as_Address 1 out) (\<lambda>owner.
        rbind (out_at as_Bytes 2 out) (\<lambda>pubKey.
        Inr (record1, owner, pubKey)))))"

definition NamespaceDApp_Treasurer :: "('w, 'l) bound_contract \<Rightarrow> 'w \<Rightarrow> 'w \<times> (bind_exit + address)" where
  "NamespaceDApp_Treasurer C = call_out C ''treasurer'' [] (out_at as_Address 0)"

definition NamespaceDApp_Commit ::
  "('w, 'l) bound_contract \<Rightarrow> transact_opts \<Rightarrow> hash32 \<Rightarrow> 'w \<Rightarrow> 'w \<times> (string + bytes)" where
  "NamespaceDApp_Commit C opts commitment = bc_Transact C opts ''commit'' [ABytes32 commitment]"

definition NamespaceDApp_Register ::
  "('w, 'l) bound_contract \<Rightarrow> transact_opts \<Rightarrow> string \<Rightarrow> bytes \<Rightarrow> hash32 \<Rightarrow> 'w \<Rightarrow> 'w \<times> (string + bytes)" where
  "NamespaceDApp_Register C opts name pubKey secret = bc_Transact C opts ''register'' [AString name, ABytes pubKey, ABytes32 secret]"

definition NamespaceDApp_RemoveRecord ::
  "('w, 'l) bound_contract \<Rightarrow> transact_opts \<Rightarrow> string \<Rightarrow> string \<Rightarrow> string \<Rightarrow> 'w \<Rightarrow> 'w \<times> (string + bytes)" where
  "NamespaceDApp_RemoveRecord C opts name recordType selector =
     bc_Transact C opts ''removeRecord'' [AString name, AString recordType, AString selector]"

definition NamespaceDApp_Renew ::
  "('w, 'l) bound_contract \<Rightarrow> transact_opts \<Rightarrow> string \<Rightarrow> 'w \<Rightarrow> 'w \<times> (string + bytes)" where
  "NamespaceDApp_Renew C opts name = bc_Transact C opts ''renew'' [AString name]"

definition NamespaceDApp_SetRecord ::
  "('w, 'l) bound_contract \<Rightarrow> transact_opts \<Rightarrow> string \<Rightarrow> string \<Rightarrow> string \<Rightarrow> string list \<Rightarrow> string list \<Rightarrow> 32 word \<Rightarrow> bytes \<Rightarrow> hash32 \<Rightarrow> 'w \<Rightarrow> 'w \<times> (string + bytes)" where
  "NamespaceDApp_SetRecord C opts name recordType selector fieldNames fieldValues ttl ownerSig commitment =
     bc_Transact C opts ''setRecord'' [AString name, AString recordType, AString selector, AStrings fieldNames, AStrings fieldValues, AUint32 ttl, ABytes ownerSig, ABytes32 commitment]"

definition NamespaceDApp_Transfer ::
  "('w, 'l) bound_contract \<Rightarrow> transact_opts \<Rightarrow> string \<Rightarrow> address \<Rightarrow> bytes \<Rightarrow> 'w \<Rightarrow> 'w \<times> (string + bytes)" where
  "NamespaceDApp_Transfer C opts name newOwner newPubKey = bc_Transact C opts ''transfer'' [AString name, AAddress newOwner, ABytes newPubKey]"

definition NamespaceDApp_Withdraw ::
  "('w, 'l) bound_contract \<Rightarrow> transact_opts \<Rightarrow> address \<Rightarrow> 'w \<Rightarrow> 'w \<times> (string + bytes)" where
  "NamespaceDApp_Withdraw C opts recipient = bc_Transact C opts ''withdraw'' [AAddress recipient]"


section \<open>RecordSchemaRegistry\<close>

definition RecordSchemaRegistry_MAXFIELDS :: "('w, 'l) bound_contract \<Rightarrow> 'w \<Rightarrow> 'w \<times> (bind_exit + int)" where
  "RecordSchemaRegistry_MAXFIELDS C = call_out C ''MAX_FIELDS'' [] (out_at as_Big 0)"

definition RecordSchemaRegistry_MAXFIELDNAMELENGTH :: "('w, 'l) bound_contract \<Rightarrow> 'w \<Rightarrow> 'w \<times> (bind_exit + int)" where
  "RecordSchemaRegistry_MAXFIELDNAMELENGTH C = call_out C ''MAX_FIELD_NAME_LENGTH'' [] (out_at as_Big 0)"

definition RecordSchemaRegistry_MAXTYPENAMELENGTH :: "('w, 'l) bound_contract \<Rightarrow> 'w \<Rightarrow> 'w \<times> (bind_exit + int)" where
  "RecordSchemaRegistry_MAXTYPENAMELENGTH C = call_out C ''MAX_TYPE_NAME_LENGTH'' [] (out_at as_Big 0)"

definition RecordSchemaRegistry_GetSchema ::
  "('w, 'l) bound_contract \<Rightarrow> string \<Rightarrow> 'w \<Rightarrow> 'w \<times> (bind_exit + FieldSpec list)" where
  "RecordSchemaRegistry_GetSchema C typeName = call_out C ''getSchema'' [AString typeName] (out_at as_FieldSpecs 0)"

definition RecordSchemaRegistry_ListTypes :: "('w, 'l) bound_contract \<Rightarrow> 'w \<Rightarrow> 'w \<times> (bind_exit + string list)" where
  "RecordSchemaRegistry_ListTypes C = call_out C ''listTypes'' [] (out_at as_Strings 0)"

definition RecordSchemaRegistry_MandatoryFields ::
  "('w, 'l) bound_contract \<Rightarrow> hash32 \<Rightarrow> 'w \<Rightarrow> 'w \<times> (bind_exit + string list)" where
  "RecordSchemaRegistry_MandatoryFields C typeHash = call_out C ''mandatoryFields'' [ABytes32 typeHash] (out_at as_Strings 0)"

definition RecordSchemaRegistry_TypeExists ::
  "('w, 'l) bound_contract \<Rightarrow> string \<Rightarrow> 'w \<Rightarrow> 'w \<times> (bind_exit + bool)" where
  "RecordSchemaRegistry_TypeExists C typeName = call_out C ''typeExists'' [AString typeName] (out_at as_Bool 0)"

definition RecordSchemaRegistry_DeclareType ::
  "('w, 'l) bound_contract \<Rightarrow> transact_opts \<Rightarrow> string \<Rightarrow> string list \<Rightarrow> string list \<Rightarrow> 'w \<Rightarrow> 'w \<times> (string + bytes)" where
  "RecordSchemaRegistry_DeclareType C opts name mandatory optional =
     bc_Transact C opts ''declareType'' [AString name, AStrings mandatory, AStrings optional]"


section \<open>ResolverRegistry\<close>

definition ResolverRegistry_MAXENDPOINTLENGTH :: "('w, 'l) bound_contract \<Rightarrow> 'w \<Rightarrow> 'w \<times> (bind_exit + int)" where
  "ResolverRegistry_MAXENDPOINTLENGTH C = call_out C ''MAX_ENDPOINT_LENGTH'' [] (out_at as_Big 0)"

definition ResolverRegistry_ActiveResolvers ::
  "('w, 'l) bound_contract \<Rightarrow> 'w \<Rightarrow> 'w \<times> (bind_exit + address list \<times> hash32 list \<times> string list)" where
  "ResolverRegistry_ActiveResolvers C = call_out C ''activeResolvers'' []
       (\<lambda>out. rbind (out_at as_Addresses 0 out) (\<lambda>operators.
        rbind (out_at as_Hashes 1 out) (\<lambda>pubKeys.
        rbind (out_at as_Strings 2 out) (\<lambda>endpoints.
        Inr (operators, pubKeys, endpoints)))))"

definition ResolverRegistry_GetResolver ::
  "('w, 'l) bound_contract \<Rightarrow> address \<Rightarrow> 'w \<Rightarrow> 'w \<times> (bind_exit + hash32 \<times> string \<times> 64 word \<times> bool)" where
  "ResolverRegistry_GetResolver C operator = call_out C ''getResolver'' [AAddress operator]
       (\<lambda>out. rbind (out_at as_Bytes32 0 out) (\<lambda>pubKey.
        rbind (out_at as_String 1 out) (\<lambda>endpoint.
        rbind (out_at as_Uint64 2 out) (\<lambda>updatedAt.
        rbind (out_at as_Bool 3 out) (\<lambda>active.
        Inr (pubKey, endpoint, updatedAt, active))))))"

definition ResolverRegistry_OperatorAt ::
  "('w, 'l) bound_contract \<Rightarrow> int \<Rightarrow> 'w \<Rightarrow> 'w \<times> (bind_exit + address)" where
  "ResolverRegistry_OperatorAt C i = call_out C ''operatorAt'' [ABig i] (out_at as_Address 0)"

definition ResolverRegistry_OperatorCount :: "('w, 'l) bound_contract \<Rightarrow> 'w \<Rightarrow> 'w \<times> (bind_exit + int)" where
  "ResolverRegistry_OperatorCount C = call_out C ''operatorCount'' [] (out_at as_Big 0)"

definition ResolverRegistry_Announce ::
  "('w, 'l) bound_contract \<Rightarrow> transact_opts \<Rightarrow> hash32 \<Rightarrow> string \<Rightarrow> 'w \<Rightarrow> 'w \<times> (string + bytes)" where
  "ResolverRegistry_Announce C opts pubKey endpoint = bc_Transact C opts ''announce'' [ABytes32 pubKey, AString endpoint]"

definition ResolverRegistry_Revoke ::
  "('w, 'l) bound_contract \<Rightarrow> transact_opts \<Rightarrow> 'w \<Rightarrow> 'w \<times> (string + bytes)" where
  "ResolverRegistry_Revoke C opts = bc_Transact C opts ''revoke'' []"


section \<open>ResolverIncentives\<close>

definition ResolverIncentives_MINDURATION :: "('w, 'l) bound_contract \<Rightarrow> 'w \<Rightarrow> 'w \<times> (bind_exit + 64 word)" where
  "ResolverIncentives_MINDURATION C = call_out C ''MIN_DURATION'' [] (out_at as_Uint64 0)"

definition ResolverIncentives_SETTLEMENTWINDOW :: "('w, 'l) bound_contract \<Rightarrow> 'w \<Rightarrow> 'w \<times> (bind_exit + 64 word)" where
  "ResolverIncentives_SETTLEMENTWINDOW C = call_out C ''SETTLEMENT_WINDOW'' [] (out_at as_Uint64 0)"

definition ResolverIncentives_Channels ::
  "('w, 'l) bound_contract \<Rightarrow> hash32 \<Rightarrow> 'w \<Rightarrow> 'w \<times> (bind_exit + address \<times> address \<times> int \<times> int \<times> 64 word)" where
  "ResolverIncentives_Channels C arg = call_out C ''channels'' [ABytes32 arg]
       (\<lambda>out. rbind (out_at as_Address 0 out) (\<lambda>client.
        rbind (out_at as_Address 1 out) (\<lambda>resolver.
        rbind (out_at as_Big 2 out) (\<lambda>deposit.
        rbind (out_at as_Big 3 out) (\<lambda>claimed.
        rbind (out_at as_Uint64 4 out) (\<lambda>expiresAt.
        Inr (client, resolver, deposit, claimed, expiresAt)))))))"

definition ResolverIncentives_VoucherDigest ::
  "('w, 'l) bound_contract \<Rightarrow> hash32 \<Rightarrow> int \<Rightarrow> 'w \<Rightarrow> 'w \<times> (bind_exit + hash32)" where
  "ResolverIncentives_VoucherDigest C chid cumulative = call_out C ''voucherDigest'' [ABytes32 chid, ABig cumulative] (out_at as_Bytes32 0)"

definition ResolverIncentives_Claim ::
  "('w, 'l) bound_contract \<Rightarrow> transact_opts \<Rightarrow> hash32 \<Rightarrow> int \<Rightarrow> bytes \<Rightarrow> 'w \<Rightarrow> 'w \<times> (string + bytes)" where
  "ResolverIncentives_Claim C opts chid cumulative clientSig = bc_Transact C opts ''claim'' [ABytes32 chid, ABig cumulative, ABytes clientSig]"

definition ResolverIncentives_CloseChannel ::
  "('w, 'l) bound_contract \<Rightarrow> transact_opts \<Rightarrow> hash32 \<Rightarrow> 'w \<Rightarrow> 'w \<times> (string + bytes)" where
  "ResolverIncentives_CloseChannel C opts chid = bc_Transact C opts ''closeChannel'' [ABytes32 chid]"

definition ResolverIncentives_OpenChannel ::
  "('w, 'l) bound_contract \<Rightarrow> transact_opts \<Rightarrow> address \<Rightarrow> 64 word \<Rightarrow> 'w \<Rightarrow> 'w \<times> (string + bytes)" where
  "ResolverIncentives_OpenChannel C opts resolver duration = bc_Transact C opts ''openChannel'' [AAddress resolver, AUint64 duration]"

section \<open>Logs\<close>

text \<open>The structs of the events that the program reads, with the raw log last.\<close>

record 'l NamespaceDAppRecordSet =
  rs_NameHash :: hash32
  rs_Name :: string
  rs_RecordKey :: hash32
  rs_RecordType :: string
  rs_Selector :: string
  rs_Ttl :: "32 word"
  rs_Raw :: "'l eth_log"

record 'l NamespaceDAppRecordRemoved =
  rm_NameHash :: hash32
  rm_Name :: string
  rm_RecordKey :: hash32
  rm_RecordType :: string
  rm_Selector :: string
  rm_Raw :: "'l eth_log"

record 'l NamespaceDAppTransferred =
  tf_NameHash :: hash32
  tf_OldOwner :: address
  tf_NewOwner :: address
  tf_NewPubKey :: bytes
  tf_Raw :: "'l eth_log"

record 'l NamespaceDAppRegistered =
  rgd_NameHash :: hash32
  rgd_Name :: string
  rgd_Owner :: address
  rgd_PubKey :: bytes
  rgd_Expiry :: "64 word"
  rgd_Generation :: "64 word"
  rgd_FeePaid :: int
  rgd_Raw :: "'l eth_log"

record 'l ResolverIncentivesChannelOpened =
  cho_Id :: hash32
  cho_Client :: address
  cho_Resolver :: address
  cho_Deposit :: int
  cho_ExpiresAt :: "64 word"
  cho_Raw :: "'l eth_log"

text \<open>\<open>UnpackLog\<close> into the field at a position: an error when the value does not fit.\<close>

definition event_field :: "(abi_value \<Rightarrow> 'a option) \<Rightarrow> nat \<Rightarrow> abi_value list \<Rightarrow> string + 'a" where
  "event_field conv i vs =
     (case out_at conv i vs of Inl _ \<Rightarrow> Inl ''abi: cannot unmarshal'' | Inr x \<Rightarrow> Inr x)"

text \<open>What the iterators do with a log, and the parser of the receipt's logs: \<open>UnpackLog\<close> into a new struct, then set \<open>Raw\<close>.\<close>

definition unpack_RecordSet :: "('w, 'l) bound_contract \<Rightarrow> string \<Rightarrow> 'l eth_log \<Rightarrow> string + 'l NamespaceDAppRecordSet" where
  "unpack_RecordSet C ev log =
     rbind (bc_UnpackLog C ev log) (\<lambda>vs.
     rbind (event_field as_Bytes32 0 vs) (\<lambda>nameHash.
     rbind (event_field as_String 1 vs) (\<lambda>name.
     rbind (event_field as_Bytes32 2 vs) (\<lambda>recordKey.
     rbind (event_field as_String 3 vs) (\<lambda>recordType.
     rbind (event_field as_String 4 vs) (\<lambda>selector.
     rbind (event_field as_Uint32 5 vs) (\<lambda>ttl.
       Inr \<lparr>rs_NameHash = nameHash, rs_Name = name, rs_RecordKey = recordKey, rs_RecordType = recordType, rs_Selector = selector,
            rs_Ttl = ttl, rs_Raw = log\<rparr>)))))))"

definition unpack_RecordRemoved :: "('w, 'l) bound_contract \<Rightarrow> string \<Rightarrow> 'l eth_log \<Rightarrow> string + 'l NamespaceDAppRecordRemoved" where
  "unpack_RecordRemoved C ev log =
     rbind (bc_UnpackLog C ev log) (\<lambda>vs.
     rbind (event_field as_Bytes32 0 vs) (\<lambda>nameHash.
     rbind (event_field as_String 1 vs) (\<lambda>name.
     rbind (event_field as_Bytes32 2 vs) (\<lambda>recordKey.
     rbind (event_field as_String 3 vs) (\<lambda>recordType.
     rbind (event_field as_String 4 vs) (\<lambda>selector.
       Inr \<lparr>rm_NameHash = nameHash, rm_Name = name, rm_RecordKey = recordKey, rm_RecordType = recordType, rm_Selector = selector,
            rm_Raw = log\<rparr>))))))"

definition unpack_Transferred :: "('w, 'l) bound_contract \<Rightarrow> string \<Rightarrow> 'l eth_log \<Rightarrow> string + 'l NamespaceDAppTransferred" where
  "unpack_Transferred C ev log =
     rbind (bc_UnpackLog C ev log) (\<lambda>vs.
     rbind (event_field as_Bytes32 0 vs) (\<lambda>nameHash.
     rbind (event_field as_Address 1 vs) (\<lambda>oldOwner.
     rbind (event_field as_Address 2 vs) (\<lambda>newOwner.
     rbind (event_field as_Bytes 3 vs) (\<lambda>newPubKey.
       Inr \<lparr>tf_NameHash = nameHash, tf_OldOwner = oldOwner, tf_NewOwner = newOwner, tf_NewPubKey = newPubKey, tf_Raw = log\<rparr>)))))"

definition unpack_Registered :: "('w, 'l) bound_contract \<Rightarrow> string \<Rightarrow> 'l eth_log \<Rightarrow> string + 'l NamespaceDAppRegistered" where
  "unpack_Registered C ev log =
     rbind (bc_UnpackLog C ev log) (\<lambda>vs.
     rbind (event_field as_Bytes32 0 vs) (\<lambda>nameHash.
     rbind (event_field as_String 1 vs) (\<lambda>name.
     rbind (event_field as_Address 2 vs) (\<lambda>owner.
     rbind (event_field as_Bytes 3 vs) (\<lambda>pubKey.
     rbind (event_field as_Uint64 4 vs) (\<lambda>expiry.
     rbind (event_field as_Uint64 5 vs) (\<lambda>generation.
     rbind (event_field as_Big 6 vs) (\<lambda>feePaid.
       Inr \<lparr>rgd_NameHash = nameHash, rgd_Name = name, rgd_Owner = owner, rgd_PubKey = pubKey, rgd_Expiry = expiry,
            rgd_Generation = generation, rgd_FeePaid = feePaid, rgd_Raw = log\<rparr>))))))))"

definition ResolverIncentives_ParseChannelOpened ::
  "('w, 'l) bound_contract \<Rightarrow> 'l eth_log \<Rightarrow> string + 'l ResolverIncentivesChannelOpened" where
  "ResolverIncentives_ParseChannelOpened C log =
     rbind (bc_UnpackLog C ''ChannelOpened'' log) (\<lambda>vs.
     rbind (event_field as_Bytes32 0 vs) (\<lambda>chid.
     rbind (event_field as_Address 1 vs) (\<lambda>client.
     rbind (event_field as_Address 2 vs) (\<lambda>resolver.
     rbind (event_field as_Big 3 vs) (\<lambda>deposit.
     rbind (event_field as_Uint64 4 vs) (\<lambda>expiresAt.
       Inr \<lparr>cho_Id = chid, cho_Client = client, cho_Resolver = resolver, cho_Deposit = deposit, cho_ExpiresAt = expiresAt, cho_Raw = log\<rparr>))))))"

text \<open>The filters: a rule per indexed argument, then an iterator on the channel of the logs found.\<close>

definition filter_logs ::
  "('w, 'l) bound_contract \<Rightarrow> 64 word \<Rightarrow> 64 word \<Rightarrow> string \<Rightarrow> abi_value list list \<Rightarrow> 'w \<Rightarrow>
   'w \<times> (string + 'e log_iterator \<times> 'l eth_log log_feed)" where
  "filter_logs C start stop ev rules w =
     (case bc_FilterLogs C start stop ev rules w of
        (w, Inl err) \<Rightarrow> (w, Inl err)
      | (w, Inr feed) \<Rightarrow> (w, Inr (new_iterator ev, feed)))"

definition FilterRecordSet ::
  "('w, 'l) bound_contract \<Rightarrow> 64 word \<Rightarrow> 64 word \<Rightarrow> hash32 list \<Rightarrow> hash32 list \<Rightarrow> 'w \<Rightarrow>
   'w \<times> (string + 'l NamespaceDAppRecordSet log_iterator \<times> 'l eth_log log_feed)" where
  "FilterRecordSet C start stop nameHash recordKey =
     filter_logs C start stop ''RecordSet'' [map ABytes32 nameHash, map ABytes32 recordKey]"

definition FilterRecordRemoved ::
  "('w, 'l) bound_contract \<Rightarrow> 64 word \<Rightarrow> 64 word \<Rightarrow> hash32 list \<Rightarrow> hash32 list \<Rightarrow> 'w \<Rightarrow>
   'w \<times> (string + 'l NamespaceDAppRecordRemoved log_iterator \<times> 'l eth_log log_feed)" where
  "FilterRecordRemoved C start stop nameHash recordKey =
     filter_logs C start stop ''RecordRemoved'' [map ABytes32 nameHash, map ABytes32 recordKey]"

definition FilterTransferred ::
  "('w, 'l) bound_contract \<Rightarrow> 64 word \<Rightarrow> 64 word \<Rightarrow> hash32 list \<Rightarrow> address list \<Rightarrow> address list \<Rightarrow> 'w \<Rightarrow>
   'w \<times> (string + 'l NamespaceDAppTransferred log_iterator \<times> 'l eth_log log_feed)" where
  "FilterTransferred C start stop nameHash oldOwner newOwner =
     filter_logs C start stop ''Transferred'' [map ABytes32 nameHash, map AAddress oldOwner, map AAddress newOwner]"

definition FilterRegistered ::
  "('w, 'l) bound_contract \<Rightarrow> 64 word \<Rightarrow> 64 word \<Rightarrow> hash32 list \<Rightarrow> address list \<Rightarrow> 'w \<Rightarrow>
   'w \<times> (string + 'l NamespaceDAppRegistered log_iterator \<times> 'l eth_log log_feed)" where
  "FilterRegistered C start stop nameHash owner =
     filter_logs C start stop ''Registered'' [map ABytes32 nameHash, map AAddress owner]"

text \<open>
  One of the four blocks of \<open>collectEvents\<close> (chain/events.go) on the bindings: filter, loop over the iterator, and its error at the end.
  \<open>filter_run\<close> relates it to the result that \<open>api_filter\<close> stands for; the scheduling of the iterator decides which.
\<close>

definition drain_run ::
  "nat \<Rightarrow> (string \<Rightarrow> 'l eth_log \<Rightarrow> string + 'e) \<Rightarrow> ('e \<Rightarrow> raw_event) \<Rightarrow> 'w \<times> (string + 'e log_iterator \<times> 'l eth_log log_feed) \<Rightarrow>
   'w \<times> (string + raw_event list \<times> string option) \<Rightarrow> bool" where
  "drain_run cap parse raw x y \<longleftrightarrow>
     (case x of
        (w, Inl err) \<Rightarrow> y = (w, Inl err)
      | (w, Inr s) \<Rightarrow> \<exists>es it f. it_drain cap parse s es (it, f) \<and> y = (w, Inr (map raw es, it_fail it)))"

definition filter_run ::
  "nat \<Rightarrow> ('w, 'l) bound_contract \<Rightarrow> event_kind \<Rightarrow> 64 word \<Rightarrow> 64 word \<Rightarrow> 'w \<Rightarrow> 'w \<times> (string + raw_event list \<times> string option) \<Rightarrow> bool" where
  "filter_run cap C kind start stop w y \<longleftrightarrow>
     (case kind of
        EventRecordSet \<Rightarrow>
          drain_run cap (unpack_RecordSet C)
            (\<lambda>e. \<lparr>rawName = rs_Name e, rawNameHash = rs_NameHash e, rawRecordType = rs_RecordType e, rawSelector = rs_Selector e,
                  rawBlock = lg_BlockNumber (rs_Raw e)\<rparr>) (FilterRecordSet C start stop [] [] w) y
      | EventRecordRemoved \<Rightarrow>
          drain_run cap (unpack_RecordRemoved C)
            (\<lambda>e. \<lparr>rawName = rm_Name e, rawNameHash = rm_NameHash e, rawRecordType = rm_RecordType e, rawSelector = rm_Selector e,
                  rawBlock = lg_BlockNumber (rm_Raw e)\<rparr>) (FilterRecordRemoved C start stop [] [] w) y
      | EventTransferred \<Rightarrow>
          drain_run cap (unpack_Transferred C)
            (\<lambda>e. \<lparr>rawName = [], rawNameHash = tf_NameHash e, rawRecordType = [], rawSelector = [],
                  rawBlock = lg_BlockNumber (tf_Raw e)\<rparr>) (FilterTransferred C start stop [] [] [] w) y
      | EventRegistered \<Rightarrow>
          drain_run cap (unpack_Registered C)
            (\<lambda>e. \<lparr>rawName = rgd_Name e, rawNameHash = rgd_NameHash e, rawRecordType = [], rawSelector = [],
                  rawBlock = lg_BlockNumber (rgd_Raw e)\<rparr>) (FilterRegistered C start stop [] [] w) y)"

section \<open>Facts\<close>

lemma out_at_Cons [simp]:
  "out_at conv 0 (v # vs) = (case conv v of None \<Rightarrow> Inl BindPanic | Some x \<Rightarrow> Inr x)" "out_at conv (Suc i) (v # vs) = out_at conv i vs"
  "out_at conv (numeral n) (v # vs) = out_at conv (pred_numeral n) vs" "out_at conv i [] = Inl BindPanic"
  by (simp_all add: out_at_def numeral_eq_Suc)

text \<open>Without an error of the iterator every log of the channel has been handed over.\<close>

lemma drain_run_complete:
  assumes "drain_run cap parse raw (filter_logs C start stop ev rules w) (w', Inr (events, None))"
    and "\<And>w1 f. bc_FilterLogs C start stop ev rules w = (w1, Inr f) \<Longrightarrow> \<exists>ls. f = feed_of ls \<and> P ls"
  shows "\<exists>ls es. P ls \<and> map (parse ev) ls = map Inr es \<and> events = map raw es"
proof -
  obtain f es it f' where "bc_FilterLogs C start stop ev rules w = (w', Inr f)" "it_drain cap parse (new_iterator ev, f) es (it, f')"
    "events = map raw es" "it_fail it = None"
    using assms(1) by (auto simp: drain_run_def filter_logs_def split: prod.splits sum.splits)
  with assms(2) obtain ls where "f = feed_of ls" "P ls" "map (parse ev) ls = map Inr es" "events = map raw es"
    using drain_from [OF _ it_inv_new] by fastforce
  then show ?thesis by blast
qed

end
