(* ===== verification/Chain_Events.thy ===== *)
theory Chain_Events
  imports Chain_Client
begin

text \<open>
  The event watcher, src/resolver/internal/chain/events.go: the poll loop, which scans the blocks up to
  the chain head in windows of at most 2000, filters the four event kinds over each window and hands
  every event to a handler.

  The handler acts on a state \<open>'h\<close> (the cache, in the resolver). The infinite poll loop is
  \<open>watch_loop n\<close>, its first \<open>n\<close> ticks; the inner loop over windows is a terminating function.
\<close>

section \<open>Definitions\<close>

definition maxBlockSpan :: "64 word" where "maxBlockSpan = 2000"

text \<open>The event that \<open>collectEvents\<close> builds from a log of each kind.\<close>

definition to_record_event :: "event_kind \<Rightarrow> raw_event \<Rightarrow> record_event" where
  "to_record_event kind r =
     (case kind of
        EventTransferred \<Rightarrow>
          \<lparr>evKind = kind, evName = [], evNameHash = rawNameHash r, evRecordType = [], evSelector = [],
           evBlock = rawBlock r\<rparr>
      | EventRegistered \<Rightarrow>
          \<lparr>evKind = kind, evName = rawName r, evNameHash = rawNameHash r, evRecordType = [],
           evSelector = [], evBlock = rawBlock r\<rparr>
      | _ \<Rightarrow>
          \<lparr>evKind = kind, evName = rawName r, evNameHash = rawNameHash r,
           evRecordType = rawRecordType r, evSelector = rawSelector r, evBlock = rawBlock r\<rparr>)"

definition kind_name :: "event_kind \<Rightarrow> string" where
  "kind_name kind =
     (case kind of EventRecordSet \<Rightarrow> ''RecordSet'' | EventRecordRemoved \<Rightarrow> ''RecordRemoved''
      | EventTransferred \<Rightarrow> ''Transferred'' | EventRegistered \<Rightarrow> ''Registered'')"

text \<open>One of the four blocks of \<open>collectEvents\<close>: filter, deliver what the iterator yields, then look at
  the iterator's error.\<close>

definition collect_kind ::
  "'w rpc_api \<Rightarrow> (record_event \<Rightarrow> 'h \<Rightarrow> 'h) \<Rightarrow> 64 word \<Rightarrow> 64 word \<Rightarrow> event_kind \<Rightarrow> 'w \<times> 'h \<Rightarrow>
   ('w \<times> 'h) \<times> string option" where
  "collect_kind api handler start stop kind s =
     (case api_filter api kind start stop (fst s) of
        (w, Inl err) \<Rightarrow> ((w, snd s), Some (''filter '' @ kind_name kind @ '': '' @ err))
      | (w, Inr (events, itErr)) \<Rightarrow>
          ((w, fold (\<lambda>r. handler (to_record_event kind r)) events (snd s)),
           map_option (\<lambda>err. ''iterate '' @ kind_name kind @ '': '' @ err) itErr))"

fun collect_kinds ::
  "'w rpc_api \<Rightarrow> (record_event \<Rightarrow> 'h \<Rightarrow> 'h) \<Rightarrow> 64 word \<Rightarrow> 64 word \<Rightarrow> event_kind list \<Rightarrow> 'w \<times> 'h \<Rightarrow>
   ('w \<times> 'h) \<times> string option" where
  "collect_kinds api handler start stop [] s = (s, None)"
| "collect_kinds api handler start stop (k # ks) s =
     (case collect_kind api handler start stop k s of
        (s, Some err) \<Rightarrow> (s, Some err)
      | (s, None) \<Rightarrow> collect_kinds api handler start stop ks s)"

definition collectEvents ::
  "'w rpc_api \<Rightarrow> (record_event \<Rightarrow> 'h \<Rightarrow> 'h) \<Rightarrow> 64 word \<Rightarrow> 64 word \<Rightarrow> 'w \<times> 'h \<Rightarrow> ('w \<times> 'h) \<times> string option" where
  "collectEvents api handler start stop s =
     collect_kinds api handler start stop
       [EventRecordSet, EventRecordRemoved, EventTransferred, EventRegistered] s"

text \<open>The window that follows \<open>lst\<close>.\<close>

definition window_end :: "64 word \<Rightarrow> 64 word \<Rightarrow> 64 word" where
  "window_end lst head = (if head - lst > maxBlockSpan then lst + maxBlockSpan else head)"

lemma window_end_bounds:
  assumes "lst < head"
  shows "lst < window_end lst head" "window_end lst head \<le> head"
    "unat (window_end lst head) \<le> unat lst + 2000" "unat (lst + 1) = unat lst + 1"
proof -
  have lt: "unat lst < unat head" using assms by (simp add: word_less_nat_alt)
  have d: "unat (head - lst) = unat head - unat lst"
    using assms by (simp add: unat_sub)
  have p: "unat (lst + maxBlockSpan) = unat lst + 2000" if "head - lst > maxBlockSpan"
  proof -
    have "2000 < unat head - unat lst"
      using that d by (simp add: word_less_nat_alt maxBlockSpan_def)
    then have "unat lst + 2000 < 2 ^ 64" using unat_less_pow [of head] by simp
    then show ?thesis by (simp add: maxBlockSpan_def unat_word_ariths)
  qed
  show "lst < window_end lst head" "window_end lst head \<le> head"
    "unat (window_end lst head) \<le> unat lst + 2000"
    using lt d p
    by (auto simp: window_end_def word_less_nat_alt word_le_nat_alt maxBlockSpan_def)
  show "unat (lst + 1) = unat lst + 1"
    using lt unat_less_pow [of head] by (simp add: unat_word_ariths)
qed

text \<open>\<open>for lst < head\<close>: one window per iteration; a failed window ends the loop.\<close>

function scan_windows ::
  "'w rpc_api \<Rightarrow> (record_event \<Rightarrow> 'h \<Rightarrow> 'h) \<Rightarrow> 64 word \<Rightarrow> 64 word \<Rightarrow> 'w \<times> 'h \<Rightarrow> ('w \<times> 'h) \<times> 64 word" where
  "scan_windows api handler head lst s =
     (if lst < head
      then (let stop = window_end lst head
            in case collectEvents api handler (lst + 1) stop s of
                 (s, Some err) \<Rightarrow> (s, lst)
               | (s, None) \<Rightarrow> scan_windows api handler head stop s)
      else (s, lst))"
  by pat_completeness auto
termination
proof (relation "measure (\<lambda>(api, handler, head, lst, s). unat head - unat lst)", goal_cases)
  case 1
  show ?case by simp
next
  case 2
  then show ?case
    using window_end_bounds(1,2) [OF 2(1)] by (simp add: word_less_nat_alt word_le_nat_alt)
qed

declare scan_windows.simps [simp del]

text \<open>One round of the poll loop after the ticker fired: \<open>Some err\<close> when the watcher returns.\<close>

definition watch_tick ::
  "'w rpc_api \<Rightarrow> (record_event \<Rightarrow> 'h \<Rightarrow> 'h) \<Rightarrow> 64 word \<Rightarrow> 'w \<times> 'h \<Rightarrow> ('w \<times> 'h) \<times> 64 word \<times> string option" where
  "watch_tick api handler lst s =
     (case ChainHead api (fst s) of
        (w, Inl err) \<Rightarrow> ((w, snd s), lst, api_ctxErr api w)
      | (w, Inr head) \<Rightarrow>
          (let (s, lst) = scan_windows api handler head lst (w, snd s) in (s, lst, None)))"

primrec watch_loop ::
  "nat \<Rightarrow> 'w rpc_api \<Rightarrow> (record_event \<Rightarrow> 'h \<Rightarrow> 'h) \<Rightarrow> 64 word \<Rightarrow> 'w \<times> 'h \<Rightarrow>
   ('w \<times> 'h) \<times> 64 word \<times> string option" where
  "watch_loop 0 api handler lst s = (s, lst, None)"
| "watch_loop (Suc n) api handler lst s =
     (case api_tick api (fst s) of
        (w, Some err) \<Rightarrow> ((w, snd s), lst, Some err)
      | (w, None) \<Rightarrow>
          (case watch_tick api handler lst (w, snd s) of
             (s, lst, Some err) \<Rightarrow> (s, lst, Some err)
           | (s, lst, None) \<Rightarrow> watch_loop n api handler lst s))"

definition WatchRecordEvents ::
  "nat \<Rightarrow> 'w rpc_api \<Rightarrow> (record_event \<Rightarrow> 'h \<Rightarrow> 'h) \<Rightarrow> 'w \<times> 'h \<Rightarrow> ('w \<times> 'h) \<times> 64 word option \<times> string option" where
  "WatchRecordEvents n api handler s =
     (case ChainHead api (fst s) of
        (w, Inl err) \<Rightarrow> ((w, snd s), None, Some err)
      | (w, Inr lst) \<Rightarrow>
          (let (s, lst, err) = watch_loop n api handler lst (w, snd s) in (s, Some lst, err)))"

section \<open>What the watcher delivers\<close>

text \<open>
  \<open>logs kind\<close> are the contract's logs of a kind on the chain. A filter call that succeeds, iterator
  included, yields every log of the range; this is the documented behaviour of \<open>eth_getLogs\<close> and the
  only hypothesis on the endpoint. \<open>covers a b ds\<close> says that the events of the blocks after \<open>a\<close> up to
  \<open>b\<close> are all among the delivered events \<open>ds\<close>.
\<close>

definition complete_filter :: "'w rpc_api \<Rightarrow> (event_kind \<Rightarrow> raw_event set) \<Rightarrow> bool" where
  "complete_filter api logs \<longleftrightarrow>
     (\<forall>kind a b w w' events. api_filter api kind a b w = (w', Inr (events, None)) \<longrightarrow>
        {r \<in> logs kind. a \<le> rawBlock r \<and> rawBlock r \<le> b} \<subseteq> set events)"

definition covers ::
  "(event_kind \<Rightarrow> raw_event set) \<Rightarrow> 64 word \<Rightarrow> 64 word \<Rightarrow> record_event list \<Rightarrow> bool" where
  "covers logs a b ds \<longleftrightarrow>
     (\<forall>kind. \<forall>r \<in> logs kind. a < rawBlock r \<and> rawBlock r \<le> b \<longrightarrow> to_record_event kind r \<in> set ds)"

lemma covers_refl [simp]: "covers logs a a ds"
  by (auto simp: covers_def)

lemma covers_append:
  "covers logs a b ds \<Longrightarrow> covers logs b c es \<Longrightarrow> covers logs a c (ds @ es)"
  unfolding covers_def by (metis Un_iff linorder_not_le set_append)

lemma collect_kind_delivers:
  assumes "complete_filter api logs" and "collect_kind api handler a b k s = (s', e)"
  shows "\<exists>ds. snd s' = fold handler ds (snd s) \<and>
    (e = None \<longrightarrow> (\<forall>r \<in> logs k. a \<le> rawBlock r \<and> rawBlock r \<le> b \<longrightarrow> to_record_event k r \<in> set ds))"
proof -
  obtain w x where f: "api_filter api k a b (fst s) = (w, x)" by fastforce
  show ?thesis
  proof (cases x)
    case (Inl err)
    then show ?thesis using assms(2) f
      by (intro exI [of _ "[]"]) (auto simp: collect_kind_def)
  next
    case (Inr p)
    obtain events it where p: "p = (events, it)" by fastforce
    have "e = None \<Longrightarrow> {r \<in> logs k. a \<le> rawBlock r \<and> rawBlock r \<le> b} \<subseteq> set events"
      using assms f Inr p by (auto simp: collect_kind_def complete_filter_def)
    then show ?thesis using assms(2) f Inr p
      by (intro exI [of _ "map (to_record_event k) events"]) (auto simp: collect_kind_def fold_map o_def)
  qed
qed

lemma collect_kinds_delivers:
  assumes c: "complete_filter api logs"
  shows "collect_kinds api handler a b ks s = (s', e) \<Longrightarrow> \<exists>ds. snd s' = fold handler ds (snd s) \<and>
    (e = None \<longrightarrow> (\<forall>k \<in> set ks. \<forall>r \<in> logs k. a \<le> rawBlock r \<and> rawBlock r \<le> b \<longrightarrow> to_record_event k r \<in> set ds))"
proof (induction ks arbitrary: s)
  case Nil
  then show ?case by (intro exI [of _ "[]"]) simp
next
  case (Cons k ks)
  obtain t x where t: "collect_kind api handler a b k s = (t, x)" by fastforce
  obtain ds where ds: "snd t = fold handler ds (snd s)"
    "x = None \<longrightarrow> (\<forall>r \<in> logs k. a \<le> rawBlock r \<and> rawBlock r \<le> b \<longrightarrow> to_record_event k r \<in> set ds)"
    using collect_kind_delivers [OF c t] by blast
  show ?case
  proof (cases x)
    case (Some err)
    then show ?thesis using Cons.prems t ds by (intro exI [of _ ds]) auto
  next
    case None
    then have "collect_kinds api handler a b ks t = (s', e)" using Cons.prems t by simp
    from Cons.IH [OF this] obtain es where es: "snd s' = fold handler es (snd t)"
      "e = None \<longrightarrow> (\<forall>k \<in> set ks. \<forall>r \<in> logs k. a \<le> rawBlock r \<and> rawBlock r \<le> b \<longrightarrow> to_record_event k r \<in> set es)"
      by blast
    then show ?thesis using ds None by (intro exI [of _ "ds @ es"]) auto
  qed
qed

lemma collectEvents_delivers:
  assumes "complete_filter api logs" and "collectEvents api handler (lst + 1) b s = (s', e)"
    and "unat (lst + 1) = unat lst + 1"
  shows "\<exists>ds. snd s' = fold handler ds (snd s) \<and> (e = None \<longrightarrow> covers logs lst b ds)"
proof -
  have le: "lst < x \<longleftrightarrow> lst + 1 \<le> x" for x :: "64 word"
    using assms(3) by (simp add: word_less_nat_alt word_le_nat_alt Suc_le_eq)
  have all: "k \<in> set [EventRecordSet, EventRecordRemoved, EventTransferred, EventRegistered]" for k
    by (cases k) simp_all
  from collect_kinds_delivers [OF assms(1) assms(2) [unfolded collectEvents_def]]
  show ?thesis unfolding covers_def le using all by blast
qed

lemma scan_windows_delivers:
  assumes "complete_filter api logs" and "scan_windows api handler head lst s = (s', lst')"
  shows "lst \<le> lst' \<and> (lst' = lst \<or> lst' \<le> head) \<and>
    (\<exists>ds. snd s' = fold handler ds (snd s) \<and> covers logs lst lst' ds)"
  using assms
proof (induction api handler head lst s rule: scan_windows.induct)
  case (1 api handler head lst s)
  show ?case
  proof (cases "lst < head")
    case False
    then show ?thesis using 1(3) by (intro conjI exI [of _ "[]"]) (auto simp: scan_windows.simps)
  next
    case True
    define b where "b = window_end lst head"
    note wb = window_end_bounds [OF True, folded b_def]
    obtain t x where t: "collectEvents api handler (lst + 1) b s = (t, x)" by fastforce
    obtain ds where ds: "snd t = fold handler ds (snd s)" "x = None \<longrightarrow> covers logs lst b ds"
      using collectEvents_delivers [OF 1(2) t wb(4)] by blast
    show ?thesis
    proof (cases x)
      case (Some err)
      then have "s' = t" "lst' = lst"
        using 1(3) True t by (simp_all add: scan_windows.simps [of api handler head lst] b_def [symmetric])
      then show ?thesis using ds by auto
    next
      case None
      then have r: "scan_windows api handler head b t = (s', lst')"
        using 1(3) True t by (simp add: scan_windows.simps [of api handler head lst] b_def [symmetric])
      have ih: "b \<le> lst' \<and> (lst' = b \<or> lst' \<le> head) \<and>
          (\<exists>es. snd s' = fold handler es (snd t) \<and> covers logs b lst' es)"
        by (rule 1(1) [OF True b_def t [symmetric, unfolded None] refl 1(2) r]) 
      then obtain es where es: "snd s' = fold handler es (snd t)" "covers logs b lst' es" by blast
      have "snd s' = fold handler (ds @ es) (snd s) \<and> covers logs lst lst' (ds @ es)"
        using ds es None covers_append by auto
      then show ?thesis using ih wb(1,2) by (meson less_imp_le order_trans)
    qed
  qed
qed

text \<open>When no filter call fails, a scan reaches the head.\<close>

lemma scan_windows_complete:
  assumes "\<And>kind a b w. \<exists>w' events. api_filter api kind a b w = (w', Inr (events, None))"
  shows "snd (scan_windows api handler head lst s) = max lst head"
  using assms
proof (induction api handler head lst s rule: scan_windows.induct)
  case (1 api handler head lst s)
  have ck: "snd (collect_kind api handler a b k s) = None" for a b k s
    using 1(2) [of k a b "fst s"] by (auto simp: collect_kind_def)
  have "snd (collect_kinds api handler a b ks s) = None" for a b ks s
  proof (induction ks arbitrary: s)
    case (Cons k ks)
    then show ?case using ck [of a b k s] by (cases "collect_kind api handler a b k s") simp
  qed simp
  then have ce: "snd (collectEvents api handler a b s) = None" for a b s
    by (simp only: collectEvents_def)
  show ?case
  proof (cases "lst < head")
    case True
    define b where "b = window_end lst head"
    obtain t where t: "collectEvents api handler (lst + 1) b s = (t, None)"
      using ce [of "lst + 1" b s] by (metis prod.collapse)
    have "snd (scan_windows api handler head b t) = max b head"
      by (rule 1(1) [OF True b_def t [symmetric] refl 1(2)])
    then show ?thesis
      using True t window_end_bounds(2) [OF True] less_imp_le [OF True]
      by (simp add: scan_windows.simps [of api handler head lst] b_def [symmetric] max_def)
  qed (simp add: scan_windows.simps max_def)
qed

lemma watch_tick_delivers:
  assumes "complete_filter api logs" and "watch_tick api handler lst s = (s', lst', e)"
  shows "lst \<le> lst' \<and> (\<exists>ds. snd s' = fold handler ds (snd s) \<and> covers logs lst lst' ds)"
proof -
  obtain w x where h: "ChainHead api (fst s) = (w, x)" by fastforce
  show ?thesis
  proof (cases x)
    case (Inl err)
    then show ?thesis using assms(2) h by (intro conjI exI [of _ "[]"]) (auto simp: watch_tick_def)
  next
    case (Inr head)
    then have "scan_windows api handler head lst (w, snd s) = (s', lst')"
      using assms(2) h by (auto simp: watch_tick_def split: prod.splits)
    from scan_windows_delivers [OF assms(1) this] show ?thesis by simp
  qed
qed

lemma watch_loop_delivers:
  assumes "complete_filter api logs"
  shows "watch_loop n api handler lst s = (s', lst', e) \<Longrightarrow>
    lst \<le> lst' \<and> (\<exists>ds. snd s' = fold handler ds (snd s) \<and> covers logs lst lst' ds)"
proof (induction n arbitrary: lst s)
  case 0
  then show ?case by (intro conjI exI [of _ "[]"]) simp_all
next
  case (Suc n)
  obtain w x where t: "api_tick api (fst s) = (w, x)" by fastforce
  show ?case
  proof (cases x)
    case (Some err)
    then show ?thesis using Suc.prems t by (intro conjI exI [of _ "[]"]) auto
  next
    case None
    obtain u lu eu where u: "watch_tick api handler lst (w, snd s) = (u, lu, eu)" by (metis prod_cases3)
    from watch_tick_delivers [OF assms u] obtain ds where
      ds: "lst \<le> lu" "snd u = fold handler ds (snd s)" "covers logs lst lu ds" by auto
    show ?thesis
    proof (cases eu)
      case (Some err)
      then show ?thesis using Suc.prems t None u ds by auto
    next
      case eu: None
      then have "watch_loop n api handler lu u = (s', lst', e)" using Suc.prems t None u by simp
      from Suc.IH [OF this] obtain es where
        es: "lu \<le> lst'" "snd s' = fold handler es (snd u)" "covers logs lu lst' es" by blast
      have "snd s' = fold handler (ds @ es) (snd s)" "covers logs lst lst' (ds @ es)"
        using ds es covers_append by auto
      then show ?thesis using order_trans [OF ds(1) es(1)] by blast
    qed
  qed
qed

text \<open>The endpoint that refuses \<open>eth_getLogs\<close> over more than 2000 blocks.\<close>

definition span_limited :: "'w rpc_api \<Rightarrow> 'w rpc_api" where
  "span_limited api = api\<lparr>api_filter := (\<lambda>kind a b w.
     if unat b + 1 - unat a > 2000 then (w, Inl ''block range too wide'') else api_filter api kind a b w)\<rparr>"

lemma collectEvents_span_limited:
  assumes "unat b + 1 - unat a \<le> 2000"
  shows "collectEvents (span_limited api) handler a b s = collectEvents api handler a b s"
proof -
  have "collect_kind (span_limited api) handler a b = collect_kind api handler a b"
    using assms by (intro ext) (simp add: collect_kind_def span_limited_def)
  then have "collect_kinds (span_limited api) handler a b ks s = collect_kinds api handler a b ks s" for ks s
    by (induction ks arbitrary: s) (simp_all split: prod.split option.split)
  then show ?thesis by (simp only: collectEvents_def)
qed

text \<open>An endpoint with one log of each of two kinds and a chain of 5000 blocks, for the witnesses.\<close>

definition sample_log :: raw_event where
  "sample_log = \<lparr>rawName = ''a.eth'', rawNameHash = [], rawRecordType = ''A'', rawSelector = [], rawBlock = 4100\<rparr>"

definition sample_logs :: "event_kind \<Rightarrow> raw_event list" where
  "sample_logs kind = (if kind = EventRecordSet \<or> kind = EventTransferred then [sample_log] else [])"

definition sample_api :: "unit rpc_api" where
  "sample_api = \<lparr>
     api_blockNumber = (\<lambda>w. (w, Inr 5000)),
     api_resolve = (\<lambda>_ _ _ w. (w, Inl ''eof'')), api_getDomain = (\<lambda>_ w. (w, Inl ''eof'')),
     api_listRecords = (\<lambda>_ w. (w, Inl ''eof'')), api_listTypes = (\<lambda>w. (w, Inl ''eof'')),
     api_filter = (\<lambda>kind a b w. (w, Inr (filter (\<lambda>r. a \<le> rawBlock r \<and> rawBlock r \<le> b) (sample_logs kind), None))),
     api_sleep = (\<lambda>d w. (w, None)), api_tick = (\<lambda>w. (w, None)), api_ctxErr = (\<lambda>_. None)\<rparr>"

lemma sample_api_head: "ChainHead sample_api w = (w, Inr 5000)"
  by (simp add: ChainHead_def retry_def retryAttempts_def numeral_3_eq_3 sample_api_def retry_wait_def)

lemma sample_api_filter: "\<exists>w' events. api_filter sample_api kind a b w = (w', Inr (events, None))"
  by (simp add: sample_api_def)

lemma sample_api_complete: "complete_filter sample_api (\<lambda>k. set (sample_logs k))"
  by (auto simp: complete_filter_def sample_api_def)

lemma sample_watch: "fst (snd (watch_loop 1 sample_api handler 100 ((), h))) = 5000"
proof -
  have "fst (snd (watch_tick sample_api handler 100 ((), h))) = max 100 5000"
    using scan_windows_complete [OF sample_api_filter, of handler 5000 100 "((), h)"]
    by (auto simp: watch_tick_def sample_api_head split: prod.split)
  moreover have "snd (snd (watch_tick sample_api handler 100 ((), h))) = None"
    by (simp add: watch_tick_def sample_api_head split: prod.split)
  ultimately show ?thesis
    by (cases "watch_tick sample_api handler 100 ((), h)") (simp add: sample_api_def)
qed

section \<open>Properties\<close>

text \<open>
  C18: No contract event is missed. Over any number of poll rounds, whatever calls fail in between, the
  watcher's position never moves back, and every log of the four event kinds in the blocks it has moved
  over has been handed to the handler; the handler has seen nothing but a sequence of events.
\<close>

theorem watcher_delivers_every_event:
  assumes "complete_filter api logs" and "watch_loop n api handler lst (w, h) = ((w', h'), lst', e)"
  shows "lst \<le> lst' \<and>
    (\<exists>ds. h' = fold handler ds h \<and>
       (\<forall>kind. \<forall>r \<in> logs kind. lst < rawBlock r \<and> rawBlock r \<le> lst' \<longrightarrow> to_record_event kind r \<in> set ds))"
  using watch_loop_delivers [OF assms] by (simp add: covers_def)

theorem watcher_delivers_every_event_witness:
  "to_record_event EventTransferred sample_log \<in> set (snd (fst (watch_loop 1 sample_api (\<lambda>e es. es @ [e]) 100 ((), []))))"
proof -
  define r where "r = watch_loop 1 sample_api (\<lambda>e es. es @ [e]) 100 ((), [])"
  have l: "fst (snd r) = 5000" unfolding r_def by (rule sample_watch)
  have f: "fold (\<lambda>e es. es @ [e]) ds [] = ds" for ds :: "record_event list"
    by (induction ds rule: rev_induct) simp_all
  have "watch_loop 1 sample_api (\<lambda>e es. es @ [e]) 100 ((), []) =
      ((fst (fst r), snd (fst r)), fst (snd r), snd (snd r))"
    by (simp only: r_def prod.collapse)
  from watcher_delivers_every_event [OF sample_api_complete this]
  obtain ds where "snd (fst r) = fold (\<lambda>e es. es @ [e]) ds []"
    "\<forall>kind. \<forall>x \<in> set (sample_logs kind). 100 < rawBlock x \<and> rawBlock x \<le> fst (snd r) \<longrightarrow> to_record_event kind x \<in> set ds"
    by blast
  then show ?thesis unfolding r_def [symmetric] f l
    by (auto simp: sample_logs_def sample_log_def)
qed

text \<open>
  C35: The scan makes progress: when the endpoint answers, one poll round brings the watcher to the chain
  head, however many windows that takes (and it stays where it is when the head is not ahead).
\<close>

theorem watcher_reaches_head:
  assumes "\<And>kind a b w. \<exists>w' events. api_filter api kind a b w = (w', Inr (events, None))"
    and "ChainHead api w = (w', Inr head)"
  shows "fst (snd (watch_tick api handler lst (w, h))) = max lst head \<and>
    snd (snd (watch_tick api handler lst (w, h))) = None"
  using scan_windows_complete [OF assms(1), of handler head lst "(w', h)"]
  by (auto simp: watch_tick_def assms(2) split: prod.split)

theorem watcher_reaches_head_witness:
  "fst (snd (watch_tick sample_api (\<lambda>e es. es @ [e]) 100 ((), []))) = 5000"
  using watcher_reaches_head [OF sample_api_filter sample_api_head, where handler = "\<lambda>e es. es @ [e]" and lst = 100 and h = "[]"]
  by simp

text \<open>
  The watcher never asks for logs over more than 2000 blocks: against an endpoint that refuses wider
  ranges it behaves exactly as against one without that limit.
\<close>

theorem watcher_respects_span_limit:
  "scan_windows (span_limited api) handler head lst s = scan_windows api handler head lst s"
proof (induction api handler head lst s rule: scan_windows.induct)
  case (1 api handler head lst s)
  show ?case
  proof (cases "lst < head")
    case True
    have "collectEvents (span_limited api) handler (lst + 1) (window_end lst head) s =
        collectEvents api handler (lst + 1) (window_end lst head) s"
      using window_end_bounds(3,4) [OF True] by (intro collectEvents_span_limited) simp
    moreover obtain t x where t: "collectEvents api handler (lst + 1) (window_end lst head) s = (t, x)"
      by fastforce
    ultimately show ?thesis
      using 1 [OF True refl t [symmetric]] True
      by (cases x) (simp_all add: scan_windows.simps [of _ handler head lst])
  qed (simp add: scan_windows.simps)
qed

end
