(* ===== verification/Push_Invalidation.thy ===== *)
theory Push_Invalidation
  imports Namespace_Laws Chain_Events Query_Path
begin

text \<open>
  Push invalidation through all layers: the contract's logs, the watcher that polls them in windows, and the cache that drops what they
  concern. A chain is the sequence of the contract's storages after its blocks, with the block times; the logs of a block are those
  added by it.
\<close>

section \<open>Definitions\<close>

record dapp_chain =
  bc_time :: "nat \<Rightarrow> nat"
  bc_state :: "nat \<Rightarrow> dapp"

definition valid_chain :: "sol_lib \<Rightarrow> dapp_env \<Rightarrow> dapp_chain \<Rightarrow> bool" where
  "valid_chain L E B \<longleftrightarrow>
     (\<forall>n. bc_time B n \<le> bc_time B (Suc n) \<and> dapp_runs L E UNIV (bc_time B (Suc n)) (bc_state B n) (bc_state B (Suc n)))"

definition block_logs :: "dapp_chain \<Rightarrow> nat \<Rightarrow> dapp_log list" where
  "block_logs B n = drop (length (nd_logs (bc_state B n))) (nd_logs (bc_state B (Suc n)))"

text \<open>The fields of a log as the bindings hand them to the watcher.\<close>

definition watched_log :: "64 word \<Rightarrow> dapp_log \<Rightarrow> (event_kind \<times> raw_event) option" where
  "watched_log blk l =
     (case l of
        RecordSet h n k t sel ttl \<Rightarrow>
          Some (EventRecordSet, \<lparr>rawName = n, rawNameHash = h, rawRecordType = t, rawSelector = sel, rawBlock = blk\<rparr>)
      | RecordRemoved h n k t sel \<Rightarrow>
          Some (EventRecordRemoved, \<lparr>rawName = n, rawNameHash = h, rawRecordType = t, rawSelector = sel, rawBlock = blk\<rparr>)
      | Transferred h a b k \<Rightarrow>
          Some (EventTransferred, \<lparr>rawName = [], rawNameHash = h, rawRecordType = [], rawSelector = [], rawBlock = blk\<rparr>)
      | Registered h n a k e g fee \<Rightarrow>
          Some (EventRegistered, \<lparr>rawName = n, rawNameHash = h, rawRecordType = [], rawSelector = [], rawBlock = blk\<rparr>)
      | _ \<Rightarrow> None)"

definition chain_logs :: "dapp_chain \<Rightarrow> event_kind \<Rightarrow> raw_event set" where
  "chain_logs B kind = {r. \<exists>n. \<exists>l \<in> set (block_logs B n). watched_log (word_of_nat (Suc n)) l = Some (kind, r)}"

text \<open>The name that a log carries in full; a transfer carries its hash only.\<close>

definition log_plain :: "dapp_log \<Rightarrow> (hash32 \<times> string) option" where
  "log_plain l =
     (case l of
        Registered h n _ _ _ _ _ \<Rightarrow> Some (h, n) | RecordSet h n _ _ _ _ \<Rightarrow> Some (h, n) | RecordRemoved h n _ _ _ \<Rightarrow> Some (h, n)
      | _ \<Rightarrow> None)"

section \<open>Logs and histories\<close>

text \<open>The hash in a log is the hash of the name in it.\<close>

definition logs_named :: "sol_lib \<Rightarrow> dapp \<Rightarrow> dapp \<Rightarrow> bool" where
  "logs_named L s s' \<longleftrightarrow>
     (\<exists>new. nd_logs s' = nd_logs s @ new \<and> (\<forall>l \<in> set new. \<forall>h n. log_plain l = Some (h, n) \<longrightarrow> h = name_hash L n))"

lemma logs_named_update:
  assumes "dapp_update L E reg m c s = Inr s'" shows "logs_named L s s'"
  using assms
proof (cases rule: dapp_update_cases)
  case (RemoveRecord n t sel)
  show ?thesis by (rule removeRecord_Inr [OF RemoveRecord(2)]) (auto simp: logs_named_def log_plain_def)
qed (auto simp: logs_named_def log_plain_def commit_def
    dest!: register_update_Inr(6) renew_update_Inr(2) transfer_Inr(4) setRecord_Inr(4))

interpretation named: dapp_relation L E A now "logs_named L" for L E A now
proof
  show "logs_named L s (s\<lparr>nd_balance := b\<rparr>)" for s b by (simp add: logs_named_def)
  show "logs_named L s s1 \<Longrightarrow> logs_named L s1 s2 \<Longrightarrow> logs_named L s s2" for s s1 s2
    unfolding logs_named_def by (metis Un_iff append.assoc set_append)
qed (rule logs_named_update)

lemma block_logs_append:
  assumes "valid_chain L E B"
  shows "nd_logs (bc_state B (Suc n)) = nd_logs (bc_state B n) @ block_logs B n"
    "l \<in> set (block_logs B n) \<Longrightarrow> log_plain l = Some (h, x) \<Longrightarrow> h = name_hash L x"
proof -
  have "logs_named L (bc_state B n) (bc_state B (Suc n))"
    using assms named.rel_runs [of L E UNIV "bc_time B (Suc n)"] by (simp add: valid_chain_def)
  then obtain new where new: "nd_logs (bc_state B (Suc n)) = nd_logs (bc_state B n) @ new"
    "\<forall>l \<in> set new. \<forall>h n. log_plain l = Some (h, n) \<longrightarrow> h = name_hash L n" unfolding logs_named_def by blast
  then have "block_logs B n = new" by (simp add: block_logs_def)
  then show "nd_logs (bc_state B (Suc n)) = nd_logs (bc_state B n) @ block_logs B n"
    "l \<in> set (block_logs B n) \<Longrightarrow> log_plain l = Some (h, x) \<Longrightarrow> h = name_hash L x" using new by blast+
qed

lemma chain_history:
  assumes v: "valid_chain L E B" and "a \<le> b"
  shows "dapp_history L E UNIV (bc_time B a) (bc_state B a) (bc_time B b) (bc_state B b) \<and>
    nd_logs (bc_state B b) = nd_logs (bc_state B a) @ concat (map (block_logs B) [a..<b])"
  using assms(2)
proof (induction b rule: dec_induct)
  case (step n)
  have "bc_time B n \<le> bc_time B (Suc n)" "dapp_runs L E UNIV (bc_time B (Suc n)) (bc_state B n) (bc_state B (Suc n))"
    using v by (simp_all add: valid_chain_def)
  from history_block [OF conjunct1 [OF step.IH] this] step block_logs_append(1) [OF v, of n] show ?case by simp
qed (simp add: history_refl)

section \<open>Events and the cache\<close>

lemma event_of_log:
  assumes "log_name l = Some (nameHash C (kName k))" "\<And>h' n. log_plain l = Some (h', n) \<Longrightarrow> n = kName k"
  shows "\<exists>kind r. watched_log blk l = Some (kind, r) \<and> rawBlock r = blk \<and> event_hits C (to_record_event kind r) k"
  using assms by (cases l) (simp_all add: log_name_def watched_log_def log_plain_def event_hits_def to_record_event_def)

context lru_cache
begin

lemma events_keep:
  "ok c \<Longrightarrow> ok (fold (HandleEvent E) ds c) \<and>
   snd (cache_Get E now k (fold (HandleEvent E) ds c)) =
     (if \<exists>ev \<in> set ds. event_hits E ev k then None else snd (cache_Get E now k c))"
proof (induction ds arbitrary: c)
  case (Cons ev ds)
  have "snd (cache_Get E now k (HandleEvent E ev c)) = (if event_hits E ev k then None else snd (cache_Get E now k c))"
    using get_fst [OF Cons.prems, of now k] event_spec(2) [OF Cons.prems, of ev]
      get_fst [OF event_spec(1) [OF Cons.prems, of ev], of now k]
    by (simp add: restrict_map_def)
  then show ?case using Cons.IH [OF event_spec(1) [OF Cons.prems, of ev]] by auto
qed simp

end

text \<open>A log of the name in a block the watcher has passed has led to an event that concerns every key of the name.\<close>

lemma passed_log_hits:
  assumes "valid_chain L E B" and "env_keccak C = keccak256 L"
    and cov: "covers (chain_logs B) (word_of_nat a) (word_of_nat b) ds" and "b < 2 ^ 64"
    and l: "l \<in> set (block_logs B n)" and n: "a \<le> n" "n < b" and nm: "log_name l = Some (name_hash L (kName k))"
    and inj: "\<And>h x. log_plain l = Some (h, x) \<Longrightarrow> name_hash L x = name_hash L (kName k) \<Longrightarrow> x = kName k"
  shows "\<exists>ev \<in> set ds. event_hits C ev k"
proof -
  have hk: "name_hash L (kName k) = nameHash C (kName k)" by (simp add: name_hash_def nameHash_def assms(2))
  have pl: "x = kName k" if "log_plain l = Some (h', x)" for h' x
  proof -
    have "h' = name_hash L x" by (rule block_logs_append(2) [OF assms(1) l that])
    moreover have "h' = name_hash L (kName k)" using nm that by (cases l) (auto simp: log_name_def log_plain_def)
    ultimately show ?thesis using inj [OF that] by simp
  qed
  have "\<exists>kind r. watched_log (word_of_nat (Suc n)) l = Some (kind, r) \<and> rawBlock r = word_of_nat (Suc n) \<and>
      event_hits C (to_record_event kind r) k"
    by (rule event_of_log [OF nm [unfolded hk]]) (rule pl)
  then obtain kind r where r: "watched_log (word_of_nat (Suc n)) l = Some (kind, r)" "rawBlock r = word_of_nat (Suc n)"
    "event_hits C (to_record_event kind r) k" by blast
  have u: "unat (word_of_nat x :: 64 word) = x" if "x \<le> b" for x using that assms(4) by (simp add: unat_of_nat)
  have "(word_of_nat a :: 64 word) < word_of_nat (Suc n) \<and> (word_of_nat (Suc n) :: 64 word) \<le> word_of_nat b"
    unfolding word_less_nat_alt word_le_nat_alt using n u [of a] u [of b] u [of "Suc n"] by simp
  moreover have "r \<in> chain_logs B kind" using l r(1) by (auto simp: chain_logs_def)
  ultimately have "to_record_event kind r \<in> set ds" using cov r(2) by (auto simp: covers_def)
  with r(3) show ?thesis by blast
qed

section \<open>Cached answers\<close>

text \<open>
  Cached answers are current. Take an answer that was cached when the watcher stood at block \<open>a\<close> and that was what the contract returned
  then. If it is still in the cache when the watcher has moved to block \<open>b\<close>, whatever calls of the watcher failed on the way, then it
  is what the contract returns at block \<open>b\<close>, unless the name's registration has run out meanwhile. (The names concerned do not collide
  under keccak256.)
\<close>

lemma cached_answer_is_current:
  assumes "valid_chain L E B" and "lru_cache C contents cap linv N" and "cache_ok C contents cap linv N c" and "env_keccak C = keccak256 L"
    and "complete_filter api (chain_logs B)"
    and "watch_loop rounds api (HandleEvent C) (word_of_nat a) (w, c) = ((w', c'), word_of_nat b, err)" and "b < 2 ^ 64" "a \<le> b"
    and "\<And>n l h x. l \<in> set (block_logs B n) \<Longrightarrow> log_plain l = Some (h, x) \<Longrightarrow> name_hash L x = name_hash L (qName q) \<Longrightarrow> x = qName q"
    and "snd (cache_Get C t (query_key q) c) = Some res"
    and "resRecord res = fromBinding (fst (resolve L (bc_time B a) (bc_state B a) (qName q) (qType q) (qSelector q)))"
    and "snd (cache_Get C t (query_key q) c') = Some res'"
  shows "res' = res \<and>
    (resRecord res' = fromBinding (fst (resolve L (bc_time B b) (bc_state B b) (qName q) (qType q) (qSelector q))) \<or>
     ownerOf L (bc_time B b) (bc_state B b) (qName q) = zero_address)"
proof -
  let ?k = "query_key q" let ?h = "name_hash L (qName q)"
  obtain ds where ds: "c' = fold (HandleEvent C) ds c" "covers (chain_logs B) (word_of_nat a) (word_of_nat b) ds"
    using watch_loop_delivers [OF assms(5,6)] by auto
  have keep: "snd (cache_Get C t ?k c') = (if \<exists>ev \<in> set ds. event_hits C ev ?k then None else snd (cache_Get C t ?k c))"
    using lru_cache.events_keep [OF assms(2,3)] by (simp add: ds(1))
  have miss: "\<not> event_hits C ev ?k" if "ev \<in> set ds" for ev using keep assms(12) that by (auto split: if_splits)
  have res: "res' = res" using keep assms(10,12) by (simp split: if_splits)
  have no: "log_name l \<noteq> Some ?h" if l: "l \<in> set (block_logs B n)" and n: "a \<le> n" "n < b" for l n
    using passed_log_hits [OF assms(1,4) ds(2) assms(7) l n, of ?k] assms(9) [OF l] miss by (auto simp: query_key_def)
  have h: "dapp_history L E UNIV (bc_time B a) (bc_state B a) (bc_time B b) (bc_state B b)"
    "nd_logs (bc_state B b) = nd_logs (bc_state B a) @ concat (map (block_logs B) [a..<b])"
    using chain_history [OF assms(1,8)] by simp_all
  have q: "quiet_since (bc_time B a) (nd_domains (bc_state B a) ?h) (nd_domains (bc_state B b) ?h)"
    "nd_records (bc_state B b) ?h = nd_records (bc_state B a) ?h" "bc_time B a \<le> bc_time B b"
    using history_quiet [OF h(1)] h(2) no by auto
  from resolve_quiet [OF q refl, of "qType q" "qSelector q"] show ?thesis using res assms(11) by (auto simp: ownerOf_def Let_def)
qed

section \<open>A chain with a renewal\<close>

definition renewal_chain :: dapp_chain where
  "renewal_chain = \<lparr>bc_time = (\<lambda>n. if n = 0 then 300 else 400), bc_state = (\<lambda>n. if n = 0 then sample_dapp else sample_renewed)\<rparr>"

definition renewal_api :: "unit rpc_api" where
  "renewal_api = sample_api\<lparr>api_blockNumber := (\<lambda>w. (w, Inr 1)), api_filter := (\<lambda>kind a b w. (w, Inr ([], None)))\<rparr>"

lemma renewal_chain_facts:
  "valid_chain sample_sol sample_env renewal_chain" "block_logs renewal_chain n \<noteq> [] \<Longrightarrow> n = 0"
  "block_logs renewal_chain 0 = [Renewed (name_hash sample_sol ''example'') 63072200 10]"
proof -
  have "dapp_exec sample_sol sample_env sample_registry plain_account (sample_msg bob 10 400) (CallRenew ''example'') sample_dapp = Inr sample_renewed"
    using sample_renewed_run(1) by (simp add: dapp_sample_def)
  from runs_call [OF runs_refl refl UNIV_I this] have "dapp_runs sample_sol sample_env UNIV 400 sample_dapp sample_renewed"
    by (auto simp: sample_msg_def plain_account_def intro: runs_refl)
  then show "valid_chain sample_sol sample_env renewal_chain" by (simp add: valid_chain_def renewal_chain_def runs_refl)
qed (auto simp: block_logs_def renewal_chain_def sample_renewed_run(2) split: if_splits)

lemma renewal_watch: "watch_loop 1 renewal_api h (word_of_nat 0) ((), c) = (((), c), word_of_nat 1, None)"
proof -
  have hd: "ChainHead renewal_api w = (w, Inr 1)" for w
    by (simp add: ChainHead_def retry_def retryAttempts_def numeral_3_eq_3 renewal_api_def sample_api_def retry_wait_def)
  have "collect_kind renewal_api h a b k s = (s, None)" for a b k s by (cases s) (simp add: collect_kind_def renewal_api_def)
  then have "collectEvents renewal_api h a b s = (s, None)" for a b s by (simp add: collectEvents_def)
  then have "scan_windows renewal_api h 1 0 ((), c) = (((), c), 1)"
    by (simp add: scan_windows.simps [of _ _ _ 0] scan_windows.simps [of _ _ _ 1] window_end_def maxBlockSpan_def)
  moreover have "api_tick renewal_api w = (w, None)" for w by (simp add: renewal_api_def sample_api_def)
  ultimately show ?thesis by (simp add: watch_tick_def hd)
qed

end
