(* ===== verification/Resolver_Directory.thy ===== *)
theory Resolver_Directory
  imports Solidity
begin

text \<open>
  The directory of resolvers, src/contracts/contracts/ResolverRegistry.sol: announcing and revoking an endpoint with its identity
  key, and the enumeration that clients use to find a resolver.
\<close>

section \<open>Definitions\<close>

record resolver_entry =
  rs_pubKey :: hash32
  rs_endpoint :: string
  rs_updatedAt :: "64 word"
  rs_active :: bool

datatype directory_error = EmptyPubKey | EmptyEndpoint | EndpointTooLong | NotRegistered | DirectoryNotPayable | IndexPanic

datatype directory_log = ResolverAnnounced address hash32 string | ResolverRevoked address

record directory =
  rd_resolvers :: "address \<Rightarrow> resolver_entry"
  rd_operators :: "address list"
  rd_logs :: "directory_log list"

definition MAX_ENDPOINT_LENGTH :: nat where "MAX_ENDPOINT_LENGTH = 256"

definition empty_directory :: directory where
  "empty_directory =
     \<lparr>rd_resolvers = (\<lambda>_. \<lparr>rs_pubKey = zero_hash, rs_endpoint = [], rs_updatedAt = 0, rs_active = False\<rparr>), rd_operators = [], rd_logs = []\<rparr>"

definition announce :: "sol_msg \<Rightarrow> hash32 \<Rightarrow> string \<Rightarrow> directory \<Rightarrow> directory_error + directory" where
  "announce m pubKey endpoint s =
     (if msg_value m > 0 then Inl DirectoryNotPayable
      else if pubKey = zero_hash then Inl EmptyPubKey
      else if length endpoint = 0 then Inl EmptyEndpoint
      else if length endpoint > MAX_ENDPOINT_LENGTH then Inl EndpointTooLong
      else
        (let r = rd_resolvers s (msg_sender m);
             ops = (if rs_updatedAt r = 0 then rd_operators s @ [msg_sender m] else rd_operators s);
             r = \<lparr>rs_pubKey = pubKey, rs_endpoint = endpoint, rs_updatedAt = word_of_nat (block_timestamp m), rs_active = True\<rparr>
         in Inr (s\<lparr>rd_resolvers := (rd_resolvers s)(msg_sender m := r), rd_operators := ops,
                   rd_logs := rd_logs s @ [ResolverAnnounced (msg_sender m) pubKey endpoint]\<rparr>)))"

definition revoke :: "sol_msg \<Rightarrow> directory \<Rightarrow> directory_error + directory" where
  "revoke m s =
     (if msg_value m > 0 then Inl DirectoryNotPayable
      else
        (let r = rd_resolvers s (msg_sender m)
         in if \<not> rs_active r then Inl NotRegistered
            else Inr (s\<lparr>rd_resolvers := (rd_resolvers s)(msg_sender m := r\<lparr>rs_active := False\<rparr>),
                        rd_logs := rd_logs s @ [ResolverRevoked (msg_sender m)]\<rparr>)))"

definition getResolver :: "directory \<Rightarrow> address \<Rightarrow> hash32 \<times> string \<times> 64 word \<times> bool" where
  "getResolver s operator =
     (let r = rd_resolvers s operator in (rs_pubKey r, rs_endpoint r, rs_updatedAt r, rs_active r))"

definition operatorCount :: "directory \<Rightarrow> nat" where
  "operatorCount s = length (rd_operators s)"

definition operatorAt :: "directory \<Rightarrow> nat \<Rightarrow> directory_error + address" where
  "operatorAt s i = (if i < length (rd_operators s) then Inr (rd_operators s ! i) else Inl IndexPanic)"

text \<open>The second loop of \<open>activeResolvers\<close>, with the three arrays it fills.\<close>

fun collect_active ::
  "directory \<Rightarrow> address list \<Rightarrow> address list \<times> hash32 list \<times> string list \<Rightarrow> address list \<times> hash32 list \<times> string list" where
  "collect_active s [] out = out"
| "collect_active s (a # as) (ops, keys, urls) =
     (let r = rd_resolvers s a
      in collect_active s as (if rs_active r then (ops @ [a], keys @ [rs_pubKey r], urls @ [rs_endpoint r]) else (ops, keys, urls)))"

definition activeResolvers :: "directory \<Rightarrow> address list \<times> hash32 list \<times> string list" where
  "activeResolvers s = collect_active s (rd_operators s) ([], [], [])"

text \<open>The states of the deployed directory; block times are positive and below \<open>2^64\<close>.\<close>

inductive directory_reachable :: "directory \<Rightarrow> bool" where
  directory_init: "directory_reachable empty_directory"
| directory_announce: "directory_reachable s \<Longrightarrow> 0 < block_timestamp m \<Longrightarrow> block_timestamp m < 2 ^ 64 \<Longrightarrow>
    announce m pubKey endpoint s = Inr s' \<Longrightarrow> directory_reachable s'"
| directory_revoke: "directory_reachable s \<Longrightarrow> revoke m s = Inr s' \<Longrightarrow> directory_reachable s'"

section \<open>Facts\<close>

lemma collect_active_eq:
  "collect_active s as (ops, keys, urls) =
     (let act = filter (\<lambda>a. rs_active (rd_resolvers s a)) as
      in (ops @ act, keys @ map (\<lambda>a. rs_pubKey (rd_resolvers s a)) act, urls @ map (\<lambda>a. rs_endpoint (rd_resolvers s a)) act))"
  by (induction as arbitrary: ops keys urls) (auto simp: Let_def)

text \<open>Operators are enumerated once, when they first announce; active ones have a key and an endpoint.\<close>

definition directory_inv :: "directory \<Rightarrow> bool" where
  "directory_inv s \<longleftrightarrow>
     distinct (rd_operators s) \<and> (\<forall>a. a \<in> set (rd_operators s) \<longleftrightarrow> rs_updatedAt (rd_resolvers s a) \<noteq> 0) \<and>
     (\<forall>a. rs_active (rd_resolvers s a) \<longrightarrow>
        rs_updatedAt (rd_resolvers s a) \<noteq> 0 \<and> rs_pubKey (rd_resolvers s a) \<noteq> zero_hash \<and>
        0 < length (rs_endpoint (rd_resolvers s a)) \<and> length (rs_endpoint (rd_resolvers s a)) \<le> 256)"

lemma directory_reachable_inv: "directory_reachable s \<Longrightarrow> directory_inv s"
proof (induction rule: directory_reachable.induct)
  case (directory_announce s m pubKey endpoint s')
  have "(word_of_nat (block_timestamp m) :: 64 word) \<noteq> 0"
    using directory_announce.hyps(2,3) by (simp add: word_of_nat_eq_0_iff nat_dvd_not_less)
  then show ?case using directory_announce.IH directory_announce.hyps(4)
    by (auto simp: announce_def directory_inv_def MAX_ENDPOINT_LENGTH_def Let_def split: if_splits)
next
  case (directory_revoke s m s')
  then show ?case by (auto simp: revoke_def directory_inv_def Let_def split: if_splits)
qed (simp add: directory_inv_def empty_directory_def)

section \<open>Properties\<close>

text \<open>
  The directory lists every active resolver once, with aligned arrays: \<open>activeResolvers\<close> returns the operators that have announced and not
  revoked, without repetition, and the key and the endpoint at a position are those the operator at that position last
  announced, never empty.
\<close>

theorem directory_lists_active:
  assumes "directory_reachable s" and "activeResolvers s = (ops, keys, urls)"
  shows "distinct ops \<and> set ops = {a. \<exists>k u t. getResolver s a = (k, u, t, True)} \<and> length keys = length ops \<and> length urls = length ops \<and>
    (\<forall>i < length ops. \<exists>t. getResolver s (ops ! i) = (keys ! i, urls ! i, t, True) \<and> keys ! i \<noteq> zero_hash \<and> urls ! i \<noteq> [])"
proof -
  have "directory_inv s" by (rule directory_reachable_inv [OF assms(1)])
  moreover define act where "act = filter (\<lambda>a. rs_active (rd_resolvers s a)) (rd_operators s)"
  ultimately have a: "distinct act" "set act = {a. rs_active (rd_resolvers s a)}"
    "\<And>a. a \<in> set act \<Longrightarrow> rs_pubKey (rd_resolvers s a) \<noteq> zero_hash \<and> rs_endpoint (rd_resolvers s a) \<noteq> []"
    by (auto simp: directory_inv_def)
  have "ops = act" "keys = map (\<lambda>a. rs_pubKey (rd_resolvers s a)) act" "urls = map (\<lambda>a. rs_endpoint (rd_resolvers s a)) act"
    using assms(2) by (auto simp: activeResolvers_def collect_active_eq Let_def act_def)
  then show ?thesis using a by (auto simp: getResolver_def Let_def dest: nth_mem)
qed

definition sample_directory :: directory where
  "sample_directory =
     projr (announce \<lparr>msg_sender = [2], msg_value = 0, block_timestamp = 5\<rparr> (replicate 32 1) ''http://r'' empty_directory)"

theorem directory_lists_active_witness:
  "activeResolvers sample_directory = ([[2]], [replicate 32 1], [''http://r'']) \<and>
   {a. \<exists>k u t. getResolver sample_directory a = (k, u, t, True)} = {[2]}"
proof -
  have a: "announce \<lparr>msg_sender = [2], msg_value = 0, block_timestamp = 5\<rparr> (replicate 32 1) ''http://r'' empty_directory = Inr sample_directory"
    by (simp add: sample_directory_def announce_def zero_hash_def MAX_ENDPOINT_LENGTH_def Let_def)
  have r: "directory_reachable sample_directory" by (rule directory_announce [OF directory_init _ _ a]) simp_all
  have "activeResolvers sample_directory = ([[2]], [replicate 32 1], [''http://r''])"
    by (simp add: sample_directory_def announce_def zero_hash_def MAX_ENDPOINT_LENGTH_def empty_directory_def activeResolvers_def Let_def)
  then show ?thesis using directory_lists_active [OF r] by auto
qed

end
