(* ===== verification/Payment_Channels.thy ===== *)
theory Payment_Channels
  imports Solidity Pay_Voucher
begin

text \<open>
  The payment channels, src/contracts/contracts/ResolverIncentives.sol: deposits, the redemption of vouchers and the refund, with the
  recovery of a voucher's signer as the contract does it.

  As in Namespace_Contract, an entry point reverts or returns the new storage, and \<open>callee\<close> is what the receiver of a payment
  does before the call returns.
\<close>

section \<open>Definitions\<close>

record channel =
  ch_client :: address
  ch_resolver :: address
  ch_deposit :: nat
  ch_claimed :: nat
  ch_expiresAt :: "64 word"

datatype incentives_log =
    ChannelOpened hash32 address address nat "64 word"
  | Claimed hash32 nat nat
  | ChannelClosed hash32 nat

datatype incentives_error =
    ZeroResolver | NoDeposit | NoChannel | NotResolver | NotClient | BadVoucher | NothingToClaim | NotExpired | TransferFailed
  | ChannelsNotPayable | ChannelsPanic

record incentives =
  ic_channels :: "hash32 \<Rightarrow> channel"
  ic_nonce :: nat
  ic_balance :: nat
  ic_logs :: "incentives_log list"

type_synonym incentives_callee = "address \<Rightarrow> nat \<Rightarrow> incentives \<Rightarrow> incentives option"

definition MIN_DURATION :: "64 word" where "MIN_DURATION = 3600"
definition SETTLEMENT_WINDOW :: nat where "SETTLEMENT_WINDOW = 3600"
definition HALF_N :: nat where "HALF_N = 0x7FFFFFFFFFFFFFFFFFFFFFFFFFFFFFFF5D576E7357A4501DDFE92F46681B20A0"

definition zero_channel :: channel where
  "zero_channel = \<lparr>ch_client = zero_address, ch_resolver = zero_address, ch_deposit = 0, ch_claimed = 0, ch_expiresAt = 0\<rparr>"

definition empty_incentives :: incentives where
  "empty_incentives = \<lparr>ic_channels = (\<lambda>_. zero_channel), ic_nonce = 0, ic_balance = 0, ic_logs = []\<rparr>"

definition ic_emit :: "incentives_log \<Rightarrow> incentives \<Rightarrow> incentives" where
  "ic_emit l s = s\<lparr>ic_logs := ic_logs s @ [l]\<rparr>"

text \<open>Addition of \<open>uint64\<close> values, checked.\<close>

definition u64_add :: "'e \<Rightarrow> 64 word \<Rightarrow> 64 word \<Rightarrow> 'e + 64 word" where
  "u64_add p a b = (if unat a + unat b < 2 ^ 64 then Inr (a + b) else Inl p)"

definition channel_id :: "sol_lib \<Rightarrow> address \<Rightarrow> address \<Rightarrow> nat \<Rightarrow> hash32" where
  "channel_id L client resolver nonce = keccak256 L (abi_address client @ abi_address resolver @ abi_uint nonce)"

definition openChannel :: "sol_lib \<Rightarrow> sol_msg \<Rightarrow> address \<Rightarrow> 64 word \<Rightarrow> incentives \<Rightarrow> incentives_error + incentives \<times> hash32" where
  "openChannel L m resolver duration s =
     (if resolver = zero_address then Inl ZeroResolver
      else if msg_value m = 0 then Inl NoDeposit
      else
        (let duration = (if duration < MIN_DURATION then MIN_DURATION else duration);
             chid = channel_id L (msg_sender m) resolver (ic_nonce s)
         in rbind (u256_add ChannelsPanic (ic_nonce s) 1) (\<lambda>nonce.
            rbind (u64_add ChannelsPanic (word_of_nat (block_timestamp m)) duration) (\<lambda>expiresAt.
              Inr (ic_emit (ChannelOpened chid (msg_sender m) resolver (msg_value m) expiresAt)
                     (s\<lparr>ic_nonce := nonce,
                        ic_channels := (ic_channels s)(chid :=
                          \<lparr>ch_client = msg_sender m, ch_resolver = resolver, ch_deposit = msg_value m, ch_claimed = 0,
                           ch_expiresAt = expiresAt\<rparr>)\<rparr>), chid)))))"

definition voucherDigest :: "sol_lib \<Rightarrow> address \<Rightarrow> hash32 \<Rightarrow> nat \<Rightarrow> hash32" where
  "voucherDigest L self chid cumulative =
     (let inner = keccak256 L (abi_address self @ chid @ abi_uint cumulative)
      in keccak256 L ([0x19] @ str_bytes ''Ethereum Signed Message:'' @ [10] @ str_bytes ''32'' @ inner))"

definition recoverVoucher_sol :: "sol_lib \<Rightarrow> address \<Rightarrow> hash32 \<Rightarrow> nat \<Rightarrow> bytes \<Rightarrow> incentives_error + address" where
  "recoverVoucher_sol L self chid cumulative sg =
     (if length sg \<noteq> 65 then Inl BadVoucher
      else
        (let r = take 32 sg; s = take 32 (drop 32 sg); v = sg ! 64;
             v = (if v < 27 then v + 27 else v)
         in if be_nat s > HALF_N then Inl BadVoucher
            else
              (let signer = ecrecover L (voucherDigest L self chid cumulative) v r s
               in if signer = zero_address then Inl BadVoucher else Inr signer)))"

definition pay_out :: "incentives_callee \<Rightarrow> address \<Rightarrow> nat \<Rightarrow> incentives \<Rightarrow> incentives_error + incentives" where
  "pay_out callee recipient amount s =
     (if amount > ic_balance s then Inl TransferFailed
      else case callee recipient amount (s\<lparr>ic_balance := ic_balance s - amount\<rparr>) of
             None \<Rightarrow> Inl TransferFailed
           | Some s \<Rightarrow> Inr s)"

definition claim ::
  "sol_lib \<Rightarrow> address \<Rightarrow> incentives_callee \<Rightarrow> sol_msg \<Rightarrow> hash32 \<Rightarrow> nat \<Rightarrow> bytes \<Rightarrow> incentives \<Rightarrow> incentives_error + incentives" where
  "claim L self callee m chid cumulative clientSig s =
     (let ch = ic_channels s chid
      in if ch_client ch = zero_address then Inl NoChannel
         else if msg_sender m \<noteq> ch_resolver ch then Inl NotResolver
         else
           rbind (recoverVoucher_sol L self chid cumulative clientSig) (\<lambda>signer.
             if signer \<noteq> ch_client ch then Inl BadVoucher
             else
               (let effective = (if cumulative > ch_deposit ch then ch_deposit ch else cumulative)
                in if effective \<le> ch_claimed ch then Inl NothingToClaim
                   else
                     (let pay = effective - ch_claimed ch
                      in rbind (pay_out callee (ch_resolver ch) pay
                                  (s\<lparr>ic_channels := (ic_channels s)(chid := ch\<lparr>ch_claimed := effective\<rparr>)\<rparr>)) (\<lambda>s.
                           Inr (ic_emit (Claimed chid effective pay) s))))))"

definition closeChannel :: "incentives_callee \<Rightarrow> sol_msg \<Rightarrow> hash32 \<Rightarrow> incentives \<Rightarrow> incentives_error + incentives" where
  "closeChannel callee m chid s =
     (let ch = ic_channels s chid
      in if ch_client ch = zero_address then Inl NoChannel
         else if msg_sender m \<noteq> ch_client ch then Inl NotClient
         else if block_timestamp m < unat (ch_expiresAt ch) + SETTLEMENT_WINDOW then Inl NotExpired
         else
           rbind (u256_sub ChannelsPanic (ch_deposit ch) (ch_claimed ch)) (\<lambda>refund.
             let s = s\<lparr>ic_channels := (ic_channels s)(chid := zero_channel)\<rparr>
             in rbind (if refund > 0 then pay_out callee (msg_sender m) refund s else Inr s) (\<lambda>s.
                  Inr (ic_emit (ChannelClosed chid refund) s))))"

datatype incentives_call = CallOpen address "64 word" | CallClaim hash32 nat bytes | CallClose hash32

definition incentives_exec ::
  "sol_lib \<Rightarrow> address \<Rightarrow> incentives_callee \<Rightarrow> sol_msg \<Rightarrow> incentives_call \<Rightarrow> incentives \<Rightarrow> incentives_error + incentives" where
  "incentives_exec L self callee m c s =
     (case c of
        CallOpen resolver duration \<Rightarrow>
          rbind (openChannel L m resolver duration (s\<lparr>ic_balance := ic_balance s + msg_value m\<rparr>)) (\<lambda>(s, chid). Inr s)
      | CallClaim chid cumulative sg \<Rightarrow>
          if msg_value m > 0 then Inl ChannelsNotPayable else claim L self callee m chid cumulative sg s
      | CallClose chid \<Rightarrow>
          if msg_value m > 0 then Inl ChannelsNotPayable else closeChannel callee m chid s)"

text \<open>All runs of the contract, with re-entrance.\<close>

inductive incentives_runs :: "sol_lib \<Rightarrow> address \<Rightarrow> incentives \<Rightarrow> incentives \<Rightarrow> bool" for L self where
  ic_refl: "incentives_runs L self s s"
| ic_call: "incentives_runs L self s s1 \<Longrightarrow> msg_sender m \<noteq> zero_address \<Longrightarrow> incentives_exec L self callee m c s1 = Inr s2 \<Longrightarrow>
    (\<And>a v t t'. callee a v t = Some t' \<Longrightarrow> incentives_runs L self t t') \<Longrightarrow> incentives_runs L self s s2"

section \<open>Solvency\<close>

definition open_channels :: "incentives \<Rightarrow> hash32 set" where
  "open_channels s = {i. ch_client (ic_channels s i) \<noteq> zero_address}"

definition owed :: "incentives \<Rightarrow> hash32 \<Rightarrow> nat" where
  "owed s i = ch_deposit (ic_channels s i) - ch_claimed (ic_channels s i)"

definition solvent :: "incentives \<Rightarrow> bool" where
  "solvent s \<longleftrightarrow>
     finite (open_channels s) \<and> (\<forall>i. ch_claimed (ic_channels s i) \<le> ch_deposit (ic_channels s i)) \<and>
     sum (owed s) (open_channels s) \<le> ic_balance s"

text \<open>The sum after one channel has changed.\<close>

lemma owed_update:
  assumes "finite (open_channels s)" and "ic_channels s' = (ic_channels s)(i := ch)"
  shows "finite (open_channels s')"
    "sum (owed s') (open_channels s') + (if i \<in> open_channels s then owed s i else 0) =
     sum (owed s) (open_channels s) + (if ch_client ch \<noteq> zero_address then ch_deposit ch - ch_claimed ch else 0)"
proof -
  let ?R = "open_channels s - {i}"
  have s': "open_channels s' = (if ch_client ch \<noteq> zero_address then insert i ?R else ?R)"
    by (auto simp: open_channels_def assms(2))
  have f: "finite ?R" "i \<notin> ?R" using assms(1) by simp_all
  then show "finite (open_channels s')" by (simp add: s')
  have r: "sum (owed s') ?R = sum (owed s) ?R" by (rule sum.cong) (auto simp: owed_def assms(2))
  have o: "sum (owed s) (open_channels s) = sum (owed s) ?R + (if i \<in> open_channels s then owed s i else 0)"
    using sum.remove [OF assms(1), of i "owed s"] by (auto simp: add.commute)
  have "owed s' i = ch_deposit ch - ch_claimed ch" by (simp add: owed_def assms(2))
  then show "sum (owed s') (open_channels s') + (if i \<in> open_channels s then owed s i else 0) =
     sum (owed s) (open_channels s) + (if ch_client ch \<noteq> zero_address then ch_deposit ch - ch_claimed ch else 0)"
    using sum.insert [OF f, of "owed s'"] by (simp add: s' r o del: insert_Diff_single)
qed

lemma pay_out_Inr:
  "pay_out callee a v s = Inr s' \<longleftrightarrow> v \<le> ic_balance s \<and> callee a v (s\<lparr>ic_balance := ic_balance s - v\<rparr>) = Some s'"
  by (auto simp: pay_out_def split: option.splits)

lemma solvent_emit [simp]: "solvent (ic_emit l s) = solvent s"
  by (simp add: solvent_def ic_emit_def open_channels_def owed_def cong: sum.cong)

text \<open>Every update keeps the contract solvent, and so does what a callee does.\<close>

lemma solvent_open:
  assumes "solvent s" and "openChannel L m resolver duration (s\<lparr>ic_balance := ic_balance s + msg_value m\<rparr>) = Inr (s', chid)"
  shows "solvent s'"
proof -
  obtain e n where s': "s' = ic_emit (ChannelOpened chid (msg_sender m) resolver (msg_value m) e)
      (s\<lparr>ic_balance := ic_balance s + msg_value m, ic_nonce := n, ic_channels := (ic_channels s)(chid :=
         \<lparr>ch_client = msg_sender m, ch_resolver = resolver, ch_deposit = msg_value m, ch_claimed = 0, ch_expiresAt = e\<rparr>)\<rparr>)"
    using assms(2) by (auto simp: openChannel_def Let_def rbind_eq_Inr split: if_splits)
  let ?ch = "\<lparr>ch_client = msg_sender m, ch_resolver = resolver, ch_deposit = msg_value m, ch_claimed = 0, ch_expiresAt = e\<rparr>"
  have fin: "finite (open_channels s)" using assms(1) by (simp add: solvent_def)
  have "ic_channels s' = (ic_channels s)(chid := ?ch)" by (simp add: s' ic_emit_def)
  from owed_update [OF fin this] show ?thesis
    using assms(1) by (auto simp: solvent_def s' ic_emit_def split: if_splits)
qed

lemma solvent_pay:
  assumes sol: "solvent s" and c: "ic_channels s1 = (ic_channels s)(i := ch)" and b: "ic_balance s1 = ic_balance s"
    and i: "i \<in> open_channels s" and le: "ch_claimed ch \<le> ch_deposit ch"
    and v: "owed s i = v + (if ch_client ch \<noteq> zero_address then ch_deposit ch - ch_claimed ch else 0)"
  shows "solvent (s1\<lparr>ic_balance := ic_balance s1 - v\<rparr>)" "v \<le> ic_balance s1"
proof -
  have fin: "finite (open_channels s)" using sol by (simp add: solvent_def)
  note u = owed_update [OF fin c]
  have sum: "sum (owed s1) (open_channels s1) + v \<le> ic_balance s" using u(2) sol i v by (simp add: solvent_def)
  then show "v \<le> ic_balance s1" using b by simp
  have "owed (s1\<lparr>ic_balance := x\<rparr>) = owed s1" "open_channels (s1\<lparr>ic_balance := x\<rparr>) = open_channels s1" for x
    by (auto simp: owed_def open_channels_def)
  then show "solvent (s1\<lparr>ic_balance := ic_balance s1 - v\<rparr>)" using sum u(1) sol le b by (auto simp: solvent_def c)
qed

lemma claim_Inr:
  assumes "claim L self callee m i cumulative sg s = Inr s'"
  defines "ch \<equiv> ic_channels s i" and "eff \<equiv> min cumulative (ch_deposit (ic_channels s i))"
  obtains s1 where "i \<in> open_channels s" "msg_sender m = ch_resolver ch" "recoverVoucher_sol L self i cumulative sg = Inr (ch_client ch)"
    "ch_claimed ch < eff" "eff - ch_claimed ch \<le> ic_balance s"
    "callee (ch_resolver ch) (eff - ch_claimed ch)
       (s\<lparr>ic_channels := (ic_channels s)(i := ch\<lparr>ch_claimed := eff\<rparr>), ic_balance := ic_balance s - (eff - ch_claimed ch)\<rparr>) = Some s1"
    "s' = ic_emit (Claimed i eff (eff - ch_claimed ch)) s1"
  using assms
  by (auto simp: claim_def Let_def rbind_eq_Inr pay_out_Inr open_channels_def min_def not_le split: if_splits)

lemma closeChannel_Inr:
  assumes "closeChannel callee m i s = Inr s'"
  defines "ch \<equiv> ic_channels s i"
  obtains s1 where "i \<in> open_channels s" "msg_sender m = ch_client ch" "unat (ch_expiresAt ch) + 3600 \<le> block_timestamp m"
    "s1 = s\<lparr>ic_channels := (ic_channels s)(i := zero_channel)\<rparr>"
    "s' = ic_emit (ChannelClosed i (ch_deposit ch - ch_claimed ch)) s1 \<and> ch_deposit ch - ch_claimed ch = 0 \<or>
     (\<exists>s2. s' = ic_emit (ChannelClosed i (ch_deposit ch - ch_claimed ch)) s2 \<and> ch_deposit ch - ch_claimed ch \<le> ic_balance s \<and>
        callee (msg_sender m) (ch_deposit ch - ch_claimed ch) (s1\<lparr>ic_balance := ic_balance s1 - (ch_deposit ch - ch_claimed ch)\<rparr>) = Some s2)"
  using assms
  by (auto simp: closeChannel_def Let_def rbind_eq_Inr pay_out_Inr open_channels_def SETTLEMENT_WINDOW_def not_less split: if_splits)

lemma solvent_claim:
  assumes sol: "solvent s" and ex: "claim L self callee m i cum sg s = Inr s'"
    and cl: "\<And>a v t t'. callee a v t = Some t' \<Longrightarrow> solvent t \<longrightarrow> solvent t'"
  shows "solvent s'"
proof (rule claim_Inr [OF ex])
  let ?ch = "ic_channels s i" let ?eff = "min cum (ch_deposit (ic_channels s i))"
  let ?u = "s\<lparr>ic_channels := (ic_channels s)(i := ?ch\<lparr>ch_claimed := ?eff\<rparr>)\<rparr>"
  fix t assume a: "i \<in> open_channels s" "ch_claimed ?ch < ?eff" "s' = ic_emit (Claimed i ?eff (?eff - ch_claimed ?ch)) t"
    and c: "callee (ch_resolver ?ch) (?eff - ch_claimed ?ch)
      (s\<lparr>ic_channels := (ic_channels s)(i := ?ch\<lparr>ch_claimed := ?eff\<rparr>), ic_balance := ic_balance s - (?eff - ch_claimed ?ch)\<rparr>) = Some t"
  have "solvent (?u\<lparr>ic_balance := ic_balance ?u - (?eff - ch_claimed ?ch)\<rparr>)"
    by (rule solvent_pay [OF sol, of _ i "?ch\<lparr>ch_claimed := ?eff\<rparr>"]) (use a in \<open>auto simp: owed_def open_channels_def\<close>)
  then show "solvent s'" using cl [OF c] a(3) by simp
qed

lemma solvent_close:
  assumes sol: "solvent s" and ex: "closeChannel callee m i s = Inr s'"
    and cl: "\<And>a v t t'. callee a v t = Some t' \<Longrightarrow> solvent t \<longrightarrow> solvent t'"
  shows "solvent s'"
proof (rule closeChannel_Inr [OF ex])
  let ?r = "ch_deposit (ic_channels s i) - ch_claimed (ic_channels s i)" let ?u = "s\<lparr>ic_channels := (ic_channels s)(i := zero_channel)\<rparr>"
  fix t assume a: "i \<in> open_channels s" "t = ?u"
    and o: "s' = ic_emit (ChannelClosed i ?r) t \<and> ?r = 0 \<or>
      (\<exists>s2. s' = ic_emit (ChannelClosed i ?r) s2 \<and> ?r \<le> ic_balance s \<and> callee (msg_sender m) ?r (t\<lparr>ic_balance := ic_balance t - ?r\<rparr>) = Some s2)"
  have u: "solvent (?u\<lparr>ic_balance := ic_balance ?u - ?r\<rparr>)"
    by (rule solvent_pay [OF sol, of _ i zero_channel]) (use a in \<open>auto simp: owed_def zero_channel_def\<close>)
  from o show "solvent s'" using u a(2) cl by (elim disjE) auto
qed

lemma solvent_runs: "incentives_runs L self s s' \<Longrightarrow> solvent s \<longrightarrow> solvent s'"
proof (induction rule: incentives_runs.induct)
  case (ic_call s s1 m callee c s2)
  have "solvent s2" if sol: "solvent s1"
    using ic_call.hyps(3) solvent_open [OF sol] solvent_claim [OF sol _ ic_call.IH(2)] solvent_close [OF sol _ ic_call.IH(2)]
    by (auto simp: incentives_exec_def rbind_eq_Inr split: incentives_call.splits if_splits)
  then show ?case using ic_call.IH(1) by blast
qed simp

lemma solvent_empty: "solvent empty_incentives"
  by (simp add: solvent_def empty_incentives_def zero_channel_def open_channels_def)

section \<open>The contract's recovery and the resolver's\<close>

text \<open>
  What is relied on: both sides hash with keccak256, \<open>TextHash\<close> is the EIP-191 hash of a 32-byte message, the curve order is that of
  the contract's constant, and the precompile ecrecover returns the address of the key that \<open>SigToPub\<close> recovers, for \<open>v\<close> 27 or
  28, and zero otherwise.
\<close>

definition same_crypto :: "sol_lib \<Rightarrow> pay_lib \<Rightarrow> bool" where
  "same_crypto L P \<longleftrightarrow>
     keccak256 L = py_Keccak256 P \<and> (\<forall>b. length (keccak256 L b) = 32) \<and> left_pad_ok P \<and> py_N P div 2 = HALF_N \<and>
     (\<forall>b. length b = 32 \<longrightarrow>
        TextHash (py_crypto P) b = keccak256 L ([0x19] @ str_bytes ''Ethereum Signed Message:'' @ [10] @ str_bytes ''32'' @ b)) \<and>
     (\<forall>d v r s. ecrecover L d v r s =
        (if v = 27 \<or> v = 28
         then (case SigToPub (py_crypto P) d (r @ s @ [v - 27]) of
                 Inl _ \<Rightarrow> zero_address | Inr pub \<Rightarrow> PubkeyToAddress (py_crypto P) pub)
         else zero_address))"

lemma voucherDigest_eq:
  assumes "same_crypto L P" "length self = 20" "length chid = 32" "0 \<le> a" "a < 2 ^ 256"
  shows "voucherDigest L self chid (nat a) = Digest P self chid a"
proof -
  have pad: "left_pad_ok P" using assms(1) by (simp add: same_crypto_def)
  have l: "length (big_Bytes (nat \<bar>a\<bar>)) \<le> 32" using assms(4,5) by (intro length_big_Bytes_le) (simp add: nat_less_iff)
  have "py_LeftPad P (big_Bytes (nat \<bar>a\<bar>)) 32 = abi_uint (nat a)"
  proof (rule be_nat_inject)
    have "nat a < 256 ^ 32" using assms(4,5) by (simp add: nat_less_iff)
    then show "be_nat (py_LeftPad P (big_Bytes (nat \<bar>a\<bar>)) 32) = be_nat (abi_uint (nat a))"
      using assms(4) by (simp only: left_pad_facts(2) [OF pad l] be_nat_big_Bytes abi_uint_def be_nat_be_bytes) simp
  qed (simp add: left_pad_facts(1) [OF pad l])
  moreover have "py_LeftPad P self 32 = abi_address self"
    using pad assms(2) by (simp add: left_pad_ok_def abi_address_def)
  moreover have k: "keccak256 L = py_Keccak256 P" and len: "length (keccak256 L b) = 32" for b
    using assms(1) unfolding same_crypto_def by blast+
  moreover have "TextHash (py_crypto P) (keccak256 L b) =
      keccak256 L ([0x19] @ str_bytes ''Ethereum Signed Message:'' @ [10] @ str_bytes ''32'' @ keccak256 L b)" for b
    using assms(1) len [of b] unfolding same_crypto_def by blast
  ultimately show ?thesis by (simp add: voucherDigest_def Digest_def innerHash_def Let_def)
qed

lemma split_signature:
  assumes "length sg = 65" shows "sg = take 32 sg @ take 32 (drop 32 sg) @ [sg ! 64]"
proof -
  have "drop 64 sg = [sg ! 64]" using assms by (simp add: Cons_nth_drop_Suc [symmetric])
  moreover have "drop 32 (drop 32 sg) = drop 64 sg" by simp
  ultimately show ?thesis by (metis append_take_drop_id)
qed

lemma recovery_byte:
  fixes v :: byte
  shows "v < 27 \<Longrightarrow> (v + 27 = 27 \<longleftrightarrow> v = 0) \<and> (v + 27 = 28 \<longleftrightarrow> v = 1) \<and> v \<noteq> 27 \<and> v \<noteq> 28 \<and> v + 27 - 27 = v \<and> \<not> 27 \<le> v"
    "\<not> v < 27 \<Longrightarrow> v \<noteq> 0 \<and> v \<noteq> 1 \<and> 27 \<le> v"
proof -
  have "(28 :: byte) = 1 + 27" by simp
  then have "v + 27 = 28 \<longleftrightarrow> v = 1" by (simp only: add_right_cancel)
  then show "v < 27 \<Longrightarrow> (v + 27 = 27 \<longleftrightarrow> v = 0) \<and> (v + 27 = 28 \<longleftrightarrow> v = 1) \<and> v \<noteq> 27 \<and> v \<noteq> 28 \<and> v + 27 - 27 = v \<and> \<not> 27 \<le> v"
    by auto
  show "\<not> v < 27 \<Longrightarrow> v \<noteq> 0 \<and> v \<noteq> 1 \<and> 27 \<le> v" by auto
qed

lemma recover_agrees:
  assumes c: "same_crypto L P" and "length self = 20" "length chid = 32" "0 \<le> a" "a < 2 ^ 256"
  shows "recoverVoucher_sol L self chid (nat a) sg = Inr client \<longleftrightarrow>
    RecoverVoucher P self chid a sg = Inr client \<and> client \<noteq> zero_address \<and> sg ! 64 \<in> {0, 1, 27, 28}"
proof (cases "length sg = 65 \<and> be_nat (take 32 (drop 32 sg)) \<le> HALF_N")
  case False
  then show ?thesis using c by (auto simp: recoverVoucher_sol_def RecoverVoucher_def Let_def halfN_def same_crypto_def)
next
  case True
  define r s v where d: "r = take 32 sg" "s = take 32 (drop 32 sg)" "v = sg ! 64"
  have sg: "sg = r @ s @ [v]" unfolding d by (rule split_signature) (use True in blast)
  have lr: "length r = 32" "length s = 32" using True by (simp_all add: d)
  have nv: "normalize_v sg = r @ s @ [if v \<ge> 27 then v - 27 else v]"
    using lr by (auto simp: normalize_v_def sg nth_append list_update_append)
  have v: "(if v < 27 then v + 27 else v) = 27 \<or> (if v < 27 then v + 27 else v) = 28 \<longleftrightarrow> v \<in> {0, 1, 27, 28}"
    "v \<in> {0, 1, 27, 28} \<Longrightarrow> (if v < 27 then v + 27 else v) - 27 = (if v \<ge> 27 then v - 27 else v)"
    using recovery_byte [of v] by auto
  have e: "ecrecover L (Digest P self chid a) (if v < 27 then v + 27 else v) r s =
      (if v \<in> {0, 1, 27, 28}
       then (case SigToPub (py_crypto P) (Digest P self chid a) (normalize_v sg) of
               Inl _ \<Rightarrow> zero_address | Inr pub \<Rightarrow> PubkeyToAddress (py_crypto P) pub)
       else zero_address)"
  proof -
    have "ecrecover L dg w r s = (if w = 27 \<or> w = 28
        then (case SigToPub (py_crypto P) dg (r @ s @ [w - 27]) of Inl _ \<Rightarrow> zero_address | Inr pub \<Rightarrow> PubkeyToAddress (py_crypto P) pub)
        else zero_address)" for dg w
      using c unfolding same_crypto_def by blast
    then show ?thesis unfolding nv using v by (cases "v \<in> {0, 1, 27, 28}") (simp_all only: if_True if_False)
  qed
  show ?thesis
    using True e c
    by (auto simp: recoverVoucher_sol_def RecoverVoucher_def Let_def halfN_def voucherDigest_eq [OF assms] same_crypto_def d [symmetric] split: sum.splits if_splits)
qed

section \<open>Properties\<close>

definition accept :: incentives_callee where "accept a v s = Some s"

text \<open>
  C9: Solvency. In every run of the channel contract, whatever the receivers of payments do in between, no more has been claimed on a
  channel than was deposited, and the contract holds at least what is still owed on all open channels together.
\<close>

theorem channels_stay_solvent:
  assumes "incentives_runs L self empty_incentives s"
  shows "(\<forall>i. ch_claimed (ic_channels s i) \<le> ch_deposit (ic_channels s i)) \<and> finite (open_channels s) \<and>
    (\<Sum>i \<in> open_channels s. ch_deposit (ic_channels s i) - ch_claimed (ic_channels s i)) \<le> ic_balance s"
  using solvent_runs [OF assms] solvent_empty by (simp add: solvent_def owed_def)

definition channel_sol :: sol_lib where
  "channel_sol =
     \<lparr>keccak256 = (\<lambda>b. replicate 32 (word_of_nat (length b))),
      ecrecover = (\<lambda>d v r s. if v = 27 \<or> v = 28 then replicate 20 7 else zero_address)\<rparr>"

definition sample_channel :: hash32 where "sample_channel = replicate 32 96"

definition open_msg :: sol_msg where "open_msg = \<lparr>msg_sender = replicate 20 7, msg_value = 100, block_timestamp = 1000\<rparr>"

definition sample_channels :: incentives where
  "sample_channels = projr (incentives_exec channel_sol [1] accept open_msg (CallOpen (replicate 20 8) 0) empty_incentives)"

lemma sample_open:
  "incentives_exec channel_sol [1] accept open_msg (CallOpen (replicate 20 8) 0) empty_incentives = Inr sample_channels"
  "ic_channels sample_channels sample_channel =
     \<lparr>ch_client = replicate 20 7, ch_resolver = replicate 20 8, ch_deposit = 100, ch_claimed = 0, ch_expiresAt = 4600\<rparr>"
  by (simp_all add: sample_channels_def incentives_exec_def openChannel_def Let_def open_msg_def zero_address_def MIN_DURATION_def
      u256_add_def u64_add_def empty_incentives_def ic_emit_def channel_id_def channel_sol_def sample_channel_def abi_address_def)

lemma sample_channels_run: "incentives_runs channel_sol [1] empty_incentives sample_channels"
  by (rule ic_call [OF ic_refl _ sample_open(1)]) (auto simp: open_msg_def zero_address_def accept_def intro: ic_refl)

theorem channels_stay_solvent_witness:
  "ch_claimed (ic_channels sample_channels sample_channel) \<le> ch_deposit (ic_channels sample_channels sample_channel)"
  using channels_stay_solvent [OF sample_channels_run] by blast

text \<open>What a claim does in every reachable state; \<open>accept\<close> is a receiver that takes the payment.\<close>

lemma claim_exact:
  fixes chid :: hash32 and cumulative :: nat
  assumes "incentives_runs L self empty_incentives s"
  defines "ch \<equiv> ic_channels s chid" and "eff \<equiv> min cumulative (ch_deposit (ic_channels s chid))"
  shows "if ch_client ch \<noteq> zero_address \<and> msg_sender m = ch_resolver ch \<and>
            recoverVoucher_sol L self chid cumulative sg = Inr (ch_client ch) \<and> ch_claimed ch < eff
    then \<exists>s'. claim L self accept m chid cumulative sg s = Inr s' \<and> ic_balance s = ic_balance s' + (eff - ch_claimed ch) \<and>
           ch_claimed (ic_channels s' chid) = eff \<and> claim L self accept m chid cumulative sg s' = Inl NothingToClaim
    else \<forall>s'. claim L self callee m chid cumulative sg s \<noteq> Inr s'"
proof (split if_split, intro conjI impI allI notI)
  assume a: "ch_client ch \<noteq> zero_address \<and> msg_sender m = ch_resolver ch \<and>
    recoverVoucher_sol L self chid cumulative sg = Inr (ch_client ch) \<and> ch_claimed ch < eff"
  have sol: "solvent s" using solvent_runs [OF assms(1)] solvent_empty by blast
  let ?u = "s\<lparr>ic_channels := (ic_channels s)(chid := ch\<lparr>ch_claimed := eff\<rparr>)\<rparr>"
  have b: "eff - ch_claimed ch \<le> ic_balance ?u"
    by (rule solvent_pay(2) [OF sol, of _ chid "ch\<lparr>ch_claimed := eff\<rparr>"]) (use a in \<open>auto simp: owed_def open_channels_def ch_def eff_def\<close>)
  have eff: "(if cumulative > ch_deposit ch then ch_deposit ch else cumulative) = eff" by (simp add: eff_def ch_def min_def)
  let ?s' = "ic_emit (Claimed chid eff (eff - ch_claimed ch)) (?u\<lparr>ic_balance := ic_balance ?u - (eff - ch_claimed ch)\<rparr>)"
  have "claim L self accept m chid cumulative sg s = Inr ?s'"
    using a b unfolding claim_def ch_def [symmetric] Let_def eff by (simp add: pay_out_def accept_def)
  moreover have "claim L self accept m chid cumulative sg ?s' = Inl NothingToClaim"
    using a by (simp add: claim_def Let_def ic_emit_def) (simp add: eff_def ch_def min_def)
  ultimately show "\<exists>s'. claim L self accept m chid cumulative sg s = Inr s' \<and> ic_balance s = ic_balance s' + (eff - ch_claimed ch) \<and>
      ch_claimed (ic_channels s' chid) = eff \<and> claim L self accept m chid cumulative sg s' = Inl NothingToClaim"
    using b by (intro exI [of _ ?s']) (simp add: ic_emit_def)
next
  fix s' assume n: "\<not> (ch_client ch \<noteq> zero_address \<and> msg_sender m = ch_resolver ch \<and>
    recoverVoucher_sol L self chid cumulative sg = Inr (ch_client ch) \<and> ch_claimed ch < eff)"
    and ex: "claim L self callee m chid cumulative sg s = Inr s'"
  show False by (rule claim_Inr [OF ex]) (use n in \<open>auto simp: ch_def eff_def open_channels_def\<close>)
qed

text \<open>
  C24: Redeeming a voucher. A claim succeeds exactly when the channel is open, the caller is its resolver, the signature recovers to the
  client for this amount, channel and contract, and the amount, capped at the deposit, exceeds what was claimed before. It then pays
  the difference, for which the contract always has the funds, and the same voucher cannot be redeemed twice.
\<close>

theorem valid_voucher_is_paid:
  fixes chid :: hash32 and cumulative :: nat
  assumes "incentives_runs L self empty_incentives s"
  defines "ch \<equiv> ic_channels s chid" and "eff \<equiv> min cumulative (ch_deposit (ic_channels s chid))"
  shows "if ch_client ch \<noteq> zero_address \<and> msg_sender m = ch_resolver ch \<and>
            recoverVoucher_sol L self chid cumulative sg = Inr (ch_client ch) \<and> ch_claimed ch < eff
    then \<exists>s'. claim L self accept m chid cumulative sg s = Inr s' \<and> ic_balance s = ic_balance s' + (eff - ch_claimed ch) \<and>
           ch_claimed (ic_channels s' chid) = eff \<and> claim L self accept m chid cumulative sg s' = Inl NothingToClaim
    else \<forall>s'. claim L self callee m chid cumulative sg s \<noteq> Inr s'"
  unfolding ch_def eff_def by (rule claim_exact [OF assms(1)])

theorem valid_voucher_is_paid_witness:
  "\<exists>s'. claim channel_sol [1] accept \<lparr>msg_sender = replicate 20 8, msg_value = 0, block_timestamp = 2000\<rparr> sample_channel 30 (replicate 65 0)
     sample_channels = Inr s' \<and> ic_balance sample_channels = ic_balance s' + 30"
proof -
  have "be_nat (replicate 32 0) = 0" using be_nat_replicate_zero [of 32 "[]"] by simp
  then have "recoverVoucher_sol channel_sol [1] sample_channel 30 (replicate 65 0) = Inr (replicate 20 7)"
    by (simp add: recoverVoucher_sol_def Let_def channel_sol_def zero_address_def nth_replicate)
  then show ?thesis
    using valid_voucher_is_paid [OF sample_channels_run, where chid = sample_channel and cumulative = 30 and sg = "replicate 65 0" and callee = accept
        and m = "\<lparr>msg_sender = replicate 20 8, msg_value = 0, block_timestamp = 2000\<rparr>"]
    by (auto simp: sample_open(2) zero_address_def)
qed

text \<open>
  C25: The resolver and the contract agree on vouchers: for the same contract address, channel and amount, the contract's recovery and the
  resolver's \<open>RecoverVoucher\<close> accept the same signatures as the same client's, except that the contract insists on a recovery
  byte of 0, 1, 27 or 28.
\<close>

theorem contract_recovers_like_go:
  assumes "same_crypto L P" and "length self = 20" and "length chid = 32" and "0 \<le> a" and "a < 2 ^ 256"
  shows "recoverVoucher_sol L self chid (nat a) sg = Inr client \<longleftrightarrow>
    RecoverVoucher P self chid a sg = Inr client \<and> client \<noteq> zero_address \<and> sg ! 64 \<in> {0, 1, 27, 28}"
  by (rule recover_agrees [OF assms])

definition channel_pay :: pay_lib where
  "channel_pay =
     \<lparr>py_crypto = toy_crypto\<lparr>TextHash := (\<lambda>b. replicate 32 60), SigToPub := (\<lambda>d sg. Inr [7]), PubkeyToAddress := (\<lambda>p. replicate 20 7)\<rparr>,
      py_Keccak256 = (\<lambda>b. replicate 32 (word_of_nat (length b))), py_LeftPad = (\<lambda>b n. replicate (n - length b) 0 @ b),
      py_N = 2 * HALF_N + 1\<rparr>"

lemma channel_same_crypto: "same_crypto channel_sol channel_pay"
  by (auto simp: same_crypto_def channel_sol_def channel_pay_def left_pad_ok_def str_bytes_def)

theorem contract_recovers_like_go_witness:
  "recoverVoucher_sol channel_sol (replicate 20 1) sample_channel (nat 30) (replicate 65 0) = Inr (replicate 20 7) \<longleftrightarrow>
   RecoverVoucher channel_pay (replicate 20 1) sample_channel 30 (replicate 65 0) = Inr (replicate 20 7) \<and>
     replicate 20 7 \<noteq> zero_address \<and> replicate 65 (0 :: byte) ! 64 \<in> {0, 1, 27, 28}"
  by (rule contract_recovers_like_go [OF channel_same_crypto]) (simp_all add: sample_channel_def)

end
