(* ===== verification/Deployed_Bindings.thy ===== *)
theory Deployed_Bindings
  imports Contract_Bindings Contract_Chain Push_Invalidation Resolver_Directory Payment_Channels
begin

text \<open>
  The bindings on the deployed contracts. A contract is reached by the name of a function and a list of encoded arguments; the lists \<open>dapp_views\<close>,
  \<open>dapp_methods\<close> and their like for the other contracts are the interfaces (ABI) of the contracts, with the functions of the models of the
  contracts behind the names. What a read method of the bindings returns is then what the contract's view returns, a transactor
  reaches its function of the contract, and the watcher's events are the contract's logs. The tables are a reading of the contracts'
  interfaces; they are used to bring the laws of the contracts to the Go side, and nothing is claimed for them alone.
\<close>

section \<open>Interfaces of the contracts\<close>

type_synonym 'r abi_table = "(string \<times> (abi_value list \<Rightarrow> 'r option)) list"

definition take_arg :: "(abi_value \<Rightarrow> 'a option) \<Rightarrow> ('a \<Rightarrow> abi_value list \<Rightarrow> 'r option) \<Rightarrow> abi_value list \<Rightarrow> 'r option" where
  "take_arg conv f ps = (case ps of [] \<Rightarrow> None | p # ps \<Rightarrow> (case conv p of None \<Rightarrow> None | Some x \<Rightarrow> f x ps))"

definition no_args :: "'r option \<Rightarrow> abi_value list \<Rightarrow> 'r option" where
  "no_args r ps = (if ps = [] then r else None)"

text \<open>An integer is encoded as a \<open>uint256\<close>, modulo its range.\<close>

definition as_uint256 :: "abi_value \<Rightarrow> nat option" where
  "as_uint256 v = map_option (\<lambda>i. nat (i mod 2 ^ 256)) (as_Big v)"

definition ok_values :: "'e + abi_value list \<Rightarrow> abi_value list option" where
  "ok_values r = (case r of Inl _ \<Rightarrow> None | Inr vs \<Rightarrow> Some vs)"

definition dapp_views :: "sol_lib \<Rightarrow> dapp_env \<Rightarrow> address \<Rightarrow> nat \<Rightarrow> dapp \<Rightarrow> abi_value list abi_table" where
  "dapp_views L E reg now s =
     [(''MAX_COMMITMENT_AGE'', no_args (Some [ABig (int MAX_COMMITMENT_AGE)])),
      (''MAX_FIELD_NAME_LENGTH'', no_args (Some [ABig (int MAX_FIELD_NAME_LENGTH)])),
      (''MAX_FIELD_VALUE_LENGTH'', no_args (Some [ABig (int MAX_FIELD_VALUE_LENGTH)])),
      (''MAX_RECORD_FIELDS'', no_args (Some [ABig (int MAX_RECORD_FIELDS)])),
      (''MAX_SELECTOR_LENGTH'', no_args (Some [ABig (int MAX_SELECTOR_LENGTH)])),
      (''MIN_COMMITMENT_AGE'', no_args (Some [ABig (int MIN_COMMITMENT_AGE)])),
      (''REGISTRATION_PERIOD'', no_args (Some [ABig (int REGISTRATION_PERIOD)])),
      (''available'', take_arg as_String (\<lambda>name. no_args (Some [ABool (available L now s name)]))),
      (''basePrice'', no_args (Some [ABig (int (basePrice E))])),
      (''commitments'', take_arg as_Bytes32 (\<lambda>h. no_args (Some [ABig (int (nd_commitments s h))]))),
      (''getDomain'', take_arg as_String (\<lambda>name. no_args
         (case getDomain L s name of (a, k, e, g) \<Rightarrow> Some [AAddress a, ABytes k, AUint64 e, AUint64 g]))),
      (''listRecords'', take_arg as_String (\<lambda>name. no_args (Some [ARecords (listRecords L now s name)]))),
      (''lookup'', take_arg as_String (\<lambda>name. take_arg as_String (\<lambda>t. take_arg as_String (\<lambda>sel. no_args
         (Some [ARecord (lookup_record L now s name t sel)]))))),
      (''makeCommitment'', take_arg as_String (\<lambda>name. take_arg as_Address (\<lambda>owner. take_arg as_Bytes (\<lambda>k. take_arg as_Bytes32 (\<lambda>x. no_args
         (Some [ABytes32 (makeCommitment L name owner k x)])))))),
      (''ownerOf'', take_arg as_String (\<lambda>name. no_args (Some [AAddress (ownerOf L now s name)]))),
      (''priceOf'', take_arg as_String (\<lambda>name. no_args (ok_values (rbind (priceOf E name) (\<lambda>p. Inr [ABig (int p)]))))),
      (''recordKeyOf'', take_arg as_String (\<lambda>t. take_arg as_String (\<lambda>sel. no_args (Some [ABytes32 (recordKeyOf L t sel)])))),
      (''registry'', no_args (Some [AAddress reg])),
      (''resolve'', take_arg as_String (\<lambda>name. take_arg as_String (\<lambda>t. take_arg as_String (\<lambda>sel. no_args
         (case resolve L now s name t sel of (r, a, k) \<Rightarrow> Some [ARecord r, AAddress a, ABytes k]))))),
      (''treasurer'', no_args (Some [AAddress (treasurer E)]))]"

definition dapp_methods :: "dapp_call abi_table" where
  "dapp_methods =
     [(''commit'', take_arg as_Bytes32 (\<lambda>h. no_args (Some (CallCommit h)))),
      (''register'', take_arg as_String (\<lambda>n. take_arg as_Bytes (\<lambda>k. take_arg as_Bytes32 (\<lambda>x. no_args (Some (CallRegister n k x)))))),
      (''removeRecord'', take_arg as_String (\<lambda>n. take_arg as_String (\<lambda>t. take_arg as_String (\<lambda>sel. no_args (Some (CallRemoveRecord n t sel)))))),
      (''renew'', take_arg as_String (\<lambda>n. no_args (Some (CallRenew n)))),
      (''setRecord'', take_arg as_String (\<lambda>n. take_arg as_String (\<lambda>t. take_arg as_String (\<lambda>sel. take_arg as_Strings (\<lambda>ns.
         take_arg as_Strings (\<lambda>vs. take_arg as_Uint32 (\<lambda>ttl. take_arg as_Bytes (\<lambda>sg. take_arg as_Bytes32 (\<lambda>com. no_args
           (Some (CallSetRecord n t sel ns vs ttl sg com))))))))))),
      (''transfer'', take_arg as_String (\<lambda>n. take_arg as_Address (\<lambda>a. take_arg as_Bytes (\<lambda>k. no_args (Some (CallTransfer n a k)))))),
      (''withdraw'', take_arg as_Address (\<lambda>a. no_args (Some (CallWithdraw a))))]"

definition registry_views :: "sol_lib \<Rightarrow> registry \<Rightarrow> abi_value list abi_table" where
  "registry_views L s =
     [(''MAX_FIELDS'', no_args (Some [ABig (int MAX_FIELDS)])),
      (''MAX_FIELD_NAME_LENGTH'', no_args (Some [ABig (int REG_MAX_FIELD_NAME_LENGTH)])),
      (''MAX_TYPE_NAME_LENGTH'', no_args (Some [ABig 32])),
      (''getSchema'', take_arg as_String (\<lambda>t. no_args (ok_values (rbind (getSchema L s t) (\<lambda>fs. Inr [AFieldSpecs fs]))))),
      (''listTypes'', no_args (Some [AStrings (listTypes s)])),
      (''mandatoryFields'', take_arg as_Bytes32 (\<lambda>h. no_args (ok_values (rbind (mandatoryFields s h) (\<lambda>fs. Inr [AStrings fs]))))),
      (''typeExists'', take_arg as_String (\<lambda>t. no_args (Some [ABool (typeExists L s t)])))]"

datatype registry_call = CallDeclareType string "string list" "string list"

definition registry_methods :: "registry_call abi_table" where
  "registry_methods =
     [(''declareType'', take_arg as_String (\<lambda>n. take_arg as_Strings (\<lambda>mand. take_arg as_Strings (\<lambda>opt. no_args
         (Some (CallDeclareType n mand opt))))))]"

definition directory_views :: "directory \<Rightarrow> abi_value list abi_table" where
  "directory_views s =
     [(''MAX_ENDPOINT_LENGTH'', no_args (Some [ABig (int MAX_ENDPOINT_LENGTH)])),
      (''activeResolvers'', no_args (case activeResolvers s of (ops, keys, urls) \<Rightarrow> Some [AAddresses ops, AHashes keys, AStrings urls])),
      (''getResolver'', take_arg as_Address (\<lambda>a. no_args
         (case getResolver s a of (k, u, t, act) \<Rightarrow> Some [ABytes32 k, AString u, AUint64 t, ABool act]))),
      (''operatorAt'', take_arg as_uint256 (\<lambda>i. no_args (ok_values (rbind (operatorAt s i) (\<lambda>a. Inr [AAddress a]))))),
      (''operatorCount'', no_args (Some [ABig (int (operatorCount s))]))]"

datatype directory_call = CallAnnounce hash32 string | CallRevoke

definition directory_methods :: "directory_call abi_table" where
  "directory_methods =
     [(''announce'', take_arg as_Bytes32 (\<lambda>k. take_arg as_String (\<lambda>u. no_args (Some (CallAnnounce k u))))),
      (''revoke'', no_args (Some CallRevoke))]"

definition incentives_views :: "sol_lib \<Rightarrow> address \<Rightarrow> incentives \<Rightarrow> abi_value list abi_table" where
  "incentives_views L self s =
     [(''MIN_DURATION'', no_args (Some [AUint64 MIN_DURATION])),
      (''SETTLEMENT_WINDOW'', no_args (Some [AUint64 (word_of_nat SETTLEMENT_WINDOW)])),
      (''channels'', take_arg as_Bytes32 (\<lambda>chid. no_args
         (let c = ic_channels s chid
          in Some [AAddress (ch_client c), AAddress (ch_resolver c), ABig (int (ch_deposit c)), ABig (int (ch_claimed c)),
                   AUint64 (ch_expiresAt c)]))),
      (''voucherDigest'', take_arg as_Bytes32 (\<lambda>chid. take_arg as_uint256 (\<lambda>n. no_args (Some [ABytes32 (voucherDigest L self chid n)]))))]"

definition incentives_methods :: "incentives_call abi_table" where
  "incentives_methods =
     [(''claim'', take_arg as_Bytes32 (\<lambda>chid. take_arg as_uint256 (\<lambda>n. take_arg as_Bytes (\<lambda>sg. no_args (Some (CallClaim chid n sg)))))),
      (''closeChannel'', take_arg as_Bytes32 (\<lambda>chid. no_args (Some (CallClose chid)))),
      (''openChannel'', take_arg as_Address (\<lambda>a. take_arg as_Uint64 (\<lambda>d. no_args (Some (CallOpen a d)))))]"

text \<open>A bound contract at an address where a contract with this interface is deployed.\<close>

definition table_call :: "'r abi_table \<Rightarrow> string \<Rightarrow> abi_value list \<Rightarrow> 'r option" where
  "table_call tab method ps = (case map_of tab method of None \<Rightarrow> None | Some f \<Rightarrow> f ps)"

definition deployed ::
  "('w \<Rightarrow> abi_value list abi_table) \<Rightarrow> 'c abi_table \<Rightarrow> (transact_opts \<Rightarrow> 'c \<Rightarrow> 'w \<Rightarrow> 'w \<times> (string + bytes)) \<Rightarrow>
   ('w, 'l) bound_contract \<Rightarrow> ('w, 'l) bound_contract" where
  "deployed views methods submit C = C\<lparr>
     bc_Call := (\<lambda>m ps w. (w, case table_call (views w) m ps of None \<Rightarrow> Inl ''execution reverted'' | Some out \<Rightarrow> Inr out)),
     bc_Transact := (\<lambda>opts m ps w. case table_call methods m ps of None \<Rightarrow> (w, Inl ''unknown method'') | Some c \<Rightarrow> submit opts c w)\<rparr>"

section \<open>Reads\<close>

definition view_result :: "'e + 'a \<Rightarrow> bind_exit + 'a" where
  "view_result r = (case r of Inl _ \<Rightarrow> Inl (BindErr ''execution reverted'') | Inr x \<Rightarrow> Inr x)"

lemma call_out_deployed:
  "call_out (deployed views methods submit C) m ps conv w =
     (w, case table_call (views w) m ps of None \<Rightarrow> Inl (BindErr ''execution reverted'') | Some out \<Rightarrow> conv out)"
  by (simp add: call_out_def deployed_def split: option.split)

lemma ok_values_rbind: "ok_values (rbind r (\<lambda>x. Inr (f x))) = (case r of Inl _ \<Rightarrow> None | Inr x \<Rightarrow> Some (f x))"
  by (cases r) (simp_all add: ok_values_def)

lemma view_result_map: "view_result (map_sum id f r) = (case r of Inl _ \<Rightarrow> Inl (BindErr ''execution reverted'') | Inr x \<Rightarrow> Inr (f x))"
  by (cases r) (simp_all add: view_result_def)

lemmas call_simps = call_out_deployed table_call_def take_arg_def no_args_def abi_conversions as_uint256_def ok_values_rbind

lemma dapp_constants:
  assumes D: "D = deployed (\<lambda>w. dapp_views L E reg (time w) (state w)) methods submit C"
  shows "NamespaceDApp_MAXCOMMITMENTAGE D w = (w, Inr (int MAX_COMMITMENT_AGE))"
    "NamespaceDApp_MAXFIELDNAMELENGTH D w = (w, Inr (int MAX_FIELD_NAME_LENGTH))"
    "NamespaceDApp_MAXFIELDVALUELENGTH D w = (w, Inr (int MAX_FIELD_VALUE_LENGTH))"
    "NamespaceDApp_MAXRECORDFIELDS D w = (w, Inr (int MAX_RECORD_FIELDS))"
    "NamespaceDApp_MAXSELECTORLENGTH D w = (w, Inr (int MAX_SELECTOR_LENGTH))"
    "NamespaceDApp_MINCOMMITMENTAGE D w = (w, Inr (int MIN_COMMITMENT_AGE))"
    "NamespaceDApp_REGISTRATIONPERIOD D w = (w, Inr (int REGISTRATION_PERIOD))"
    "NamespaceDApp_BasePrice D w = (w, Inr (int (basePrice E)))"
    "NamespaceDApp_Registry D w = (w, Inr reg)" "NamespaceDApp_Treasurer D w = (w, Inr (treasurer E))"
  unfolding D NamespaceDApp_MAXCOMMITMENTAGE_def NamespaceDApp_MAXFIELDNAMELENGTH_def NamespaceDApp_MAXFIELDVALUELENGTH_def
    NamespaceDApp_MAXRECORDFIELDS_def NamespaceDApp_MAXSELECTORLENGTH_def NamespaceDApp_MINCOMMITMENTAGE_def NamespaceDApp_REGISTRATIONPERIOD_def
    NamespaceDApp_BasePrice_def NamespaceDApp_Registry_def NamespaceDApp_Treasurer_def
  by (simp_all add: call_simps dapp_views_def)

lemma dapp_reads:
  assumes D: "D = deployed (\<lambda>w. dapp_views L E reg (time w) (state w)) methods submit C"
  shows "NamespaceDApp_Available D name w = (w, Inr (available L (time w) (state w) name))"
    "NamespaceDApp_Commitments D h w = (w, Inr (int (nd_commitments (state w) h)))"
    "NamespaceDApp_GetDomain D name w = (w, Inr (getDomain L (state w) name))"
    "NamespaceDApp_ListRecords D name w = (w, Inr (listRecords L (time w) (state w) name))"
    "NamespaceDApp_Lookup D name t sel w = (w, Inr (lookup_record L (time w) (state w) name t sel))"
    "NamespaceDApp_MakeCommitment D name owner pubKey secret w = (w, Inr (makeCommitment L name owner pubKey secret))"
    "NamespaceDApp_OwnerOf D name w = (w, Inr (ownerOf L (time w) (state w) name))"
    "NamespaceDApp_PriceOf D name w = (w, view_result (map_sum id int (priceOf E name)))"
    "NamespaceDApp_RecordKeyOf D t sel w = (w, Inr (recordKeyOf L t sel))"
    "NamespaceDApp_Resolve D name t sel w = (w, Inr (resolve L (time w) (state w) name t sel))"
  unfolding D NamespaceDApp_Available_def NamespaceDApp_Commitments_def NamespaceDApp_GetDomain_def NamespaceDApp_ListRecords_def
    NamespaceDApp_Lookup_def NamespaceDApp_MakeCommitment_def NamespaceDApp_OwnerOf_def NamespaceDApp_PriceOf_def
    NamespaceDApp_RecordKeyOf_def NamespaceDApp_Resolve_def
  by (simp_all add: call_simps dapp_views_def view_result_map split: prod.split sum.split)

lemma registry_reads:
  assumes D: "D = deployed (\<lambda>w. registry_views L (state w)) methods submit C"
  shows "RecordSchemaRegistry_MAXFIELDS D w = (w, Inr (int MAX_FIELDS))"
    "RecordSchemaRegistry_MAXFIELDNAMELENGTH D w = (w, Inr (int REG_MAX_FIELD_NAME_LENGTH))"
    "RecordSchemaRegistry_MAXTYPENAMELENGTH D w = (w, Inr 32)"
    "RecordSchemaRegistry_GetSchema D t w = (w, view_result (getSchema L (state w) t))"
    "RecordSchemaRegistry_ListTypes D w = (w, Inr (listTypes (state w)))"
    "RecordSchemaRegistry_MandatoryFields D h w = (w, view_result (mandatoryFields (state w) h))"
    "RecordSchemaRegistry_TypeExists D t w = (w, Inr (typeExists L (state w) t))"
  unfolding D RecordSchemaRegistry_MAXFIELDS_def RecordSchemaRegistry_MAXFIELDNAMELENGTH_def RecordSchemaRegistry_MAXTYPENAMELENGTH_def
    RecordSchemaRegistry_GetSchema_def RecordSchemaRegistry_ListTypes_def RecordSchemaRegistry_MandatoryFields_def RecordSchemaRegistry_TypeExists_def
  by (simp_all add: call_simps registry_views_def view_result_def split: prod.split sum.split)

lemma directory_reads:
  assumes D: "D = deployed (\<lambda>w. directory_views (state w)) methods submit C"
  shows "ResolverRegistry_MAXENDPOINTLENGTH D w = (w, Inr (int MAX_ENDPOINT_LENGTH))"
    "ResolverRegistry_ActiveResolvers D w = (w, Inr (activeResolvers (state w)))"
    "ResolverRegistry_GetResolver D a w = (w, Inr (getResolver (state w) a))"
    "ResolverRegistry_OperatorAt D i w = (w, view_result (operatorAt (state w) (nat (i mod 2 ^ 256))))"
    "ResolverRegistry_OperatorCount D w = (w, Inr (int (operatorCount (state w))))"
  unfolding D ResolverRegistry_MAXENDPOINTLENGTH_def ResolverRegistry_ActiveResolvers_def ResolverRegistry_GetResolver_def
    ResolverRegistry_OperatorAt_def ResolverRegistry_OperatorCount_def
  by (simp_all add: call_simps directory_views_def view_result_def split: prod.split sum.split)

lemma incentives_reads:
  assumes D: "D = deployed (\<lambda>w. incentives_views L self (state w)) methods submit C"
  shows "ResolverIncentives_MINDURATION D w = (w, Inr MIN_DURATION)"
    "ResolverIncentives_SETTLEMENTWINDOW D w = (w, Inr (word_of_nat SETTLEMENT_WINDOW))"
    "ResolverIncentives_Channels D chid w = (let c = ic_channels (state w) chid in
       (w, Inr (ch_client c, ch_resolver c, int (ch_deposit c), int (ch_claimed c), ch_expiresAt c)))"
    "ResolverIncentives_VoucherDigest D chid n w = (w, Inr (voucherDigest L self chid (nat (n mod 2 ^ 256))))"
  unfolding D ResolverIncentives_MINDURATION_def ResolverIncentives_SETTLEMENTWINDOW_def ResolverIncentives_Channels_def
    ResolverIncentives_VoucherDigest_def
  by (simp_all add: call_simps incentives_views_def Let_def)

section \<open>Transactions\<close>

lemma transact_deployed:
  "bc_Transact (deployed views methods submit C) opts m ps w =
     (case table_call methods m ps of None \<Rightarrow> (w, Inl ''unknown method'') | Some c \<Rightarrow> submit opts c w)"
  by (simp add: deployed_def)

lemmas transact_simps = transact_deployed table_call_def take_arg_def no_args_def abi_conversions as_uint256_def

text \<open>Each transactor of the bindings reaches its function of the contract, with the arguments in their places.\<close>

lemma dapp_transacts:
  assumes D: "D = deployed views dapp_methods submit C"
  shows "NamespaceDApp_Commit D opts h w = submit opts (CallCommit h) w"
    "NamespaceDApp_Register D opts name pubKey x w = submit opts (CallRegister name pubKey x) w"
    "NamespaceDApp_SetRecord D opts name t sel ns vs ttl sg com w = submit opts (CallSetRecord name t sel ns vs ttl sg com) w"
    "NamespaceDApp_RemoveRecord D opts name t sel w = submit opts (CallRemoveRecord name t sel) w"
    "NamespaceDApp_Transfer D opts name a pubKey w = submit opts (CallTransfer name a pubKey) w"
    "NamespaceDApp_Renew D opts name w = submit opts (CallRenew name) w"
    "NamespaceDApp_Withdraw D opts a w = submit opts (CallWithdraw a) w"
  unfolding D NamespaceDApp_Commit_def NamespaceDApp_Register_def NamespaceDApp_SetRecord_def NamespaceDApp_RemoveRecord_def
    NamespaceDApp_Transfer_def NamespaceDApp_Renew_def NamespaceDApp_Withdraw_def
  by (simp_all add: transact_simps dapp_methods_def)

lemma registry_transacts:
  "RecordSchemaRegistry_DeclareType (deployed views registry_methods submit C) opts n mand opt w = submit opts (CallDeclareType n mand opt) w"
  by (simp add: RecordSchemaRegistry_DeclareType_def transact_simps registry_methods_def)

lemma directory_transacts:
  "ResolverRegistry_Announce (deployed views directory_methods submit C) opts k u w = submit opts (CallAnnounce k u) w"
  by (simp add: ResolverRegistry_Announce_def transact_simps directory_methods_def)

lemma incentives_transacts:
  assumes D: "D = deployed views incentives_methods submit C"
  shows "ResolverIncentives_OpenChannel D opts a d w = submit opts (CallOpen a d) w"
    "ResolverIncentives_Claim D opts chid n sg w = submit opts (CallClaim chid (nat (n mod 2 ^ 256)) sg) w"
    "ResolverIncentives_CloseChannel D opts chid w = submit opts (CallClose chid) w"
  unfolding D ResolverIncentives_OpenChannel_def ResolverIncentives_Claim_def ResolverIncentives_CloseChannel_def
  by (simp_all add: transact_simps incentives_methods_def)

section \<open>Errors of the bindings\<close>

definition bind_text :: "bind_exit \<Rightarrow> string" where
  "bind_text e = (case e of BindErr err \<Rightarrow> err | BindPanic \<Rightarrow> ''panic'')"

definition read_result :: "('a \<Rightarrow> 'b) \<Rightarrow> 'w \<times> (bind_exit + 'a) \<Rightarrow> 'w \<times> (string + 'b)" where
  "read_result g r = (case r of (w, x) \<Rightarrow> (w, map_sum bind_text g x))"

section \<open>Logs\<close>

text \<open>The events of the namespace contract: name, and arguments in the order of their declaration.\<close>

definition event_name :: "dapp_log \<Rightarrow> string" where
  "event_name l =
     (case l of
        Committed _ _ \<Rightarrow> ''Committed'' | Registered _ _ _ _ _ _ _ \<Rightarrow> ''Registered'' | Renewed _ _ _ \<Rightarrow> ''Renewed''
      | Transferred _ _ _ _ \<Rightarrow> ''Transferred'' | Withdrawn _ _ \<Rightarrow> ''Withdrawn'' | RecordSet _ _ _ _ _ _ \<Rightarrow> ''RecordSet''
      | RecordRemoved _ _ _ _ _ \<Rightarrow> ''RecordRemoved'')"

definition event_values :: "dapp_log \<Rightarrow> abi_value list" where
  "event_values l =
     (case l of
        Committed h t \<Rightarrow> [ABytes32 h, ABig (int t)]
      | Registered h n a k e g fee \<Rightarrow> [ABytes32 h, AString n, AAddress a, ABytes k, AUint64 e, AUint64 g, ABig (int fee)]
      | Renewed h e fee \<Rightarrow> [ABytes32 h, AUint64 e, ABig (int fee)]
      | Transferred h a b k \<Rightarrow> [ABytes32 h, AAddress a, AAddress b, ABytes k]
      | Withdrawn a v \<Rightarrow> [AAddress a, ABig (int v)]
      | RecordSet h n k t sel ttl \<Rightarrow> [ABytes32 h, AString n, ABytes32 k, AString t, AString sel, AUint32 ttl]
      | RecordRemoved h n k t sel \<Rightarrow> [ABytes32 h, AString n, ABytes32 k, AString t, AString sel])"

definition unpack_dapp :: "string \<Rightarrow> dapp_log eth_log \<Rightarrow> string + abi_value list" where
  "unpack_dapp ev lg =
     (if event_name (lg_body lg) = ev then Inr (event_values (lg_body lg)) else Inl ''event signature mismatch'')"

definition eth_logs :: "dapp_chain \<Rightarrow> dapp_log eth_log set" where
  "eth_logs B = {\<lparr>lg_BlockNumber = word_of_nat (Suc n), lg_body = l\<rparr> | n l. l \<in> set (block_logs B n)}"

text \<open>
  What is relied on of \<open>FilterLogs\<close> and \<open>UnpackLog\<close>: a filter without rules that succeeds has found the logs of the event in the blocks asked for,
  and a log unpacks to its arguments.
\<close>

definition filters_chain :: "('w, dapp_log) bound_contract \<Rightarrow> dapp_chain \<Rightarrow> bool" where
  "filters_chain C B \<longleftrightarrow>
     bc_UnpackLog C = unpack_dapp \<and>
     (\<forall>start stop ev rules w w' f. bc_FilterLogs C start stop ev rules w = (w', Inr f) \<and> (\<forall>rule \<in> set rules. rule = []) \<longrightarrow>
        (\<exists>ls. f = feed_of ls \<and>
           set ls = {l \<in> eth_logs B. event_name (lg_body l) = ev \<and> start \<le> lg_BlockNumber l \<and> lg_BlockNumber l \<le> stop}))"

text \<open>An API whose filters are those of the bindings, in any scheduling of the iterators.\<close>

definition binding_filters :: "nat \<Rightarrow> ('w, 'l) bound_contract \<Rightarrow> 'w rpc_api \<Rightarrow> bool" where
  "binding_filters cap C api \<longleftrightarrow> (\<forall>kind start stop w. filter_run cap C kind start stop w (api_filter api kind start stop w))"

lemma drained_logs:
  assumes "filters_chain C B" and "drain_run cap parse raw (filter_logs C start stop ev rules w) (w', Inr (events, None))"
    and "\<forall>rule \<in> set rules. rule = []" and "l \<in> set (block_logs B n)" "event_name l = ev"
    and "map_sum id raw (parse ev \<lparr>lg_BlockNumber = word_of_nat (Suc n), lg_body = l\<rparr>) = Inr r"
    and "start \<le> word_of_nat (Suc n)" "word_of_nat (Suc n) \<le> stop"
  shows "r \<in> set events"
proof -
  let ?l = "\<lparr>lg_BlockNumber = word_of_nat (Suc n), lg_body = l\<rparr>"
  let ?P = "\<lambda>ls. set ls = {l \<in> eth_logs B. event_name (lg_body l) = ev \<and> start \<le> lg_BlockNumber l \<and> lg_BlockNumber l \<le> stop}"
  have "\<exists>ls es. ?P ls \<and> map (parse ev) ls = map Inr es \<and> events = map raw es"
    by (rule drain_run_complete [OF assms(2)]) (use assms(1,3) in \<open>auto simp: filters_chain_def\<close>)
  then obtain ls es where ls: "?P ls" "map (parse ev) ls = map Inr es" "events = map raw es" by blast
  obtain e where e: "parse ev ?l = Inr e" "raw e = r" using assms(6) by (cases "parse ev ?l") simp_all
  have "?l \<in> set ls" unfolding ls(1) using assms(4,5,7,8) by (auto simp: eth_logs_def)
  then have "parse ev ?l \<in> set (map (parse ev) ls)" by simp
  then have "e \<in> set es" using ls(2) e(1) by auto
  then show ?thesis using ls(3) e(2) by auto
qed

lemmas parse_simps = unpack_RecordSet_def unpack_RecordRemoved_def unpack_Transferred_def unpack_Registered_def event_field_def unpack_dapp_def
  event_values_def event_name_def abi_conversions

lemma bindings_complete:
  assumes "filters_chain C B" and "binding_filters cap C api"
  shows "complete_filter api (chain_logs B)"
  unfolding complete_filter_def
proof (intro allI impI subsetI)
  fix kind a b w w' events r
  assume f: "api_filter api kind a b w = (w', Inr (events, None))" and r: "r \<in> {r \<in> chain_logs B kind. a \<le> rawBlock r \<and> rawBlock r \<le> b}"
  have run: "filter_run cap C kind a b w (w', Inr (events, None))" using assms(2) f by (metis binding_filters_def)
  obtain n l where l: "l \<in> set (block_logs B n)" "watched_log (word_of_nat (Suc n)) l = Some (kind, r)" using r by (auto simp: chain_logs_def)
  have bl: "a \<le> word_of_nat (Suc n)" "word_of_nat (Suc n) \<le> b" using l(2) r by (auto simp: watched_log_def split: dapp_log.splits)
  have up: "bc_UnpackLog C = unpack_dapp" using assms(1) by (simp add: filters_chain_def)
  note dr = drained_logs [OF assms(1) _ _ l(1) _ _ bl]
  show "r \<in> set events"
  proof (cases kind)
    case EventRecordSet
    show ?thesis
      by (rule dr [OF run [unfolded filter_run_def EventRecordSet event_kind.case FilterRecordSet_def]])
        (use l(2) EventRecordSet in \<open>auto simp: up parse_simps watched_log_def split: dapp_log.splits\<close>)
  next
    case EventRecordRemoved
    show ?thesis
      by (rule dr [OF run [unfolded filter_run_def EventRecordRemoved event_kind.case FilterRecordRemoved_def]])
        (use l(2) EventRecordRemoved in \<open>auto simp: up parse_simps watched_log_def split: dapp_log.splits\<close>)
  next
    case EventTransferred
    show ?thesis
      by (rule dr [OF run [unfolded filter_run_def EventTransferred event_kind.case FilterTransferred_def]])
        (use l(2) EventTransferred in \<open>auto simp: up parse_simps watched_log_def split: dapp_log.splits\<close>)
  next
    case EventRegistered
    show ?thesis
      by (rule dr [OF run [unfolded filter_run_def EventRegistered event_kind.case FilterRegistered_def]])
        (use l(2) EventRegistered in \<open>auto simp: up parse_simps watched_log_def split: dapp_log.splits\<close>)
  qed
qed

section \<open>Properties\<close>

text \<open>
  C3: Cached answers are current. Take an answer that was cached when the watcher stood at block \<open>a\<close> and that was what the contract returned
  then. If it is still in the cache when the watcher, filtering logs through the bindings, has moved to block \<open>b\<close>, whatever calls failed on the way
  and however the iterators were scheduled, then it is what the contract returns at block \<open>b\<close>, unless the name's registration has run out
  meanwhile. (The names concerned do not collide under keccak256.)
\<close>

theorem pushed_cache_is_current:
  assumes "valid_chain L E B" and "lru_cache C contents cap linv N" and "cache_ok C contents cap linv N c" and "env_keccak C = keccak256 L"
    and "filters_chain D B \<and> binding_filters room D api"
    and "watch_loop rounds api (HandleEvent C) (word_of_nat a) (w, c) = ((w', c'), word_of_nat b, err)" and "b < 2 ^ 64" "a \<le> b"
    and "\<And>n l h x. l \<in> set (block_logs B n) \<Longrightarrow> log_plain l = Some (h, x) \<Longrightarrow> name_hash L x = name_hash L (qName q) \<Longrightarrow> x = qName q"
    and "snd (cache_Get C t (query_key q) c) = Some res"
    and "resRecord res = fromBinding (fst (resolve L (bc_time B a) (bc_state B a) (qName q) (qType q) (qSelector q)))"
    and "snd (cache_Get C t (query_key q) c') = Some res'"
  shows "res' = res \<and>
    (resRecord res' = fromBinding (fst (resolve L (bc_time B b) (bc_state B b) (qName q) (qType q) (qSelector q))) \<or>
     ownerOf L (bc_time B b) (bc_state B b) (qName q) = zero_address)"
proof -
  have "complete_filter api (chain_logs B)" using assms(5) bindings_complete by blast
  from cached_answer_is_current [OF assms(1-4) this assms(6-8) _ assms(10-12)] assms(9) show ?thesis by blast
qed

lemma drain_nothing: "\<exists>it f. it_drain cap parse (new_iterator ev, feed_of []) [] (it, f) \<and> it_fail it = None"
proof -
  let ?it = "new_iterator ev\<lparr>it_done := True, it_fail := None\<rparr>" let ?f = "feed_of []\<lparr>lf_err := Some None\<rparr>"
  have "it_Next cap parse (?it, ?f) False (?it, ?f)" by (rule next_empty) (simp_all add: feed_of_def)
  then have "it_Next cap parse (new_iterator ev, ?f) False (?it, ?f)"
    by (rule next_sub [rotated 3]) (simp_all add: new_iterator_def feed_of_def)
  then have "it_Next cap parse (new_iterator ev, feed_of []) False (?it, ?f)"
    by (rule next_wait [OF _ feed_end, rotated 3]) (simp_all add: new_iterator_def feed_of_def)
  then show ?thesis using drain_stop by fastforce
qed

definition renewal_contract :: "(unit, dapp_log) bound_contract" where
  "renewal_contract = \<lparr>bc_Call = (\<lambda>m ps w. (w, Inl ''eof'')), bc_Transact = (\<lambda>opts m ps w. (w, Inl ''eof'')),
     bc_FilterLogs = (\<lambda>start stop ev rules w. (w, Inr (feed_of (filter (\<lambda>l. event_name (lg_body l) = ev \<and> start \<le> lg_BlockNumber l \<and> lg_BlockNumber l \<le> stop)
       [\<lparr>lg_BlockNumber = 1, lg_body = Renewed (name_hash sample_sol ''example'') 63072200 10\<rparr>])))),
     bc_UnpackLog = unpack_dapp\<rparr>"

lemma renewal_drain: "ev \<noteq> ''Renewed'' \<Longrightarrow> drain_run n parse raw (filter_logs renewal_contract a b ev rules w) (w, Inr ([], None))"
  using drain_nothing [of n parse ev] by (auto simp: filter_logs_def renewal_contract_def event_name_def drain_run_def)

lemma renewal_filters: "filters_chain renewal_contract renewal_chain \<and> binding_filters 1 renewal_contract renewal_api"
proof
  have "l \<in> set (block_logs renewal_chain n) \<longleftrightarrow> n = 0 \<and> l = Renewed (name_hash sample_sol ''example'') 63072200 10" for n l
    using renewal_chain_facts(2) [of n] renewal_chain_facts(3) by (cases "block_logs renewal_chain n") auto
  then have "eth_logs renewal_chain = {\<lparr>lg_BlockNumber = 1, lg_body = Renewed (name_hash sample_sol ''example'') 63072200 10\<rparr>}"
    by (auto simp: eth_logs_def)
  then show "filters_chain renewal_contract renewal_chain"
    unfolding filters_chain_def renewal_contract_def by (auto intro!: exI)
  show "binding_filters 1 renewal_contract renewal_api"
    by (simp add: binding_filters_def renewal_drain filter_run_def FilterRecordSet_def FilterRecordRemoved_def FilterTransferred_def FilterRegistered_def
        renewal_api_def split: event_kind.split)
qed

theorem pushed_cache_is_current_witness:
  "\<exists>(c' :: (cache_key, resolve_result centry) lru_list ttl_cache) res. snd (cache_Get list_env 5 (query_key \<lparr>qName = ''example'', qType = ''A'', qSelector = []\<rparr>) c') = Some res \<and>
     (resRecord res = fromBinding (fst (resolve sample_sol 400 sample_renewed ''example'' ''A'' [])) \<or>
      ownerOf sample_sol 400 sample_renewed ''example'' = zero_address)"
proof -
  let ?q = "\<lparr>qName = ''example'', qType = ''A'', qSelector = []\<rparr>"
  define res where "res = sample_answer\<lparr>resRecord := fromBinding (fst (resolve sample_sol 300 sample_dapp ''example'' ''A'' []))\<rparr>"
  define c where "c = cache_Set list_env 0 (query_key ?q) res 10 fresh_cache"
  have ok0: "cache_ok list_env ll_contents fst ll_inv UNIV fresh_cache"
    using lc.new_ok(1) fresh_New by (simp add: sample_resolver_def list_resolver_def)
  have ok: "cache_ok list_env ll_contents fst ll_inv UNIV c" unfolding c_def by (rule lc.set_spec(1) [OF ok0 UNIV_I])
  have g: "snd (cache_Get list_env 5 (query_key ?q) c) = Some res"
    using lc.get_fst [OF ok, of 5 "query_key ?q"] lc.set_spec(2) [OF ok0 UNIV_I, where k = "query_key ?q" and now = 0 and v = res and ttl = 10]
    by (simp add: c_def)
  note w = renewal_watch [of "HandleEvent list_env" c]
  have "res = res \<and>
    (resRecord res = fromBinding (fst (resolve sample_sol (bc_time renewal_chain 1) (bc_state renewal_chain 1) (qName ?q) (qType ?q) (qSelector ?q))) \<or>
     ownerOf sample_sol (bc_time renewal_chain 1) (bc_state renewal_chain 1) (qName ?q) = zero_address)"
  proof (rule pushed_cache_is_current [OF renewal_chain_facts(1) lc.lru_cache_axioms ok _ renewal_filters w _ _ _ g _ g])
    show "x = qName ?q" if "l \<in> set (block_logs renewal_chain n)" "log_plain l = Some (h, x)" for n l h x
      using that renewal_chain_facts(2) [of n] renewal_chain_facts(3) by (cases "block_logs renewal_chain n") (auto simp: log_plain_def)
  qed (simp_all add: list_env_def sample_sol_def res_def renewal_chain_def id_def)
  then show ?thesis using g by (intro exI [of _ c] exI [of _ res]) (auto simp: renewal_chain_def)
qed

end
