(* ===== verification/Voucher_Settlement.thy ===== *)
theory Voucher_Settlement
  imports Channel_Cli Payment_Channels
begin

text \<open>
  From the client's \<open>ddns voucher\<close> over the resolver's \<open>ddns channel-claim\<close> to the payment by the contract.
\<close>

section \<open>A sample settlement\<close>

text \<open>A hash whose value is the last 32 bytes of its padded input, with which the sample keys satisfy \<open>same_crypto\<close>.\<close>

definition tail_hash :: "bytes \<Rightarrow> hash32" where
  "tail_hash b = drop (length b) (replicate 32 0 @ b)"

definition settle_pay :: pay_lib where
  "settle_pay =
     \<lparr>py_crypto = toy_crypto, py_Keccak256 = tail_hash, py_LeftPad = (\<lambda>b n. replicate (n - length b) 0 @ b), py_N = 2 * HALF_N + 1\<rparr>"

definition settle_sol :: sol_lib where
  "settle_sol =
     \<lparr>keccak256 = tail_hash,
      ecrecover = (\<lambda>d v r s. if v = 27 \<or> v = 28
        then (case SigToPub toy_crypto d (r @ s @ [v - 27]) of Inl _ \<Rightarrow> zero_address | Inr pub \<Rightarrow> PubkeyToAddress toy_crypto pub)
        else zero_address)\<rparr>"

lemma length_tail_hash [simp]: "length (tail_hash b) = 32"
  by (simp add: tail_hash_def del: drop_append)

lemma tail_hash_not_Nil [simp]: "tail_hash b \<noteq> []"
  using length_tail_hash [of b] by (metis list.size(3) zero_neq_numeral)

lemma settle_same_crypto: "same_crypto settle_sol settle_pay"
proof -
  have "TextHash toy_crypto b = tail_hash ([0x19] @ str_bytes ''Ethereum Signed Message:'' @ [10] @ str_bytes ''32'' @ b)"
    if "length b = 32" for b
    using that by (simp add: tail_hash_def str_bytes_def) (simp add: toy_crypto_def)
  then show ?thesis
    unfolding same_crypto_def settle_sol_def settle_pay_def left_pad_ok_def by (auto split: sum.split)
qed

definition settle_owner :: "((string + 64 word) list \<times> int) owner_lib" where
  "settle_owner = sample_owner\<lparr>ol_client := sample_client\<lparr>cl_dial := sample_dial\<rparr>\<rparr>"

definition settle_self :: address where "settle_self = replicate 20 1"

lemma settle_libs:
  "ol_crypto settle_owner = toy_crypto" "ec_Public settle_owner = id" "ol_dial settle_owner = sample_dial"
  "eth_ChainID settle_owner w = (w, Inr 1)" "NewKeyedTransactor settle_owner k i = None" "NewResolverIncentives settle_owner x = None"
  "loadKey settle_owner (co_key sample_common) = Inr [7]" "key_address settle_owner [7] = [7]"
  "incentivesAddr settle_owner d ''0x3'' w = settle_self"
  by (simp_all add: settle_owner_def ol_crypto_def ol_dial_def sample_owner_def sample_client_def loadKey_def sample_common_def
      key_address_def toy_crypto_def incentivesAddr_def contract_addr_def sample_dial_def settle_self_def Let_def)

definition settle_channel :: hash32 where "settle_channel = replicate 32 0"

definition settle_state :: incentives where
  "settle_state = projr (incentives_exec settle_sol settle_self accept \<lparr>msg_sender = [7], msg_value = 10 ^ 17, block_timestamp = 1000\<rparr>
     (CallOpen [9] 0) empty_incentives)"

lemma settle_open:
  "incentives_exec settle_sol settle_self accept \<lparr>msg_sender = [7], msg_value = 10 ^ 17, block_timestamp = 1000\<rparr>
     (CallOpen [9] 0) empty_incentives = Inr settle_state"
  "ic_channels settle_state settle_channel =
     \<lparr>ch_client = [7], ch_resolver = [9], ch_deposit = 10 ^ 17, ch_claimed = 0, ch_expiresAt = 4600\<rparr>"
proof -
  have z: "[9 :: byte] \<noteq> zero_address" by (auto simp: zero_address_def dest: arg_cong [of _ _ length])
  have "be_bytes 32 0 = replicate 32 (0 :: byte)"
    by (rule be_nat_inject) (use be_nat_replicate_zero [of 32 "[]"] in \<open>simp_all add: be_nat_be_bytes\<close>)
  then have "channel_id settle_sol [7] [9] 0 = settle_channel"
    by (simp add: channel_id_def settle_sol_def tail_hash_def settle_channel_def abi_uint_def abi_address_def)
  then show "incentives_exec settle_sol settle_self accept \<lparr>msg_sender = [7], msg_value = 10 ^ 17, block_timestamp = 1000\<rparr>
     (CallOpen [9] 0) empty_incentives = Inr settle_state"
    "ic_channels settle_state settle_channel =
     \<lparr>ch_client = [7], ch_resolver = [9], ch_deposit = 10 ^ 17, ch_claimed = 0, ch_expiresAt = 4600\<rparr>"
    using z by (simp_all add: settle_state_def incentives_exec_def openChannel_def Let_def MIN_DURATION_def u256_add_def u64_add_def
        empty_incentives_def ic_emit_def)
qed

lemma settle_run: "incentives_runs settle_sol settle_self empty_incentives settle_state"
  by (rule ic_call [OF ic_refl _ settle_open(1)])
    (auto simp: zero_address_def accept_def intro: ic_refl dest: arg_cong [of _ _ length])

section \<open>Properties\<close>

text \<open>
  C8: A voucher is money: when a client has printed a voucher for an open channel with \<open>ddns voucher\<close> and the resolver of the channel runs
  \<open>ddns channel-claim\<close> with it, both against the same contract, then the command sends exactly one transaction, from the account of its
  key to that contract and without a value. It is a claim which the contract, in whatever block it is mined while the channel is as assumed, accepts from
  this sender, paying it the authorised amount, capped at the deposit, less what was paid before. (The resolver is an account with a key, so
  receiving the payment runs no code.)
\<close>

theorem voucher_is_paid_out:
  assumes "cmdVoucher L P co channel amount incFlag s = (s', Inr voucher)"
    and "cmdChannelClaim R co' channel amount voucher incFlag' t = (t', Inr ())"
    and "hexutil_ok (ol_crypto L)" and "ol_crypto R = ol_crypto L" and "py_crypto P = ol_crypto L"
    and "\<And>d key sg. ecdsa_Sign (ol_crypto L) d key = Inr sg \<Longrightarrow> length sg = 65 \<and> sg ! 64 \<in> {0, 1} \<and>
      be_nat (take 32 (drop 32 sg)) \<le> py_N P div 2 \<and> SigToPub (ol_crypto L) d sg = Inr (ec_Public L key)"
    and "loadKey L (co_key co) = Inr key" and "incentivesAddr L (co_deployments co) incFlag (cw_world s) = self"
    and "loadKey R (co_key co') = Inr rkey" and "incentivesAddr R (co_deployments co') incFlag' (cw_world t) = self" and "length self = 20"
    and "same_crypto S P" and "incentives_runs S self empty_incentives st"
    and "mustChannelID (ol_crypto L) channel = Inr chid" and "mustEth amount = Inr wei" and "wei < 2 ^ 256"
    and "ic_channels st chid = ch" and "ch_client ch = key_address L key" and "key_address L key \<noteq> zero_address"
    and "ch_resolver ch = key_address R rkey" and "ch_claimed ch < min (nat wei) (ch_deposit ch)"
  shows "\<exists>sg. cw_log t' = cw_log t @ [Sent (key_address R rkey) self 0 (TxClaim chid wei sg)] \<and> self \<noteq> zero_address \<and>
    (\<forall>now. \<exists>st'. claim S self accept \<lparr>msg_sender = key_address R rkey, msg_value = 0, block_timestamp = now\<rparr> chid (nat wei) sg st = Inr st' \<and>
       ic_balance st = ic_balance st' + (min (nat wei) (ch_deposit ch) - ch_claimed ch) \<and>
       ch_claimed (ic_channels st' chid) = min (nat wei) (ch_deposit ch))"
proof -
  obtain sg where lg: "cw_log t' = cw_log t @ [Sent (key_address R rkey) self 0 (TxClaim chid wei sg)]"
    and rc: "RecoverVoucher P self chid wei sg = Inr (key_address L key)" and v: "sg ! 64 \<in> {27, 28}"
    by (rule claim_submits_voucher [OF assms(1-10)]) (use assms(14,15) in auto)
  have self: "self \<noteq> zero_address"
    using assms(1,8) by (auto simp: cmdVoucher_def cbind_Inr cread_def split: if_splits)
  have "length chid = 32" using assms(14) by (auto simp: mustChannelID_def split: option.splits if_splits)
  moreover have "0 \<le> wei" using assms(21) by linarith
  ultimately have rec: "recoverVoucher_sol S self chid (nat wei) sg = Inr (key_address L key)"
    using recover_agrees [OF assms(12,11) _ _ assms(16)] rc v assms(19) by auto
  have "\<exists>st'. claim S self accept \<lparr>msg_sender = key_address R rkey, msg_value = 0, block_timestamp = now\<rparr> chid (nat wei) sg st = Inr st' \<and>
       ic_balance st = ic_balance st' + (min (nat wei) (ch_deposit ch) - ch_claimed ch) \<and>
       ch_claimed (ic_channels st' chid) = min (nat wei) (ch_deposit ch)" for now
    using claim_exact [OF assms(13), where chid = chid and cumulative = "nat wei" and sg = sg and
        m = "\<lparr>msg_sender = key_address R rkey, msg_value = 0, block_timestamp = now\<rparr>"] rec assms(17-21) by auto
  with lg self show ?thesis by blast
qed

text \<open>The resolver \<open>[9]\<close> claims what the client \<open>[7]\<close> has granted it.\<close>

definition settle_resolver :: "((string + 64 word) list \<times> int) owner_lib" where
  "settle_resolver = settle_owner\<lparr>HexToECDSA := (\<lambda>_. Inr [9])\<rparr>"

lemma settle_resolver_libs:
  "ol_crypto settle_resolver = toy_crypto" "ol_dial settle_resolver = sample_dial"
  "eth_ChainID settle_resolver w = (w, Inr 1)" "NewKeyedTransactor settle_resolver k i = None" "NewResolverIncentives settle_resolver x = None"
  "loadKey settle_resolver (co_key sample_common) = Inr [9]" "key_address settle_resolver [9] = [9]"
  "incentivesAddr settle_resolver d ''0x3'' w = settle_self"
  by (simp_all add: settle_resolver_def settle_owner_def ol_crypto_def ol_dial_def sample_owner_def sample_client_def loadKey_def sample_common_def
      key_address_def toy_crypto_def incentivesAddr_def contract_addr_def sample_dial_def settle_self_def Let_def)

theorem voucher_is_paid_out_witness:
  "\<exists>(t' :: ((string + 64 word) list \<times> int) cli) sg st'.
     cw_log t' = [Sent [9] settle_self 0 (TxClaim settle_channel 50000000000000000 sg)] \<and>
     claim settle_sol settle_self accept \<lparr>msg_sender = [9], msg_value = 0, block_timestamp = 2000\<rparr> settle_channel 50000000000000000 sg settle_state =
       Inr st' \<and> ic_balance settle_state = ic_balance st' + 50000000000000000"
proof -
  let ?L = settle_owner let ?R = settle_resolver let ?ch = "hexutil_Encode toy_crypto settle_channel" let ?wei = "50000000000000000"
  have za: "[7 :: byte] \<noteq> zero_address" "settle_self \<noteq> zero_address"
    by (auto simp: settle_self_def zero_address_def dest: arg_cong [of _ _ length])
  have id: "mustChannelID toy_crypto ?ch = Inr settle_channel"
    using hexutil_facts(1) [OF toy_hexutil] by (simp add: mustChannelID_def settle_channel_def)
  have "Digest settle_pay x y w \<noteq> []" for x y w
    by (simp add: Digest_def innerHash_def settle_pay_def) (simp add: toy_crypto_def)
  then obtain sg where sg: "SignVoucher settle_pay [7] settle_self settle_channel ?wei = Inr sg"
    by (simp add: SignVoucher_def) (simp add: settle_pay_def toy_crypto_def)
  have v: "cmdVoucher ?L settle_pay sample_common ?ch ''0.05'' ''0x3'' sample_cli = (sample_cli, Inr (hexutil_Encode toy_crypto sg))"
    using za id by (simp add: cmdVoucher_def cbind_def cresult_def cread_def creturn_def settle_libs sample_wei sg)
  have "dialIncentives ?R sample_common ''0x3'' s = (s, Inr ([9], settle_self))" for s
    using za by (simp add: dialIncentives_def dial_key_def cbind_def cresult_def cread_def creturn_def ccall_def cerr_def settle_resolver_libs sample_dial_def)
  moreover have "\<exists>t'. send ?R frm inc v lbl tx s = (t', Inr ())" for frm inc v lbl tx s
    by (simp add: send_def send_logs_def cbind_def ccall_def creturn_def)
      (simp add: settle_resolver_def settle_owner_def sample_owner_def cbind_def ccall_def clog_def creturn_def)
  ultimately obtain t' where c: "cmdChannelClaim ?R sample_common ?ch ''0.05'' (hexutil_Encode toy_crypto sg) ''0x3'' sample_cli = (t', Inr ())"
    using hexutil_facts(1) [OF toy_hexutil] id
    by (simp add: cmdChannelClaim_def cbind_def cresult_def settle_resolver_libs sample_wei) metis
  have "be_nat (replicate 32 0) = 0" using be_nat_replicate_zero [of 32 "[]"] by simp
  then have ec: "length sg = 65 \<and> sg ! 64 \<in> {0, 1} \<and> be_nat (take 32 (drop 32 sg)) \<le> py_N settle_pay div 2 \<and>
      SigToPub (ol_crypto ?L) d sg = Inr (ec_Public ?L key)" if "ecdsa_Sign (ol_crypto ?L) d key = Inr sg" for d key sg
    using that by (auto simp: settle_libs toy_crypto_def nth_replicate split: if_splits)
  have "\<exists>sg. cw_log t' = cw_log sample_cli @ [Sent (key_address ?R [9]) settle_self 0 (TxClaim settle_channel ?wei sg)] \<and> settle_self \<noteq> zero_address \<and>
      (\<forall>now. \<exists>st'. claim settle_sol settle_self accept \<lparr>msg_sender = key_address ?R [9], msg_value = 0, block_timestamp = now\<rparr> settle_channel (nat ?wei) sg settle_state = Inr st' \<and>
         ic_balance settle_state = ic_balance st' + (min (nat ?wei) (10 ^ 17) - 0) \<and> ch_claimed (ic_channels st' settle_channel) = min (nat ?wei) (10 ^ 17))"
    by (rule voucher_is_paid_out [OF v c _ _ _ ec settle_libs(7,9) settle_resolver_libs(6,8) _ settle_same_crypto settle_run _ sample_wei _ settle_open(2),
        unfolded channel.simps])
      (simp_all add: settle_libs settle_resolver_libs toy_hexutil id za settle_pay_def settle_self_def)
  then show ?thesis by (fastforce simp: sample_cli_def settle_resolver_libs)
qed

end
