(* ===== verification/Resolver_Discovery.thy ===== *)
theory Resolver_Discovery
  imports Owner_Cli Deployed_Bindings
begin

text \<open>
  How clients find resolvers: \<open>ddns-lookup --discover\<close> (cmd/ddns-lookup) on the directory contract ResolverRegistry.sol, whose
  active resolvers it reads through the bindings.
\<close>

section \<open>Facts\<close>

text \<open>The client's read of the directory through the binding; the results change places.\<close>

definition bound_directory :: "(address \<Rightarrow> ('w, 'l) bound_contract) \<Rightarrow> 'w client_lib \<Rightarrow> 'w client_lib" where
  "bound_directory D L = L\<lparr>cl_ActiveResolvers :=
     (\<lambda>a w. read_result (\<lambda>(operators, pubKeys, endpoints). (operators, endpoints, pubKeys)) (ResolverRegistry_ActiveResolvers (D a) w))\<rparr>"

text \<open>What the client gets is the list of active resolvers of the directory as it is at that moment.\<close>

definition reads_directory :: "'w client_lib \<Rightarrow> ('w \<Rightarrow> directory) \<Rightarrow> bool" where
  "reads_directory L dir \<longleftrightarrow>
     (\<forall>a w w1 r. cl_ActiveResolvers L a w = (w1, Inr r) \<longrightarrow> (case activeResolvers (dir w) of (ops, keys, urls) \<Rightarrow> r = (ops, urls, keys)))"

lemma bound_reads_directory:
  assumes "L = bound_directory (\<lambda>a. deployed (\<lambda>w. directory_views (dir w)) methods submit (C a)) L"
  shows "reads_directory L dir"
proof -
  have "cl_ActiveResolvers L a w =
      read_result (\<lambda>(operators, pubKeys, endpoints). (operators, endpoints, pubKeys)) (w, Inr (activeResolvers (dir w)))" for a w
    by (subst assms) (simp add: bound_directory_def directory_reads(2) [OF refl])
  then show ?thesis by (auto simp: reads_directory_def read_result_def split: prod.splits)
qed

text \<open>Hexadecimal texts that differ only in case are of the same bytes.\<close>

definition hex_ignores_case :: "crypto_lib \<Rightarrow> bool" where
  "hex_ignores_case C \<longleftrightarrow>
     (\<forall>s k b. EqualFold_ascii s (hexutil_Encode C k) \<and> hexutil_Decode C s = Some b \<longrightarrow> b = k)"

lemma discoverResolver_announced:
  assumes "\<And>v. directory_reachable (dir v)" "reads_directory L dir" "discoverResolver L rpc deployments flag w = (w', Inr (u, key))"
  obtains v op k t where "getResolver (dir v) op = (k, u, t, True)" "k \<noteq> zero_hash" "key = hexutil_Encode (cl_crypto L) k"
proof -
  obtain x v v' ops urls keys where r: "cl_ActiveResolvers L x v = (v', Inr (ops, urls, keys))"
    and h: "ops \<noteq> []" "u = hd urls" "key = hexutil_Encode (cl_crypto L) (hd keys)"
    using assms(3) by (auto simp: discoverResolver_def Let_def split: if_splits prod.splits option.splits sum.splits)
  have "activeResolvers (dir v) = (ops, keys, urls)" using assms(2) r unfolding reads_directory_def by (cases "activeResolvers (dir v)") fastforce
  note act = directory_lists_active [OF assms(1) this]
  have l: "0 < length ops" "u = urls ! 0" "hd keys = keys ! 0" using act h by (auto simp: hd_conv_nth simp flip: length_greater_0_conv)
  then obtain t where "getResolver (dir v) (ops ! 0) = (keys ! 0, urls ! 0, t, True)" "keys ! 0 \<noteq> zero_hash" using act by blast
  with l h(3) show thesis using that by simp
qed

lemma open_envelope_pinned:
  assumes "open_envelope L key raw = Inr resp" "key \<noteq> []"
  obtains env pub sg where "cl_envelope L raw = Some env" "EqualFold_ascii (envResolver env) key" "cl_response L (envData env) = Inr resp"
    "hexutil_Decode (cl_crypto L) (envResolver env) = Some pub" "hexutil_Decode (cl_crypto L) (envSignature env) = Some sg"
    "ed_Verify (cl_crypto L) pub (envData env) sg"
  using assms that by (auto simp: open_envelope_def VerifyEnvelope_def split: option.splits sum.splits if_splits)

lemma lookup_main_discover:
  assumes "lookup_main L o' w = (w', Inr ans)" "lo_discover o'"
  obtains u key w1 q w2 resp cr where "discoverResolver L (lo_rpc o') (lo_deployments o') (lo_registry o') w = (w1, Inr (u, key))"
    "lookup_query L o' = Inr q"
    "cl_Get L (u @ ''/resolve?'' @ values_Encode [(''name'', [qName q]), (''type'', [qType q]), (''selector'', [qSelector q])]) w1 = (w2, Inr resp)"
    "open_envelope L key (take maxLookupBytes (h_body resp)) = Inr cr" "check_response L o' q cr w2 = (w', Inr ans)"
  using assms that by (auto simp: lookup_main_def Let_def split: prod.splits sum.splits)

section \<open>Hexadecimal texts\<close>

lemma hex_decode_values: "map hex_value s = map hex_value t \<Longrightarrow> hex_decode s = hex_decode t"
proof (induction s arbitrary: t rule: hex_decode.induct)
  case (2 c) then show ?case by (cases t) auto
next
  case (3 c d s)
  then obtain c' d' t' where t: "t = c' # d' # t'" "hex_value c' = hex_value c" "hex_value d' = hex_value d" "map hex_value s = map hex_value t'"
    by (auto simp: Cons_eq_map_conv)
  show ?case using 3(1) [OF t(4)] t(1-3) by simp
qed simp

lemma hex_decode_digits: "hex_decode s = Some b \<Longrightarrow> c \<in> set s \<Longrightarrow> hex_value c \<noteq> None"
  by (induction s arbitrary: b rule: hex_decode.induct) (auto split: option.splits)

lemma hex_value_fold:
  "hex_value c \<noteq> None \<Longrightarrow> hex_value d \<noteq> None \<Longrightarrow> fold_ascii (of_char c) = fold_ascii (of_char d) \<Longrightarrow> hex_value c = hex_value d"
  by (auto simp: hex_value_def fold_ascii_def Let_def split: if_splits)

lemma hex_decode_fold:
  assumes "hex_decode s = Some b" "hex_decode t = Some k" "map fold_ascii (map of_char s) = map fold_ascii (map of_char t)"
  shows "b = k"
proof -
  have l: "length s = length t" using assms(3) by (metis length_map)
  have "hex_value (s ! i) = hex_value (t ! i)" if "i < length s" for i
  proof (rule hex_value_fold)
    show "fold_ascii (of_char (s ! i)) = fold_ascii (of_char (t ! i))" using assms(3) that l by (auto dest: arg_cong [where f = "\<lambda>x. x ! i"])
  qed (use assms(1,2) that l in \<open>auto dest: hex_decode_digits [OF _ nth_mem]\<close>)
  then have "hex_decode s = hex_decode t" using l by (intro hex_decode_values nth_equalityI) auto
  with assms(1,2) show ?thesis by simp
qed

lemma toy_ignores_case: "hex_ignores_case toy_crypto"
  unfolding hex_ignores_case_def
proof (intro allI impI, elim conjE)
  fix s k b
  assume e: "EqualFold_ascii s (hexutil_Encode toy_crypto k)" and d: "hexutil_Decode toy_crypto s = Some b"
  obtain s' where s: "s = ''0x'' @ s'" "hex_decode s' = Some b"
    using d by (auto simp: toy_crypto_def HasPrefix_def is_prefix_iff split: if_splits)
  have "is_ascii c" if "c \<in> set s'" for c
    using hex_decode_digits [OF s(2) that] by (auto simp: hex_value_def is_ascii_def Let_def split: if_splits)
  then have "list_all is_ascii s" using s(1) by (auto simp: list_all_iff is_ascii_def)
  then have "map fold_ascii (map of_char s') = map fold_ascii (map of_char (hex_encode k))"
    using e s(1) by (simp add: EqualFold_ascii_def runes_ascii toy_crypto_def)
  with s(2) show "b = k" using hex_decode_fold hex_decode_encode by blast
qed

section \<open>Properties\<close>

text \<open>
  C33: Discovery is anchored in the directory: every answer that \<open>ddns-lookup --discover\<close> reports came from the endpoint that an active operator has announced
  on the chain, and carries a signature that verifies under the very key the operator announced with it.
\<close>

theorem discovered_answer_has_announced_key:
  assumes "\<And>v. directory_reachable (dir v)"
    and "L = bound_directory (\<lambda>a. deployed (\<lambda>w. directory_views (dir w)) methods submit (C a)) L" and "hexutil_ok (cl_crypto L)" and "hex_ignores_case (cl_crypto L)"
    and "lo_discover o'" and "lookup_main L o' w = (w', Inr ans)"
  shows "\<exists>v0 op k u t q v v' resp env sg cr. getResolver (dir v0) op = (k, u, t, True) \<and> k \<noteq> zero_hash \<and> lookup_query L o' = Inr q \<and>
    cl_Get L (u @ ''/resolve?'' @ values_Encode [(''name'', [qName q]), (''type'', [qType q]), (''selector'', [qSelector q])]) v = (v', Inr resp) \<and>
    cl_envelope L (take maxLookupBytes (h_body resp)) = Some env \<and> hexutil_Decode (cl_crypto L) (envSignature env) = Some sg \<and>
    ed_Verify (cl_crypto L) k (envData env) sg \<and> cl_response L (envData env) = Inr cr \<and> check_response L o' q cr v' = (w', Inr ans)"
proof -
  obtain u key w1 q w2 resp cr where
    dr: "discoverResolver L (lo_rpc o') (lo_deployments o') (lo_registry o') w = (w1, Inr (u, key))" and q: "lookup_query L o' = Inr q"
    and get: "cl_Get L (u @ ''/resolve?'' @ values_Encode [(''name'', [qName q]), (''type'', [qType q]), (''selector'', [qSelector q])]) w1 = (w2, Inr resp)"
    and env: "open_envelope L key (take maxLookupBytes (h_body resp)) = Inr cr" and chk: "check_response L o' q cr w2 = (w', Inr ans)"
    using lookup_main_discover [OF assms(6,5)] .
  obtain v0 op k t where k: "getResolver (dir v0) op = (k, u, t, True)" "k \<noteq> zero_hash" "key = hexutil_Encode (cl_crypto L) k"
    using discoverResolver_announced [OF assms(1) bound_reads_directory [OF assms(2)] dr] .
  have "key \<noteq> []" using hexutil_facts(2) [OF assms(3)] k(3) by simp
  then obtain e pub sg where e: "cl_envelope L (take maxLookupBytes (h_body resp)) = Some e" "EqualFold_ascii (envResolver e) key"
    "cl_response L (envData e) = Inr cr" "hexutil_Decode (cl_crypto L) (envResolver e) = Some pub"
    "hexutil_Decode (cl_crypto L) (envSignature e) = Some sg" "ed_Verify (cl_crypto L) pub (envData e) sg"
    using open_envelope_pinned [OF env] by metis
  have "pub = k" using assms(4) e(2,4) k(3) by (auto simp: hex_ignores_case_def)
  with k q get e chk show ?thesis by blast
qed

definition client_directory :: directory where
  "client_directory =
     projr (announce \<lparr>msg_sender = [7], msg_value = 0, block_timestamp = 5\<rparr> (replicate 32 5) ''http://r'' empty_directory)"

lemma client_directory_facts:
  "directory_reachable client_directory" "activeResolvers client_directory = ([[7]], [replicate 32 5], [''http://r''])"
proof -
  have "announce \<lparr>msg_sender = [7], msg_value = 0, block_timestamp = 5\<rparr> (replicate 32 5) ''http://r'' empty_directory = Inr client_directory"
    by (simp add: client_directory_def announce_def zero_hash_def MAX_ENDPOINT_LENGTH_def Let_def)
  from directory_announce [OF directory_init _ _ this] show "directory_reachable client_directory" by simp
  show "activeResolvers client_directory = ([[7]], [replicate 32 5], [''http://r''])"
    by (simp add: client_directory_def announce_def zero_hash_def MAX_ENDPOINT_LENGTH_def empty_directory_def activeResolvers_def Let_def)
qed

theorem discovered_answer_has_announced_key_witness:
  "\<exists>op k u t. getResolver client_directory op = (k, u, t, True) \<and>
     (\<exists>env sg. cl_envelope sample_client [] = Some env \<and> ed_Verify toy_crypto k (envData env) sg)"
proof -
  have "sample_client = bound_directory (\<lambda>a. deployed (\<lambda>w. directory_views client_directory) directory_methods submit (C a)) sample_client" for submit C
    by (simp add: bound_directory_def directory_reads(2) [OF refl, where state = "\<lambda>_. client_directory"] client_directory_facts(2) read_result_def)
      (simp add: sample_client_def)
  moreover have c: "cl_crypto sample_client = toy_crypto" "cl_envelope sample_client x = cl_envelope sample_client []" for x
    by (simp_all add: sample_client_def)
  ultimately show ?thesis
    using discovered_answer_has_announced_key [where dir = "\<lambda>_. client_directory", OF client_directory_facts(1) _ _ _ _ sample_discover] toy_hexutil toy_ignores_case
    unfolding c(1) c(2) [of "take _ _"] by (metis sample_opts_def lookup_opts.select_convs(3))
qed

end
