(* ===== verification/Server_Run.thy ===== *)
theory Server_Run
  imports Server_Boot Chain_Events
begin

text \<open>
  The running process: \<open>main\<close> of cmd/resolver/main.go, \<open>Run\<close> of internal/server/server.go and \<open>listenUDP\<close> of
  internal/server/udp.go. The goroutines (main, HTTP server, UDP listener, event watcher and the handlers they start) share the
  server, the context, the error channel and the sockets; the step relation has rules for what each of them can do, labelled with
  who does it.

  A step is a stretch of the code that no other goroutine can see the middle of: a critical section of the cache, of the limiter or of
  the torrent engine, one call of the chain endpoint with its retries, one event handed to the cache, one operation on a channel or a socket.
  The handlers of requests are not run as a whole: while a request or a UDP query is under way, its goroutine performs such sections, and those of
  different handlers and of the watcher interleave freely. That the handlers of the code are made of these sections, and a poll of Chain_Events of
  the steps of the watcher, is proved below; what handlers respond is the subject of the theories that model them.

  The waiting of \<open>Shutdown\<close> for open requests is the time between two steps of main; it is bounded in the code, so that requests may still
  be under way when it returns, and the rules allow that.
\<close>

section \<open>Definitions\<close>

subsection \<open>What the handlers do to the shared state\<close>

text \<open>
  The server, the queries in flight (between the segments of \<open>HandleQuery\<close>), the torrents in use, and the sections done so far with the answers
  they gave, the last one first. The last two components are only recorded, for the statements below.
\<close>

record ('s, 'w, 'l) shared =
  sh_server :: "('s, 'w, 'l) server"
  sh_flight :: "nat \<Rightarrow> in_flight option"
  sh_torrents :: sys
  sh_trace :: "'w race_trace"

datatype 'w critical =
    QuerySection "'w race_op"
  | TorrentSection sys_event
  | LimiterSection "int \<times> int \<times> int" string

definition race_of :: "('s, 'w, 'l) shared \<Rightarrow> ('s, 'w) race" where
  "race_of s = \<lparr>rc_state = sv_query (sh_server s), rc_flight = sh_flight s\<rparr>"

definition torrents_of :: "('s, 'w, 'l) shared \<Rightarrow> sys" where
  "torrents_of s = (sh_torrents s)\<lparr>sy_engine := sv_engine (sh_server s)\<rparr>"

fun section_do :: "('s, 'w, 'l) server_env \<Rightarrow> 'w critical \<Rightarrow> ('s, 'w, 'l) shared \<Rightarrow> ('s, 'w, 'l) shared" where
  "section_do E (QuerySection op) s =
     (let (r, a) = race_step (se_resolver E) op (race_of s)
      in s\<lparr>sh_server := (sh_server s)\<lparr>sv_query := rc_state r\<rparr>, sh_flight := rc_flight r, sh_trace := (op, a) # sh_trace s\<rparr>)"
| "section_do E (TorrentSection ev) s =
     (let y = sys_exec ev (torrents_of s) in s\<lparr>sh_server := (sh_server s)\<lparr>sv_engine := sy_engine y\<rparr>, sh_torrents := y\<rparr>)"
| "section_do E (LimiterSection t key) s =
     s\<lparr>sh_server := (sh_server s)\<lparr>sv_limiter := fst (allow (se_rate E) t key (sv_limiter (sh_server s)))\<rparr>\<rparr>"

text \<open>The sections that a handler may do; events are the watcher's. Handlers query names that have passed \<open>ValidateName\<close>.\<close>

fun is_event :: "'w race_op \<Rightarrow> bool" where
  "is_event (REvent ev) = True"
| "is_event _ = False"

fun handler_may :: "'w critical \<Rightarrow> ('s, 'w, 'l) shared \<Rightarrow> bool" where
  "handler_may (QuerySection op) s = (flight_names op \<subseteq> valid_names \<and> \<not> is_event op)"
| "handler_may (TorrentSection ev) s = sys_enabled ev (torrents_of s)"
| "handler_may (LimiterSection t key) s = True"

fun section_run ::
  "('s, 'w, 'l) server_env \<Rightarrow> 'w critical list \<Rightarrow> ('s, 'w, 'l) shared \<Rightarrow> ('s, 'w, 'l) shared option" where
  "section_run E [] s = Some s"
| "section_run E (x # xs) s = (if handler_may x s then section_run E xs (section_do E x s) else None)"

subsection \<open>Goroutines\<close>

text \<open>The socket, the listener and the torrent client are outside the repository.\<close>

record 'w run_lib =
  net_ListenPacket :: "int \<Rightarrow> 'w \<Rightarrow> 'w \<times> string option"
  conn_Close :: "'w \<Rightarrow> 'w"
  http_Shutdown :: "'w \<Rightarrow> 'w"
  bt_Close :: "'w \<Rightarrow> 'w"

datatype serve_error = ErrServerClosed | ServeFailed string

datatype main_phase = Selecting | ShuttingDown | Returned "serve_error option"
datatype http_phase = HttpServing | HttpClosing | HttpReturned serve_error
datatype conn_phase = ConnNone | ConnOpen | ConnClosed

text \<open>
  Where \<open>WatchRecordEvents\<close> is: before its first call, waiting for the ticker, between two windows, before the filter of the next kind of event
  over a window, inside the loop over the events of a kind, or at its end.
\<close>

datatype watch_phase =
    WStarting
  | WPolling "64 word"
  | WScanning "64 word" "64 word"
  | WFiltering "64 word" "64 word" "64 word" "event_kind list"
  | WDelivering "64 word" "64 word" "64 word" event_kind "event_kind list" "raw_event list" "string option"
  | WEnded string

record ('s, 'w, 'l) running =
  rn_shared :: "('s, 'w, 'l) shared"
  rn_inFlight :: "(string \<times> bytes) list"
  rn_sent :: "(string \<times> bytes) list"
  rn_main :: main_phase
  rn_ctxDone :: bool
  rn_errCh :: "serve_error option"
  rn_http :: http_phase
  rn_requests :: "(http_request \<times> route \<times> bool) list"
  rn_watcher :: watch_phase
  rn_udp :: bool
  rn_conn :: conn_phase
  rn_chainOpen :: bool
  rn_btOpen :: bool

abbreviation rn_server :: "('s, 'w, 'l) running \<Rightarrow> ('s, 'w, 'l) server" where
  "rn_server s \<equiv> sh_server (rn_shared s)"

abbreviation rn_world :: "('s, 'w, 'l) running \<Rightarrow> 'w" where
  "rn_world s \<equiv> get_world (rn_server s)"

definition set_server :: "('s, 'w, 'l) server \<Rightarrow> ('s, 'w, 'l) running \<Rightarrow> ('s, 'w, 'l) running" where
  "set_server v s = s\<lparr>rn_shared := (rn_shared s)\<lparr>sh_server := v\<rparr>\<rparr>"

definition change_world :: "'w \<Rightarrow> ('s, 'w, 'l) running \<Rightarrow> ('s, 'w, 'l) running" where
  "change_world w s = set_server (set_world w (rn_server s)) s"

definition rn_loop :: "('s, 'w, 'l) running \<Rightarrow> ('s, 'w, 'l) udp_loop" where
  "rn_loop s = \<lparr>ul_server = rn_server s, ul_inFlight = rn_inFlight s, ul_sent = rn_sent s\<rparr>"

definition listenUDP :: "('s, 'w, 'l) server_env \<Rightarrow> 'w run_lib \<Rightarrow> 'w \<Rightarrow> 'w \<times> conn_phase" where
  "listenUDP E P w =
     (case net_ListenPacket P (UDPPort (se_cfg E)) w of
        (w, Some err) \<Rightarrow> (w, ConnNone)
      | (w, None) \<Rightarrow> (w, ConnOpen))"

text \<open>\<open>Run\<close> up to its \<open>select\<close>: the socket is open, or disabled, and the goroutines are started.\<close>

definition Run_start :: "('s, 'w, 'l) server_env \<Rightarrow> 'w run_lib \<Rightarrow> ('s, 'w, 'l) server \<Rightarrow> ('s, 'w, 'l) running" where
  "Run_start E P v =
     (let (w, udpConn) = listenUDP E P (get_world v)
      in \<lparr>rn_shared = \<lparr>sh_server = set_world w v, sh_flight = Map.empty, sh_torrents = sys_initial, sh_trace = []\<rparr>,
          rn_inFlight = [], rn_sent = [], rn_main = Selecting, rn_ctxDone = False,
          rn_errCh = None, rn_http = HttpServing, rn_requests = [], rn_watcher = WStarting, rn_udp = (udpConn = ConnOpen),
          rn_conn = udpConn, rn_chainOpen = True, rn_btOpen = se_bt E\<rparr>)"

text \<open>
  What \<open>Run\<close> does after the \<open>select\<close>: the chain client is closed, then the deferred calls run, the last one first; the server keeps
  its connection as \<open>None\<close> when there was no socket.
\<close>

definition Run_return ::
  "('s, 'w, 'l) server_env \<Rightarrow> 'w dial_lib \<Rightarrow> 'w run_lib \<Rightarrow> serve_error option \<Rightarrow> ('s, 'w, 'l) running \<Rightarrow> ('s, 'w, 'l) running" where
  "Run_return E D P r s =
     (let w = eth_Close D (rn_world s);
          (w, udpConn) = (if rn_conn s = ConnNone then (w, ConnNone) else (conn_Close P w, ConnClosed));
          w = (if se_bt E then bt_Close P w else w)
      in change_world w
           (s\<lparr>rn_main := Returned r, rn_chainOpen := False, rn_conn := udpConn, rn_btOpen := (rn_btOpen s \<and> \<not> se_bt E)\<rparr>))"

text \<open>
  The watcher calls the endpoint under the context of the process: calls and waits are interrupted only when that context is done.
\<close>

definition run_api :: "bool \<Rightarrow> 'w rpc_api \<Rightarrow> 'w rpc_api" where
  "run_api d api = api\<lparr>api_ctxErr := (\<lambda>_. if d then Some ''context canceled'' else None),
     api_sleep := (\<lambda>n w. let (w, r) = api_sleep api n w in (w, if d then r else None))\<rparr>"

text \<open>
  Who takes a step: the signal handler, the world outside, a client, a handler, a failing socket, main, the HTTP server, the UDP listener, the watcher.
  A call during which the signal arrives ends with the context done (\<open>d'\<close>).
\<close>

datatype actor = ASignal | AOutside | AClient | AHandler | AFault | AMain | AHttp | AUdp | AWatcher

inductive run_step ::
  "('s, 'w, 'l) server_env \<Rightarrow> 'w dial_lib \<Rightarrow> 'w run_lib \<Rightarrow> actor \<Rightarrow> ('s, 'w, 'l) running \<Rightarrow> ('s, 'w, 'l) running \<Rightarrow> bool" for E D P where
  signal: "run_step E D P ASignal s (s\<lparr>rn_ctxDone := True\<rparr>)"
| outside: "run_step E D P AOutside s (change_world w s)"
| http_accepts: "rn_http s = HttpServing \<Longrightarrow> (pat, rt) \<in> set (registerRoutes (se_cfg E)) \<Longrightarrow>
    run_step E D P AClient s (s\<lparr>rn_requests := rn_requests s @ [(r, rt)]\<rparr>)"
| handler_acts: "rn_requests s \<noteq> [] \<or> rn_inFlight s \<noteq> [] \<Longrightarrow> handler_may x (rn_shared s) \<Longrightarrow>
    run_step E D P AHandler s (s\<lparr>rn_shared := section_do E x (rn_shared s)\<rparr>)"
| http_responds: "rn_requests s = xs @ (r, rt) # ys \<Longrightarrow> run_step E D P AHandler s (s\<lparr>rn_requests := xs @ ys\<rparr>)"
| http_fails: "rn_http s = HttpServing \<Longrightarrow> rn_errCh s = None \<Longrightarrow>
    run_step E D P AFault s (s\<lparr>rn_http := HttpReturned (ServeFailed err), rn_errCh := Some (ServeFailed err)\<rparr>)"
| http_closed: "rn_http s = HttpClosing \<Longrightarrow> rn_errCh s = None \<Longrightarrow>
    run_step E D P AHttp s (s\<lparr>rn_http := HttpReturned ErrServerClosed, rn_errCh := Some ErrServerClosed\<rparr>)"
| udp_receives: "rn_udp s \<Longrightarrow> rn_conn s = ConnOpen \<Longrightarrow> u = udp_step E (UReceive t addr d) (rn_loop s) \<Longrightarrow>
    run_step E D P AClient s (set_server (ul_server u) (s\<lparr>rn_inFlight := ul_inFlight u, rn_sent := ul_sent u\<rparr>))"
| udp_replies: "rn_inFlight s = xs @ (addr, packet) # ys \<Longrightarrow>
    run_step E D P AHandler s
      (s\<lparr>rn_inFlight := xs @ ys, rn_sent := (if rn_conn s = ConnOpen then rn_sent s @ [(addr, reply)] else rn_sent s)\<rparr>)"
| udp_fails: "rn_udp s \<Longrightarrow> rn_ctxDone s \<Longrightarrow> run_step E D P AFault s (s\<lparr>rn_udp := False\<rparr>)"
| udp_closed: "rn_udp s \<Longrightarrow> rn_conn s = ConnClosed \<Longrightarrow> run_step E D P AUdp s (s\<lparr>rn_udp := False\<rparr>)"
| watch_starts: "rn_watcher s = WStarting \<Longrightarrow> rn_ctxDone s \<longrightarrow> d' \<Longrightarrow>
    ChainHead (run_api d' (se_api E)) (rn_world s) = (w, head) \<Longrightarrow>
    run_step E D P AWatcher s (change_world w
      (s\<lparr>rn_ctxDone := d', rn_watcher := (case head of Inl err \<Rightarrow> WEnded err | Inr lst \<Rightarrow> WPolling lst)\<rparr>))"
| watch_cancelled: "rn_watcher s = WPolling lst \<Longrightarrow> rn_ctxDone s \<Longrightarrow>
    run_step E D P AWatcher s (s\<lparr>rn_watcher := WEnded ''context canceled''\<rparr>)"
| watch_ticks: "rn_watcher s = WPolling lst \<Longrightarrow> rn_ctxDone s \<longrightarrow> d' \<Longrightarrow>
    ChainHead (run_api d' (se_api E)) (rn_world s) = (w, head) \<Longrightarrow>
    run_step E D P AWatcher s (change_world w (s\<lparr>rn_ctxDone := d', rn_watcher :=
      (case head of
         Inl err \<Rightarrow> (case api_ctxErr (run_api d' (se_api E)) w of Some err \<Rightarrow> WEnded err | None \<Rightarrow> WPolling lst)
       | Inr hd' \<Rightarrow> WScanning lst hd')\<rparr>))"
| watch_window: "rn_watcher s = WScanning lst hd' \<Longrightarrow>
    run_step E D P AWatcher s (s\<lparr>rn_watcher :=
      (if lst < hd' then WFiltering lst hd' (window_end lst hd') [EventRecordSet, EventRecordRemoved, EventTransferred, EventRegistered]
       else WPolling lst)\<rparr>)"
| watch_filters: "rn_watcher s = WFiltering lst hd' stop (k # ks) \<Longrightarrow> api_filter (se_api E) k (lst + 1) stop (rn_world s) = (w, found) \<Longrightarrow>
    run_step E D P AWatcher s (change_world w (s\<lparr>rn_watcher :=
      (case found of Inl err \<Rightarrow> WPolling lst | Inr (events, itErr) \<Rightarrow> WDelivering lst hd' stop k ks events itErr)\<rparr>))"
| watch_delivers: "rn_watcher s = WDelivering lst hd' stop k ks (r # rs) itErr \<Longrightarrow>
    run_step E D P AWatcher s (s\<lparr>rn_shared := section_do E (QuerySection (REvent (to_record_event k r))) (rn_shared s),
      rn_watcher := WDelivering lst hd' stop k ks rs itErr\<rparr>)"
| watch_delivered: "rn_watcher s = WDelivering lst hd' stop k ks [] itErr \<Longrightarrow>
    run_step E D P AWatcher s (s\<lparr>rn_watcher := (case itErr of Some err \<Rightarrow> WPolling lst | None \<Rightarrow> WFiltering lst hd' stop ks)\<rparr>)"
| watch_scanned: "rn_watcher s = WFiltering lst hd' stop [] \<Longrightarrow>
    run_step E D P AWatcher s (s\<lparr>rn_watcher := WScanning stop hd'\<rparr>)"
| main_shuts_down: "rn_main s = Selecting \<Longrightarrow> rn_ctxDone s \<Longrightarrow>
    run_step E D P AMain s (change_world (http_Shutdown P (rn_world s))
      (s\<lparr>rn_main := ShuttingDown, rn_http := (if rn_http s = HttpServing then HttpClosing else rn_http s)\<rparr>))"
| main_returns: "rn_main s = ShuttingDown \<Longrightarrow> run_step E D P AMain s (Run_return E D P None s)"
| main_receives: "rn_main s = Selecting \<Longrightarrow> rn_errCh s = Some err' \<Longrightarrow>
    run_step E D P AMain s
      (Run_return E D P (if err' = ErrServerClosed then None else Some err') (s\<lparr>rn_errCh := None\<rparr>))"

text \<open>Sequences of steps of the given actors.\<close>

inductive run_steps ::
  "('s, 'w, 'l) server_env \<Rightarrow> 'w dial_lib \<Rightarrow> 'w run_lib \<Rightarrow> actor set \<Rightarrow> ('s, 'w, 'l) running \<Rightarrow> ('s, 'w, 'l) running \<Rightarrow> bool" for E D P A where
  run_none: "run_steps E D P A s s"
| run_more: "run_steps E D P A s t \<Longrightarrow> run_step E D P a t u \<Longrightarrow> a \<in> A \<Longrightarrow> run_steps E D P A s u"

text \<open>\<open>main\<close>: the exits before \<open>Run\<close>, and the exit status of the process once \<open>Run\<close> has returned.\<close>

datatype main_exit = ExitConfig config_error | ExitBoot boot_error

definition main_boot ::
  "unicode \<Rightarrow> config_files \<Rightarrow> env \<Rightarrow> ('s, 'w, 'l) server_env \<Rightarrow> 'w dial_lib \<Rightarrow> int \<Rightarrow> 'w \<Rightarrow>
   'w \<times> (main_exit + ('s, 'w, 'l) server_env \<times> ('s, 'w, 'l) server)" where
  "main_boot U F e E D now w =
     (case snd (FromEnv U F e) of
        Inl err \<Rightarrow> (w, Inl (ExitConfig err))
      | Inr cfg \<Rightarrow>
          (case server_New (E\<lparr>se_cfg := cfg\<rparr>) D now w of
             (w, Inl err) \<Rightarrow> (w, Inl (ExitBoot err))
           | (w, Inr srv) \<Rightarrow> (w, Inr srv)))"

definition exit_status :: "serve_error option \<Rightarrow> nat" where
  "exit_status r = (case r of None \<Rightarrow> 0 | Some err \<Rightarrow> 1)"

inductive resolver_main ::
  "unicode \<Rightarrow> config_files \<Rightarrow> env \<Rightarrow> ('s, 'w, 'l) server_env \<Rightarrow> 'w dial_lib \<Rightarrow> 'w run_lib \<Rightarrow> int \<Rightarrow> 'w \<Rightarrow> nat \<Rightarrow> bool" for U F e E D P now w where
  boot_fails: "main_boot U F e E D now w = (w', Inl x) \<Longrightarrow> resolver_main U F e E D P now w 1"
| run_ends: "main_boot U F e E D now w = (w', Inr (E', v)) \<Longrightarrow> run_steps E' D P UNIV (Run_start E' P v) s \<Longrightarrow>
    rn_main s = Returned r \<Longrightarrow> resolver_main U F e E D P now w (exit_status r)"

section \<open>Facts\<close>

subsection \<open>Handlers as sequences of sections\<close>

lemma section_run_append:
  "section_run E (xs @ ys) s = (case section_run E xs s of None \<Rightarrow> None | Some s' \<Rightarrow> section_run E ys s')"
  by (induction xs arbitrary: s) simp_all

lemma race_run_state: "fst (race_run R ops (s, tr)) = fst (race_run R ops (s, []))"
  using race_run_append_trace [of R ops s "[]" tr] by (simp add: Let_def case_prod_beta)

lemma section_run_queries:
  assumes "\<And>op. op \<in> set ops \<Longrightarrow> flight_names op \<subseteq> valid_names \<and> \<not> is_event op"
  shows "\<exists>tr. section_run E (map QuerySection ops) s =
    (let r = fst (race_run (se_resolver E) ops (race_of s, []))
     in Some (s\<lparr>sh_server := (sh_server s)\<lparr>sv_query := rc_state r\<rparr>, sh_flight := rc_flight r, sh_trace := tr\<rparr>))"
  using assms
proof (induction ops arbitrary: s)
  case Nil
  show ?case by (rule exI [of _ "sh_trace s"]) (simp add: race_of_def)
next
  case (Cons op ops)
  obtain r a where st: "race_step (se_resolver E) op (race_of s) = (r, a)" by fastforce
  let ?s = "s\<lparr>sh_server := (sh_server s)\<lparr>sv_query := rc_state r\<rparr>, sh_flight := rc_flight r, sh_trace := (op, a) # sh_trace s\<rparr>"
  have r: "race_of ?s = r" by (simp add: race_of_def)
  obtain tr where "section_run E (map QuerySection ops) ?s =
    (let r = fst (race_run (se_resolver E) ops (race_of ?s, []))
     in Some (?s\<lparr>sh_server := (sh_server ?s)\<lparr>sv_query := rc_state r\<rparr>, sh_flight := rc_flight r, sh_trace := tr\<rparr>))"
    using Cons by (meson list.set_intros(2))
  then show ?case using Cons.prems [of op] st by (simp add: r race_run_state [of _ ops r "[(op, a)]"] Let_def) blast
qed

text \<open>A change of the server that is a sequence of sections of a handler, with a free place among the queries in flight.\<close>

definition performs :: "('s, 'w, 'l) server_env \<Rightarrow> ('s, 'w, 'l) server \<Rightarrow> ('s, 'w, 'l) server \<Rightarrow> bool" where
  "performs E v v' \<longleftrightarrow> (\<forall>s i. sh_server s = v \<longrightarrow> sh_flight s i = None \<longrightarrow>
     (\<exists>xs s'. section_run E xs s = Some s' \<and> sh_server s' = v' \<and> sh_flight s' = sh_flight s))"

lemma performsI:
  assumes "\<And>s i. sh_server s = v \<Longrightarrow> sh_flight s i = None \<Longrightarrow>
    \<exists>xs s'. section_run E xs s = Some s' \<and> sh_server s' = v' \<and> sh_flight s' = sh_flight s"
  shows "performs E v v'"
  using assms unfolding performs_def by blast

lemma performs_trans:
  fixes E :: "('s, 'w, 'l) server_env"
  assumes p: "performs E v v'" "performs E v' v''"
  shows "performs E v v''"
proof (rule performsI)
  fix s :: "('s, 'w, 'l) shared" and i assume s: "sh_server s = v" "sh_flight s i = None"
  obtain xs s1 where 1: "section_run E xs s = Some s1" "sh_server s1 = v'" "sh_flight s1 = sh_flight s"
    using p(1) s unfolding performs_def by blast
  obtain ys s2 where 2: "section_run E ys s1 = Some s2" "sh_server s2 = v''" "sh_flight s2 = sh_flight s1"
    using p(2) 1(2,3) s(2) unfolding performs_def by metis
  show "\<exists>xs s'. section_run E xs s = Some s' \<and> sh_server s' = v'' \<and> sh_flight s' = sh_flight s"
    using 1 2 by (intro exI [of _ "xs @ ys"] exI [of _ s2]) (simp add: section_run_append)
qed

lemma performs_ops:
  fixes E :: "('s, 'w, 'l) server_env"
  assumes "\<And>i fl op. op \<in> set (ops i) \<Longrightarrow> flight_names op \<subseteq> valid_names \<and> \<not> is_event op"
    and "\<And>i fl. fl i = None \<Longrightarrow> fst (race_run (se_resolver E) (ops i) (\<lparr>rc_state = sv_query v, rc_flight = fl\<rparr>, [])) = \<lparr>rc_state = qs, rc_flight = fl\<rparr>"
  shows "performs E v (v\<lparr>sv_query := qs\<rparr>)"
proof (rule performsI)
  fix s :: "('s, 'w, 'l) shared" and i assume s: "sh_server s = v" "sh_flight s i = None"
  obtain tr where "section_run E (map QuerySection (ops i)) s =
    (let r = fst (race_run (se_resolver E) (ops i) (race_of s, []))
     in Some (s\<lparr>sh_server := (sh_server s)\<lparr>sv_query := rc_state r\<rparr>, sh_flight := rc_flight r, sh_trace := tr\<rparr>))"
    using section_run_queries [of "ops i" E s] assms(1) by blast
  then show "\<exists>xs s'. section_run E xs s = Some s' \<and> sh_server s' = v\<lparr>sv_query := qs\<rparr> \<and> sh_flight s' = sh_flight s"
    using assms(2) [of "sh_flight s" i, OF s(2)] s(1) by (intro exI) (auto simp: race_of_def)
qed

lemma performs_op:
  assumes "flight_names op = {}" "\<not> is_event op" "\<And>fl. fst (race_step (se_resolver E) op \<lparr>rc_state = sv_query v, rc_flight = fl\<rparr>) = \<lparr>rc_state = qs, rc_flight = fl\<rparr>"
  shows "performs E v (v\<lparr>sv_query := qs\<rparr>)"
  by (rule performs_ops [where ops = "\<lambda>_. [op]"]) (use assms in \<open>auto simp: case_prod_beta\<close>)

lemma performs_query:
  assumes "HandleQuery (se_resolver E) ts q (sv_query v) = (qs, x)" "qName q \<in> valid_names"
  shows "performs E v (v\<lparr>sv_query := qs\<rparr>)"
proof (rule performs_ops [where ops = "\<lambda>i. [RLookup i (fst ts) q, RRead i, RFill i (snd ts)]"])
  fix i and fl :: "nat \<Rightarrow> in_flight option" assume fl: "fl i = None"
  let ?s = "\<lparr>rc_state = sv_query v, rc_flight = fl\<rparr>"
  obtain s' tr where r: "race_run (se_resolver E) [RLookup i (fst ts) q, RRead i, RFill i (snd ts)] (?s, []) = (s', tr)" by fastforce
  have "rc_state s' = qs \<and> rc_flight s' = fl"
    using segments_are_HandleQuery [of ?s i "se_resolver E" ts q qs x s' tr] assms(1) r fl by simp
  then show "fst (race_run (se_resolver E) [RLookup i (fst ts) q, RRead i, RFill i (snd ts)] (?s, [])) = \<lparr>rc_state = qs, rc_flight = fl\<rparr>"
    unfolding r by (simp add: race.equality)
qed (use assms(2) in auto)

text \<open>The critical sections of \<open>Fetch\<close> and \<open>SeedFile\<close>; what they do outside the lock is a change of the world.\<close>

lemma performs_engine:
  assumes "\<And>s. sh_server s = v \<Longrightarrow> \<exists>xs s'. section_run E xs s = Some s' \<and> sh_server s' = v\<lparr>sv_engine := fst ew\<rparr> \<and> sh_flight s' = sh_flight s"
  shows "performs E v (set_engine ew v)"
proof -
  have "performs E v (v\<lparr>sv_engine := fst ew\<rparr>)" using assms by (intro performsI) blast
  moreover have "performs E v1 (set_world (snd ew) v1)" for v1
    unfolding set_world_def by (rule performs_op [where op = "RWorld (snd ew)"]) simp_all
  ultimately show ?thesis unfolding set_engine_def by (rule performs_trans)
qed

lemma Fetch_engine:
  "fst (fst (Fetch T hash sha peers (e, w))) = e \<or>
   (\<exists>ih. fst (fst (Fetch T hash sha peers (e, w))) = fst (release_locked ih (acquire ih e))) \<or>
   (\<exists>ih. fst (fst (Fetch T hash sha peers (e, w))) = fst (release_locked ih (fst (retain_locked ih (acquire ih e)))))"
  by (auto simp: Fetch_def release_def retain_def Let_def case_prod_beta split: option.split)

lemma SeedFile_engine:
  "fst (fst (SeedFile T path (e, w))) = e \<or> (\<exists>ih. fst (fst (SeedFile T path (e, w))) = pin ih e)"
  by (auto simp: SeedFile_def Let_def split: sum.split option.split prod.split)

lemma performs_fetch:
  fixes E :: "('s, 'w, 'l) server_env"
  shows "performs E v (set_engine (fst (Fetch (se_torrent E) hash sha peers (sv_engine v, w))) v)"
proof (rule performs_engine)
  fix s :: "('s, 'w, 'l) shared" assume s: "sh_server s = v"
  let ?F = "Fetch (se_torrent E) hash sha peers (sv_engine v, w)"
  consider "fst (fst ?F) = sv_engine v"
    | ih where "fst (fst ?F) = fst (release_locked ih (acquire ih (sv_engine v)))"
    | ih where "fst (fst ?F) = fst (release_locked ih (fst (retain_locked ih (acquire ih (sv_engine v)))))"
    using Fetch_engine [of "se_torrent E" hash sha peers "sv_engine v" w] by blast
  then show "\<exists>xs s'. section_run E xs s = Some s' \<and> sh_server s' = v\<lparr>sv_engine := fst (fst ?F)\<rparr> \<and> sh_flight s' = sh_flight s"
  proof cases
    case 1
    then show ?thesis using s by (intro exI [of _ "[]"] exI [of _ s]) simp
  next
    case 2
    then show ?thesis using s
      by (intro exI [of _ "map TorrentSection [EvAdd ih, EvAcquire ih, EvRelease ih]"])
        (simp add: torrents_of_def Let_def case_prod_beta)
  next
    case 3
    then show ?thesis using s
      by (intro exI [of _ "map TorrentSection [EvAdd ih, EvAcquire ih, EvRetain ih, EvRelease ih]"])
        (simp add: torrents_of_def Let_def case_prod_beta)
  qed
qed

lemma performs_seed:
  fixes E :: "('s, 'w, 'l) server_env"
  shows "performs E v (set_engine (fst (SeedFile (se_torrent E) path (sv_engine v, w))) v)"
proof (rule performs_engine)
  fix s :: "('s, 'w, 'l) shared" assume s: "sh_server s = v"
  let ?F = "SeedFile (se_torrent E) path (sv_engine v, w)"
  consider "fst (fst ?F) = sv_engine v" | ih where "fst (fst ?F) = pin ih (sv_engine v)"
    using SeedFile_engine [of "se_torrent E" path "sv_engine v" w] by blast
  then show "\<exists>xs s'. section_run E xs s = Some s' \<and> sh_server s' = v\<lparr>sv_engine := fst (fst ?F)\<rparr> \<and> sh_flight s' = sh_flight s"
  proof cases
    case 1
    then show ?thesis using s by (intro exI [of _ "[]"] exI [of _ s]) simp
  next
    case 2
    then show ?thesis using s
      by (intro exI [of _ "map TorrentSection [EvSeedAdd ih, EvSeedPin ih]"]) (simp add: torrents_of_def Let_def)
  qed
qed

interpretation handlers: handler_parts E "performs E" for E :: "('s, 'w, 'l) server_env"
proof
  show "performs E s s" for s :: "('s, 'w, 'l) server"
    unfolding performs_def by (metis section_run.simps(1))
  show "performs E s (set_world w s)" for s :: "('s, 'w, 'l) server" and w
    unfolding set_world_def by (rule performs_op [where op = "RWorld w"]) simp_all
  show "performs E s (s\<lparr>sv_query := (sv_query s)\<lparr>q_cache := InvalidateName (rv_cache (se_resolver E)) nm (q_cache (sv_query s))\<rparr>\<rparr>)" for s nm
    by (rule performs_op [where op = "RInvalidate nm"]) simp_all
  show "performs E s (s\<lparr>sv_query := (sv_query s)\<lparr>q_cache := Flush (rv_cache (se_resolver E)) (q_cache (sv_query s))\<rparr>\<rparr>)" for s
    by (rule performs_op [where op = RFlush]) simp_all
  show "performs E s (s\<lparr>sv_limiter := l\<rparr>)" if "allow (se_rate E) t key (sv_limiter s) = (l, ok)" for t key s l ok
    using that by (intro performsI) (auto intro!: exI [of _ "[LimiterSection t key]"])
qed (simp_all add: performs_query performs_fetch performs_seed performs_trans [OF _ _])

subsection \<open>The shared state\<close>

definition torrents_ok :: "('s, 'w, 'l) shared \<Rightarrow> bool" where
  "torrents_ok s \<longleftrightarrow> engine_ok (sv_engine (sh_server s)) \<and> en_inUse (sv_engine (sh_server s)) = sy_reading (sh_torrents s)"

lemma section_do_torrents: "torrents_ok s \<Longrightarrow> torrents_ok (section_do E x s)"
proof (cases x)
  case (TorrentSection ev)
  assume "torrents_ok s"
  then show ?thesis
    using sys_exec_ok [of "torrents_of s" ev] TorrentSection by (simp add: torrents_ok_def torrents_of_def Let_def)
qed (auto simp: torrents_ok_def Let_def split: prod.split)

lemma section_do_race:
  assumes qp: "query_path (se_resolver E) contents cap linv N"
    and i: "query_path.race_inv (se_resolver E) contents cap linv N (race_of s, sh_trace s)"
    and n: "\<And>op. x = QuerySection op \<Longrightarrow> flight_names op \<subseteq> N"
  shows "query_path.race_inv (se_resolver E) contents cap linv N (race_of (section_do E x s), sh_trace (section_do E x s))"
proof (cases x)
  case (QuerySection op)
  obtain r a where st: "race_step (se_resolver E) op (race_of s) = (r, a)" by fastforce
  from query_path.race_step_inv [OF qp i n [OF QuerySection] st] show ?thesis
    by (cases r) (simp add: QuerySection st, simp add: race_of_def)
qed (use i in \<open>simp_all add: race_of_def Let_def\<close>)

text \<open>What only the world outside, the limiter or the UDP queue sees keeps the invariant of the queries.\<close>

lemma race_inv_same:
  assumes qp: "query_path R contents cap linv N" and i: "query_path.race_inv R contents cap linv N (race_of s, sh_trace s)"
    and "sh_trace s' = sh_trace s" "sh_flight s' = sh_flight s" "q_cache (sv_query (sh_server s')) = q_cache (sv_query (sh_server s))"
    "q_zk (sv_query (sh_server s')) = q_zk (sv_query (sh_server s))"
  shows "query_path.race_inv R contents cap linv N (race_of s', sh_trace s')"
  using i assms(3-6) unfolding query_path.race_inv_def [OF qp] by (simp add: race_of_def)

lemma set_server_simps [simp]:
  "rn_shared (set_server v s) = (rn_shared s)\<lparr>sh_server := v\<rparr>" "rn_main (set_server v s) = rn_main s" "rn_ctxDone (set_server v s) = rn_ctxDone s"
  "rn_errCh (set_server v s) = rn_errCh s" "rn_http (set_server v s) = rn_http s" "rn_watcher (set_server v s) = rn_watcher s"
  "rn_udp (set_server v s) = rn_udp s" "rn_conn (set_server v s) = rn_conn s" "rn_chainOpen (set_server v s) = rn_chainOpen s"
  "rn_btOpen (set_server v s) = rn_btOpen s" "rn_requests (set_server v s) = rn_requests s" "rn_inFlight (set_server v s) = rn_inFlight s"
  "rn_sent (set_server v s) = rn_sent s"
  by (simp_all add: set_server_def)

lemma change_world_simps [simp]:
  "rn_main (change_world w s) = rn_main s" "rn_ctxDone (change_world w s) = rn_ctxDone s"
  "rn_errCh (change_world w s) = rn_errCh s" "rn_http (change_world w s) = rn_http s" "rn_watcher (change_world w s) = rn_watcher s"
  "rn_udp (change_world w s) = rn_udp s" "rn_conn (change_world w s) = rn_conn s" "rn_chainOpen (change_world w s) = rn_chainOpen s"
  "rn_btOpen (change_world w s) = rn_btOpen s" "rn_requests (change_world w s) = rn_requests s" "rn_inFlight (change_world w s) = rn_inFlight s"
  "sh_trace (rn_shared (change_world w s)) = sh_trace (rn_shared s)" "sh_flight (rn_shared (change_world w s)) = sh_flight (rn_shared s)"
  "sh_torrents (rn_shared (change_world w s)) = sh_torrents (rn_shared s)" "sv_engine (rn_server (change_world w s)) = sv_engine (rn_server s)"
  "q_cache (sv_query (rn_server (change_world w s))) = q_cache (sv_query (rn_server s))"
  "q_zk (sv_query (rn_server (change_world w s))) = q_zk (sv_query (rn_server s))" "rn_world (change_world w s) = w"
  by (simp_all add: change_world_def set_world_def get_world_def)

lemma Run_return_simps [simp]:
  "rn_main (Run_return E D P r s) = Returned r" "rn_ctxDone (Run_return E D P r s) = rn_ctxDone s"
  "rn_errCh (Run_return E D P r s) = rn_errCh s" "rn_http (Run_return E D P r s) = rn_http s"
  "rn_watcher (Run_return E D P r s) = rn_watcher s" "rn_udp (Run_return E D P r s) = rn_udp s"
  "rn_conn (Run_return E D P r s) = (if rn_conn s = ConnNone then ConnNone else ConnClosed)" "\<not> rn_chainOpen (Run_return E D P r s)"
  "rn_btOpen (Run_return E D P r s) \<longleftrightarrow> rn_btOpen s \<and> \<not> se_bt E" "rn_requests (Run_return E D P r s) = rn_requests s"
  "rn_inFlight (Run_return E D P r s) = rn_inFlight s" "\<exists>w. rn_shared (Run_return E D P r s) = rn_shared (change_world w s)"
  by (auto simp: Run_return_def Let_def split: prod.split) (auto simp: change_world_def set_server_def)

lemma udp_receive_server:
  "sv_query (ul_server (udp_step E (UReceive t addr d) u)) = sv_query (ul_server u)"
  "sv_engine (ul_server (udp_step E (UReceive t addr d) u)) = sv_engine (ul_server u)"
  by (simp_all add: Let_def split: prod.split)

definition shared_ok ::
  "('s, 'w) resolver_env \<Rightarrow> ('s \<Rightarrow> cache_key \<rightharpoonup> resolve_result centry) \<Rightarrow> ('s \<Rightarrow> nat) \<Rightarrow> ('s \<Rightarrow> bool) \<Rightarrow> string set \<Rightarrow> ('s, 'w, 'l) shared \<Rightarrow> bool" where
  "shared_ok R contents cap linv N s \<longleftrightarrow> query_path.race_inv R contents cap linv N (race_of s, sh_trace s) \<and> torrents_ok s"

lemma shared_ok_same:
  assumes "query_path R contents cap linv N" "shared_ok R contents cap linv N s"
    and "sh_trace s' = sh_trace s" "sh_flight s' = sh_flight s" "q_cache (sv_query (sh_server s')) = q_cache (sv_query (sh_server s))"
    "q_zk (sv_query (sh_server s')) = q_zk (sv_query (sh_server s))" "sh_torrents s' = sh_torrents s" "sv_engine (sh_server s') = sv_engine (sh_server s)"
  shows "shared_ok R contents cap linv N s'"
  using assms race_inv_same [OF assms(1) _ assms(3-6)] by (simp add: shared_ok_def torrents_ok_def)

lemma shared_ok_section:
  assumes "query_path (se_resolver E) contents cap linv N" "shared_ok (se_resolver E) contents cap linv N s"
    and "\<And>op. x = QuerySection op \<Longrightarrow> flight_names op \<subseteq> N"
  shows "shared_ok (se_resolver E) contents cap linv N (section_do E x s)"
  using assms section_do_race [OF assms(1) _ assms(3)] section_do_torrents by (auto simp: shared_ok_def)

lemma run_step_shared:
  assumes qp: "query_path (se_resolver E) contents cap linv N" and n: "valid_names \<subseteq> N"
  shows "run_step E D P a s t \<Longrightarrow> shared_ok (se_resolver E) contents cap linv N (rn_shared s) \<Longrightarrow>
    shared_ok (se_resolver E) contents cap linv N (rn_shared t)"
proof (induction rule: run_step.induct)
  case (handler_acts s x)
  show ?case
  proof (simp, rule shared_ok_section [OF qp handler_acts(3)])
    show "flight_names op \<subseteq> N" if "x = QuerySection op" for op using handler_acts(2) that n by auto
  qed
next
  case (udp_receives s u t addr d)
  show ?case by (rule shared_ok_same [OF qp udp_receives(4)]) (simp_all add: udp_receives(3) udp_receive_server rn_loop_def del: udp_step.simps)
next
  case (watch_delivers s lst hd' stop k ks r rs itErr)
  show ?case using shared_ok_section [OF qp watch_delivers(2), of "QuerySection (REvent (to_record_event k r))"] by simp
next
  case (main_returns s)
  obtain w where "rn_shared (Run_return E D P None s) = rn_shared (change_world w s)" using Run_return_simps(12) by metis
  then show ?case using shared_ok_same [OF qp main_returns(2), of "rn_shared (change_world w s)"] by simp
next
  case (main_receives s err')
  obtain w where "rn_shared (Run_return E D P (if err' = ErrServerClosed then None else Some err') (s\<lparr>rn_errCh := None\<rparr>)) =
      rn_shared (change_world w (s\<lparr>rn_errCh := None\<rparr>))" using Run_return_simps(12) by metis
  then show ?case using shared_ok_same [OF qp main_receives(3), of "rn_shared (change_world w (s\<lparr>rn_errCh := None\<rparr>))"] by simp
next
  case (outside s w)
  then show ?case by (rule shared_ok_same [OF qp]) simp_all
next
  case (watch_starts s d' w head)
  show ?case by (rule shared_ok_same [OF qp watch_starts(4)]) simp_all
next
  case (watch_ticks s lst d' w head)
  show ?case by (rule shared_ok_same [OF qp watch_ticks(4)]) simp_all
next
  case (watch_filters s lst hd' stop k ks w found)
  show ?case by (rule shared_ok_same [OF qp watch_filters(3)]) simp_all
next
  case (main_shuts_down s)
  show ?case by (rule shared_ok_same [OF qp main_shuts_down(3)]) simp_all
qed simp_all

subsection \<open>The watcher\<close>

lemma run_steps_trans: "run_steps E D P A t u \<Longrightarrow> run_steps E D P A s t \<Longrightarrow> run_steps E D P A s u"
  by (induction rule: run_steps.induct) (auto intro: run_steps.intros)

lemma run_steps_one: "run_step E D P a s t \<Longrightarrow> a \<in> A \<Longrightarrow> run_steps E D P A s t"
  by (rule run_steps.run_more [OF run_steps.run_none])

lemma run_steps_first: "run_step E D P a s t \<Longrightarrow> a \<in> A \<Longrightarrow> run_steps E D P A t u \<Longrightarrow> run_steps E D P A s u"
  by (rule run_steps_trans [OF _ run_steps_one])

lemma run_steps_mono: "run_steps E D P A s t \<Longrightarrow> A \<subseteq> B \<Longrightarrow> run_steps E D P B s t"
  by (induction rule: run_steps.induct) (auto intro: run_steps.intros)

text \<open>What the watcher changes: the world, the cache, the record of events, and where it is itself.\<close>

definition watched ::
  "'w \<Rightarrow> 's ttl_cache \<Rightarrow> 'w race_trace \<Rightarrow> watch_phase \<Rightarrow> ('s, 'w, 'l) running \<Rightarrow> ('s, 'w, 'l) running" where
  "watched w c tr p s = s\<lparr>rn_shared := (rn_shared s)\<lparr>sh_server := (rn_server s)\<lparr>sv_query := (sv_query (rn_server s))\<lparr>q_cache := c, q_world := w\<rparr>\<rparr>,
     sh_trace := tr\<rparr>, rn_watcher := p\<rparr>"

lemma watched_simps [simp]:
  "rn_watcher (watched w c tr p s) = p" "rn_world (watched w c tr p s) = w" "q_cache (sv_query (rn_server (watched w c tr p s))) = c"
  "sh_trace (rn_shared (watched w c tr p s)) = tr" "rn_main (watched w c tr p s) = rn_main s" "rn_ctxDone (watched w c tr p s) = rn_ctxDone s"
  "rn_errCh (watched w c tr p s) = rn_errCh s" "rn_http (watched w c tr p s) = rn_http s"
  "rn_udp (watched w c tr p s) = rn_udp s" "rn_conn (watched w c tr p s) = rn_conn s" "rn_chainOpen (watched w c tr p s) = rn_chainOpen s"
  "rn_btOpen (watched w c tr p s) = rn_btOpen s" "rn_requests (watched w c tr p s) = rn_requests s" "rn_inFlight (watched w c tr p s) = rn_inFlight s"
  by (simp_all add: watched_def get_world_def)

lemma watched_again [simp]:
  "watched w c tr p (watched w' c' tr' p' s) = watched w c tr p s"
  "(watched w c tr p s)\<lparr>rn_watcher := p'\<rparr> = watched w c tr p' s"
  "change_world w' (watched w c tr p s) = watched w' c tr p s"
  by (simp_all add: watched_def change_world_def set_server_def set_world_def)

lemma watched_start: "s = watched (rn_world s) (q_cache (sv_query (rn_server s))) (sh_trace (rn_shared s)) (rn_watcher s) s"
  by (simp add: watched_def get_world_def)

lemma watched_event:
  "(watched w c tr p s)\<lparr>rn_shared := section_do E (QuerySection (REvent ev)) (rn_shared (watched w c tr p s)), rn_watcher := p'\<rparr> =
     watched w (HandleEvent (rv_cache (se_resolver E)) ev c) ((REvent ev, None) # tr) p' s"
  by (simp add: watched_def race_of_def)

abbreviation watch_steps where "watch_steps E D P \<equiv> run_steps E D P {AWatcher}"

lemma deliver_steps:
  "\<exists>tr'. watch_steps E D P (watched w c tr (WDelivering lst hd' stop k ks rs itErr) s)
     (watched w (fold (\<lambda>r. HandleEvent (rv_cache (se_resolver E)) (to_record_event k r)) rs c) tr'
        (case itErr of Some err \<Rightarrow> WPolling lst | None \<Rightarrow> WFiltering lst hd' stop ks) s)"
proof (induction rs arbitrary: c tr)
  case Nil
  let ?s = "watched w c tr (WDelivering lst hd' stop k ks [] itErr) s"
  show ?case
    using run_steps_one [OF run_step.watch_delivered [of ?s lst hd' stop k ks itErr E D P], of "{AWatcher}"] by auto
next
  case (Cons r rs)
  let ?s = "watched w c tr (WDelivering lst hd' stop k ks (r # rs) itErr) s"
  have st: "run_step E D P AWatcher ?s
      (watched w (HandleEvent (rv_cache (se_resolver E)) (to_record_event k r) c) ((REvent (to_record_event k r), None) # tr)
        (WDelivering lst hd' stop k ks rs itErr) s)"
    using run_step.watch_delivers [of ?s lst hd' stop k ks r rs itErr E D P] unfolding watched_event by simp
  obtain tr' where "watch_steps E D P (watched w (HandleEvent (rv_cache (se_resolver E)) (to_record_event k r) c) ((REvent (to_record_event k r), None) # tr)
        (WDelivering lst hd' stop k ks rs itErr) s)
     (watched w (fold (\<lambda>r. HandleEvent (rv_cache (se_resolver E)) (to_record_event k r)) rs (HandleEvent (rv_cache (se_resolver E)) (to_record_event k r) c)) tr'
        (case itErr of Some err \<Rightarrow> WPolling lst | None \<Rightarrow> WFiltering lst hd' stop ks) s)"
    using Cons by blast
  from run_steps_first [OF st _ this] show ?case by auto
qed

lemma filter_steps:
  assumes "collect_kinds (se_api E) (HandleEvent (rv_cache (se_resolver E))) (lst + 1) stop ks (w, c) = ((w', c'), r)"
  shows "\<exists>tr'. watch_steps E D P (watched w c tr (WFiltering lst hd' stop ks) s)
    (watched w' c' tr' (case r of Some err \<Rightarrow> WPolling lst | None \<Rightarrow> WScanning stop hd') s)"
  using assms
proof (induction ks arbitrary: w c tr)
  case Nil
  then have e: "w' = w" "c' = c" "r = None" by simp_all
  let ?s = "watched w c tr (WFiltering lst hd' stop []) s"
  show ?case
    using run_steps_one [OF run_step.watch_scanned [of ?s lst hd' stop E D P], of "{AWatcher}"] by (auto simp: e)
next
  case (Cons k ks)
  let ?s = "watched w c tr (WFiltering lst hd' stop (k # ks)) s"
  let ?h = "HandleEvent (rv_cache (se_resolver E))"
  obtain w1 found where f: "api_filter (se_api E) k (lst + 1) stop w = (w1, found)" by fastforce
  have st: "run_step E D P AWatcher ?s (watched w1 c tr
      (case found of Inl err \<Rightarrow> WPolling lst | Inr (events, itErr) \<Rightarrow> WDelivering lst hd' stop k ks events itErr) s)"
    using run_step.watch_filters [of ?s lst hd' stop k ks E w1 found D P] f by simp
  show ?case
  proof (cases found)
    case (Inl err)
    then have "w' = w1" "c' = c" "r \<noteq> None" using Cons.prems f by (auto simp: collect_kind_def)
    then show ?thesis using run_steps_one [OF st, of "{AWatcher}"] Inl by auto
  next
    case (Inr x)
    obtain events itErr where x: "x = (events, itErr)" by fastforce
    let ?c = "fold (\<lambda>r. ?h (to_record_event k r)) events c"
    obtain tr1 where d: "watch_steps E D P (watched w1 c tr (WDelivering lst hd' stop k ks events itErr) s)
      (watched w1 ?c tr1 (case itErr of Some err \<Rightarrow> WPolling lst | None \<Rightarrow> WFiltering lst hd' stop ks) s)"
      using deliver_steps [of E D P w1 c tr lst hd' stop k ks events itErr s] by blast
    have d1: "watch_steps E D P ?s (watched w1 ?c tr1 (case itErr of Some err \<Rightarrow> WPolling lst | None \<Rightarrow> WFiltering lst hd' stop ks) s)"
      by (rule run_steps_first [OF st _ ]) (use d Inr x in simp_all)
    show ?thesis
    proof (cases itErr)
      case (Some err)
      then have "w' = w1" "c' = ?c" "r \<noteq> None" using Cons.prems f Inr x by (auto simp: collect_kind_def)
      then show ?thesis using d1 Some by auto
    next
      case None
      then have "collect_kinds (se_api E) ?h (lst + 1) stop ks (w1, ?c) = ((w', c'), r)" using Cons.prems f Inr x by (simp add: collect_kind_def)
      from Cons.IH [OF this, of tr1] obtain tr' where "watch_steps E D P (watched w1 ?c tr1 (WFiltering lst hd' stop ks) s)
        (watched w' c' tr' (case r of Some err \<Rightarrow> WPolling lst | None \<Rightarrow> WScanning stop hd') s)" by blast
      from run_steps_trans [OF this] d1 None show ?thesis by auto
    qed
  qed
qed

lemma scan_steps:
  assumes "scan_windows (se_api E) (HandleEvent (rv_cache (se_resolver E))) hd' lst (w, c) = ((w', c'), lst')"
  shows "\<exists>tr'. watch_steps E D P (watched w c tr (WScanning lst hd') s) (watched w' c' tr' (WPolling lst') s)"
  using assms
proof (induction "unat hd' - unat lst" arbitrary: lst w c tr rule: less_induct)
  case less
  let ?h = "HandleEvent (rv_cache (se_resolver E))"
  let ?s = "watched w c tr (WScanning lst hd') s"
  note st = run_step.watch_window [of ?s lst hd' E D P, simplified]
  show ?case
  proof (cases "lst < hd'")
    case False
    then show ?thesis using run_steps_one [OF st, of "{AWatcher}"] less.prems by (auto simp: scan_windows.simps)
  next
    case True
    let ?stop = "window_end lst hd'"
    obtain w1 c1 r where co: "collect_kinds (se_api E) ?h (lst + 1) ?stop [EventRecordSet, EventRecordRemoved, EventTransferred, EventRegistered] (w, c) = ((w1, c1), r)"
      by (metis prod.exhaust)
    obtain tr1 where f: "watch_steps E D P (watched w c tr (WFiltering lst hd' ?stop [EventRecordSet, EventRecordRemoved, EventTransferred, EventRegistered]) s)
      (watched w1 c1 tr1 (case r of Some err \<Rightarrow> WPolling lst | None \<Rightarrow> WScanning ?stop hd') s)"
      using filter_steps [OF co] by blast
    have f1: "watch_steps E D P ?s (watched w1 c1 tr1 (case r of Some err \<Rightarrow> WPolling lst | None \<Rightarrow> WScanning ?stop hd') s)"
      by (rule run_steps_first [OF st]) (use f True in simp_all)
    show ?thesis
    proof (cases r)
      case (Some err)
      then show ?thesis using less.prems f1 True co by (auto simp: scan_windows.simps [of _ _ hd' lst] collectEvents_def Let_def)
    next
      case None
      then have "scan_windows (se_api E) ?h hd' ?stop (w1, c1) = ((w', c'), lst')"
        using less.prems True co by (simp add: scan_windows.simps [of _ _ hd' lst] collectEvents_def Let_def)
      moreover have "unat hd' - unat ?stop < unat hd' - unat lst"
        using window_end_bounds(1,2) [OF True] by (simp add: word_less_nat_alt word_le_nat_alt)
      ultimately obtain tr' where "watch_steps E D P (watched w1 c1 tr1 (WScanning ?stop hd') s) (watched w' c' tr' (WPolling lst') s)"
        using less.hyps by blast
      from run_steps_trans [OF this] f1 None show ?thesis by auto
    qed
  qed
qed

lemma run_api_simps [simp]:
  "api_ctxErr (run_api d api) w = (if d then Some ''context canceled'' else None)" "api_filter (run_api d api) = api_filter api"
  by (simp_all add: run_api_def)

lemma collect_kinds_run_api: "collect_kinds (run_api d api) h a b ks s = collect_kinds api h a b ks s"
  by (induction ks arbitrary: s) (simp_all add: collect_kind_def split: prod.split option.split)

lemma scan_windows_run_api: "scan_windows (run_api d api) h hd' lst s = scan_windows api h hd' lst s"
proof (induction api h hd' lst s rule: scan_windows.induct)
  case (1 api h hd' lst s)
  obtain s1 r where c: "collectEvents api h (lst + 1) (window_end lst hd') s = (s1, r)" by fastforce
  then have c': "collectEvents (run_api d api) h (lst + 1) (window_end lst hd') s = (s1, r)" by (simp only: collectEvents_def collect_kinds_run_api)
  show ?case
    using 1 [OF _ refl c [symmetric]] c c' by (simp add: scan_windows.simps [of _ _ hd' lst] Let_def split: option.split)
qed

text \<open>A round of the poll loop as Chain_Events has it, all at once, is one of the sequences of steps of the watcher.\<close>

lemma watch_tick_is_steps:
  assumes p: "rn_watcher s = WPolling lst" and d: "rn_ctxDone s \<longrightarrow> d'"
    and t: "watch_tick (run_api d' (se_api E)) (HandleEvent (rv_cache (se_resolver E))) lst (rn_world s, q_cache (sv_query (rn_server s))) = ((w', c'), lst', res)"
  shows "\<exists>tr. watch_steps E D P s (watched w' c' tr (case res of Some err \<Rightarrow> WEnded err | None \<Rightarrow> WPolling lst') (s\<lparr>rn_ctxDone := d'\<rparr>))"
proof -
  let ?c = "q_cache (sv_query (rn_server s))" let ?tr = "sh_trace (rn_shared s)" let ?s = "s\<lparr>rn_ctxDone := d'\<rparr>"
  obtain w1 head where h: "ChainHead (run_api d' (se_api E)) (rn_world s) = (w1, head)" by fastforce
  have "change_world w1 (s\<lparr>rn_ctxDone := d', rn_watcher := q\<rparr>) = watched w1 ?c ?tr q ?s" for q
    by (simp add: watched_def change_world_def set_server_def set_world_def)
  note st = run_step.watch_ticks [OF p d h, unfolded this, of D P]
  show ?thesis
  proof (cases head)
    case (Inl err)
    then have e: "w' = w1" "c' = ?c" "lst' = lst" "res = (if d' then Some ''context canceled'' else None)" using t h by (auto simp: watch_tick_def)
    show ?thesis
      by (rule exI [of _ ?tr]) (use run_steps_one [OF st, of "{AWatcher}"] Inl in \<open>cases d'; simp add: e\<close>)
  next
    case (Inr hd')
    then have sc: "scan_windows (se_api E) (HandleEvent (rv_cache (se_resolver E))) hd' lst (w1, ?c) = ((w', c'), lst')" "res = None"
      using t h by (auto simp: watch_tick_def scan_windows_run_api split: prod.splits)
    obtain tr where "watch_steps E D P (watched w1 ?c ?tr (WScanning lst hd') ?s) (watched w' c' tr (WPolling lst') ?s)"
      using scan_steps [OF sc(1)] by blast
    from run_steps_first [OF st _ ] this show ?thesis using Inr sc(2) by auto
  qed
qed

text \<open>Once the context is done the watcher can end, wherever it is.\<close>

lemma watcher_ends:
  assumes d: "rn_ctxDone s"
  shows "\<exists>w c tr err. watch_steps E D P s (watched w c tr (WEnded err) s)"
proof -
  let ?h = "HandleEvent (rv_cache (se_resolver E))"
  let ?ends = "\<lambda>p. \<forall>w c tr. \<exists>w' c' tr' err. watch_steps E D P (watched w c tr p s) (watched w' c' tr' (WEnded err) s)"
  have polling: "?ends (WPolling lst)" for lst
  proof (intro allI)
    fix w c tr
    have "run_step E D P AWatcher (watched w c tr (WPolling lst) s) (watched w c tr (WEnded ''context canceled'') s)"
      using run_step.watch_cancelled [of "watched w c tr (WPolling lst) s" lst E D P] d by simp
    then show "\<exists>w' c' tr' err. watch_steps E D P (watched w c tr (WPolling lst) s) (watched w' c' tr' (WEnded err) s)"
      using run_steps_one by blast
  qed
  have ended: "?ends (WEnded err)" for err using run_steps.run_none by blast
  have scanning: "?ends (WScanning lst hd')" for lst hd'
  proof (intro allI)
    fix w c tr
    obtain w' c' lst' where "scan_windows (se_api E) ?h hd' lst (w, c) = ((w', c'), lst')" by (metis prod.exhaust)
    from scan_steps [OF this] obtain tr' where "watch_steps E D P (watched w c tr (WScanning lst hd') s) (watched w' c' tr' (WPolling lst') s)" by blast
    with polling show "\<exists>w' c' tr' err. watch_steps E D P (watched w c tr (WScanning lst hd') s) (watched w' c' tr' (WEnded err) s)"
      using run_steps_trans by blast
  qed
  have filtering: "?ends (WFiltering lst hd' stop ks)" for lst hd' stop ks
  proof (intro allI)
    fix w c tr
    obtain w' c' r where "collect_kinds (se_api E) ?h (lst + 1) stop ks (w, c) = ((w', c'), r)" by (metis prod.exhaust)
    from filter_steps [OF this] obtain tr' where f: "watch_steps E D P (watched w c tr (WFiltering lst hd' stop ks) s)
      (watched w' c' tr' (case r of Some err \<Rightarrow> WPolling lst | None \<Rightarrow> WScanning stop hd') s)" by blast
    have "?ends (case r of Some err \<Rightarrow> WPolling lst | None \<Rightarrow> WScanning stop hd')" using polling scanning by (cases r) auto
    with f show "\<exists>w' c' tr' err. watch_steps E D P (watched w c tr (WFiltering lst hd' stop ks) s) (watched w' c' tr' (WEnded err) s)"
      using run_steps_trans by blast
  qed
  have delivering: "?ends (WDelivering lst hd' stop k ks rs itErr)" for lst hd' stop k ks rs itErr
  proof (intro allI)
    fix w c tr
    obtain c' tr' where f: "watch_steps E D P (watched w c tr (WDelivering lst hd' stop k ks rs itErr) s)
      (watched w c' tr' (case itErr of Some err \<Rightarrow> WPolling lst | None \<Rightarrow> WFiltering lst hd' stop ks) s)"
      using deliver_steps [of E D P w c tr lst hd' stop k ks rs itErr s] by blast
    have "?ends (case itErr of Some err \<Rightarrow> WPolling lst | None \<Rightarrow> WFiltering lst hd' stop ks)" using polling filtering by (cases itErr) auto
    with f show "\<exists>w' c' tr' err. watch_steps E D P (watched w c tr (WDelivering lst hd' stop k ks rs itErr) s) (watched w' c' tr' (WEnded err) s)"
      using run_steps_trans by blast
  qed
  have starting: "?ends WStarting"
  proof (intro allI)
    fix w c tr
    obtain w1 head where h: "ChainHead (run_api True (se_api E)) w = (w1, head)" by fastforce
    let ?p = "case head of Inl err \<Rightarrow> WEnded err | Inr lst \<Rightarrow> WPolling lst"
    let ?s = "watched w c tr WStarting s"
    have "?s\<lparr>rn_ctxDone := True, rn_watcher := q\<rparr> = watched w c tr q s" for q using d by (simp add: watched_def)
    then have st: "run_step E D P AWatcher ?s (watched w1 c tr ?p s)"
      using run_step.watch_starts [of ?s True E w1 head D P] h by simp
    have "?ends ?p" using polling ended by (cases head) auto
    with st show "\<exists>w' c' tr' err. watch_steps E D P ?s (watched w' c' tr' (WEnded err) s)" using run_steps_first by blast
  qed
  have "?ends (rn_watcher s)"
    using starting polling scanning filtering delivering ended by (cases "rn_watcher s") auto
  then show ?thesis using watched_start [of s] by metis
qed

subsection \<open>What is open and who still runs\<close>

text \<open>
  Until \<open>Run\<close> returns everything is open; afterwards everything is closed. The HTTP server reports that it was closed only when main
  has closed it, which it does only after the signal.
\<close>

definition resources_ok :: "('s, 'w, 'l) running \<Rightarrow> bool" where
  "resources_ok s \<longleftrightarrow>
     (case rn_main s of
        Returned r \<Rightarrow> \<not> rn_chainOpen s \<and> rn_conn s \<noteq> ConnOpen \<and> \<not> rn_btOpen s \<and> r \<noteq> Some ErrServerClosed \<and> (r = None \<longrightarrow> rn_ctxDone s)
      | _ \<Rightarrow> rn_chainOpen s \<and> rn_conn s \<noteq> ConnClosed \<and> rn_btOpen s)"

definition goroutines_ok :: "('s, 'w, 'l) running \<Rightarrow> bool" where
  "goroutines_ok s \<longleftrightarrow>
     (rn_main s \<noteq> Selecting \<longrightarrow> rn_http s \<noteq> HttpServing) \<and> (\<forall>e. rn_errCh s = Some e \<longrightarrow> rn_http s = HttpReturned e) \<and>
     (rn_main s = Selecting \<longrightarrow> rn_http s \<noteq> HttpClosing \<and> rn_errCh s \<noteq> Some ErrServerClosed) \<and>
     (rn_main s = ShuttingDown \<longrightarrow> rn_ctxDone s) \<and> (rn_udp s \<longrightarrow> rn_conn s \<noteq> ConnNone) \<and> length (rn_inFlight s) \<le> udpMaxInFlight"

lemma run_step_ok:
  "run_step E D P a s t \<Longrightarrow> se_bt E \<Longrightarrow> resources_ok s \<Longrightarrow> goroutines_ok s \<Longrightarrow> resources_ok t \<and> goroutines_ok t"
proof (induction rule: run_step.induct)
  case (udp_receives s u t addr d)
  then show ?case
    using udp_step_accounts [of "rn_loop s" E "UReceive t addr d"]
    by (simp add: resources_ok_def goroutines_ok_def rn_loop_def del: udp_step.simps split: main_phase.splits)
qed (auto simp: resources_ok_def goroutines_ok_def split: main_phase.splits)

lemma Run_start_ok: "se_bt E \<Longrightarrow> resources_ok (Run_start E P v) \<and> goroutines_ok (Run_start E P v)"
  by (simp add: Run_start_def resources_ok_def goroutines_ok_def listenUDP_def Let_def split: prod.split option.split)

lemma run_steps_ok:
  "run_steps E D P A s t \<Longrightarrow> se_bt E \<Longrightarrow> resources_ok s \<and> goroutines_ok s \<Longrightarrow> resources_ok t \<and> goroutines_ok t"
proof (induction rule: run_steps.induct)
  case (run_more s t a u)
  then show ?case using run_step_ok [OF run_more.hyps(2)] by blast
qed simp

lemma run_steps_shared:
  assumes qp: "query_path (se_resolver E) contents cap linv N" and n: "valid_names \<subseteq> N"
  shows "run_steps E D P A s t \<Longrightarrow> shared_ok (se_resolver E) contents cap linv N (rn_shared s) \<Longrightarrow>
    shared_ok (se_resolver E) contents cap linv N (rn_shared t)"
proof (induction rule: run_steps.induct)
  case (run_more s t a u)
  then show ?case using run_step_shared [OF qp n run_more.hyps(2)] by blast
qed simp

lemma main_boot_Inr:
  assumes "main_boot U F e E0 D now w = (w', Inr (E, v))"
  obtains c where "cache_New (rv_cache (se_resolver E)) (CacheSize (se_cfg E)) = Inr c"
    "sv_query v = \<lparr>q_cache = c, q_zk = zk_initial, q_world = w'\<rparr>" "engine_ok (sv_engine v)" "en_inUse (sv_engine v) = (\<lambda>_. 0)" "se_bt E"
proof -
  obtain cfg where "server_New (E0\<lparr>se_cfg := cfg\<rparr>) D now w = (w', Inr (E, v))"
    using assms by (auto simp: main_boot_def split: sum.splits prod.splits)
  then show thesis by (rule server_New_Inr) (use that in auto)
qed

lemma Run_start_shared:
  assumes qp: "query_path (se_resolver E) contents cap linv N" and "main_boot U F e E0 D now w = (w', Inr (E, v))"
  shows "shared_ok (se_resolver E) contents cap linv N (rn_shared (Run_start E P v))"
proof (rule main_boot_Inr [OF assms(2)])
  fix c assume c: "cache_New (rv_cache (se_resolver E)) (CacheSize (se_cfg E)) = Inr c" "sv_query v = \<lparr>q_cache = c, q_zk = zk_initial, q_world = w'\<rparr>"
    "engine_ok (sv_engine v)" "en_inUse (sv_engine v) = (\<lambda>_. 0)"
  obtain w1 k where l: "listenUDP E P (get_world v) = (w1, k)" by fastforce
  have "race_of (rn_shared (Run_start E P v)) = race_start c w1" "sh_trace (rn_shared (Run_start E P v)) = []"
    "torrents_ok (rn_shared (Run_start E P v))"
    using c by (simp_all add: Run_start_def l race_of_def race_start_def set_world_def torrents_ok_def sys_initial_def)
  then show ?thesis using query_path.race_start_inv [OF qp c(1), of w1] by (simp add: shared_ok_def)
qed

subsection \<open>Coming to rest\<close>

lemma main_returns_after_signal:
  assumes ok: "goroutines_ok s" and d: "rn_ctxDone s"
  obtains t r where "run_steps E D P {AMain} s t" "rn_main t = Returned r" "r = None \<or> rn_main s = Returned r" "rn_ctxDone t"
    "rn_http t = (if rn_http s = HttpServing then HttpClosing else rn_http s)" "rn_requests t = rn_requests s" "rn_inFlight t = rn_inFlight s"
proof (cases "rn_main s")
  case Selecting
  define t1 where "t1 = change_world (http_Shutdown P (rn_world s))
    (s\<lparr>rn_main := ShuttingDown, rn_http := (if rn_http s = HttpServing then HttpClosing else rn_http s)\<rparr>)"
  have 1: "run_step E D P AMain s t1" unfolding t1_def by (rule run_step.main_shuts_down [OF Selecting d])
  have m: "rn_main t1 = ShuttingDown" by (simp add: t1_def)
  show thesis
    by (rule that [of _ None, OF run_steps_first [OF 1 _ run_steps_one [OF run_step.main_returns [OF m]]]]) (simp_all add: t1_def d)
next
  case ShuttingDown
  show thesis
    by (rule that [of _ None, OF run_steps_one [OF run_step.main_returns [OF ShuttingDown]]]) (use ok d ShuttingDown in \<open>simp_all add: goroutines_ok_def\<close>)
next
  case (Returned r)
  show thesis by (rule that [OF run_steps.run_none Returned]) (use ok d Returned in \<open>simp_all add: goroutines_ok_def\<close>)
qed

lemma http_ends:
  assumes "goroutines_ok s" "rn_main s = Returned r"
  obtains t e where "run_steps E D P {AHttp} s t" "rn_http t = HttpReturned e" "e = ErrServerClosed \<or> rn_http s = HttpReturned e"
    "rn_main t = rn_main s" "rn_ctxDone t = rn_ctxDone s" "rn_requests t = rn_requests s" "rn_inFlight t = rn_inFlight s"
proof (cases "rn_http s")
  case HttpClosing
  then have e: "rn_errCh s = None" using assms(1) by (auto simp: goroutines_ok_def)
  show thesis by (rule that [of _ ErrServerClosed, OF run_steps_one [OF run_step.http_closed [OF HttpClosing e]]]) simp_all
next
  case (HttpReturned e)
  show thesis by (rule that [OF run_steps.run_none HttpReturned]) (simp_all add: HttpReturned)
qed (use assms in \<open>simp add: goroutines_ok_def\<close>)

lemma udp_ends:
  assumes "goroutines_ok s" "resources_ok s" "rn_main s = Returned r"
  obtains t where "run_steps E D P {AUdp} s t" "\<not> rn_udp t"
    "rn_http t = rn_http s" "rn_main t = rn_main s" "rn_ctxDone t = rn_ctxDone s" "rn_requests t = rn_requests s" "rn_inFlight t = rn_inFlight s"
proof (cases "rn_udp s")
  case True
  then have c: "rn_conn s = ConnClosed" using assms by (cases "rn_conn s") (simp_all add: goroutines_ok_def resources_ok_def)
  show thesis by (rule that [OF run_steps_one [OF run_step.udp_closed [OF True c]]]) simp_all
next
  case False
  show thesis by (rule that [OF run_steps.run_none False]) simp_all
qed

text \<open>After the signal main, the HTTP server, the UDP listener and the watcher come to an end by their own steps alone.\<close>

lemma comes_to_rest:
  assumes bt: "se_bt E" and ok: "resources_ok s \<and> goroutines_ok s" and d: "rn_ctxDone s"
  shows "\<exists>t r err e. run_steps E D P {AMain, AHttp, AUdp, AWatcher} s t \<and> rn_main t = Returned r \<and> (r = None \<or> rn_main s = Returned r) \<and>
    rn_http t = HttpReturned e \<and> (e = ErrServerClosed \<or> rn_http s = HttpReturned e) \<and> \<not> rn_udp t \<and> rn_watcher t = WEnded err \<and>
    rn_requests t = rn_requests s \<and> rn_inFlight t = rn_inFlight s \<and> resources_ok t"
proof -
  let ?A = "{AMain, AHttp, AUdp, AWatcher}"
  obtain t1 r where 1: "run_steps E D P {AMain} s t1" "rn_main t1 = Returned r" "r = None \<or> rn_main s = Returned r" "rn_ctxDone t1"
    "rn_http t1 = (if rn_http s = HttpServing then HttpClosing else rn_http s)" "rn_requests t1 = rn_requests s" "rn_inFlight t1 = rn_inFlight s"
    by (rule main_returns_after_signal [of s E D P]) (use ok d in auto)
  have ok1: "resources_ok t1 \<and> goroutines_ok t1" by (rule run_steps_ok [OF 1(1) bt ok])
  obtain t2 e where 2: "run_steps E D P {AHttp} t1 t2" "rn_http t2 = HttpReturned e" "e = ErrServerClosed \<or> rn_http t1 = HttpReturned e"
    "rn_main t2 = rn_main t1" "rn_ctxDone t2 = rn_ctxDone t1" "rn_requests t2 = rn_requests t1" "rn_inFlight t2 = rn_inFlight t1"
    by (rule http_ends [of t1 r E D P]) (use ok1 1(2) in auto)
  have ok2: "resources_ok t2 \<and> goroutines_ok t2" by (rule run_steps_ok [OF 2(1) bt ok1])
  obtain t3 where 3: "run_steps E D P {AUdp} t2 t3" "\<not> rn_udp t3"
    "rn_http t3 = rn_http t2" "rn_main t3 = rn_main t2" "rn_ctxDone t3 = rn_ctxDone t2" "rn_requests t3 = rn_requests t2" "rn_inFlight t3 = rn_inFlight t2"
    by (rule udp_ends [of t2 r E D P]) (use ok2 1(2) 2(4) in auto)
  have ok3: "resources_ok t3 \<and> goroutines_ok t3" by (rule run_steps_ok [OF 3(1) bt ok2])
  have "rn_ctxDone t3" using 1(4) 2(5) 3(5) by simp
  then obtain w c tr err where 4: "watch_steps E D P t3 (watched w c tr (WEnded err) t3)" using watcher_ends by blast
  have ok4: "resources_ok (watched w c tr (WEnded err) t3)" using run_steps_ok [OF 4 bt ok3] by blast
  have "run_steps E D P ?A s (watched w c tr (WEnded err) t3)"
    by (rule run_steps_trans [OF run_steps_mono [OF 4] run_steps_trans [OF run_steps_mono [OF 3(1)]
          run_steps_trans [OF run_steps_mono [OF 2(1)] run_steps_mono [OF 1(1)]]]]) auto
  moreover have "e = ErrServerClosed \<or> rn_http s = HttpReturned e" using 1(5) 2(3) by (auto split: if_splits)
  ultimately show ?thesis
    using 1 2 3 ok4 by (intro exI [of _ "watched w c tr (WEnded err) t3"] exI [of _ r] exI [of _ err] exI [of _ e]) simp
qed

subsection \<open>The exit status\<close>

text \<open>The process ends with status 0 only if it was started, received the signal and shut down.\<close>

lemma status_zero:
  assumes "resolver_main U F e E0 D P now w 0"
  obtains E v s w' where "main_boot U F e E0 D now w = (w', Inr (E, v))" "run_steps E D P UNIV (Run_start E P v) s"
    "rn_main s = Returned None" "rn_ctxDone s"
  using assms
proof (cases rule: resolver_main.cases)
  case (run_ends w' E v s r)
  then have r: "r = None" by (simp add: exit_status_def split: option.splits)
  have bt: "se_bt E" by (rule main_boot_Inr [OF run_ends(2)])
  have "resources_ok s" using run_steps_ok [OF run_ends(3) bt Run_start_ok [OF bt]] by blast
  then have "rn_ctxDone s" using run_ends(4) by (simp add: resources_ok_def r)
  with run_ends r show thesis using that by blast
qed simp

section \<open>Properties\<close>


text \<open>A resolver started with an empty environment on an empty disk.\<close>

definition plain_run :: "'w run_lib" where
  "plain_run = \<lparr>net_ListenPacket = (\<lambda>_ w. (w, None)), conn_Close = id, http_Shutdown = id, bt_Close = id\<rparr>"

lemma sample_main_boot:
  "\<exists>E v. main_boot ascii_only no_files Map.empty sample_server_env sample_dial 0 ([], 0) = (([], 0), Inr (E, v)) \<and> se_resolver E = sample_resolver"
proof -
  have e: "loadDotEnv no_files Map.empty = Map.empty" by (simp add: no_files_def loadDotEnv_def)
  have i: "getEnvInt Map.empty k d = Inr d" for k d by (simp add: getEnvInt_def Getenv_def)
  obtain cfg where c: "snd (FromEnv ascii_only no_files Map.empty) = Inr cfg" "CacheSize cfg = 4096"
    by (simp add: FromEnv_def Let_def getEnvPort_def e i)
  let ?E = "sample_server_env\<lparr>se_cfg := cfg\<rparr>"
  have "LoadOrCreateIdentity (se_crypto ?E) (se_os ?E) p ([], 0) = (([], 0), Inr (replicate 32 9))" for p
    by (simp add: LoadOrCreateIdentity_def sample_server_env_def se_crypto_def sample_resolver_def list_resolver_def
        toy_crypto_def SeedSize_def Let_def)
  moreover have "torrent_New sample_dial (se_os ?E) d p w = (w, Inr engine_New)" for d p w
    by (simp add: torrent_New_def sample_dial_def sample_server_env_def)
  moreover obtain ca where "cache_New (rv_cache (se_resolver ?E)) 4096 = Inr ca"
    by (simp add: sample_server_env_def sample_resolver_def list_resolver_def cache_New_def list_env_def list_lru_def ll_New_def)
  moreover have "autoSeedUploads (?E\<lparr>se_identity := i, se_startTime := t, se_bt := True, se_resource := True\<rparr>) ew = ew" for i t ew
    by (simp add: autoSeedUploads_def sample_server_env_def)
  ultimately show ?thesis using c by (simp add: main_boot_def server_New_def Let_def sample_server_env_def)
qed

text \<open>The run in which the listener fails at once, for example because the port is taken.\<close>

lemma Run_start_simps [simp]:
  "rn_http (Run_start E P v) = HttpServing" "rn_errCh (Run_start E P v) = None" "rn_main (Run_start E P v) = Selecting"
  "\<not> rn_ctxDone (Run_start E P v)" "rn_watcher (Run_start E P v) = WStarting"
  by (simp_all add: Run_start_def Let_def split: prod.split)

lemma listener_fails:
  assumes "rn_http s = HttpServing" "rn_errCh s = None" "rn_main s = Selecting"
  shows "\<exists>t. run_steps E D P UNIV s t \<and> rn_main t = Returned (Some (ServeFailed ''address already in use'')) \<and>
     rn_ctxDone t = rn_ctxDone s \<and> rn_watcher t = rn_watcher s \<and> \<not> rn_chainOpen t"
proof -
  let ?e = "ServeFailed ''address already in use''"
  let ?t = "s\<lparr>rn_http := HttpReturned ?e, rn_errCh := Some ?e\<rparr>"
  let ?u = "Run_return E D P (Some ?e) (?t\<lparr>rn_errCh := None\<rparr>)"
  have "run_step E D P AFault s ?t" by (rule run_step.http_fails [OF assms(1,2)])
  moreover have "run_step E D P AMain ?t ?u" using run_step.main_receives [of ?t ?e E D P] assms by simp
  ultimately have "run_steps E D P UNIV s ?u" using run_steps_first [OF _ _ run_steps_one] by blast
  then show ?thesis by (intro exI [of _ ?u]) simp
qed


text \<open>
  C30: Shutdown completes. Once the process has received the signal, whatever the goroutines are doing, main, the HTTP server, the UDP listener and the
  watcher can come to an end by their own steps alone, without waiting for a request, a packet or a fault: \<open>Run\<close> returns, and without an
  error if it had not returned before; the HTTP server ends because it was shut down, if it had not failed before; the UDP listener ends
  because its socket was closed; the watcher ends; client, socket and engine are closed. Nothing is said of requests under way, which may
  outlive \<open>Run\<close>.
\<close>

theorem shutdown_completes:
  assumes "main_boot U F e E0 D now w = (w', Inr (E, v))" and "run_steps E D P UNIV (Run_start E P v) s" and "rn_ctxDone s"
  shows "\<exists>t r err e'. run_steps E D P {AMain, AHttp, AUdp, AWatcher} s t \<and> rn_main t = Returned r \<and> (r = None \<or> rn_main s = Returned r) \<and>
    rn_http t = HttpReturned e' \<and> (e' = ErrServerClosed \<or> rn_http s = HttpReturned e') \<and> \<not> rn_udp t \<and> rn_watcher t = WEnded err \<and>
    rn_requests t = rn_requests s \<and> rn_inFlight t = rn_inFlight s \<and> \<not> rn_chainOpen t \<and> rn_conn t \<noteq> ConnOpen \<and> \<not> rn_btOpen t"
proof -
  have bt: "se_bt E" by (rule main_boot_Inr [OF assms(1)])
  have ok: "resources_ok s \<and> goroutines_ok s" by (rule run_steps_ok [OF assms(2) bt Run_start_ok [OF bt]])
  from comes_to_rest [OF bt ok assms(3), of D P] show ?thesis by (force simp: resources_ok_def)
qed

theorem shutdown_completes_witness:
  "\<exists>E v s t. main_boot ascii_only no_files Map.empty sample_server_env sample_dial 0 ([], 0) = (([], 0), Inr (E, v)) \<and>
     run_steps E sample_dial plain_run UNIV (Run_start E plain_run v) s \<and> rn_udp s \<and> rn_main s = Selecting \<and>
     run_steps E sample_dial plain_run {AMain, AHttp, AUdp, AWatcher} s t \<and> \<not> rn_udp t \<and> rn_main t = Returned None \<and>
     rn_http t = HttpReturned ErrServerClosed"
proof -
  obtain E v where b: "main_boot ascii_only no_files Map.empty sample_server_env sample_dial 0 ([], 0) = (([], 0), Inr (E, v))"
    using sample_main_boot by blast
  define s where "s = (Run_start E plain_run v)\<lparr>rn_ctxDone := True\<rparr>"
  have s: "run_steps E sample_dial plain_run UNIV (Run_start E plain_run v) s"
    unfolding s_def by (rule run_steps_one [OF run_step.signal UNIV_I])
  have "rn_ctxDone s" "rn_udp s" "rn_main s = Selecting" "rn_http s = HttpServing"
    by (simp_all add: s_def Run_start_def listenUDP_def plain_run_def Let_def)
  with shutdown_completes [OF b s] b s show ?thesis by fastforce
qed



text \<open>
  Closing the chain client does not end the watcher. Once the watcher polls, it goes on for ever as long as the process gets no signal: also after the
  HTTP server has failed and \<open>Run\<close> has closed the client and returned, and whatever the calls on the closed client return.
\<close>

definition watching :: "watch_phase \<Rightarrow> bool" where
  "watching p \<longleftrightarrow> (case p of WStarting \<Rightarrow> False | WEnded err \<Rightarrow> False | _ \<Rightarrow> True)"

lemma watcher_stays:
  "run_step E D P a s t \<Longrightarrow> watching (rn_watcher s) \<Longrightarrow> \<not> rn_ctxDone t \<Longrightarrow> watching (rn_watcher t) \<and> \<not> rn_ctxDone s"
  by (induction rule: run_step.induct) (auto simp: watching_def split: sum.splits option.splits if_splits prod.splits)

theorem watcher_outlives_failed_server:
  assumes "run_steps E D P A s t" and "watching (rn_watcher s)" and "\<not> rn_ctxDone t"
  shows "watching (rn_watcher t)"
  using assms
proof (induction rule: run_steps.induct)
  case (run_more s t a u)
  have "\<not> rn_ctxDone t" using run_more.hyps(2) run_more.prems(2) by (cases rule: run_step.cases) auto
  then have "watching (rn_watcher t)" using run_more.IH run_more.prems(1) by blast
  from watcher_stays [OF run_more.hyps(2) this run_more.prems(2)] show ?case by blast
qed blast

end
