(* ===== verification/Command_Line.thy ===== *)
theory Command_Line
  imports Channel_Cli
begin

text \<open>
  The command lines of the tools: the dispatch of cmd/ddns/main.go on the subcommand, the flags of every subcommand with their defaults,
  their parsing by package \<open>flag\<close> after \<open>reorder\<close> has moved them to the front, and the exit codes; likewise the flags of ddns-lookup and
  ddns-fetch. The commands themselves are those of Owner_Cli, Channel_Cli and Client_Tools.

  The parsing of numbers and durations (\<open>strconv\<close>, \<open>time\<close>) and the floating-point \<open>Duration.Seconds\<close> are the record \<open>flag_lib\<close>.
\<close>

section \<open>Package flag\<close>

record flag_lib =
  ParseUint :: "string \<Rightarrow> 64 word option"
  ParseInt :: "string \<Rightarrow> int option"
  ParseDuration :: "string \<Rightarrow> int option"
  DurationSeconds :: "int \<Rightarrow> int"

datatype flag_value =
    VString string
  | VUint "64 word"
  | VInt int
  | VBool bool
  | VDuration int
  | VMulti "string list"

type_synonym flag_set = "string \<Rightarrow> flag_value option"

datatype flag_error =
    FlagHelp
  | FlagBadSyntax string
  | FlagUndefined string
  | FlagNeedsArg string
  | FlagInvalid string string

definition ParseBool :: "string \<Rightarrow> bool option" where
  "ParseBool s =
     (if s \<in> set [''1'', ''t'', ''T'', ''TRUE'', ''true'', ''True''] then Some True
      else if s \<in> set [''0'', ''f'', ''F'', ''FALSE'', ''false'', ''False''] then Some False
      else None)"

text \<open>\<open>Value.Set\<close>; the repeatable flag is the \<open>multiFlag\<close> of ddns-fetch.\<close>

definition flag_Set :: "flag_lib \<Rightarrow> flag_value \<Rightarrow> string \<Rightarrow> flag_value option" where
  "flag_Set F v s =
     (case v of
        VString _ \<Rightarrow> Some (VString s)
      | VUint _ \<Rightarrow> map_option VUint (ParseUint F s)
      | VInt _ \<Rightarrow> map_option VInt (ParseInt F s)
      | VBool _ \<Rightarrow> map_option VBool (ParseBool s)
      | VDuration _ \<Rightarrow> map_option VDuration (ParseDuration F s)
      | VMulti vs \<Rightarrow> Some (VMulti (vs @ [s])))"

definition is_bool_flag :: "flag_value \<Rightarrow> bool" where
  "is_bool_flag v = (case v of VBool _ \<Rightarrow> True | _ \<Rightarrow> False)"

definition set_flag :: "flag_lib \<Rightarrow> string \<Rightarrow> string \<Rightarrow> flag_set \<Rightarrow> flag_error + flag_set" where
  "set_flag F n s fs =
     (case fs n of
        None \<Rightarrow> Inl (if n = ''help'' \<or> n = ''h'' then FlagHelp else FlagUndefined n)
      | Some v \<Rightarrow> (case flag_Set F v s of None \<Rightarrow> Inl (FlagInvalid n s) | Some v \<Rightarrow> Inr (fs(n \<mapsto> v))))"

text \<open>\<open>FlagSet.Parse\<close>: flags up to the first argument that is none.\<close>

fun flag_Parse :: "flag_lib \<Rightarrow> flag_set \<Rightarrow> string list \<Rightarrow> flag_error + flag_set \<times> string list" where
  "flag_Parse F fs [] = Inr (fs, [])"
| "flag_Parse F fs (s # as) =
     (if length s < 2 \<or> hd s \<noteq> CHR ''-'' then Inr (fs, s # as)
      else if s = ''--'' then Inr (fs, as)
      else
        (let name = (if s ! 1 = CHR ''-'' then drop 2 s else drop 1 s)
         in if name = [] \<or> hd name = CHR ''-'' \<or> hd name = CHR ''='' then Inl (FlagBadSyntax s)
            else
              (case cut_at CHR ''='' name of
                 Some (n, v) \<Rightarrow> (case set_flag F n v fs of Inl e \<Rightarrow> Inl e | Inr fs \<Rightarrow> flag_Parse F fs as)
               | None \<Rightarrow>
                   (case fs name of
                      None \<Rightarrow> Inl (if name = ''help'' \<or> name = ''h'' then FlagHelp else FlagUndefined name)
                    | Some v \<Rightarrow>
                        if is_bool_flag v
                        then (case set_flag F name ''true'' fs of Inl e \<Rightarrow> Inl e | Inr fs \<Rightarrow> flag_Parse F fs as)
                        else (case as of
                                [] \<Rightarrow> Inl (FlagNeedsArg name)
                              | x # as \<Rightarrow> (case set_flag F name x fs of Inl e \<Rightarrow> Inl e | Inr fs \<Rightarrow> flag_Parse F fs as))))))"

definition flag_string :: "flag_set \<Rightarrow> string \<Rightarrow> string" where
  "flag_string fs n = (case fs n of Some (VString s) \<Rightarrow> s | _ \<Rightarrow> [])"

definition flag_uint :: "flag_set \<Rightarrow> string \<Rightarrow> 64 word" where
  "flag_uint fs n = (case fs n of Some (VUint u) \<Rightarrow> u | _ \<Rightarrow> 0)"

definition flag_int :: "flag_set \<Rightarrow> string \<Rightarrow> int" where
  "flag_int fs n = (case fs n of Some (VInt i) \<Rightarrow> i | _ \<Rightarrow> 0)"

definition flag_bool :: "flag_set \<Rightarrow> string \<Rightarrow> bool" where
  "flag_bool fs n = (case fs n of Some (VBool b) \<Rightarrow> b | _ \<Rightarrow> False)"

definition flag_duration :: "flag_set \<Rightarrow> string \<Rightarrow> int" where
  "flag_duration fs n = (case fs n of Some (VDuration d) \<Rightarrow> d | _ \<Rightarrow> 0)"

definition flag_multi :: "flag_set \<Rightarrow> string \<Rightarrow> string list" where
  "flag_multi fs n = (case fs n of Some (VMulti vs) \<Rightarrow> vs | _ \<Rightarrow> [])"

section \<open>The command ddns\<close>

text \<open>Exits of the process, with their codes, and what a command that succeeds has printed last.\<close>

datatype ddns_exit = CommandExit cli_exit | UsageExit | FlagExit flag_error

definition exit_code :: "ddns_exit \<Rightarrow> nat" where
  "exit_code e =
     (case e of
        CommandExit (MissingArg _) \<Rightarrow> 2
      | CommandExit (CliFatal _) \<Rightarrow> 1
      | CommandExit CliPanic \<Rightarrow> 2
      | UsageExit \<Rightarrow> 2
      | FlagExit FlagHelp \<Rightarrow> 0
      | FlagExit _ \<Rightarrow> 2)"

datatype ddns_output =
    Done
  | UsageShown
  | SeedingUntilInterrupted
  | SeededFile string string
  | ResolverList "(string \<times> string \<times> address) list"
  | ChannelOpenedWith hash32
  | VoucherPrinted string

type_synonym 'w ddns_program = "'w cli \<Rightarrow> 'w cli \<times> (ddns_exit + ddns_output)"

definition with_flags ::
  "flag_lib \<Rightarrow> string list \<Rightarrow> flag_set \<Rightarrow> string list \<Rightarrow> (flag_set \<Rightarrow> string list \<Rightarrow> ('w, ddns_output) command) \<Rightarrow> 'w ddns_program" where
  "with_flags F bools fs args k s =
     (case flag_Parse F fs (reorder bools args) of
        Inl e \<Rightarrow> (s, Inl (FlagExit e))
      | Inr (fs, pos) \<Rightarrow> (case k fs pos s of (s, Inl e) \<Rightarrow> (s, Inl (CommandExit e)) | (s, Inr x) \<Rightarrow> (s, Inr x)))"

definition cdone :: "('w, unit) command \<Rightarrow> ('w, ddns_output) command" where
  "cdone m = cbind m (\<lambda>_. creturn Done)"

definition addCommon :: "env \<Rightarrow> flag_set" where
  "addCommon e = [''rpc'' \<mapsto> VString (envOr e ''RPC_URL'' ''http://127.0.0.1:8545''), ''key'' \<mapsto> VString [],
     ''deployments'' \<mapsto> VString (envOr e ''DDNS_DEPLOYMENTS'' ''contracts/deployments/localhost.json''),
     ''namespace'' \<mapsto> VString [], ''registry'' \<mapsto> VString []]"

definition common_of :: "flag_set \<Rightarrow> commonOpts" where
  "common_of fs = \<lparr>co_rpc = flag_string fs ''rpc'', co_key = flag_string fs ''key'', co_deployments = flag_string fs ''deployments'',
     co_namespace = flag_string fs ''namespace'', co_registry = flag_string fs ''registry''\<rparr>"

abbreviation ol_env :: "'w owner_lib \<Rightarrow> env" where "ol_env L \<equiv> cl_env (ol_client L)"

text \<open>One definition per subcommand: its flags, then the command.\<close>

definition main_register :: "flag_lib \<Rightarrow> 'w owner_lib \<Rightarrow> string list \<Rightarrow> 'w ddns_program" where
  "main_register F L args = with_flags F [] (addCommon (ol_env L)) args (\<lambda>fs pos. cdone (cmdRegister L (common_of fs) pos))"

definition main_set :: "flag_lib \<Rightarrow> 'w owner_lib \<Rightarrow> string list \<Rightarrow> 'w ddns_program" where
  "main_set F L args =
     with_flags F [] (addCommon (ol_env L) ++ [''selector'' \<mapsto> VString [], ''ttl'' \<mapsto> VUint 3600]) args (\<lambda>fs pos.
       cdone (cmdSet L (common_of fs) (flag_string fs ''selector'') (flag_uint fs ''ttl'') pos))"

definition main_remove :: "flag_lib \<Rightarrow> 'w owner_lib \<Rightarrow> string list \<Rightarrow> 'w ddns_program" where
  "main_remove F L args =
     with_flags F [] (addCommon (ol_env L) ++ [''selector'' \<mapsto> VString []]) args (\<lambda>fs pos.
       cdone (cmdRemove L (common_of fs) (flag_string fs ''selector'') pos))"

definition main_transfer :: "flag_lib \<Rightarrow> 'w owner_lib \<Rightarrow> string list \<Rightarrow> 'w ddns_program" where
  "main_transfer F L args =
     with_flags F [] (addCommon (ol_env L) ++ [''pubkey'' \<mapsto> VString []]) args (\<lambda>fs pos.
       cdone (cmdTransfer L (common_of fs) (flag_string fs ''pubkey'') pos))"

definition main_renew :: "flag_lib \<Rightarrow> 'w owner_lib \<Rightarrow> string list \<Rightarrow> 'w ddns_program" where
  "main_renew F L args = with_flags F [] (addCommon (ol_env L)) args (\<lambda>fs pos. cdone (cmdRenew L (common_of fs) pos))"

definition main_declare :: "flag_lib \<Rightarrow> 'w owner_lib \<Rightarrow> string list \<Rightarrow> 'w ddns_program" where
  "main_declare F L args =
     with_flags F [] (addCommon (ol_env L) ++ [''mandatory'' \<mapsto> VString [], ''optional'' \<mapsto> VString []]) args (\<lambda>fs pos.
       cdone (cmdDeclareType L (common_of fs) (flag_string fs ''mandatory'') (flag_string fs ''optional'') pos))"

text \<open>
  The end of \<open>publish-resource\<close>: seeding for a number of seconds, as a duration of 64 bits, or until a signal arrives.
\<close>

definition seed_duration :: "int \<Rightarrow> int" where
  "seed_duration seconds = sint (word_of_int (seconds * 10 ^ 9) :: 64 word)"

definition keep_seeding :: "int \<Rightarrow> ('w, ddns_output) command" where
  "keep_seeding seconds =
     (if seconds > 0
      then cbind (if seed_duration seconds > 0 then clog (Slept (nat (seed_duration seconds div 10 ^ 9))) else creturn ()) (\<lambda>_. creturn Done)
      else creturn SeedingUntilInterrupted)"

definition main_publish :: "flag_lib \<Rightarrow> 'w owner_lib \<Rightarrow> string list \<Rightarrow> 'w ddns_program" where
  "main_publish F L args =
     with_flags F [''anchor-only'']
       (addCommon (ol_env L) ++ [''selector'' \<mapsto> VString [], ''ttl'' \<mapsto> VUint 3600, ''content-type'' \<mapsto> VString [], ''data-dir'' \<mapsto> VString [],
         ''bt-port'' \<mapsto> VInt 42069, ''seconds'' \<mapsto> VInt 0, ''anchor-only'' \<mapsto> VBool False]) args (\<lambda>fs pos.
       cbind (cmdPublishResource L (common_of fs) (flag_string fs ''selector'') (flag_uint fs ''ttl'') (flag_string fs ''content-type'')
                (flag_string fs ''data-dir'') (flag_int fs ''bt-port'') (flag_bool fs ''anchor-only'') pos) (\<lambda>_.
         if flag_bool fs ''anchor-only'' then creturn Done else keep_seeding (flag_int fs ''seconds'')))"

definition main_seed :: "flag_lib \<Rightarrow> 'w owner_lib \<Rightarrow> string list \<Rightarrow> 'w ddns_program" where
  "main_seed F L args =
     with_flags F [] [''bt-port'' \<mapsto> VInt 42069, ''data-dir'' \<mapsto> VString []] args (\<lambda>fs pos.
       cbind (cmdSeed L (flag_string fs ''data-dir'') (flag_int fs ''bt-port'') pos) (\<lambda>(infoHash, sha). creturn (SeededFile infoHash sha)))"

definition main_announce :: "flag_lib \<Rightarrow> 'w owner_lib \<Rightarrow> string list \<Rightarrow> 'w ddns_program" where
  "main_announce F L args =
     with_flags F [] (addCommon (ol_env L) ++ [''endpoint'' \<mapsto> VString [], ''pubkey'' \<mapsto> VString [], ''resolver-registry'' \<mapsto> VString []]) args (\<lambda>fs pos.
       cdone (cmdAnnounceResolver L (common_of fs) (flag_string fs ''endpoint'') (flag_string fs ''pubkey'') (flag_string fs ''resolver-registry'')))"

definition main_resolvers :: "flag_lib \<Rightarrow> 'w owner_lib \<Rightarrow> string list \<Rightarrow> 'w ddns_program" where
  "main_resolvers F L args =
     with_flags F [] (addCommon (ol_env L) ++ [''resolver-registry'' \<mapsto> VString []]) args (\<lambda>fs pos.
       cbind (cmdResolvers L (common_of fs) (flag_string fs ''resolver-registry'')) (\<lambda>l. creturn (ResolverList l)))"

definition main_withdraw :: "flag_lib \<Rightarrow> 'w owner_lib \<Rightarrow> string list \<Rightarrow> 'w ddns_program" where
  "main_withdraw F L args =
     with_flags F [] (addCommon (ol_env L) ++ [''to'' \<mapsto> VString []]) args (\<lambda>fs pos.
       cdone (cmdWithdraw L (common_of fs) (flag_string fs ''to'')))"

definition main_channel_open :: "flag_lib \<Rightarrow> 'w owner_lib \<Rightarrow> string list \<Rightarrow> 'w ddns_program" where
  "main_channel_open F L args =
     with_flags F [] (addCommon (ol_env L) ++ [''resolver-operator'' \<mapsto> VString [], ''amount'' \<mapsto> VString [],
         ''duration'' \<mapsto> VDuration (24 * 3600 * 10 ^ 9), ''incentives'' \<mapsto> VString []]) args (\<lambda>fs pos.
       cbind (cmdChannelOpen L (common_of fs) (flag_string fs ''resolver-operator'') (flag_string fs ''amount'')
                (DurationSeconds F (flag_duration fs ''duration'')) (flag_string fs ''incentives'')) (\<lambda>chid. creturn (ChannelOpenedWith chid)))"

definition main_voucher :: "flag_lib \<Rightarrow> 'w owner_lib \<Rightarrow> pay_lib \<Rightarrow> string list \<Rightarrow> 'w ddns_program" where
  "main_voucher F L P args =
     with_flags F [] (addCommon (ol_env L) ++ [''channel'' \<mapsto> VString [], ''amount'' \<mapsto> VString [], ''incentives'' \<mapsto> VString []]) args (\<lambda>fs pos.
       cbind (cmdVoucher L P (common_of fs) (flag_string fs ''channel'') (flag_string fs ''amount'') (flag_string fs ''incentives'')) (\<lambda>v.
         creturn (VoucherPrinted v)))"

definition main_channel_claim :: "flag_lib \<Rightarrow> 'w owner_lib \<Rightarrow> string list \<Rightarrow> 'w ddns_program" where
  "main_channel_claim F L args =
     with_flags F [] (addCommon (ol_env L) ++ [''channel'' \<mapsto> VString [], ''amount'' \<mapsto> VString [], ''voucher'' \<mapsto> VString [],
         ''incentives'' \<mapsto> VString []]) args (\<lambda>fs pos.
       cdone (cmdChannelClaim L (common_of fs) (flag_string fs ''channel'') (flag_string fs ''amount'') (flag_string fs ''voucher'')
                (flag_string fs ''incentives'')))"

definition main_channel_close :: "flag_lib \<Rightarrow> 'w owner_lib \<Rightarrow> string list \<Rightarrow> 'w ddns_program" where
  "main_channel_close F L args =
     with_flags F [] (addCommon (ol_env L) ++ [''channel'' \<mapsto> VString [], ''incentives'' \<mapsto> VString []]) args (\<lambda>fs pos.
       cdone (cmdChannelClose L (common_of fs) (flag_string fs ''channel'') (flag_string fs ''incentives'')))"

text \<open>\<open>main\<close>, on the arguments after the name of the program.\<close>

fun ddns_main :: "flag_lib \<Rightarrow> 'w owner_lib \<Rightarrow> pay_lib \<Rightarrow> string list \<Rightarrow> 'w ddns_program" where
  "ddns_main F L P [] s = (s, Inl UsageExit)"
| "ddns_main F L P (c # args) s =
     (if c = ''register'' then main_register F L args s
      else if c = ''set'' then main_set F L args s
      else if c = ''remove'' then main_remove F L args s
      else if c = ''transfer'' then main_transfer F L args s
      else if c = ''renew'' then main_renew F L args s
      else if c = ''declare-type'' then main_declare F L args s
      else if c = ''publish-resource'' then main_publish F L args s
      else if c = ''seed'' then main_seed F L args s
      else if c = ''announce-resolver'' then main_announce F L args s
      else if c = ''resolvers'' then main_resolvers F L args s
      else if c = ''withdraw'' then main_withdraw F L args s
      else if c = ''channel-open'' then main_channel_open F L args s
      else if c = ''voucher'' then main_voucher F L P args s
      else if c = ''channel-claim'' then main_channel_claim F L args s
      else if c = ''channel-close'' then main_channel_close F L args s
      else if c \<in> set [''-h'', ''--help'', ''help''] then (s, Inr UsageShown)
      else (s, Inl UsageExit))"

section \<open>The commands ddns-lookup and ddns-fetch\<close>

definition lookup_flags :: "env \<Rightarrow> flag_set" where
  "lookup_flags e = [''resolver'' \<mapsto> VString (envOr e ''DDNS_RESOLVER'' ''http://127.0.0.1:8080''), ''selector'' \<mapsto> VString [],
     ''timeout'' \<mapsto> VDuration (10 * 10 ^ 9), ''discover'' \<mapsto> VBool False, ''rpc'' \<mapsto> VString (envOr e ''RPC_URL'' ''http://127.0.0.1:8545''),
     ''deployments'' \<mapsto> VString (envOr e ''DDNS_DEPLOYMENTS'' ''contracts/deployments/localhost.json''),
     ''resolver-registry'' \<mapsto> VString [], ''namespace'' \<mapsto> VString []]"

definition lookup_command :: "flag_lib \<Rightarrow> 'w client_lib \<Rightarrow> string list \<Rightarrow> 'w \<Rightarrow> 'w \<times> (flag_error + (lookup_exit + lookup_answer))" where
  "lookup_command F L args w =
     (case flag_Parse F (lookup_flags (cl_env L)) (reorder [''discover''] args) of
        Inl e \<Rightarrow> (w, Inl e)
      | Inr (fs, pos) \<Rightarrow>
          (let (w, r) = lookup_main L \<lparr>lo_resolver = flag_string fs ''resolver'', lo_selector = flag_string fs ''selector'',
                 lo_discover = flag_bool fs ''discover'', lo_rpc = flag_string fs ''rpc'', lo_deployments = flag_string fs ''deployments'',
                 lo_registry = flag_string fs ''resolver-registry'', lo_namespace = flag_string fs ''namespace'', lo_args = pos\<rparr> w
           in (w, Inr r)))"

definition fetch_flags :: "env \<Rightarrow> flag_set" where
  "fetch_flags e = [''resolver'' \<mapsto> VString (envOr e ''DDNS_RESOLVER'' ''http://127.0.0.1:8080''), ''selector'' \<mapsto> VString [],
     ''o'' \<mapsto> VString [], ''timeout'' \<mapsto> VDuration (90 * 10 ^ 9), ''peer'' \<mapsto> VMulti []]"

definition fetch_command :: "flag_lib \<Rightarrow> 'w client_lib \<Rightarrow> string list \<Rightarrow> 'w \<Rightarrow> 'w \<times> (flag_error + (fetch_exit + bytes \<times> bool))" where
  "fetch_command F L args w =
     (case flag_Parse F (fetch_flags (cl_env L)) (reorder [] args) of
        Inl e \<Rightarrow> (w, Inl e)
      | Inr (fs, pos) \<Rightarrow>
          (let (w, r) = fetch_main L \<lparr>fo_resolver = flag_string fs ''resolver'', fo_selector = flag_string fs ''selector'',
                 fo_out = flag_string fs ''o'', fo_peers = flag_multi fs ''peer'', fo_args = pos\<rparr> w
           in (w, Inr r)))"

section \<open>Facts\<close>

text \<open>Command lines as users write them: positional arguments and flags in the forms \<open>--n=v\<close>, \<open>--n\<close> (switches) and \<open>--n v\<close>, with one dash or two.\<close>

datatype token = TPos string | TValue bool string string | TSwitch bool string | TSpaced bool string string

definition dashed :: "bool \<Rightarrow> string \<Rightarrow> string" where
  "dashed two n = (if two then ''--'' else ''-'') @ n"

fun token_args :: "token \<Rightarrow> string list" where
  "token_args (TPos p) = [p]"
| "token_args (TValue two n v) = [dashed two n @ ''='' @ v]"
| "token_args (TSwitch two n) = [dashed two n]"
| "token_args (TSpaced two n v) = [dashed two n, v]"

fun token_pairs :: "token \<Rightarrow> (string \<times> string) list" where
  "token_pairs (TPos p) = []"
| "token_pairs (TValue two n v) = [(n, v)]"
| "token_pairs (TSwitch two n) = [(n, ''true'')]"
| "token_pairs (TSpaced two n v) = [(n, v)]"

fun token_pos :: "token \<Rightarrow> string list" where
  "token_pos (TPos p) = [p]"
| "token_pos t = []"

fun token_flags :: "token \<Rightarrow> string list" where
  "token_flags (TPos p) = []"
| "token_flags t = token_args t"

definition positional :: "string \<Rightarrow> bool" where
  "positional p \<longleftrightarrow> length p \<le> 1 \<or> hd p \<noteq> CHR ''-''"

definition plain_flag :: "string \<Rightarrow> bool" where
  "plain_flag n \<longleftrightarrow> n \<noteq> [] \<and> hd n \<noteq> CHR ''-'' \<and> CHR ''='' \<notin> set n"

fun token_ok :: "string list \<Rightarrow> token \<Rightarrow> bool" where
  "token_ok bools (TPos p) = positional p"
| "token_ok bools (TValue two n v) = plain_flag n"
| "token_ok bools (TSwitch two n) = (plain_flag n \<and> n \<in> set bools)"
| "token_ok bools (TSpaced two n v) = (plain_flag n \<and> n \<notin> set bools)"

fun set_flags :: "flag_lib \<Rightarrow> (string \<times> string) list \<Rightarrow> flag_set \<Rightarrow> flag_error + flag_set" where
  "set_flags F [] fs = Inr fs"
| "set_flags F ((n, v) # ps) fs = rbind (set_flag F n v fs) (set_flags F ps)"

lemma plain_flag_Cons:
  assumes "plain_flag n"
  obtains c cs where "n = c # cs" "c \<noteq> CHR ''-''" "c \<noteq> CHR ''=''" "cut_at CHR ''='' n = None" "\<And>v. cut_at CHR ''='' (n @ CHR ''='' # v) = Some (n, v)"
proof -
  have "CHR ''='' \<notin> set n" using assms by (simp add: plain_flag_def)
  then have "cut_at CHR ''='' n = None" "\<And>v. cut_at CHR ''='' (n @ CHR ''='' # v) = Some (n, v)" by (simp_all add: cut_at_None cut_at_append)
  moreover obtain c cs where "n = c # cs" "c \<noteq> CHR ''-''" "c \<noteq> CHR ''=''" using assms by (auto simp: plain_flag_def neq_Nil_conv)
  ultimately show thesis using that by metis
qed

lemma dashed_facts:
  assumes "plain_flag n"
  shows "Suc 0 < length (dashed two n)" "hd (dashed two n) = CHR ''-''" "dashed two n \<noteq> ''--''" "flag_name (dashed two n) = n"
    "CHR ''='' \<notin> set (dashed two n)" "dashed two n @ s \<noteq> ''--''" "dashed two n \<noteq> []"
proof -
  obtain c cs where n: "n = c # cs" "c \<noteq> CHR ''-''" "cut_at CHR ''='' n = None" using plain_flag_Cons [OF assms] by metis
  show "flag_name (dashed two n) = n" using n by (simp add: flag_name_def dashed_def Let_def)
qed (use assms in \<open>auto simp: plain_flag_def dashed_def neq_Nil_conv\<close>)

lemma reorder_tokens:
  assumes "\<forall>t \<in> set ts. token_ok bools t"
  shows "reorder_loop bools (concat (map token_args ts)) (fl, ps) = (fl @ concat (map token_flags ts), ps @ concat (map token_pos ts))"
  using assms
proof (induction ts arbitrary: fl ps)
  case (Cons t ts)
  show ?case
  proof (cases t)
    case (TPos p)
    then have "p \<noteq> ''--''" "\<not> (length p > 1 \<and> hd p = CHR ''-'')" using Cons.prems by (auto simp: positional_def)
    then show ?thesis using Cons TPos by auto
  next
    case (TValue two n v)
    then have "plain_flag n" using Cons.prems by simp
    note d = dashed_facts [OF this]
    then show ?thesis using Cons TValue by simp
  next
    case (TSwitch two n)
    then have "plain_flag n" "n \<in> set bools" using Cons.prems by auto
    then show ?thesis using Cons TSwitch dashed_facts [of n] by simp
  next
    case (TSpaced two n v)
    then have "plain_flag n" "n \<notin> set bools" using Cons.prems by auto
    then show ?thesis using Cons TSpaced dashed_facts [of n] by simp
  qed
qed simp

text \<open>Setting a flag keeps its kind, so that switches stay switches.\<close>

definition switches :: "string list \<Rightarrow> flag_set \<Rightarrow> bool" where
  "switches bools fs \<longleftrightarrow> (\<forall>n v. fs n = Some v \<longrightarrow> (is_bool_flag v \<longleftrightarrow> n \<in> set bools))"

lemma flag_Set_kind: "flag_Set F v s = Some v' \<Longrightarrow> is_bool_flag v' = is_bool_flag v"
  by (cases v) (auto simp: flag_Set_def is_bool_flag_def)

lemma set_flag_switches: "set_flag F n s fs = Inr fs' \<Longrightarrow> switches bools fs \<Longrightarrow> switches bools fs'"
  by (auto simp: set_flag_def switches_def dest: flag_Set_kind split: option.splits if_splits)

lemma parse_positional: "\<forall>p \<in> set ps. positional p \<Longrightarrow> flag_Parse F fs ps = Inr (fs, ps)"
  by (cases ps) (auto simp: positional_def)

lemma parse_value:
  assumes "plain_flag n"
  shows "flag_Parse F fs ((dashed two n @ ''='' @ v) # as) = rbind (set_flag F n v fs) (\<lambda>fs. flag_Parse F fs as)"
proof -
  obtain c cs where n: "n = c # cs" "c \<noteq> CHR ''-''" "c \<noteq> CHR ''=''" "cut_at CHR ''='' (n @ CHR ''='' # v) = Some (n, v)"
    using plain_flag_Cons [OF assms] by metis
  let ?s = "dashed two n @ ''='' @ v"
  have "(length ?s < 2 \<or> hd ?s \<noteq> CHR ''-'') = False" "(?s = ''--'') = False"
    and "(if ?s ! 1 = CHR ''-'' then drop 2 ?s else drop 1 ?s) = n @ CHR ''='' # v"
    and "(n @ CHR ''='' # v = [] \<or> hd (n @ CHR ''='' # v) = CHR ''-'' \<or> hd (n @ CHR ''='' # v) = CHR ''='') = False"
    using n by (cases two; simp add: dashed_def)+
  then show ?thesis by (simp only: flag_Parse.simps(2) Let_def n(4) rbind_def if_False option.case prod.case)
qed

lemma parse_name:
  assumes "plain_flag n"
  shows "flag_Parse F fs (dashed two n # as) =
    (case fs n of
       None \<Rightarrow> Inl (if n = ''help'' \<or> n = ''h'' then FlagHelp else FlagUndefined n)
     | Some v \<Rightarrow>
         if is_bool_flag v then rbind (set_flag F n ''true'' fs) (\<lambda>fs. flag_Parse F fs as)
         else (case as of [] \<Rightarrow> Inl (FlagNeedsArg n) | x # as \<Rightarrow> rbind (set_flag F n x fs) (\<lambda>fs. flag_Parse F fs as)))"
proof -
  obtain c cs where n: "n = c # cs" "c \<noteq> CHR ''-''" "c \<noteq> CHR ''=''" "cut_at CHR ''='' n = None" using plain_flag_Cons [OF assms] by metis
  let ?s = "dashed two n"
  have "(length ?s < 2 \<or> hd ?s \<noteq> CHR ''-'') = False" "(?s = ''--'') = False"
    and "(if ?s ! 1 = CHR ''-'' then drop 2 ?s else drop 1 ?s) = n"
    and "(n = [] \<or> hd n = CHR ''-'' \<or> hd n = CHR ''='') = False"
    using n by (cases two; simp add: dashed_def)+
  then show ?thesis by (simp only: flag_Parse.simps(2) Let_def n(4) rbind_def if_False option.case)
qed

lemma parse_one_flag:
  assumes "token_ok bools t" "switches bools fs" "token_pairs t = [(n, v)]"
  shows "flag_Parse F fs (token_flags t @ as) = rbind (set_flag F n v fs) (\<lambda>fs. flag_Parse F fs as)"
proof (cases t)
  case (TValue two m x)
  then show ?thesis using assms parse_value [of n F fs two v as] by simp
next
  case (TSwitch two m)
  then have p: "plain_flag n" "m = n" "v = ''true''" "n \<in> set bools" using assms by auto
  then have "is_bool_flag x" if "fs n = Some x" for x using assms(2) that by (simp add: switches_def)
  then show ?thesis using parse_name [OF p(1)] p(2,3) TSwitch by (cases "fs n") (simp_all add: set_flag_def del: flag_Parse.simps)
next
  case (TSpaced two m x)
  then have p: "plain_flag n" "m = n" "x = v" "n \<notin> set bools" using assms by auto
  then have "\<not> is_bool_flag x" if "fs n = Some x" for x using assms(2) that by (simp add: switches_def)
  then show ?thesis using parse_name [OF p(1)] p(2,3) TSpaced by (cases "fs n") (simp_all add: set_flag_def del: flag_Parse.simps)
qed (use assms in simp)

lemma parse_flags:
  assumes "\<forall>t \<in> set ts. token_ok bools t" "switches bools fs" "\<forall>p \<in> set ps. positional p"
  shows "flag_Parse F fs (concat (map token_flags ts) @ ps) = rbind (set_flags F (concat (map token_pairs ts)) fs) (\<lambda>fs. Inr (fs, ps))"
  using assms(1,2)
proof (induction ts arbitrary: fs)
  case Nil
  show ?case using parse_positional [OF assms(3)] by (simp add: rbind_def)
next
  case (Cons t ts)
  show ?case
  proof (cases "token_pairs t")
    case Nil
    then have "token_flags t = []" by (cases t) simp_all
    then show ?thesis using Cons Nil by simp
  next
    case p: (Cons x xs)
    obtain n v where nv: "token_pairs t = [(n, v)]" using p by (cases t) auto
    have "flag_Parse F fs (token_flags t @ concat (map token_flags ts) @ ps) =
        rbind (set_flag F n v fs) (\<lambda>fs. flag_Parse F fs (concat (map token_flags ts) @ ps))"
      by (rule parse_one_flag [OF _ Cons.prems(2) nv]) (use Cons.prems(1) in simp)
    also have "\<dots> = rbind (set_flag F n v fs) (\<lambda>fs. rbind (set_flags F (concat (map token_pairs ts)) fs) (\<lambda>fs. Inr (fs, ps)))"
      using Cons.IH Cons.prems set_flag_switches [of F n v fs _ bools] by (cases "set_flag F n v fs") (simp_all add: rbind_def)
    finally show ?thesis by (simp add: nv rbind_def split: sum.split)
  qed
qed

section \<open>Properties\<close>

text \<open>
  C32: Flags may stand anywhere. Whatever the order in which flags and positional arguments are mixed on a command line, parsing the reordered line sets the
  flags one after the other in the order given, with the error of the first that cannot be set, and yields the positional arguments in
  their order.
\<close>

theorem flags_anywhere:
  assumes "\<forall>t \<in> set ts. token_ok bools t" and "switches bools fs"
  shows "flag_Parse F fs (reorder bools (concat (map token_args ts))) =
    rbind (set_flags F (concat (map token_pairs ts)) fs) (\<lambda>fs. Inr (fs, concat (map token_pos ts)))"
proof -
  have "positional p" if "t \<in> set ts" "p \<in> set (token_pos t)" for t p using assms(1) that by (cases t) auto
  then have "\<forall>p \<in> set (concat (map token_pos ts)). positional p" by auto
  from parse_flags [OF assms this] show ?thesis by (simp add: reorder_def reorder_tokens [OF assms(1)])
qed

definition decimal_flags :: flag_lib where
  "decimal_flags = \<lparr>ParseUint = (\<lambda>s. if s \<noteq> [] \<and> list_all is_digit s then Some (word_of_nat (dec_val s)) else None),
     ParseInt = Atoi, ParseDuration = (\<lambda>_. None), DurationSeconds = (\<lambda>d. d div 10 ^ 9)\<rparr>"

theorem flags_anywhere_witness:
  "\<forall>L P s. ddns_main decimal_flags L P [''set'', ''example'', ''--ttl'', ''60'', ''A'', ''-selector=port=1'', ''address=1.2.3.4''] s =
   (case cmdSet L (common_of (addCommon (ol_env L))) ''port=1'' 60 [''example'', ''A'', ''address=1.2.3.4''] s of
      (s, Inl e) \<Rightarrow> (s, Inl (CommandExit e)) | (s, Inr _) \<Rightarrow> (s, Inr Done))"
proof (intro allI)
  fix L :: "'a owner_lib" and P s
  let ?ts = "[TPos ''example'', TSpaced True ''ttl'' ''60'', TPos ''A'', TValue False ''selector'' ''port=1'', TPos ''address=1.2.3.4'']"
  let ?fs = "addCommon (ol_env L) ++ [''selector'' \<mapsto> VString [], ''ttl'' \<mapsto> VUint 3600]"
  let ?gs = "?fs(''ttl'' \<mapsto> VUint 60, ''selector'' \<mapsto> VString ''port=1'')"
  have "switches [] ?fs" by (auto simp: switches_def addCommon_def is_bool_flag_def split: if_splits)
  from flags_anywhere [of ?ts "[]" ?fs decimal_flags, OF _ this]
  have "flag_Parse decimal_flags ?fs (reorder [] (concat (map token_args ?ts))) =
      rbind (set_flags decimal_flags [(''ttl'', ''60''), (''selector'', ''port=1'')] ?fs) (\<lambda>fs. Inr (fs, [''example'', ''A'', ''address=1.2.3.4'']))"
    by (simp add: positional_def plain_flag_def del: set_flags.simps flag_Parse.simps)
  moreover have "set_flags decimal_flags [(''ttl'', ''60''), (''selector'', ''port=1'')] ?fs = Inr ?gs"
    by (simp add: set_flag_def flag_Set_def decimal_flags_def is_digit_def in_range_def dec_val_def digit_val_def)
  moreover have "concat (map token_args ?ts) = [''example'', ''--ttl'', ''60'', ''A'', ''-selector=port=1'', ''address=1.2.3.4'']"
    by (simp add: dashed_def)
  ultimately have "flag_Parse decimal_flags ?fs (reorder [] [''example'', ''--ttl'', ''60'', ''A'', ''-selector=port=1'', ''address=1.2.3.4'']) =
      Inr (?gs, [''example'', ''A'', ''address=1.2.3.4''])" by (simp only: rbind_simps)
  moreover have "common_of ?gs = common_of (addCommon (ol_env L))" "flag_string ?gs ''selector'' = ''port=1''" "flag_uint ?gs ''ttl'' = 60"
    by (simp_all add: common_of_def flag_string_def flag_uint_def addCommon_def)
  ultimately show "ddns_main decimal_flags L P [''set'', ''example'', ''--ttl'', ''60'', ''A'', ''-selector=port=1'', ''address=1.2.3.4''] s =
     (case cmdSet L (common_of (addCommon (ol_env L))) ''port=1'' 60 [''example'', ''A'', ''address=1.2.3.4''] s of
      (s, Inl e) \<Rightarrow> (s, Inl (CommandExit e)) | (s, Inr _) \<Rightarrow> (s, Inr Done))"
    by (simp add: main_set_def with_flags_def cdone_def cbind_def creturn_def del: flag_Parse.simps split: prod.split sum.split)
qed

text \<open>
  A flag at the end of the line that lacks its value takes the first positional argument for it, because \<open>reorder\<close> has moved it before that
  argument; no error is reported.
\<close>

theorem trailing_flag_takes_argument:
  assumes "\<forall>p \<in> set (p # ps). positional p" and "plain_flag n" and "fs n = Some (VString v)"
  shows "flag_Parse F fs (reorder [] (p # ps @ [dashed True n])) = Inr (fs(n \<mapsto> VString p), ps)"
proof -
  have loop: "reorder_loop [] (qs @ [dashed True n]) (fl, out) = (fl @ [dashed True n], out @ qs)" if "\<forall>p \<in> set qs. positional p" for qs fl out
    using that dashed_facts [OF assms(2), of True]
  proof (induction qs arbitrary: fl out)
    case (Cons q qs)
    then have "q \<noteq> ''--''" "\<not> (length q > 1 \<and> hd q = CHR ''-'')" by (auto simp: positional_def)
    then show ?case using Cons by auto
  qed auto
  have "reorder [] (p # ps @ [dashed True n]) = dashed True n # p # ps" using loop [OF assms(1), of "[]" "[]"] by (simp add: reorder_def)
  moreover have "flag_Parse F fs' ps = Inr (fs', ps)" for fs' by (rule parse_positional) (use assms(1) in simp)
  ultimately show ?thesis
    using parse_name [OF assms(2), of F fs True "p # ps"] assms(3)
    by (simp add: is_bool_flag_def set_flag_def flag_Set_def del: flag_Parse.simps)
qed

end
