(* ===== verification/Zkgen.thy ===== *)
theory Zkgen
  imports Pki Zk_Commit Go_Web
begin

text \<open>
  The generator of the proving keys, cmd/zkgen/main.go: finding the module directory, compiling the circuit, the setup, the files that are
  embedded into the resolver, the verifier contract and the proof fixture of its test.

  gnark's compiler and setup and the file system are the record \<open>zkgen_lib\<close>; constraint systems and keys are opaque byte strings, as in
  Zk_Commit, and \<open>ccs_WriteTo\<close> and its siblings are their serializations. The setup draws randomness from the world.
\<close>

section \<open>Definitions\<close>

record 'w zkgen_lib =
  zg_Getwd :: "'w \<Rightarrow> string + string"
  zg_Stat :: "string \<Rightarrow> 'w \<Rightarrow> bool"
  zg_MkdirAll :: "string \<Rightarrow> 'w \<Rightarrow> 'w \<times> string option"
  zg_WriteFile :: "string \<Rightarrow> bytes \<Rightarrow> 'w \<Rightarrow> 'w \<times> string option"
  zg_Compile :: "string + bytes"
  zg_Setup :: "bytes \<Rightarrow> 'w \<Rightarrow> 'w \<times> (string + bytes \<times> bytes)"
  ccs_WriteTo :: "bytes \<Rightarrow> string + bytes"
  pk_WriteTo :: "bytes \<Rightarrow> string + bytes"
  vk_WriteTo :: "bytes \<Rightarrow> string + bytes"
  vk_ExportSolidity :: "bytes \<Rightarrow> string + bytes"
  witness_Public :: "bytes \<Rightarrow> bytes"

text \<open>\<open>ZgFatal\<close> is the \<open>log.Fatal\<close> of \<open>mustAssign\<close>, \<open>ZgPanic\<close> the index panic of \<open>RecordMessage\<close>.\<close>

datatype zkgen_error = ZgErr string | ZgZk zk_error | ZgFatal zk_error | ZgPanic

definition zbind :: "('w \<Rightarrow> 'w \<times> ('e + 'a)) \<Rightarrow> ('a \<Rightarrow> 'w \<Rightarrow> 'w \<times> ('e + 'b)) \<Rightarrow> 'w \<Rightarrow> 'w \<times> ('e + 'b)" where
  "zbind m f w = (case m w of (w, Inl e) \<Rightarrow> (w, Inl e) | (w, Inr x) \<Rightarrow> f x w)"

definition zlift :: "('e \<Rightarrow> zkgen_error) \<Rightarrow> 'e + 'a \<Rightarrow> 'w \<Rightarrow> 'w \<times> (zkgen_error + 'a)" where
  "zlift f r w = (w, case r of Inl e \<Rightarrow> Inl (f e) | Inr x \<Rightarrow> Inr x)"

definition zcall :: "('e \<Rightarrow> zkgen_error) \<Rightarrow> ('w \<Rightarrow> 'w \<times> ('e + 'a)) \<Rightarrow> 'w \<Rightarrow> 'w \<times> (zkgen_error + 'a)" where
  "zcall f m w = (case m w of (w, Inl e) \<Rightarrow> (w, Inl (f e)) | (w, Inr x) \<Rightarrow> (w, Inr x))"

definition zdo :: "('w \<Rightarrow> 'w \<times> string option) \<Rightarrow> 'w \<Rightarrow> 'w \<times> (zkgen_error + unit)" where
  "zdo m w = (case m w of (w, Some e) \<Rightarrow> (w, Inl (ZgErr e)) | (w, None) \<Rightarrow> (w, Inr ()))"

subsection \<open>The module directory\<close>

text \<open>How long \<open>filepath.Dir\<close> can be applied: every application shortens the path until it is a fixed point.\<close>

lemma weight_fold_clean:
  "(\<Sum>e\<leftarrow>fold (clean_step rooted) es out. length e + 1) \<le> (\<Sum>e\<leftarrow>out. length e + 1) + (\<Sum>e\<leftarrow>filter (\<lambda>e. e \<noteq> []) es. length e + 1)"
proof (induction es arbitrary: out)
  case (Cons e es)
  have "(\<Sum>x\<leftarrow>clean_step rooted e out. length x + 1) \<le> (\<Sum>x\<leftarrow>out. length x + 1) + (if e = [] then 0 else length e + 1)"
    by (auto simp: clean_step_def split: list.split)
  with Cons.IH [of "clean_step rooted e out"] show ?case by (auto split: if_splits)
qed simp

lemma length_join: "length (join_with c ps) = (\<Sum>p\<leftarrow>ps. length p + 1) - 1"
  by (induction c ps rule: join_with.induct) simp_all

lemma weight_split: "(\<Sum>p\<leftarrow>split_on c s. length p + 1) = length s + 1"
  by (induction s) (auto split: list.split)

lemma weight_full: "(\<Sum>p\<leftarrow>filter (\<lambda>e. e \<noteq> []) ps. length p + 1) + length (filter (\<lambda>e. e = []) ps) = (\<Sum>p\<leftarrow>ps. length p + 1)"
  by (induction ps) auto

lemma sum_list_rev': "(\<Sum>p\<leftarrow>rev ps. length p + 1) = (\<Sum>p\<leftarrow>ps. length p + 1)"
  by (simp add: rev_map [symmetric] sum_list_rev)

text \<open>Cleaning shortens by the empty elements.\<close>

lemma path_Clean_short:
  fixes p :: string
  assumes "p \<noteq> []"
  defines "n \<equiv> length (filter (\<lambda>e. e = []) (split_on (CHR ''/'') p))"
  shows "length (path_Clean p) \<le> max 1 ((if HasPrefix p ''/'' then length p + 1 else length p) - n)"
proof -
  let ?r = "HasPrefix p ''/''" let ?out = "fold (clean_step ?r) (split_on (CHR ''/'') p) []"
  have "(\<Sum>e\<leftarrow>?out. length e + 1) \<le> length p + 1 - n"
    using weight_fold_clean [of ?r "split_on (CHR ''/'') p" "[]"] weight_full [of "split_on (CHR ''/'') p"] weight_split [of "CHR ''/''" p]
    by (simp add: n_def)
  moreover have "length (join_with (CHR ''/'') (rev ?out)) = (\<Sum>e\<leftarrow>?out. length e + 1) - 1" by (simp only: length_join sum_list_rev')
  ultimately have j: "length (join_with (CHR ''/'') (rev ?out)) \<le> length p - n" by simp
  show ?thesis
  proof (cases ?r)
    case True
    then have "length (path_Clean p) = length (join_with (CHR ''/'') (rev ?out)) + 1" by (simp add: path_Clean_def Let_def)
    with j True show ?thesis by (cases "n \<le> length p") (simp_all add: Suc_diff_le)
  next
    case False
    then have "length (path_Clean p) \<le> max 1 (length (join_with (CHR ''/'') (rev ?out)))" by (simp add: path_Clean_def Let_def)
    with j False show ?thesis by (simp add: max_def split: if_splits)
  qed
qed

definition dir_measure :: "string \<Rightarrow> nat" where
  "dir_measure d = (if d = ''.'' then 0 else length d + 1)"

lemma path_Dir_decreases:
  assumes "path_Dir d \<noteq> d"
  shows "dir_measure (path_Dir d) < dir_measure d"
proof (cases "CHR ''/'' \<in> set d")
  case False
  then have "dropWhile (\<lambda>c. c \<noteq> CHR ''/'') (rev d) = []" by auto
  then have "path_Dir d = path_Clean []" unfolding path_Dir_def by (simp only: rev.simps)
  then have "path_Dir d = ''.''" by (simp add: path_Clean_def HasPrefix_def clean_step_def)
  with assms show ?thesis by (auto simp: dir_measure_def)
next
  case True
  then obtain a b where d: "d = a @ CHR ''/'' # b" and b: "CHR ''/'' \<notin> set b" using split_list_last by metis
  let ?q = "a @ ''/''" let ?n = "length (filter (\<lambda>e. e = []) (split_on (CHR ''/'') ?q))"
  have q: "path_Dir d = path_Clean ?q" using b by (auto simp: path_Dir_def d dropWhile_append)
  have s: "split_on (CHR ''/'') ?q = split_on (CHR ''/'') a @ [[]]" by (simp add: split_on_snoc)
  show ?thesis
  proof (cases "a = []")
    case True
    then have "path_Dir d = ''/''" using q by (simp add: path_Clean_def HasPrefix_def clean_step_def)
    with assms True d show ?thesis by (cases b) (auto simp: dir_measure_def)
  next
    case False
    have "HasPrefix ?q ''/'' \<Longrightarrow> ?n \<ge> 2" using False unfolding s by (cases a) (auto simp: HasPrefix_def)
    moreover have "?n \<ge> 1" unfolding s by simp
    ultimately have "length (path_Clean ?q) \<le> max 1 (length ?q - 1)"
      using path_Clean_short [of ?q] by (auto simp: max_def split: if_splits)
    also have "\<dots> < length d" using False d by (cases a) auto
    finally show ?thesis using q d False by (cases a) (auto simp: dir_measure_def)
  qed
qed

text \<open>The loop of \<open>moduleRoot\<close> from the directory \<open>d\<close> upwards.\<close>

function module_loop :: "'w zkgen_lib \<Rightarrow> 'w \<Rightarrow> string \<Rightarrow> string \<Rightarrow> zkgen_error + string" where
  "module_loop G w dir d =
     (if zg_Stat G (path_Join [d, ''go.mod'']) w then Inr d
      else if path_Dir d = d then Inl (ZgErr (''go.mod not found above '' @ dir))
      else module_loop G w dir (path_Dir d))"
  by pat_completeness auto
termination
  by (relation "measure (\<lambda>(G, w, dir, d). dir_measure d)") (simp_all add: path_Dir_decreases)

declare module_loop.simps [simp del]

definition moduleRoot :: "'w zkgen_lib \<Rightarrow> 'w \<Rightarrow> zkgen_error + string" where
  "moduleRoot G w = (case zg_Getwd G w of Inl e \<Rightarrow> Inl (ZgErr e) | Inr dir \<Rightarrow> module_loop G w dir dir)"

subsection \<open>The run\<close>

definition mustAssign :: "zk_lib \<Rightarrow> bytes \<Rightarrow> zkgen_error + circuit" where
  "mustAssign Z msg =
     (case PackMessage msg of
        Inl e \<Rightarrow> Inl (ZgFatal e)
      | Inr elements \<Rightarrow>
          (case Commitment Z msg of
             Inl e \<Rightarrow> Inl (ZgFatal e)
           | Inr commitment \<Rightarrow>
               Inr \<lparr>cLength = elements ! 0, cChunks = map (\<lambda>i. elements ! (i + 1)) [0..<MaxChunks], cCommitment = be_nat commitment\<rparr>))"

text \<open>The closure \<open>write\<close>: serialize, then store below the artifacts directory.\<close>

definition zg_write :: "'w zkgen_lib \<Rightarrow> string \<Rightarrow> string \<Rightarrow> string + bytes \<Rightarrow> 'w \<Rightarrow> 'w \<times> (zkgen_error + unit)" where
  "zg_write G artifactsDir name wt =
     zbind (zlift ZgErr wt) (\<lambda>buf. zdo (zg_WriteFile G (path_Join [artifactsDir, name]) buf))"

text \<open>The closure \<open>assignProof\<close>, which checks its own proof before it is written.\<close>

definition assignProof :: "'w zkgen_lib \<Rightarrow> zk_lib \<Rightarrow> bytes \<Rightarrow> bytes \<Rightarrow> bytes \<Rightarrow> bytes \<Rightarrow> zkgen_error + bytes" where
  "assignProof G Z ccs pk vk msg =
     rbind (mustAssign Z msg) (\<lambda>assign.
       case full_witness Z assign of
         Inl e \<Rightarrow> Inl (ZgErr e)
       | Inr w \<Rightarrow>
           (case groth16_Prove Z ccs pk w of
              Inl e \<Rightarrow> Inl (ZgErr e)
            | Inr pf \<Rightarrow>
                (case groth16_Verify Z pf vk (witness_Public G w) of
                   Inl e \<Rightarrow> Inl (ZgErr (''self-check verify: '' @ e))
                 | Inr _ \<Rightarrow> Inr (SolidityCalldata Z pf))))"

definition fixture_record :: chain_record where
  "fixture_record = \<lparr>rType = ''A'', rSelector = [], rFieldNames = [''address''], rFieldVals = [''93.184.216.34''], rTTL = 3600,
     rGeneration = 0, rOwnerSig = [], rCommitment = zero_hash, rExists = False\<rparr>"

text \<open>\<open>json.MarshalIndent\<close> of the fixture map: keys in order, two blanks of indentation, and the final newline.\<close>

definition fixture_line :: "string \<Rightarrow> string \<Rightarrow> string" where
  "fixture_line k v = ''  '' @ json_string k @ '': '' @ json_string v"

definition fixture_text :: "bytes \<Rightarrow> hash32 \<Rightarrow> bytes \<Rightarrow> string" where
  "fixture_text msg commitment calldata =
     ''{'' @ [CHR 0x0A] @ fixture_line ''commitment'' (''0x'' @ hex_encode commitment) @ '','' @ [CHR 0x0A] @
     fixture_line ''commitmentDec'' (nat_dec (be_nat commitment)) @ '','' @ [CHR 0x0A] @
     fixture_line ''payloadHex'' (''0x'' @ hex_encode msg) @ '','' @ [CHR 0x0A] @
     fixture_line ''proofCalldata'' (''0x'' @ hex_encode calldata) @ [CHR 0x0A] @ ''}'' @ [CHR 0x0A]"

definition artifacts_dir :: "string \<Rightarrow> string" where
  "artifacts_dir resolverDir = path_Join [resolverDir, ''internal'', ''zk'', ''artifacts'']"

definition write_artifacts :: "'w zkgen_lib \<Rightarrow> string \<Rightarrow> bytes \<Rightarrow> bytes \<Rightarrow> bytes \<Rightarrow> 'w \<Rightarrow> 'w \<times> (zkgen_error + unit)" where
  "write_artifacts G artifactsDir ccs pk vk =
     zbind (zg_write G artifactsDir ''record_v1.ccs'' (ccs_WriteTo G ccs)) (\<lambda>_.
     zbind (zg_write G artifactsDir ''record_v1.pk'' (pk_WriteTo G pk)) (\<lambda>_.
     zg_write G artifactsDir ''record_v1.vk'' (vk_WriteTo G vk)))"

definition write_verifier :: "'w zkgen_lib \<Rightarrow> string \<Rightarrow> bytes \<Rightarrow> 'w \<Rightarrow> 'w \<times> (zkgen_error + unit)" where
  "write_verifier G repoRoot vk =
     zbind (zlift (\<lambda>e. ZgErr (''export solidity: '' @ e)) (vk_ExportSolidity G vk)) (\<lambda>sol.
     zdo (zg_WriteFile G (path_Join [repoRoot, ''contracts'', ''contracts'', ''ZKVerifier.sol'']) sol))"

definition write_fixture ::
  "'w zkgen_lib \<Rightarrow> zk_lib \<Rightarrow> crypto_lib \<Rightarrow> string \<Rightarrow> bytes \<Rightarrow> bytes \<Rightarrow> bytes \<Rightarrow> 'w \<Rightarrow> 'w \<times> (zkgen_error + unit)" where
  "write_fixture G Z C repoRoot ccs pk vk =
     zbind (zlift (\<lambda>_. ZgPanic) (case RecordMessage C ''example'' fixture_record of None \<Rightarrow> Inl () | Some msg \<Rightarrow> Inr msg)) (\<lambda>msg.
     zbind (zlift ZgZk (Commitment Z msg)) (\<lambda>commitment.
     zbind (zlift id (assignProof G Z ccs pk vk msg)) (\<lambda>calldata.
     let fixDir = path_Join [repoRoot, ''contracts'', ''test'', ''fixtures'']
     in zbind (zdo (zg_MkdirAll G fixDir)) (\<lambda>_.
        zdo (zg_WriteFile G (path_Join [fixDir, ''zkproof.json'']) (str_bytes (fixture_text msg commitment calldata)))))))"

definition zkgen_run :: "'w zkgen_lib \<Rightarrow> zk_lib \<Rightarrow> crypto_lib \<Rightarrow> 'w \<Rightarrow> 'w \<times> (zkgen_error + unit)" where
  "zkgen_run G Z C w =
     zbind (zlift id (moduleRoot G w)) (\<lambda>resolverDir.
     let repoRoot = path_Dir resolverDir; artifactsDir = artifacts_dir resolverDir
     in zbind (zdo (zg_MkdirAll G artifactsDir)) (\<lambda>_.
        zbind (zlift (\<lambda>e. ZgErr (''compile: '' @ e)) (zg_Compile G)) (\<lambda>ccs.
        zbind (zcall (\<lambda>e. ZgErr (''setup: '' @ e)) (zg_Setup G ccs)) (\<lambda>(pk, vk).
        zbind (write_artifacts G artifactsDir ccs pk vk) (\<lambda>_.
        zbind (write_verifier G repoRoot vk) (\<lambda>_.
        write_fixture G Z C repoRoot ccs pk vk)))))) w"

section \<open>Facts\<close>

lemma zbind_Inr: "zbind m f w = (w', Inr y) \<longleftrightarrow> (\<exists>v x. m w = (v, Inr x) \<and> f x v = (w', Inr y))"
  by (auto simp: zbind_def split: prod.splits sum.splits)

lemma zlift_Inr [simp]: "zlift f r w = (w', Inr x) \<longleftrightarrow> w' = w \<and> r = Inr x"
  by (cases r) (auto simp: zlift_def)

lemma zcall_Inr [simp]: "zcall f m w = (w', Inr x) \<longleftrightarrow> m w = (w', Inr x)"
  by (auto simp: zcall_def split: prod.splits sum.splits)

lemma zdo_Inr [simp]: "zdo m w = (w', Inr u) \<longleftrightarrow> m w = (w', None)"
  by (auto simp: zdo_def split: prod.splits option.splits)

text \<open>The assignment of the generator is that of the resolver.\<close>

lemma mustAssign_assignment: "mustAssign Z msg = Inr c \<longleftrightarrow> assignment Z msg = Inr c"
  by (auto simp: mustAssign_def assignment_def rbind_eq_Inr split: sum.splits)

text \<open>The module directory is the nearest directory above the working directory that has a go.mod.\<close>

lemma module_loop_nearest:
  "module_loop G w dir d = Inr r \<Longrightarrow>
   \<exists>n. r = (path_Dir ^^ n) d \<and> zg_Stat G (path_Join [r, ''go.mod'']) w \<and>
     (\<forall>i < n. \<not> zg_Stat G (path_Join [(path_Dir ^^ i) d, ''go.mod'']) w)"
proof (induction G w dir d rule: module_loop.induct)
  case (1 G w dir d)
  show ?case
  proof (cases "zg_Stat G (path_Join [d, ''go.mod'']) w")
    case True
    then show ?thesis using 1(2) by (intro exI [of _ 0]) (simp add: module_loop.simps [of G w dir d])
  next
    case False
    then have n: "path_Dir d \<noteq> d" and r: "module_loop G w dir (path_Dir d) = Inr r"
      using 1(2) by (auto simp: module_loop.simps [of G w dir d] split: if_splits)
    obtain n where "r = (path_Dir ^^ n) (path_Dir d)" "zg_Stat G (path_Join [r, ''go.mod'']) w"
      and l: "\<forall>i < n. \<not> zg_Stat G (path_Join [(path_Dir ^^ i) (path_Dir d), ''go.mod'']) w"
      using 1(1) [OF False n r] by blast
    moreover have "\<not> zg_Stat G (path_Join [(path_Dir ^^ i) d, ''go.mod'']) w" if "i < Suc n" for i
      using that l False by (cases i) (simp_all add: funpow_swap1)
    ultimately show ?thesis by (intro exI [of _ "Suc n"]) (simp add: funpow_swap1)
  qed
qed

text \<open>The last element of a joined path is its ending, so that files of different names are different files.\<close>

lemma path_Join_ends:
  assumes "plain_element f"
  shows "\<exists>pre. path_Join (es @ [f]) = pre @ f"
proof -
  have f: "f \<noteq> []" "CHR ''/'' \<notin> set f" "f \<noteq> ''.''" "f \<noteq> ''..''" using assms by (auto simp: plain_element_def)
  obtain es' where "dropWhile (\<lambda>e. e = []) (es @ [f]) = es' @ [f]"
    using f(1) by (cases "\<forall>x\<in>set es. x = []") (auto simp: dropWhile_append)
  then have j: "path_Join (es @ [f]) = path_Clean (join_with (CHR ''/'') (es' @ [f]))"
    by (auto simp: path_Join_def split: list.splits)
  let ?p = "join_with (CHR ''/'') (es' @ [f])" let ?r = "HasPrefix ?p ''/''"
  obtain ps where "split_on (CHR ''/'') ?p = ps @ [f]"
    using f(2) by (cases "es' = []") (auto simp: split_on_free join_with_snoc split_on_snoc)
  then have "fold (clean_step ?r) (split_on (CHR ''/'') ?p) [] = f # fold (clean_step ?r) ps []"
    using f by (simp add: clean_step_def)
  moreover have "\<exists>pre. join_with (CHR ''/'') (xs @ [f]) = pre @ f" for xs
    by (cases "xs = []") (auto simp: join_with_snoc)
  ultimately obtain st pre where st: "fold (clean_step ?r) (split_on (CHR ''/'') ?p) [] = st" "join_with (CHR ''/'') (rev st) = pre @ f"
    by (metis rev.simps(2))
  then have "path_Clean ?p = (if ?r then ''/'' @ pre @ f else pre @ f)" using f(1) path_Clean_stack [OF refl st(1)] by simp
  then show ?thesis using j by (metis append.assoc)
qed

lemma path_Join_neq:
  assumes "plain_element f" "plain_element g" "take 2 (rev f) \<noteq> take 2 (rev g)" "2 \<le> length f" "2 \<le> length g"
  shows "path_Join (es @ [f]) \<noteq> path_Join (es' @ [g])"
proof
  assume e: "path_Join (es @ [f]) = path_Join (es' @ [g])"
  obtain pre pre' where "path_Join (es @ [f]) = pre @ f" "path_Join (es' @ [g]) = pre' @ g"
    using path_Join_ends assms(1,2) by meson
  with e have "take 2 (rev (pre @ f)) = take 2 (rev (pre' @ g))" by simp
  with assms(3-5) show False by simp
qed

text \<open>
  What is used of the file system and of gnark. A successful write stores the file and nothing else changes files; a serialized constraint
  system or key is read back as it was; the public part of a witness is the public witness of its commitment; and the artifacts that the
  resolver embeds are the files below the artifacts directory at the time it is built.
\<close>

definition file_laws :: "'w zkgen_lib \<Rightarrow> ('w \<Rightarrow> string \<Rightarrow> bytes option) \<Rightarrow> bool" where
  "file_laws G file \<longleftrightarrow>
     (\<forall>p b w w'. zg_WriteFile G p b w = (w', None) \<longrightarrow> file w' = (file w)(p \<mapsto> b)) \<and>
     (\<forall>p w w'. zg_MkdirAll G p w = (w', None) \<longrightarrow> file w' = file w)"

definition gnark_io :: "'w zkgen_lib \<Rightarrow> zk_lib \<Rightarrow> bool" where
  "gnark_io G Z \<longleftrightarrow>
     (\<forall>x b. ccs_WriteTo G x = Inr b \<longrightarrow> read_ccs Z b = Inr x) \<and> (\<forall>x b. pk_WriteTo G x = Inr b \<longrightarrow> read_pk Z b = Inr x) \<and>
     (\<forall>x b. vk_WriteTo G x = Inr b \<longrightarrow> read_vk Z b = Inr x) \<and>
     (\<forall>c x. full_witness Z c = Inr x \<longrightarrow> public_witness Z (cCommitment c) = Inr (witness_Public G x))"

definition embedded :: "zk_lib \<Rightarrow> (string \<Rightarrow> bytes option) \<Rightarrow> string \<Rightarrow> bool" where
  "embedded Z files root \<longleftrightarrow>
     (\<forall>name b. plain_element name \<and> files (path_Join [artifacts_dir root, name]) = Some b \<longrightarrow>
        artifact_file Z (''artifacts/'' @ name) = Inr b)"

definition fixture_path :: "string \<Rightarrow> string" where
  "fixture_path repoRoot = path_Join [path_Join [repoRoot, ''contracts'', ''test'', ''fixtures''], ''zkproof.json'']"

lemma zg_write_Inr:
  assumes "file_laws G file" "zg_write G dir name wt w = (w', Inr u)"
  obtains b where "wt = Inr b" "file w' = (file w)(path_Join [dir, name] \<mapsto> b)"
proof -
  obtain b where b: "wt = Inr b" "zg_WriteFile G (path_Join [dir, name]) b w = (w', None)"
    using assms(2) by (auto simp: zg_write_def zbind_Inr)
  with assms(1) show thesis by (intro that [of b]) (simp_all add: file_laws_def)
qed

lemma artifact_paths:
  "path_Join [d, ''record_v1.ccs''] \<noteq> path_Join [d, ''record_v1.pk'']" "path_Join [d, ''record_v1.ccs''] \<noteq> path_Join [d, ''record_v1.vk'']"
  "path_Join [d, ''record_v1.pk''] \<noteq> path_Join [d, ''record_v1.vk'']"
  "f \<in> {''record_v1.ccs'', ''record_v1.pk'', ''record_v1.vk''} \<Longrightarrow>
     path_Join [d, f] \<noteq> path_Join [r, ''contracts'', ''contracts'', ''ZKVerifier.sol''] \<and> path_Join [d, f] \<noteq> fixture_path r"
  using path_Join_neq [of "''record_v1.ccs''" "''record_v1.pk''" "[d]" "[d]"] path_Join_neq [of "''record_v1.ccs''" "''record_v1.vk''" "[d]" "[d]"]
    path_Join_neq [of "''record_v1.pk''" "''record_v1.vk''" "[d]" "[d]"]
    path_Join_neq [of f "''ZKVerifier.sol''" "[d]" "[r, ''contracts'', ''contracts'']"]
    path_Join_neq [of f "''zkproof.json''" "[d]" "[path_Join [r, ''contracts'', ''test'', ''fixtures'']]"]
  by (auto simp: plain_element_def fixture_path_def)

lemma write_artifacts_Inr:
  assumes "file_laws G file" "write_artifacts G d ccs pk vk w = (w', Inr u)"
  obtains a b c where "ccs_WriteTo G ccs = Inr a" "pk_WriteTo G pk = Inr b" "vk_WriteTo G vk = Inr c"
    "file w' (path_Join [d, ''record_v1.ccs'']) = Some a" "file w' (path_Join [d, ''record_v1.pk'']) = Some b"
    "file w' (path_Join [d, ''record_v1.vk'']) = Some c"
proof -
  obtain w1 w2 where w: "zg_write G d ''record_v1.ccs'' (ccs_WriteTo G ccs) w = (w1, Inr ())"
    "zg_write G d ''record_v1.pk'' (pk_WriteTo G pk) w1 = (w2, Inr ())" "zg_write G d ''record_v1.vk'' (vk_WriteTo G vk) w2 = (w', Inr u)"
    using assms(2) by (auto simp: write_artifacts_def zbind_Inr)
  obtain a where a: "ccs_WriteTo G ccs = Inr a" "file w1 = (file w)(path_Join [d, ''record_v1.ccs''] \<mapsto> a)"
    using zg_write_Inr [OF assms(1) w(1)] .
  obtain b where b: "pk_WriteTo G pk = Inr b" "file w2 = (file w1)(path_Join [d, ''record_v1.pk''] \<mapsto> b)"
    using zg_write_Inr [OF assms(1) w(2)] .
  obtain c where c: "vk_WriteTo G vk = Inr c" "file w' = (file w2)(path_Join [d, ''record_v1.vk''] \<mapsto> c)"
    using zg_write_Inr [OF assms(1) w(3)] .
  show thesis using a b c artifact_paths by (intro that) simp_all
qed

lemma assignProof_Inr:
  assumes "gnark_io G Z" "assignProof G Z ccs pk vk msg = Inr data" "Commitment Z msg = Inr com"
  obtains pf pw where "data = SolidityCalldata Z pf" "public_witness Z (be_nat com) = Inr pw" "groth16_Verify Z pf vk pw = Inr ()"
proof -
  obtain c where a: "assignment Z msg = Inr c" using assms(2) by (auto simp: assignProof_def rbind_eq_Inr mustAssign_assignment)
  then have m: "mustAssign Z msg = Inr c" by (simp add: mustAssign_assignment)
  obtain x where x: "full_witness Z c = Inr x" using assms(2) by (cases "full_witness Z c") (simp_all add: assignProof_def m)
  obtain pf where p: "groth16_Prove Z ccs pk x = Inr pf"
    using assms(2) by (cases "groth16_Prove Z ccs pk x") (simp_all add: assignProof_def m x)
  have pf: "data = SolidityCalldata Z pf" "groth16_Verify Z pf vk (witness_Public G x) = Inr ()"
    using assms(2) by (cases "groth16_Verify Z pf vk (witness_Public G x)"; simp add: assignProof_def m x p)+
  have "cCommitment c = be_nat com" using a assms(3) by (auto elim!: assignment_Inr)
  moreover have "public_witness Z (cCommitment c) = Inr (witness_Public G x)" using assms(1) x by (simp add: gnark_io_def)
  ultimately show thesis using pf that by metis
qed

section \<open>Properties\<close>

text \<open>
  C31: What \<open>zkgen\<close> generates is what the resolver uses. After a successful run, a resolver built with the written artifacts loads exactly the
  generated constraint system and keys, and the fixture holds the commitment of the sample record with a proof that \<open>Verify\<close> accepts
  for it under the loaded key.
\<close>

theorem generated_keys_load:
  assumes "file_laws G file" and "gnark_io G Z"
    and "zkgen_run G Z C w = (w', Inr ())" and "moduleRoot G w = Inr root" and "embedded Z (file w') root"
  shows "\<exists>ccs pk vk v v' s msg com pf. zg_Compile G = Inr ccs \<and> zg_Setup G ccs v = (v', Inr (pk, vk)) \<and>
    loadArtifacts Z zk_initial = (s, Inr ()) \<and> zs_ccs s = ccs \<and> zs_pk s = pk \<and> zs_vk s = vk \<and>
    RecordMessage C ''example'' fixture_record = Some msg \<and> Commitment Z msg = Inr com \<and>
    file w' (fixture_path (path_Dir root)) = Some (str_bytes (fixture_text msg com (SolidityCalldata Z pf))) \<and>
    snd (Verify Z pf com s) = Inr ()"
proof -
  let ?d = "artifacts_dir root" let ?r = "path_Dir root"
  obtain w1 ccs w2 pk vk w3 w4 where c: "zg_Compile G = Inr ccs" and s: "zg_Setup G ccs w1 = (w2, Inr (pk, vk))"
    and wa: "write_artifacts G ?d ccs pk vk w2 = (w3, Inr ())" and wv: "write_verifier G ?r vk w3 = (w4, Inr ())"
    and wf: "write_fixture G Z C ?r ccs pk vk w4 = (w', Inr ())"
    using assms(3,4) by (auto simp: zkgen_run_def zbind_Inr Let_def)
  obtain a b e where io: "ccs_WriteTo G ccs = Inr a" "pk_WriteTo G pk = Inr b" "vk_WriteTo G vk = Inr e"
    and f3: "file w3 (path_Join [?d, ''record_v1.ccs'']) = Some a" "file w3 (path_Join [?d, ''record_v1.pk'']) = Some b"
      "file w3 (path_Join [?d, ''record_v1.vk'']) = Some e" using write_artifacts_Inr [OF assms(1) wa] .
  obtain sol where f4: "file w4 = (file w3)(path_Join [?r, ''contracts'', ''contracts'', ''ZKVerifier.sol''] \<mapsto> sol)"
    using wv assms(1) by (auto simp: write_verifier_def zbind_Inr file_laws_def)
  obtain msg com data w5 where m: "RecordMessage C ''example'' fixture_record = Some msg" "Commitment Z msg = Inr com"
    and data: "assignProof G Z ccs pk vk msg = Inr data" and w5: "file w5 = file w4"
    and f5: "file w' = (file w5)(fixture_path ?r \<mapsto> str_bytes (fixture_text msg com data))"
    using wf assms(1) by (auto simp: write_fixture_def zbind_Inr Let_def file_laws_def fixture_path_def split: option.splits)
  have "file w' (path_Join [?d, ''record_v1.ccs'']) = Some a" "file w' (path_Join [?d, ''record_v1.pk'']) = Some b"
    "file w' (path_Join [?d, ''record_v1.vk'']) = Some e" using f3 artifact_paths(4) [of _ ?d ?r] by (simp_all add: f4 f5 w5)
  then have ar: "artifact_file Z ''artifacts/record_v1.ccs'' = Inr a" "artifact_file Z ''artifacts/record_v1.pk'' = Inr b"
    "artifact_file Z ''artifacts/record_v1.vk'' = Inr e"
    using assms(5) [unfolded embedded_def, rule_format, of "''record_v1.ccs''" a] assms(5) [unfolded embedded_def, rule_format, of "''record_v1.pk''" b]
      assms(5) [unfolded embedded_def, rule_format, of "''record_v1.vk''" e] by (simp_all add: plain_element_def)
  have rd: "read_ccs Z a = Inr ccs" "read_pk Z b = Inr pk" "read_vk Z e = Inr vk" using assms(2) io by (simp_all add: gnark_io_def)
  obtain z where z: "loadArtifacts Z zk_initial = (z, Inr ())" "zs_ccs z = ccs" "zs_pk z = pk" "zs_vk z = vk"
    by (simp add: loadArtifacts_def load_once_def ar rd Let_def zk_initial_def)
  obtain pf pw where p: "data = SolidityCalldata Z pf" "public_witness Z (be_nat com) = Inr pw" "groth16_Verify Z pf vk pw = Inr ()"
    using assignProof_Inr [OF assms(2) data m(2)] .
  have "loadArtifacts Z z = (z, Inr ())" using loadArtifacts_idem [of Z zk_initial] z(1) by simp
  then have "snd (Verify Z pf com z) = Inr ()" using p(2,3) z(4) by (simp add: Verify_def lift_zk_def)
  moreover have "file w' (fixture_path ?r) = Some (str_bytes (fixture_text msg com (SolidityCalldata Z pf)))" by (simp add: f5 p(1))
  ultimately show ?thesis using c s z m by blast
qed

text \<open>A file system that is a map.\<close>

definition map_files :: "(string \<Rightarrow> bytes option) zkgen_lib" where
  "map_files = \<lparr>zg_Getwd = (\<lambda>_. Inr ''/repo/resolver''), zg_Stat = (\<lambda>_ _. True), zg_MkdirAll = (\<lambda>_ w. (w, None)),
     zg_WriteFile = (\<lambda>p b w. (w(p \<mapsto> b), None)), zg_Compile = Inr [1], zg_Setup = (\<lambda>_ w. (w, Inr ([2], [3]))),
     ccs_WriteTo = Inr, pk_WriteTo = Inr, vk_WriteTo = Inr, vk_ExportSolidity = Inr, witness_Public = id\<rparr>"

lemma map_files_simps [simp]:
  "zg_MkdirAll map_files p w = (w, None)" "zg_WriteFile map_files p b w = (w(p \<mapsto> b), None)" "zg_Compile map_files = Inr [1]"
  "zg_Setup map_files x w = (w, Inr ([2], [3]))" "ccs_WriteTo map_files x = Inr x" "pk_WriteTo map_files x = Inr x"
  "vk_WriteTo map_files x = Inr x" "vk_ExportSolidity map_files x = Inr x" "witness_Public map_files x = x"
  by (simp_all add: map_files_def)

lemma zkgen_run_artifacts: "zkgen_run G (Z\<lparr>artifact_file := f\<rparr>) C w = zkgen_run G Z C w"
proof -
  have c: "Commitment (Z\<lparr>artifact_file := f\<rparr>) = Commitment Z" "SolidityCalldata (Z\<lparr>artifact_file := f\<rparr>) = SolidityCalldata Z"
    by (rule ext, simp add: Commitment_def SolidityCalldata_def)+
  have "assignProof G (Z\<lparr>artifact_file := f\<rparr>) ccs pk vk msg = assignProof G Z ccs pk vk msg" for ccs pk vk msg
    unfolding assignProof_def mustAssign_def c by (simp cong: sum.case_cong)
  then show ?thesis by (simp add: zkgen_run_def write_fixture_def c)
qed

theorem generated_keys_load_witness:
  "\<exists>w' Z s. zkgen_run map_files Z toy_crypto Map.empty = (w', Inr ()) \<and> loadArtifacts Z zk_initial = (s, Inr ()) \<and> zs_vk s = [3]"
proof -
  let ?G = map_files
  obtain msg where msg: "RecordMessage toy_crypto ''example'' fixture_record = Some msg" "length msg \<le> MaxPayload"
    by (simp add: RecordMessage_def field_pairs_def fixture_record_def toy_crypto_def MaxPayload_def ChunkSize_def MaxChunks_def
        str_bytes_def writeStr16_def)
  obtain es where es: "PackMessage msg = Inr es" using msg(2) by (simp add: PackMessage_def)
  have com: "Commitment small_zk msg = Inr (replicate 32 1)" by (simp add: Commitment_def es lift_zk_def) (simp add: small_zk_def)
  have io: "gnark_io ?G (small_zk\<lparr>artifact_file := f\<rparr>)" for f by (simp add: gnark_io_def map_files_def small_zk_def toy_zk_def)
  have fl: "file_laws ?G (\<lambda>w. w)" by (simp add: file_laws_def map_files_def)
  have root: "moduleRoot ?G w = Inr ''/repo/resolver''" for w by (simp add: moduleRoot_def map_files_def module_loop.simps)
  have "assignProof ?G small_zk ccs pk vk msg \<noteq> Inl e" for ccs pk vk e
    by (simp add: assignProof_def mustAssign_def es Commitment_def lift_zk_def) (simp add: small_zk_def toy_zk_def map_files_def)
  then obtain data where data: "assignProof ?G small_zk [1] [2] [3] msg = Inr data"
    by (metis sum.exhaust)
  obtain w' where w': "zkgen_run ?G small_zk toy_crypto Map.empty = (w', Inr ())"
    using data com
    by (simp add: zkgen_run_def root zbind_def zlift_def zcall_def zdo_def write_artifacts_def zg_write_def write_verifier_def write_fixture_def
        msg Let_def)
  define Z where "Z = small_zk\<lparr>artifact_file := (\<lambda>n. case w' (path_Join [artifacts_dir ''/repo/resolver'', drop 10 n]) of Some b \<Rightarrow> Inr b | None \<Rightarrow> Inl [])\<rparr>"
  have em: "embedded Z w' ''/repo/resolver''" by (simp add: embedded_def Z_def)
  have run: "zkgen_run ?G Z toy_crypto Map.empty = (w', Inr ())" by (simp add: Z_def zkgen_run_artifacts w')
  have "gnark_io ?G Z" unfolding Z_def by (rule io)
  from generated_keys_load [OF fl, OF this run root em] obtain ccs pk vk v v' s where "zg_Compile ?G = Inr ccs" "zg_Setup ?G ccs v = (v', Inr (pk, vk))"
    "loadArtifacts Z zk_initial = (s, Inr ())" "zs_vk s = vk" by blast
  then show ?thesis using run by (auto simp: map_files_def)
qed

end
