(* ===== verification/Spec2Isabelle.thy ===== *)
theory Spec2Isabelle
  imports Query_Race Contract_Chain Deployed_Bindings Voucher_Settlement Resolver_Discovery Server_Run Command_Line Zkgen
begin

text \<open>
  A verification of the decentralized DNS: the Go program under src/resolver, that is the resolver daemon (internal/, cmd/resolver), which
  answers queries for names registered in an Ethereum contract, and the command line tools (cmd/) with which owners publish and
  users check what they are told; and the contracts it works with, under src/contracts/contracts.

  \<^bold>\<open>The parts and how they interact.\<close> Owners register names in the contract NamespaceDApp and store signed records there, of types that
  RecordSchemaRegistry knows. A query arrives at a resolver over REST or UDP, is normalized (query), rate limited, and goes
  to \<open>HandleQuery\<close>: lookup in the TTL cache, else a read of the contract through the RPC client, verification of the
  owner's signature (pki), a zero-knowledge proof of the record's commitment (zk), and a cache fill. An event watcher
  polls the chain and pushes invalidations into the cache. Answers leave in an envelope signed by the resolver's
  identity. A ResourceRef record names a torrent: the server fetches it, checks the digest and the content type, and
  serves it with signed provenance (/resource) or to browsers (/web). Resolvers announce themselves in ResolverRegistry and are paid by vouchers
  for channels of ResolverIncentives. The tool ddns registers names, signs records and
  handles payment channels; ddns-lookup and ddns-fetch check answers and resources without trusting the resolver; zkgen makes the proving keys.

  \<^bold>\<open>The theories.\<close> Each has the definitions of one part first, in the order of the code and under its names
  (types become records and datatypes, methods functions of the state they change, errors the left of a sum), then lemmas, then the
  properties. File names are below src/resolver unless they end in .sol.

  \<^item> Ddns_Prelude, Go_Strings, Go_Web, Codec: words, bytes, lists and options, and the parts of Go's standard
    library that the code uses, written out: strings, \<open>strconv\<close>, \<open>path/filepath\<close>, \<open>net\<close>, \<open>net/url\<close>, hexadecimal and
    the rendering of JSON. Each of these functions is defined as documented for the inputs that occur; case
    mapping outside ASCII is the parameter \<open>unicode\<close>.
  \<^item> Query_Model: internal/query and the two checks of the contracts that it mirrors. Names and types are
    accepted exactly as by the contracts; canonical selectors are fixed points; queries are well formed.
  \<^item> Udp_Wire: the TLV codec of internal/server/udp.go with its round trip.
  \<^item> Chain_Types, Chain_Client, Chain_Events: internal/chain. The retry loop ends within its time; the watcher hands every
    log of the blocks it has passed to the handler, whatever fails in between, and reaches the head.
  \<^item> Lru_Interface, Ttl_Cache: internal/cache over the interface \<open>lru_laws\<close> of the LRU library. Both indexes
    describe exactly the stored entries; the cache refines an unbounded map; an event removes exactly the answers of
    its name. The locale \<open>answer_cache\<close> is what the query path needs of a cache, and \<open>lru_cache\<close> provides it.
  \<^item> Pki, Zk_Commit, Pay_Voucher: internal/pki, internal/zk, internal/pay. What is signed or committed determines every
    field, so that an accepted signature, proof or voucher is for exactly what was signed; what is signed verifies.
  \<^item> Rate_Limit, Content_Type, Config_Env, Torrent_Engine: internal/server/ratelimit.go, internal/contenttype, internal/config
    and internal/torrent; the engine both sequentially and with its critical sections interleaved.
  \<^item> Query_Path: internal/server/handle.go, with the locale \<open>query_path\<close> for queries, events and invalidations one after the other.
    Query_Race cuts \<open>HandleQuery\<close> where other goroutines can run: it proves what answers are in every interleaving of these
    segments with events and invalidations, and shows the interleaving in which an answer outlives the event that should have removed it.
  \<^item> Rest_Api, Resource_Api, Server_Boot: internal/server, every handler with its response bytes, the UDP loop, the
    route table, and the construction of the server. The locale \<open>handler_parts\<close> says of what operations on the shared state the handlers are made.
  \<^item> Server_Run: \<open>Run\<close>, \<open>listenUDP\<close> and cmd/resolver/main.go. The relation \<open>run_step\<close> has labelled rules for the steps of main, the
    HTTP server, the UDP listener, the watcher (one call, one event at a time) and the handlers (one critical section at a time). In every
    interleaving the invariants of cache and engine hold, answers come from the chain, and sockets and clients are open until
    \<open>Run\<close> returns and closed then; after a signal main, the listeners and the watcher can end by their own steps. The handlers, run alone,
    are sequences of these sections.
  \<^item> Client_Tools, Owner_Cli, Channel_Cli: the commands of cmd/, as programs on the state of the world with a log of
    their visible actions. What ddns-lookup reports it has checked, whoever answers; it is what the contract holds (with --discover), and what an honest
    server found; what /resource serves, ddns-fetch accepts, apart from two cases that are stated; what ddns sends is what it was asked to send, in order.
    Command_Line has the dispatch of ddns, the flags and their parsing; flags may stand anywhere.
  \<^item> Zkgen: cmd/zkgen. The resolver loads exactly the keys that were generated, and the fixture verifies.
  \<^item> Solidity: what the contracts use of the language (checked arithmetic, ABI encoding, messages). Schema_Registry, Namespace_Contract,
    Resolver_Directory and Payment_Channels are the four contracts, one definition per function, with reverts as errors, event logs and balances.
    Paying an account runs its code: the callee is an argument, and the relations \<open>dapp_runs\<close> and \<open>incentives_runs\<close> let it call
    back before the payment returns. \<open>dapp_history\<close> adds the passing of time.
    The interface of the registry is the locale \<open>schema_registry\<close>; what a property of a single update means for a
    whole transaction with everything that happens inside it is the locale \<open>dapp_relation\<close>, interpreted for each of these properties in Namespace_Laws. There: only owners change answers, a change without an event is an expiry,
    no record of a previous owner resolves for a new one, the listing is exact, registrations need a commitment.
    In Payment_Channels: channels stay solvent, a valid voucher is paid once, contract and Go code recover the same signer.
  \<^item> Contract_Chain connects the owner's tool with the contract through the locales \<open>deployed_chain\<close> and \<open>registering_chain\<close>: what a
    command that succeeded has done to the contract, and that ddns register succeeds on every chain that answers, mines and keeps time. A simulated chain
    of blocks with the contract in it is an instance of both, for the witnesses. Push_Invalidation connects the contract's logs with the watcher and the cache. Voucher_Settlement connects the voucher commands with the channel contract.
    Log_Iterator and Contract_Bindings are internal/chain/bindings: the iterators with the goroutine that feeds them, in every scheduling, and the read methods, transactions and filters.
    Deployed_Bindings has the interfaces of the deployed contracts, through which the watcher's filters see the contract's logs: iterators lose no log,
    and so what stays cached is current.
    Resolver_Discovery connects ddns-lookup --discover with the directory contract: the answer is signed under the key announced there.
  \<^item> This theory: what an owner sets is what a resolver answers, through tool, contract, client, cache and verification.

  \<^bold>\<open>Parameters.\<close> Code that is not in the repository is a record of functions, an argument of the definitions that use
  it: the LRU (\<open>lru_lib\<close>), go-ethereum's crypto and ed25519 (\<open>crypto_lib\<close>), gnark (\<open>zk_lib\<close>, \<open>zkgen_lib\<close>), the RPC endpoint (\<open>rpc_api\<close>, \<open>dial_lib\<close>, \<open>owner_lib\<close>; below the generated
  bindings, \<open>bound_contract\<close> of go-ethereum), the torrent client (\<open>torrent_lib\<close>), the token bucket, content sniffing, sockets (\<open>run_lib\<close>),
  number and duration flags (\<open>flag_lib\<close>), files and environment, and the precompiled functions of the chain, keccak256 and ecrecover (\<open>sol_lib\<close>). Calls act on a
  state of the outside world of any type, so that they may fail, change their answers and
  depend on each other. Theorems name what they need of them (\<open>lru_laws\<close>, \<open>hexutil_ok\<close>, \<open>ed_ok\<close>, \<open>ecdsa_ok\<close>, \<open>gnark_ok\<close>, \<open>gnark_io\<close>, \<open>file_laws\<close>,
  \<open>same_crypto\<close>, absence of collisions on the inputs concerned); the witnesses instantiate them with concrete functions.

  \<^bold>\<open>Bounds and termination.\<close> Machine integers keep their width (block numbers, generations, TTLs and expiries are words; the
  TTL duration and the countdown of \<open>register\<close> are computed in 64 bits and proved exact; 256-bit sums and differences of the contracts revert when they
  overflow). The theorems about the namespace contract that would fail if a 64-bit expiry or generation wrapped around bound the number of
  transactions by the number of logs (\<open>t + 31536000 * length logs < 2^64\<close>), which 500 billion transactions do not reach. There is no fuel: the window
  loop of the watcher, the parsers, the search for the module directory and the retry loop terminate by measures or structurally, and loops that run for
  ever in the code (the poll loop, the UDP loop, the server) are given the list of what happens to them or are step relations, so that theorems
  about them hold for every finite prefix. Clock readings are arguments.

  \<^bold>\<open>Simplifications.\<close> The functions that compute a response (Rest_Api, Resource_Api, Server_Boot) run a request without interruption; what
  other goroutines can change between its critical sections is the subject of Query_Race, Torrent_Engine and Server_Run, where responses are not
  computed. A call of the chain endpoint with its retries is one step, and so is the proof that \<open>HandleQuery\<close> makes after its read.
  Loggers and printed lines are left out, as are timeouts, which appear as errors of the calls they end. The JSON a client decodes is a parameter; the
  JSON the server writes is modelled. Header values pass from server to client with the
  white space around them removed. Gas is not modelled.

  \<^bold>\<open>Not modelled.\<close> Of internal/chain/bindings, which abigen generated, what the program never calls: deployment, sessions, raw access,
  subscriptions and the filters of other events, whose code repeats what is modelled. ZKVerifier.sol is generated by gnark. The
  HTML page of the operator console, the embedded showcase assets and the matching of URL patterns in net/http are parameters.
\<close>

section \<open>From the owner's command to the resolver's answer\<close>

lemma HandleQuery_miss:
  assumes "snd (cache_Get (rv_cache R) (fst ts) (query_key q) (q_cache s)) = None"
    and "chain_Resolve (rv_api R) (qName q) (qType q) (qSelector q) (q_world s) = (w, Inr r0)" and "rExists (resRecord r0)"
  obtains s' res where "HandleQuery R ts q s = (s', Inr \<lparr>qrResult = Some res, qrCached = False\<rparr>)" "resRecord res = resRecord r0"
    "resOwnerSigValid res \<longleftrightarrow> VerifyOwnerSig (rv_crypto R) (qName q) (resRecord r0) (resOwner r0) (resPubKey r0) = Inr ()"
proof -
  obtain c where c: "cache_Get (rv_cache R) (fst ts) (query_key q) (q_cache s) = (c, None)"
    using assms(1) by (metis prod.collapse)
  obtain z res where ch: "check_answer R q r0 (q_zk s) = (z, res)" by fastforce
  note f = check_answer_fields [OF ch]
  have "\<not> resOwnerSigValid r0" using chain_Resolve_unchecked [OF assms(2)] by blast
  with f show thesis using c assms(2,3) ch by (intro that) (auto simp: HandleQuery_def Let_def)
qed

lemma chain_Resolve_first:
  assumes "api_resolve api n t sel w = (w', Inr (r, owner, pubKey))"
  shows "chain_Resolve api n t sel w =
    (w', Inr \<lparr>resRecord = fromBinding r, resOwner = owner, resPubKey = pubKey, resOwnerSigValid = False, resZKProof = []\<rparr>)"
  using assms by (simp add: chain_Resolve_def retry_def retryAttempts_def numeral_3_eq_3 retry_wait_def)

text \<open>
  C2: What an owner sets is what users resolve, through the contract: take a successful \<open>ddns set\<close> for a name that is registered with the
  owner's public key, such that nothing else was logged for the name while the command ran, and the name has not expired at its end. Then
  a resolver that reads the contract at that moment and has nothing cached answers the query with exactly the given fields and
  TTL and with the owner signature verified.
\<close>

theorem set_record_resolves:
  assumes "deployed_chain L S E dapp_addr now dapp_of" and "cmdSet L co selector ttl args s = (s', Inr ())"
    and "loadKey L (co_key co) = Inr key" and "ecdsa_ok (ol_crypto L) key (ec_Public L key)" and "rv_crypto R = ol_crypto L"
    and "canonical (cl_unicode (ol_client L)) selector = Inr sel"
    and "fst (resolveAddrs L (co_deployments co) (co_namespace co) (co_registry co) (cw_world s)) = dapp_addr"
    and "getDomain S (dapp_of (cw_world s)) (args ! 0) = (a, FromECDSAPub (ol_crypto L) (ec_Public L key), e, gen)"
    and "nd_logs (dapp_of (cw_world s')) = nd_logs (dapp_of (cw_world s)) @ new"
    and "length (filter (\<lambda>l. log_name l = Some (name_hash S (args ! 0))) new) = 1"
    and "ownerOf S (now (cw_world s')) (dapp_of (cw_world s')) (args ! 0) \<noteq> zero_address"
    and "api_resolve (rv_api R) (args ! 0) (args ! 1) sel (q_world qs) =
      (w, Inr (resolve S (now (cw_world s')) (dapp_of (cw_world s')) (args ! 0) (args ! 1) sel))"
    and "snd (cache_Get (rv_cache R) (fst ts) (query_key \<lparr>qName = args ! 0, qType = args ! 1, qSelector = sel\<rparr>) (q_cache qs)) = None"
  shows "\<exists>names vals qs' res. parsePairs_loop (drop 2 args) = Inr (names, vals) \<and>
    HandleQuery R ts \<lparr>qName = args ! 0, qType = args ! 1, qSelector = sel\<rparr> qs =
      (qs', Inr \<lparr>qrResult = Some res, qrCached = False\<rparr>) \<and>
    resOwnerSigValid res \<and> rFieldNames (resRecord res) = names \<and> rFieldVals (resRecord res) = vals \<and>
    rTTL (resRecord res) = ucast ttl"
proof -
  let ?q = "\<lparr>qName = args ! 0, qType = args ! 1, qSelector = sel\<rparr>" let ?pub = "FromECDSAPub (ol_crypto L) (ec_Public L key)"
  obtain names vals sg com b where p: "parsePairs_loop (drop 2 args) = Inr (names, vals)"
    and acc: "record_accepted L key (args ! 0) (stored_record (new_record (args ! 1) sel names vals (ucast ttl) gen) sg com)"
    and b: "fromBinding b = stored_record (new_record (args ! 1) sel names vals (ucast ttl) gen) sg com"
    and rs: "resolve S (now (cw_world s')) (dapp_of (cw_world s')) (args ! 0) (args ! 1) sel = (b, key_address L key, ?pub)"
    using deployed_chain.set_through_chain [OF assms(1-4,6,7,9,10,8)] assms(11) by blast
  let ?r0 = "\<lparr>resRecord = fromBinding b, resOwner = key_address L key, resPubKey = ?pub, resOwnerSigValid = False, resZKProof = []\<rparr>"
  have rd: "chain_Resolve (rv_api R) (qName ?q) (qType ?q) (qSelector ?q) (q_world qs) = (w, Inr ?r0)"
    using chain_Resolve_first [OF assms(12) [unfolded rs]] by simp
  obtain qs' res where "HandleQuery R ts ?q qs = (qs', Inr \<lparr>qrResult = Some res, qrCached = False\<rparr>)" "resRecord res = fromBinding b"
    "resOwnerSigValid res \<longleftrightarrow> VerifyOwnerSig (rv_crypto R) (args ! 0) (fromBinding b) (key_address L key) ?pub = Inr ()"
    using HandleQuery_miss [OF assms(13) rd] by (auto simp: b stored_record_def)
  with p acc assms(5) show ?thesis by (auto simp: b record_accepted_def stored_record_def new_record_def)
qed

theorem set_record_resolves_witness:
  "\<exists>(s' :: sim_world cli) (R :: ((cache_key, resolve_result centry) lru_list, sim_world) resolver_env)
     (qs :: ((cache_key, resolve_result centry) lru_list, sim_world) qstate) qs' res. cmdSet sim_tool sample_common [] 60 [''example'', ''A'', ''address=1.2.3.4''] sim_owned = (s', Inr ()) \<and>
     HandleQuery R (0, 1) \<lparr>qName = ''example'', qType = ''A'', qSelector = []\<rparr> qs =
       (qs', Inr \<lparr>qrResult = Some res, qrCached = False\<rparr>) \<and>
     resOwnerSigValid res \<and> rFieldVals (resRecord res) = [''1.2.3.4'']"
proof -
  let ?args = "[''example'', ''A'', ''address=1.2.3.4'']"
  obtain s' where s': "cmdSet sim_tool sample_common [] 60 ?args sim_owned = (s', Inr ())" and t: "sw_now (cw_world s') = 312"
    and act: "\<not> inactive 312 (nd_domains (sw_dapp (cw_world s')) (name_hash sample_sol ''example''))"
    and lg: "nd_logs (sw_dapp (cw_world s')) = nd_logs (sw_dapp (cw_world sim_owned)) @
       [RecordSet (name_hash sample_sol ''example'') ''example'' (recordKeyOf sample_sol ''A'' []) ''A'' [] 60]"
    using sim_set by blast
  define R where "R = list_resolver toy_crypto small_zk (sim_api sample_sol)"
  define qs where "qs = \<lparr>q_cache = fresh_cache, q_zk = zk_initial, q_world = cw_world s'\<rparr>"
  have key: "loadKey sim_tool (co_key sample_common) = Inr [7]" "ecdsa_ok (ol_crypto sim_tool) [7] (ec_Public sim_tool [7])"
    by (simp_all add: sample_common_def sim_base_simps ecdsa_ok_def) (simp add: toy_crypto_def nth_replicate)
  have cn: "canonical (cl_unicode (ol_client sim_tool)) [] = Inr []"
    by (simp add: canonical_def ParseSelectorString_def ParsePairs_def CanonicalSelector_def)
  have dm: "getDomain sample_sol (sw_dapp (cw_world sim_owned)) (?args ! 0) =
      ([7], FromECDSAPub (ol_crypto sim_tool) (ec_Public sim_tool [7]), 31536200, 1)"
    by (simp add: getDomain_def sim_owned_def sim_dapp_domain sim_base_simps toy_crypto_def Let_def)
  have ow: "ownerOf sample_sol 312 (sw_dapp (cw_world s')) ''example'' \<noteq> zero_address"
    using act by (auto simp: ownerOf_def inactive_def Let_def)
  have "\<exists>names vals qs' res. parsePairs_loop (drop 2 ?args) = Inr (names, vals) \<and>
    HandleQuery R (0, 1) \<lparr>qName = ?args ! 0, qType = ?args ! 1, qSelector = []\<rparr> qs =
      (qs', Inr \<lparr>qrResult = Some res, qrCached = False\<rparr>) \<and>
    resOwnerSigValid res \<and> rFieldNames (resRecord res) = names \<and> rFieldVals (resRecord res) = vals \<and>
    rTTL (resRecord res) = ucast (60 :: 64 word)"
  proof (rule set_record_resolves [OF sim.deployed_chain_axioms s' key _ cn _ dm lg])
    show "fst (resolveAddrs sim_tool (co_deployments sample_common) (co_namespace sample_common) (co_registry sample_common) (cw_world sim_owned)) = [1]"
      using sim_connects by (simp add: connects_def)
    show "api_resolve (rv_api R) (?args ! 0) (?args ! 1) [] (q_world qs) =
        (cw_world s', Inr (resolve sample_sol (sw_now (cw_world s')) (sw_dapp (cw_world s')) (?args ! 0) (?args ! 1) []))"
      by (simp add: R_def qs_def list_resolver_def sim_api_def)
    show "snd (cache_Get (rv_cache R) (fst (0, 1)) (query_key \<lparr>qName = ?args ! 0, qType = ?args ! 1, qSelector = []\<rparr>) (q_cache qs)) = None"
      by (simp add: R_def qs_def list_resolver_def cache_Get_def list_env_def list_lru_def ll_Get_def fresh_cache_def)
  qed (use ow t in \<open>simp_all add: R_def list_resolver_def sim_base_simps log_name_def\<close>)
  then obtain qs' res where "HandleQuery R (0, 1) \<lparr>qName = ''example'', qType = ''A'', qSelector = []\<rparr> qs =
      (qs', Inr \<lparr>qrResult = Some res, qrCached = False\<rparr>)" "resOwnerSigValid res" "rFieldVals (resRecord res) = [''1.2.3.4'']" by auto
  then show ?thesis using s' by blast
qed

end
